(* ===== verification/Prelude.thy ===== *)
theory Prelude imports Main "HOL-Library.Word" "HOL-Library.Monad_Syntax" begin

text \<open>
  Shared ground of the MikaBoo development: the convention for partial C code, the loop
  combinator for the bounded \<open>for\<close> loops of the sources, and the list facts that the
  components share.

  Conventions. A C function that reads and writes kernel memory is a HOL function from the
  kernel state to an \<open>option\<close>. \<open>None\<close> is undefined behaviour: the dereference of a
  NULL or wild pointer (or a loop that does not end, for the loops defined with
  \<^theory_text>\<open>partial_function (option)\<close>). Everything the C code does on purpose (an error
  return, \<open>PANIC()\<close>, \<open>HALT()\<close>, a context switch) is a value under \<open>Some\<close>.
\<close>

type_synonym u32 = "32 word"

named_theorems queue_simps \<open>what the list operations return in terms of the queue contents\<close>
named_theorems frame_simps \<open>fields of the kernel state that an operation leaves alone\<close>

section \<open>Bounded loops\<close>

text \<open>\<open>for (x in xs) body\<close>: the body may fault, and then the loop faults.\<close>

fun for_each :: "('a \<Rightarrow> 's \<Rightarrow> 's option) \<Rightarrow> 'a list \<Rightarrow> 's \<Rightarrow> 's option" where
  "for_each body [] s = Some s"
| "for_each body (x # xs) s = do { s' \<leftarrow> body x s; for_each body xs s' }"

lemma for_each_append:
  "for_each body (xs @ ys) s = do { s' \<leftarrow> for_each body xs s; for_each body ys s' }"
  by (induction xs arbitrary: s) (auto split: Option.bind_split)

text \<open>
  The loop rule: an invariant indexed by the number of iterations done, kept by each step that
  does not fault, holds at the end, and the loop does not fault.
\<close>

lemma for_each_invariant:
  assumes start: "I 0 s"
    and step: "\<And>k s. k < length xs \<Longrightarrow> I k s \<Longrightarrow> \<exists>s'. body (xs ! k) s = Some s' \<and> I (Suc k) s'"
  shows "\<exists>s'. for_each body xs s = Some s' \<and> I (length xs) s'"
  using assms
proof (induction xs arbitrary: s I)
  case Nil
  then show ?case by simp
next
  case (Cons x xs)
  from Cons.prems(1) Cons.prems(2)[of 0 s] obtain s1
    where s1: "body x s = Some s1" "I (Suc 0) s1" by auto
  have "\<exists>s'. for_each body xs s1 = Some s' \<and> I (Suc (length xs)) s'"
    using Cons.IH[of "\<lambda>k. I (Suc k)" s1] s1(2) Cons.prems(2)[of "Suc _"] by fastforce
  with s1 show ?case by simp
qed

section \<open>Lists\<close>

lemma remove1_middle [simp]: "n \<notin> set xs \<Longrightarrow> remove1 n (xs @ n # ys) = xs @ ys"
  by (simp add: remove1_append)

lemma distinct_remove1_eq_filter: "distinct xs \<Longrightarrow> remove1 n xs = filter (\<lambda>x. x \<noteq> n) xs"
  by (simp add: distinct_remove1_removeAll removeAll_filter_not_eq) (metis (no_types, lifting))

lemma last_Cons_cases: "last (a # xs) = (if xs = [] then a else last xs)"
  by simp

text \<open>The first element that satisfies a test, and the list without it.\<close>

fun remove_first :: "('a \<Rightarrow> bool) \<Rightarrow> 'a list \<Rightarrow> 'a list" where
  "remove_first P [] = []"
| "remove_first P (x # xs) = (if P x then xs else x # remove_first P xs)"

lemma remove_first_not_found: "find P xs = None \<Longrightarrow> remove_first P xs = xs"
  by (induction xs) (auto split: if_splits)

lemma find_SomeD: "find P xs = Some x \<Longrightarrow> P x \<and> x \<in> set xs"
  by (induction xs) (auto split: if_splits)

lemma remove_first_found:
  "find P xs = Some x \<Longrightarrow> remove_first P xs = remove1 x xs"
  by (induction xs) (auto split: if_splits dest: find_SomeD)

lemma length_remove_first: "find P xs = Some x \<Longrightarrow> length (remove_first P xs) + 1 = length xs"
  by (induction xs) (auto split: if_splits)

lemma map_remove_first:
  "map f (remove_first (P \<circ> f) xs) = remove_first P (map f xs)"
  by (induction xs) auto

lemma find_map: "find P (map f xs) = map_option f (find (P \<circ> f) xs)"
  by (induction xs) auto

lemma distinct_singleton:
  assumes "distinct xs" "x \<in> set xs" "\<And>y. y \<in> set xs \<Longrightarrow> y = x"
  shows "xs = [x]"
proof (cases xs)
  case Nil
  with assms(2) show ?thesis by simp
next
  case (Cons a ys)
  then have "a = x" using assms(3)[of a] by simp
  moreover have "y \<notin> set ys" for y using assms(1) assms(3)[of y] Cons \<open>a = x\<close> by auto
  ultimately show ?thesis using Cons by (cases ys) auto
qed

end
