(* ===== verification/Listx.thy ===== *)
theory Listx imports Prelude begin

text \<open>
  The intrusive circular doubly linked lists of \<open>src/src/listx.h\<close>, at the level of the two
  pointers of every \<open>struct list_head\<close>. A \<open>'n\<close> names one \<open>struct list_head\<close> of the kernel
  (a sentinel or a member of a larger struct); a pointer to one is an \<open>'n option\<close>, NULL being
  \<open>None\<close>. The first half translates the header, the second half says what the operations do
  to the sequences that the pointers represent.
\<close>

section \<open>The operations of listx.h\<close>

record 'n links =
  lnext :: "'n \<Rightarrow> 'n option"
  lprev :: "'n \<Rightarrow> 'n option"

text \<open>A write through a pointer, \<open>p->next = v\<close> and \<open>p->prev = v\<close>; faults when \<open>p\<close> is NULL.\<close>

definition put_next :: "'n option \<Rightarrow> 'n option \<Rightarrow> 'n links \<Rightarrow> 'n links option" where
  "put_next p v lk = (case p of None \<Rightarrow> None | Some n \<Rightarrow> Some (lk\<lparr>lnext := (lnext lk)(n := v)\<rparr>))"

definition put_prev :: "'n option \<Rightarrow> 'n option \<Rightarrow> 'n links \<Rightarrow> 'n links option" where
  "put_prev p v lk = (case p of None \<Rightarrow> None | Some n \<Rightarrow> Some (lk\<lparr>lprev := (lprev lk)(n := v)\<rparr>))"

text \<open>\<open>LIST_HEAD\<close> declares a sentinel that is initialised statically: both pointers are its own address.\<close>

definition LIST_HEAD_INIT :: "'n \<Rightarrow> 'n option \<times> 'n option" where
  "LIST_HEAD_INIT name = (Some name, Some name)"

definition LIST_HEAD :: "'n \<Rightarrow> 'n links \<Rightarrow> 'n links" where
  "LIST_HEAD name lk =
     lk\<lparr>lnext := (lnext lk)(name := fst (LIST_HEAD_INIT name)), lprev := (lprev lk)(name := snd (LIST_HEAD_INIT name))\<rparr>"

definition init_list_head :: "'n \<Rightarrow> 'n links \<Rightarrow> 'n links" where
  "init_list_head l lk = lk\<lparr>lnext := (lnext lk)(l := Some l), lprev := (lprev lk)(l := Some l)\<rparr>"

lemma LIST_HEAD_init: "LIST_HEAD = init_list_head"
  by (simp add: fun_eq_iff LIST_HEAD_def LIST_HEAD_INIT_def init_list_head_def)

definition list_add_between ::
  "'n \<Rightarrow> 'n option \<Rightarrow> 'n option \<Rightarrow> 'n links \<Rightarrow> 'n links option" where
  "list_add_between new prv nxt lk = do {
     lk \<leftarrow> put_prev nxt (Some new) lk;
     lk \<leftarrow> put_next (Some new) nxt lk;
     lk \<leftarrow> put_prev (Some new) prv lk;
     put_next prv (Some new) lk
   }"

definition list_add :: "'n \<Rightarrow> 'n \<Rightarrow> 'n links \<Rightarrow> 'n links option" where
  "list_add new head lk = list_add_between new (Some head) (lnext lk head) lk"

definition list_add_tail :: "'n \<Rightarrow> 'n \<Rightarrow> 'n links \<Rightarrow> 'n links option" where
  "list_add_tail new head lk = list_add_between new (lprev lk head) (Some head) lk"

definition list_del_between :: "'n option \<Rightarrow> 'n option \<Rightarrow> 'n links \<Rightarrow> 'n links option" where
  "list_del_between prv nxt lk = do { lk \<leftarrow> put_prev nxt prv lk; put_next prv nxt lk }"

definition list_del :: "'n \<Rightarrow> 'n links \<Rightarrow> 'n links option" where
  "list_del entry lk = list_del_between (lprev lk entry) (lnext lk entry) lk"

definition list_is_last :: "'n \<Rightarrow> 'n \<Rightarrow> 'n links \<Rightarrow> bool" where
  "list_is_last l head lk \<longleftrightarrow> lnext lk l = Some head"

definition list_is_only :: "'n \<Rightarrow> 'n \<Rightarrow> 'n links \<Rightarrow> bool" where
  "list_is_only l head lk \<longleftrightarrow> lnext lk l = Some head \<and> lprev lk l = Some head"

definition list_empty :: "'n \<Rightarrow> 'n links \<Rightarrow> bool" where
  "list_empty head lk \<longleftrightarrow> lnext lk head = Some head"

definition list_next :: "'n \<Rightarrow> 'n links \<Rightarrow> 'n option" where
  "list_next current lk = (if list_empty current lk then None else lnext lk current)"

definition list_prev :: "'n \<Rightarrow> 'n links \<Rightarrow> 'n option" where
  "list_prev current lk = (if list_empty current lk then None else lprev lk current)"

text \<open>
  \<open>list_for_each\<close> and \<open>list_for_each_prev\<close>: the nodes visited from \<open>pos\<close> up to the sentinel.
  On a list that is not a ring the walk may never meet the sentinel.
\<close>

partial_function (option) walk_next :: "'n links \<Rightarrow> 'n \<Rightarrow> 'n option \<Rightarrow> 'n list option" where
  "walk_next lk head pos =
     (case pos of None \<Rightarrow> None
      | Some n \<Rightarrow> if n = head then Some []
                  else do { ns \<leftarrow> walk_next lk head (lnext lk n); Some (n # ns) })"

partial_function (option) walk_prev :: "'n links \<Rightarrow> 'n \<Rightarrow> 'n option \<Rightarrow> 'n list option" where
  "walk_prev lk head pos =
     (case pos of None \<Rightarrow> None
      | Some n \<Rightarrow> if n = head then Some []
                  else do { ns \<leftarrow> walk_prev lk head (lprev lk n); Some (n # ns) })"

definition list_for_each :: "'n \<Rightarrow> 'n links \<Rightarrow> 'n list option" where
  "list_for_each head lk = walk_next lk head (lnext lk head)"

definition list_for_each_prev :: "'n \<Rightarrow> 'n links \<Rightarrow> 'n list option" where
  "list_for_each_prev head lk = walk_prev lk head (lprev lk head)"

section \<open>Chains and rings\<close>

text \<open>\<open>chain lk a xs b\<close>: from \<open>a\<close> the next pointers lead through \<open>xs\<close> to \<open>b\<close>, and the prev
  pointers lead back.\<close>

fun chain :: "'n links \<Rightarrow> 'n \<Rightarrow> 'n list \<Rightarrow> 'n \<Rightarrow> bool" where
  "chain lk a [] b \<longleftrightarrow> lnext lk a = Some b \<and> lprev lk b = Some a"
| "chain lk a (x # xs) b \<longleftrightarrow> lnext lk a = Some x \<and> lprev lk x = Some a \<and> chain lk x xs b"

definition ring :: "'n links \<Rightarrow> 'n \<Rightarrow> 'n list \<Rightarrow> bool" where
  "ring lk h xs \<longleftrightarrow> chain lk h xs h \<and> distinct (h # xs)"

lemma chain_cong:
  assumes "chain lk a xs b"
    and "\<And>n. n \<in> insert a (set xs) \<Longrightarrow> lnext lk' n = lnext lk n"
    and "\<And>n. n \<in> insert b (set xs) \<Longrightarrow> lprev lk' n = lprev lk n"
  shows "chain lk' a xs b"
  using assms by (induction xs arbitrary: a) auto

lemma chain_first: "chain lk a xs b \<Longrightarrow> lnext lk a = Some (hd (xs @ [b]))"
  by (cases xs) auto

lemma chain_last: "chain lk a xs b \<Longrightarrow> lprev lk b = Some (last (a # xs))"
  by (induction xs arbitrary: a) auto

lemma chain_append: "chain lk a (xs @ x # ys) b \<longleftrightarrow> chain lk a xs x \<and> chain lk x ys b"
  by (induction xs arbitrary: a) auto

lemma chain_rev:
  "chain lk a xs b = chain \<lparr>lnext = lprev lk, lprev = lnext lk\<rparr> b (rev xs) a"
  by (induction xs arbitrary: a) (auto simp: chain_append)

lemma walk_next_chain:
  "chain lk a xs b \<Longrightarrow> b \<notin> set xs \<Longrightarrow> walk_next lk b (lnext lk a) = Some xs"
proof (induction xs arbitrary: a)
  case Nil
  then show ?case by (subst walk_next.simps) simp
next
  case (Cons x xs)
  then show ?case by (subst walk_next.simps) auto
qed

lemma walk_prev_chain:
  "chain lk a xs b \<Longrightarrow> a \<notin> set xs \<Longrightarrow> walk_prev lk a (lprev lk b) = Some (rev xs)"
proof (induction xs arbitrary: b rule: rev_induct)
  case Nil
  then show ?case by (subst walk_prev.simps) simp
next
  case (snoc x xs)
  then show ?case by (subst walk_prev.simps) (auto simp: chain_append)
qed

text \<open>The walks of a ring visit exactly its members, forwards and backwards, and they end.\<close>

lemma list_for_each_ring: "ring lk h xs \<Longrightarrow> list_for_each h lk = Some xs"
  by (simp add: ring_def list_for_each_def walk_next_chain)

lemma list_for_each_prev_ring: "ring lk h xs \<Longrightarrow> list_for_each_prev h lk = Some (rev xs)"
  by (simp add: ring_def list_for_each_prev_def walk_prev_chain)

lemma ring_unique: "ring lk h xs \<Longrightarrow> ring lk h ys \<Longrightarrow> xs = ys"
  by (metis list_for_each_ring option.inject)

section \<open>Insertion and removal in a chain\<close>

definition linked :: "'n \<Rightarrow> 'n \<Rightarrow> 'n \<Rightarrow> 'n links \<Rightarrow> 'n links" where
  "linked new p q lk = lk\<lparr>lnext := (lnext lk)(new := Some q, p := Some new),
                          lprev := (lprev lk)(q := Some new, new := Some p)\<rparr>"

definition unlinked :: "'n \<Rightarrow> 'n \<Rightarrow> 'n links \<Rightarrow> 'n links" where
  "unlinked p q lk = lk\<lparr>lnext := (lnext lk)(p := Some q), lprev := (lprev lk)(q := Some p)\<rparr>"

lemma list_add_between_linked:
  "list_add_between new (Some p) (Some q) lk = Some (linked new p q lk)"
  by (simp add: list_add_between_def put_prev_def put_next_def linked_def)

lemma list_del_between_unlinked:
  "list_del_between (Some p) (Some q) lk = Some (unlinked p q lk)"
  by (simp add: list_del_between_def put_prev_def put_next_def unlinked_def)

lemma chain_insert:
  assumes "chain lk a (xs @ ys) b" and "distinct (a # xs @ ys)" and "b \<notin> set (xs @ ys)"
    and "n \<noteq> a" "n \<noteq> b" "n \<notin> set (xs @ ys)"
  shows "chain (linked n (last (a # xs)) (hd (ys @ [b])) lk) a (xs @ n # ys) b"
  using assms
proof (induction xs arbitrary: a)
  case Nil
  show ?case
  proof (cases ys)
    case Nil
    with Nil.prems show ?thesis by (simp add: linked_def)
  next
    case (Cons y zs)
    have "chain (linked n a y lk) y zs b"
      by (rule chain_cong[of lk]) (use Nil.prems Cons in \<open>auto simp: linked_def\<close>)
    with Nil.prems Cons show ?thesis by (auto simp: linked_def)
  qed
next
  case (Cons x xs)
  have ne: "last (x # xs) \<noteq> a" "hd (ys @ [b]) \<noteq> x" "a \<noteq> n" "x \<noteq> n"
    using Cons.prems by (auto simp: hd_append split: if_splits)
  have "chain (linked n (last (x # xs)) (hd (ys @ [b])) lk) x (xs @ n # ys) b"
    by (rule Cons.IH) (use Cons.prems in auto)
  moreover have "last (a # x # xs) = last (x # xs)" by simp
  ultimately show ?case using Cons.prems ne by (simp add: linked_def)
qed

lemma chain_remove:
  assumes "chain lk a (xs @ n # ys) b" and "distinct (a # xs @ n # ys)" and "b \<notin> set (xs @ n # ys)"
  shows "chain (unlinked (last (a # xs)) (hd (ys @ [b])) lk) a (xs @ ys) b"
  using assms
proof (induction xs arbitrary: a)
  case Nil
  show ?case
  proof (cases ys)
    case Nil
    with Nil.prems show ?thesis by (simp add: unlinked_def)
  next
    case (Cons y zs)
    have "chain (unlinked a y lk) y zs b"
      by (rule chain_cong[of lk]) (use Nil.prems Cons in \<open>auto simp: unlinked_def\<close>)
    with Nil.prems Cons show ?thesis by (auto simp: unlinked_def)
  qed
next
  case (Cons x xs)
  have ne: "last (x # xs) \<noteq> a" "hd (ys @ [b]) \<noteq> x"
    using Cons.prems by (auto simp: hd_append split: if_splits)
  have "chain (unlinked (last (x # xs)) (hd (ys @ [b])) lk) x (xs @ ys) b"
    by (rule Cons.IH) (use Cons.prems in auto)
  moreover have "last (a # x # xs) = last (x # xs)" by simp
  ultimately show ?case using Cons.prems ne by (simp add: unlinked_def)
qed

section \<open>Families of disjoint rings\<close>

text \<open>
  The kernel keeps many lists over one set of nodes. \<open>shape lk H Q\<close>: every sentinel \<open>h \<in> H\<close> is
  the head of a ring with members \<open>Q h\<close>, no sentinel is a member, and no node is a member of
  two lists. \<open>Q\<close> is what the pointers stand for; it is the abstract state of the list layer.
\<close>

definition shape :: "'n links \<Rightarrow> 'n set \<Rightarrow> ('n \<Rightarrow> 'n list) \<Rightarrow> bool" where
  "shape lk H Q \<longleftrightarrow>
     (\<forall>h\<in>H. ring lk h (Q h)) \<and>
     (\<forall>h\<in>H. \<forall>n\<in>set (Q h). n \<notin> H) \<and>
     (\<forall>h\<in>H. \<forall>k\<in>H. \<forall>n. n \<in> set (Q h) \<longrightarrow> n \<in> set (Q k) \<longrightarrow> h = k)"

definition unlinked_node :: "'n \<Rightarrow> 'n set \<Rightarrow> ('n \<Rightarrow> 'n list) \<Rightarrow> bool" where
  "unlinked_node n H Q \<longleftrightarrow> n \<notin> H \<and> (\<forall>h\<in>H. n \<notin> set (Q h))"

lemma shape_ring: "shape lk H Q \<Longrightarrow> h \<in> H \<Longrightarrow> ring lk h (Q h)"
  by (simp add: shape_def)

lemma shape_distinct: "shape lk H Q \<Longrightarrow> h \<in> H \<Longrightarrow> distinct (Q h)"
  by (simp add: shape_def ring_def)

lemma shape_not_head: "shape lk H Q \<Longrightarrow> h \<in> H \<Longrightarrow> n \<in> set (Q h) \<Longrightarrow> n \<notin> H"
  by (auto simp: shape_def)

lemma shape_unique_list:
  "shape lk H Q \<Longrightarrow> h \<in> H \<Longrightarrow> k \<in> H \<Longrightarrow> n \<in> set (Q h) \<Longrightarrow> n \<in> set (Q k) \<Longrightarrow> h = k"
  unfolding shape_def by blast

lemma shape_for_each [queue_simps]:
  "shape lk H Q \<Longrightarrow> h \<in> H \<Longrightarrow> list_for_each h lk = Some (Q h)"
  by (rule list_for_each_ring) (rule shape_ring)

lemma shape_for_each_prev [queue_simps]:
  "shape lk H Q \<Longrightarrow> h \<in> H \<Longrightarrow> list_for_each_prev h lk = Some (rev (Q h))"
  by (rule list_for_each_prev_ring) (rule shape_ring)

lemma shape_unique: "shape lk H Q \<Longrightarrow> shape lk H Q' \<Longrightarrow> h \<in> H \<Longrightarrow> Q h = Q' h"
  by (meson ring_unique shape_ring)

lemma shape_cong_Q: "shape lk H Q \<Longrightarrow> (\<And>h. h \<in> H \<Longrightarrow> Q h = Q' h) \<Longrightarrow> shape lk H Q'"
  by (simp add: shape_def)

lemma shape_list_empty [queue_simps]:
  "shape lk H Q \<Longrightarrow> h \<in> H \<Longrightarrow> list_empty h lk \<longleftrightarrow> Q h = []"
  by (cases "Q h") (auto dest!: shape_ring simp: ring_def list_empty_def)

lemma shape_list_next [queue_simps]:
  "shape lk H Q \<Longrightarrow> h \<in> H \<Longrightarrow> list_next h lk = (case Q h of [] \<Rightarrow> None | x # _ \<Rightarrow> Some x)"
  by (cases "Q h") (auto dest!: shape_ring simp: ring_def list_next_def list_empty_def)

lemma shape_next:
  assumes "shape l H Q" "h \<in> H" "Q h = xs @ n # ys"
  shows "lnext l n = Some (hd (ys @ [h]))"
  using shape_ring[OF assms(1,2)] assms(3) by (simp add: ring_def chain_append chain_first)

lemma shape_list_prev [queue_simps]:
  "shape lk H Q \<Longrightarrow> h \<in> H \<Longrightarrow> list_prev h lk = (if Q h = [] then None else Some (last (Q h)))"
proof -
  assume a: "shape lk H Q" "h \<in> H"
  then have "chain lk h (Q h) h" using shape_ring ring_def by metis
  then have "lprev lk h = Some (last (h # Q h))" by (rule chain_last)
  with shape_list_empty[OF a] show ?thesis by (simp add: list_prev_def)
qed

lemma shape_is_only [queue_simps]:
  assumes "shape lk H Q" "h \<in> H" "n \<in> set (Q h)"
  shows "list_is_only n h lk \<longleftrightarrow> Q h = [n]"
proof -
  obtain xs ys where Q: "Q h = xs @ n # ys" using assms(3) by (meson split_list)
  have c: "chain lk h (xs @ n # ys) h" and d: "distinct (h # xs @ n # ys)"
    using shape_ring[OF assms(1,2)] Q by (auto simp: ring_def)
  have "chain lk h xs n" "chain lk n ys h" using c by (simp_all add: chain_append)
  then have "lprev lk n = Some (last (h # xs))" "lnext lk n = Some (hd (ys @ [h]))"
    by (simp_all only: chain_last chain_first)
  moreover have "last (h # xs) = h \<longleftrightarrow> xs = []" using d by auto
  moreover have "hd (ys @ [h]) = h \<longleftrightarrow> ys = []" using d by (cases ys) auto
  moreover have "Q h = [n] \<longleftrightarrow> xs = [] \<and> ys = []" using Q by (auto simp: append_eq_Cons_conv)
  ultimately show ?thesis by (auto simp add: list_is_only_def simp del: last.simps)
qed

lemma ring_frame:
  assumes "ring lk k ys"
    and "\<And>m. m \<in> insert k (set ys) \<Longrightarrow> lnext lk' m = lnext lk m \<and> lprev lk' m = lprev lk m"
  shows "ring lk' k ys"
  using assms by (auto simp: ring_def intro: chain_cong)

lemma shape_update:
  assumes S: "shape lk H Q" and h: "h \<in> H"
    and ring: "ring lk' h zs"
    and set: "\<And>m. m \<in> set zs \<Longrightarrow> m \<notin> H" "\<And>k m. k \<in> H \<Longrightarrow> k \<noteq> h \<Longrightarrow> m \<in> set zs \<Longrightarrow> m \<notin> set (Q k)"
    and frame: "\<And>m. m \<noteq> h \<Longrightarrow> m \<notin> set (Q h) \<Longrightarrow> m \<notin> set zs \<Longrightarrow>
                  lnext lk' m = lnext lk m \<and> lprev lk' m = lprev lk m"
  shows "shape lk' H (Q(h := zs))"
proof -
  have other: "ring lk' k (Q k)" if k: "k \<in> H" "k \<noteq> h" for k
  proof (rule ring_frame[OF shape_ring[OF S k(1)]])
    fix m assume "m \<in> insert k (set (Q k))"
    then have "m \<noteq> h" "m \<notin> set (Q h)" "m \<notin> set zs"
      using k h set(2)[OF k, of m] set(1)[of k] shape_unique_list[OF S k(1) h, of m]
        shape_not_head[OF S k(1), of m] shape_not_head[OF S h, of k] by auto
    then show "lnext lk' m = lnext lk m \<and> lprev lk' m = lprev lk m" by (rule frame)
  qed
  show ?thesis
    unfolding shape_def
  proof (intro conjI ballI allI impI)
    fix k assume "k \<in> H"
    then show "ring lk' k ((Q(h := zs)) k)" using ring other by simp
    show "m \<notin> H" if "m \<in> set ((Q(h := zs)) k)" for m
      using that shape_not_head[OF S \<open>k \<in> H\<close>, of m] set(1)[of m] by (cases "k = h") simp_all
    fix j m assume "j \<in> H" "m \<in> set ((Q(h := zs)) k)" "m \<in> set ((Q(h := zs)) j)"
    then show "k = j"
      using \<open>k \<in> H\<close> shape_unique_list[OF S, of k j m] set(2)[of k m] set(2)[of j m]
      by (cases "k = h"; cases "j = h") simp_all
  qed
qed

lemma shape_insert:
  assumes S: "shape lk H Q" and h: "h \<in> H" and Q: "Q h = xs @ ys" and n: "unlinked_node n H Q"
  shows "shape (linked n (last (h # xs)) (hd (ys @ [h])) lk) H (Q(h := xs @ n # ys))"
proof (rule shape_update[OF S h])
  have r: "ring lk h (xs @ ys)" using shape_ring[OF S h] Q by simp
  then have "chain (linked n (last (h # xs)) (hd (ys @ [h])) lk) h (xs @ n # ys) h"
    using n h Q by (intro chain_insert) (auto simp: ring_def unlinked_node_def)
  then show "ring (linked n (last (h # xs)) (hd (ys @ [h])) lk) h (xs @ n # ys)"
    using r n h Q by (auto simp: ring_def unlinked_node_def)
  show "m \<notin> H" if "m \<in> set (xs @ n # ys)" for m
    using that shape_not_head[OF S h] Q n by (auto simp: unlinked_node_def)
  show "m \<notin> set (Q k)" if "k \<in> H" "k \<noteq> h" "m \<in> set (xs @ n # ys)" for k m
    using that shape_unique_list[OF S h that(1), of m] Q n by (auto simp: unlinked_node_def)
  fix m assume "m \<noteq> h" "m \<notin> set (Q h)" "m \<notin> set (xs @ n # ys)"
  moreover have "last (h # xs) \<in> insert h (set xs)" by auto
  moreover have "hd (ys @ [h]) \<in> insert h (set ys)" by (cases ys) auto
  ultimately show "lnext (linked n (last (h # xs)) (hd (ys @ [h])) lk) m = lnext lk m \<and>
        lprev (linked n (last (h # xs)) (hd (ys @ [h])) lk) m = lprev lk m"
    unfolding linked_def by auto
qed

lemma shape_remove:
  assumes S: "shape lk H Q" and h: "h \<in> H" and Q: "Q h = xs @ n # ys"
  shows "shape (unlinked (last (h # xs)) (hd (ys @ [h])) lk) H (Q(h := xs @ ys))"
proof (rule shape_update[OF S h])
  have r: "ring lk h (xs @ n # ys)" using shape_ring[OF S h] Q by simp
  then have "chain (unlinked (last (h # xs)) (hd (ys @ [h])) lk) h (xs @ ys) h"
    by (intro chain_remove) (auto simp: ring_def)
  then show "ring (unlinked (last (h # xs)) (hd (ys @ [h])) lk) h (xs @ ys)"
    using r by (auto simp: ring_def)
  show "m \<notin> H" if "m \<in> set (xs @ ys)" for m
    using that shape_not_head[OF S h] Q by auto
  show "m \<notin> set (Q k)" if "k \<in> H" "k \<noteq> h" "m \<in> set (xs @ ys)" for k m
    using that shape_unique_list[OF S h that(1), of m] Q by auto
  fix m assume "m \<noteq> h" "m \<notin> set (Q h)" "m \<notin> set (xs @ ys)"
  moreover have "last (h # xs) \<in> insert h (set xs)" by auto
  moreover have "hd (ys @ [h]) \<in> insert h (set ys)" by (cases ys) auto
  ultimately show "lnext (unlinked (last (h # xs)) (hd (ys @ [h])) lk) m = lnext lk m \<and>
        lprev (unlinked (last (h # xs)) (hd (ys @ [h])) lk) m = lprev lk m"
    using Q by (auto simp: unlinked_def)
qed

section \<open>What the header's operations do to the represented sequences\<close>

lemma list_add_tail_shape:
  assumes S: "shape lk H Q" and h: "h \<in> H" and n: "unlinked_node n H Q"
  shows "\<exists>lk'. list_add_tail n h lk = Some lk' \<and> shape lk' H (Q(h := Q h @ [n]))"
proof -
  have "lprev lk h = Some (last (h # Q h))"
    using shape_ring[OF S h] by (auto simp: ring_def dest: chain_last)
  then have "list_add_tail n h lk = Some (linked n (last (h # Q h)) h lk)"
    by (simp only: list_add_tail_def list_add_between_linked)
  moreover have "shape (linked n (last (h # Q h)) (hd ([] @ [h])) lk) H (Q(h := Q h @ n # []))"
    by (rule shape_insert[OF S h]) (simp_all add: n)
  ultimately show ?thesis by simp
qed

lemma list_add_shape:
  assumes S: "shape lk H Q" and h: "h \<in> H" and n: "unlinked_node n H Q"
  shows "\<exists>lk'. list_add n h lk = Some lk' \<and> shape lk' H (Q(h := n # Q h))"
proof -
  have "lnext lk h = Some (hd (Q h @ [h]))"
    using shape_ring[OF S h] by (auto simp: ring_def dest: chain_first)
  then have "list_add n h lk = Some (linked n h (hd (Q h @ [h])) lk)"
    by (simp only: list_add_def list_add_between_linked)
  moreover have "shape (linked n (last (h # [])) (hd (Q h @ [h])) lk) H (Q(h := [] @ n # Q h))"
    by (rule shape_insert[OF S h]) (simp_all add: n)
  ultimately show ?thesis by simp
qed

lemma list_del_shape:
  assumes S: "shape lk H Q" and h: "h \<in> H" and n: "n \<in> set (Q h)"
  shows "\<exists>lk'. list_del n lk = Some lk' \<and> shape lk' H (Q(h := remove1 n (Q h)))"
proof -
  obtain xs ys where Q: "Q h = xs @ n # ys" and nx: "n \<notin> set xs" using n by (meson split_list_first)
  have c: "chain lk h (xs @ n # ys) h" using shape_ring[OF S h] Q by (simp add: ring_def)
  then have "chain lk h xs n" "chain lk n ys h" by (simp_all add: chain_append)
  then have "lprev lk n = Some (last (h # xs))" "lnext lk n = Some (hd (ys @ [h]))"
    by (simp_all only: chain_last chain_first)
  then have "list_del n lk = Some (unlinked (last (h # xs)) (hd (ys @ [h])) lk)"
    by (simp only: list_del_def list_del_between_unlinked)
  moreover have "remove1 n (Q h) = xs @ ys" using Q nx by simp
  ultimately show ?thesis using shape_remove[OF S h Q] by simp
qed

lemma unlinked_node_after_del:
  "shape lk H Q \<Longrightarrow> h \<in> H \<Longrightarrow> n \<in> set (Q h) \<Longrightarrow> unlinked_node n H (Q(h := remove1 n (Q h)))"
  unfolding unlinked_node_def
  by (auto dest: shape_not_head shape_unique_list shape_distinct)

text \<open>\<open>list_del\<close> of the first element, the case of every dequeue of the kernel.\<close>

lemma list_del_first_shape:
  assumes "shape lk H Q" "h \<in> H" "Q h = n # ns"
  shows "\<exists>lk'. list_del n lk = Some lk' \<and> shape lk' H (Q(h := ns)) \<and> unlinked_node n H (Q(h := ns))"
  using list_del_shape[OF assms(1,2), of n] unlinked_node_after_del[OF assms(1,2), of n] assms(3)
  by simp

lemma init_list_head_shape:
  assumes S: "shape lk H Q" and n: "unlinked_node n H Q"
  shows "shape (init_list_head n lk) (insert n H) (Q(n := []))"
proof -
  have "ring (init_list_head n lk) k (Q k)" if "k \<in> H" for k
    by (rule ring_frame[OF shape_ring[OF S that]])
      (use n that in \<open>auto simp: init_list_head_def unlinked_node_def\<close>)
  moreover have "ring (init_list_head n lk) n []" by (simp add: ring_def init_list_head_def)
  ultimately show ?thesis using S n by (auto simp: shape_def unlinked_node_def)
qed

lemma shape_empty: "shape lk {} Q"
  by (simp add: shape_def)

text \<open>
  A node whose pointers are NULL (a \<open>struct list_head\<close> of zeroed memory that no operation has
  written yet) cannot be unlinked: \<open>list_del\<close> writes through NULL.
\<close>

lemma list_del_null: "lprev lk n = None \<or> lnext lk n = None \<Longrightarrow> list_del n lk = None"
  by (auto simp: list_del_def list_del_between_def put_prev_def put_next_def split: option.splits)

text \<open>\<open>list_del\<close> leaves the pointers of the removed node in place.\<close>

lemma list_del_stale:
  assumes "list_del n lk = Some lk'" "lprev lk n \<noteq> Some n" "lnext lk n \<noteq> Some n"
  shows "lnext lk' n = lnext lk n \<and> lprev lk' n = lprev lk n"
  using assms
  by (auto simp: list_del_def list_del_between_def put_prev_def put_next_def bind_eq_Some_conv
      split: option.splits)

end
