(* ===== verification/Machine.thy ===== *)
theory Machine imports Prelude begin

unbundle bit_operations_syntax

text \<open>
  The machine as the kernel sees it: the processor state \<open>state_t\<close> of
  \<open>src/src/uARMsupportFiles/microARMtypes.h\<close>, the status-register macros of
  \<open>microARMconst.h\<close> and the device addresses of \<open>microARMarch.h\<close>.

  A machine word is a \<open>val\<close>: a plain 32-bit number, or the address of a kernel object (a thread
  descriptor, a process descriptor, the \<open>t_s\<close> field of a thread, a function). The kernel casts
  such addresses to \<open>unsigned int\<close> and back without computing with them, so the model keeps them
  symbolic and needs no layout of the kernel image. NULL is the number 0. Arithmetic on a symbolic
  address, or its use as a pointer of another type, is a fault.
\<close>

section \<open>Words and pointers\<close>

type_synonym pid = nat

datatype tid = Thread nat | SSI_thread

datatype fn_sym =
    fn_ssi | fn_test | fn_interrupt_h | fn_tlbtrap_h | fn_pgmtrap_h | fn_syscall_h
  | fn_t1 | fn_t2 | fn_t3 | fn_test_succed_msg_send | fn_test_succed_msg_recv
  | fn_tty0out_thread | fn_cs_thread | fn_p2 | fn_p3 | fn_p4 | fn_p5 | fn_p5p | fn_p5m | fn_p5s | fn_p5a | fn_p6 | fn_p7
  | fn_p8 | fn_p8child | fn_p8grandchild

datatype val = U u32 | Tcb tid | Pcb pid | TcbState tid | Fn fn_sym

abbreviation NULL :: val where "NULL \<equiv> U 0"

text \<open>Casts from a word to a pointer type; the outer \<open>None\<close> is a wild pointer.\<close>

fun as_u32 :: "val \<Rightarrow> u32 option" where
  "as_u32 (U w) = Some w"
| "as_u32 _ = None"

fun as_tcb :: "val \<Rightarrow> tid option option" where
  "as_tcb (Tcb t) = Some (Some t)"
| "as_tcb (U w) = (if w = 0 then Some None else None)"
| "as_tcb _ = None"

fun as_pcb :: "val \<Rightarrow> pid option option" where
  "as_pcb (Pcb p) = Some (Some p)"
| "as_pcb (U w) = (if w = 0 then Some None else None)"
| "as_pcb _ = None"

fun of_tcb :: "tid option \<Rightarrow> val" where
  "of_tcb None = NULL"
| "of_tcb (Some t) = Tcb t"

fun of_pcb :: "pid option \<Rightarrow> val" where
  "of_pcb None = NULL"
| "of_pcb (Some p) = Pcb p"

lemma as_tcb_of_tcb [simp]: "as_tcb (of_tcb t) = Some t"
  by (cases t) auto

lemma as_pcb_of_pcb [simp]: "as_pcb (of_pcb p) = Some p"
  by (cases p) auto

section \<open>The processor state\<close>

record state_t =
  a1 :: val
  a2 :: val
  a3 :: val
  a4 :: val
  v1 :: val
  v2 :: val
  v3 :: val
  v4 :: val
  v5 :: val
  v6 :: val
  sl :: val
  fp :: val
  ip :: val
  sp :: val
  lr :: val
  pc :: val
  cpsr :: val
  CP15_Control :: val
  CP15_EntryHi :: val
  CP15_Cause :: val
  TOD_Hi :: val
  TOD_Low :: val

type_synonym memory = "u32 \<Rightarrow> val"

text \<open>\<open>*(state_t *) a\<close>: the 22 words from address \<open>a\<close> on, in the order of the struct.\<close>

definition load_state :: "memory \<Rightarrow> u32 \<Rightarrow> state_t" where
  "load_state m a =
     \<lparr> a1 = m a, a2 = m (a + 4), a3 = m (a + 8), a4 = m (a + 12),
       v1 = m (a + 16), v2 = m (a + 20), v3 = m (a + 24), v4 = m (a + 28),
       v5 = m (a + 32), v6 = m (a + 36), sl = m (a + 40), fp = m (a + 44),
       ip = m (a + 48), sp = m (a + 52), lr = m (a + 56), pc = m (a + 60),
       cpsr = m (a + 64), CP15_Control = m (a + 68), CP15_EntryHi = m (a + 72),
       CP15_Cause = m (a + 76), TOD_Hi = m (a + 80), TOD_Low = m (a + 84) \<rparr>"

text \<open>The processor state of zeroed memory.\<close>

definition zero_state :: state_t where
  "zero_state = load_state (\<lambda>_. NULL) 0"

section \<open>The status register\<close>

definition STATUS_CLEAR_MODE :: u32 where "STATUS_CLEAR_MODE = 0xFFFFFFF0"
definition STATUS_USER_MODE :: u32 where "STATUS_USER_MODE = 0x10"
definition STATUS_SYS_MODE :: u32 where "STATUS_SYS_MODE = 0x1F"
definition STATUS_SRV_MODE :: u32 where "STATUS_SRV_MODE = 0x13"
definition STATUS_INT_MODE :: u32 where "STATUS_INT_MODE = 0x12"
definition STATUS_PGMT_MODE :: u32 where "STATUS_PGMT_MODE = 0x1B"
definition STATUS_TLB_MODE :: u32 where "STATUS_TLB_MODE = 0x17"
definition STATUS_ID :: u32 where "STATUS_ID = 0x80"
definition STATUS_TIMER_ID :: u32 where "STATUS_TIMER_ID = 0x40"

definition STATUS_ENABLE_INT :: "u32 \<Rightarrow> u32" where
  "STATUS_ENABLE_INT status = status AND NOT STATUS_ID"

definition STATUS_DISABLE_INT :: "u32 \<Rightarrow> u32" where
  "STATUS_DISABLE_INT status = status OR STATUS_ID"

definition STATUS_ENABLE_TIMER :: "u32 \<Rightarrow> u32" where
  "STATUS_ENABLE_TIMER status = status AND NOT STATUS_TIMER_ID"

definition STATUS_DISABLE_TIMER :: "u32 \<Rightarrow> u32" where
  "STATUS_DISABLE_TIMER status = status OR STATUS_TIMER_ID"

definition STATUS_ALL_INT_ENABLE :: "u32 \<Rightarrow> u32" where
  "STATUS_ALL_INT_ENABLE status = status AND NOT STATUS_TIMER_ID AND NOT STATUS_ID"

definition STATUS_ALL_INT_DISABLE :: "u32 \<Rightarrow> u32" where
  "STATUS_ALL_INT_DISABLE status = status OR STATUS_TIMER_ID OR STATUS_ID"

lemmas status_defs =
  STATUS_CLEAR_MODE_def STATUS_USER_MODE_def STATUS_SYS_MODE_def STATUS_SRV_MODE_def
  STATUS_INT_MODE_def STATUS_PGMT_MODE_def STATUS_TLB_MODE_def STATUS_ID_def STATUS_TIMER_ID_def
  STATUS_ENABLE_INT_def STATUS_DISABLE_INT_def STATUS_ENABLE_TIMER_def STATUS_DISABLE_TIMER_def
  STATUS_ALL_INT_ENABLE_def STATUS_ALL_INT_DISABLE_def

section \<open>Addresses of the bus and the device registers\<close>

definition BUS_REG_RAM_BASE :: u32 where "BUS_REG_RAM_BASE = 0x2D0"
definition BUS_REG_RAM_SIZE :: u32 where "BUS_REG_RAM_SIZE = 0x2D4"
definition BUS_REG_TIME_SCALE :: u32 where "BUS_REG_TIME_SCALE = 0x2E8"
definition FRAME_SIZE :: u32 where "FRAME_SIZE = 4096"
definition DEV_C_ACK :: u32 where "DEV_C_ACK = 1"
definition EXC_RESERVEDINSTR :: u32 where "EXC_RESERVEDINSTR = 20"
definition IL_TERMINAL :: u32 where "IL_TERMINAL = 7"

definition DEV_IL_START :: u32 where "DEV_IL_START = 8 - 5"
definition DEV_REG_START :: u32 where "DEV_REG_START = 0x40"
definition DEV_REG_SIZE :: u32 where "DEV_REG_SIZE = 4 * 4"
definition N_DEV_PER_IL :: u32 where "N_DEV_PER_IL = 8"

definition DEV_REG_ADDR :: "u32 \<Rightarrow> u32 \<Rightarrow> u32" where
  "DEV_REG_ADDR line dev =
     DEV_REG_START + (line - DEV_IL_START) * N_DEV_PER_IL * DEV_REG_SIZE + dev * DEV_REG_SIZE"

definition TRANSM_COMMAND :: u32 where "TRANSM_COMMAND = 0xC"

definition TERMINAL_DEV_FIELD :: "u32 \<Rightarrow> u32 \<Rightarrow> u32" where
  "TERMINAL_DEV_FIELD dev field = DEV_REG_ADDR IL_TERMINAL dev + field"

lemmas address_defs = DEV_REG_ADDR_def DEV_IL_START_def DEV_REG_START_def DEV_REG_SIZE_def
  N_DEV_PER_IL_def TRANSM_COMMAND_def TERMINAL_DEV_FIELD_def IL_TERMINAL_def

text \<open>The address of the transmission command of terminal 0 is the constant the tests use.\<close>

lemma terminal0_transm_command: "TERMINAL_DEV_FIELD 0 TRANSM_COMMAND = 0x24C"
  by (simp add: address_defs)

definition ram_top :: "memory \<Rightarrow> u32 option" where
  "ram_top m = do { b \<leftarrow> as_u32 (m BUS_REG_RAM_BASE); z \<leftarrow> as_u32 (m BUS_REG_RAM_SIZE); Some (b + z) }"

text \<open>A store through a data pointer: only plain addresses can be written through.\<close>

fun store_word :: "val \<Rightarrow> val \<Rightarrow> memory \<Rightarrow> memory option" where
  "store_word (U a) v m = Some (m(a := v))"
| "store_word _ v m = None"

section \<open>Enabling and disabling interrupts\<close>

lemma int_enable_disable:
  "STATUS_ALL_INT_ENABLE (STATUS_ALL_INT_DISABLE s) = STATUS_ALL_INT_ENABLE s"
  "STATUS_ALL_INT_DISABLE (STATUS_ALL_INT_ENABLE s) = STATUS_ALL_INT_DISABLE s"
  by (simp_all add: status_defs bit_eq_iff bit_simps) (auto simp: bit_simps)

end
