(* ===== verification/Kernel.thy ===== *)
theory Kernel imports Listx Machine begin

text \<open>
  The data of the nucleus: the descriptors of \<open>src/src/mikabooq.h\<close>, the tables of
  \<open>mikabooq.c\<close>, the globals of \<open>scheduler.c\<close>, \<open>accounting.c\<close>, \<open>ssi.c\<close> and the services, and
  the exception areas, in one record \<open>kstate\<close>. The second half fixes which lists the kernel keeps
  and the invariants that tie the descriptors to the lists.
\<close>

section \<open>Descriptors\<close>

definition MAXPROC :: nat where "MAXPROC = 20"
definition MAXTHREAD :: nat where "MAXTHREAD = 30"
definition MAXMSG :: nat where "MAXMSG = 40"

type_synonym mid = nat

datatype t_status = T_STATUS_NONE | T_STATUS_READY | T_STATUS_W4MSG

record pcb_t =
  p_parent :: "pid option"
  pgm_mgr :: "tid option"
  tlb_mgr :: "tid option"
  sys_mgr :: "tid option"

record tcb_t =
  t_pcb :: "pid option"
  t_s :: state_t
  t_status :: t_status
  run_time :: u32
  errno :: int
  t_wait4sender :: "tid option"

record msg_t =
  m_sender :: "tid option"
  m_value :: val

text \<open>
  Every \<open>struct list_head\<close> of the kernel: the list members of the descriptors and the static
  sentinels. \<open>P_siblings 0\<close>, the link of the root process, is the sentinel of the free list of
  processes.
\<close>

datatype node =
    P_threads pid | P_children pid | P_siblings pid
  | T_next tid | T_sched tid | T_msgq tid | T_wait4me tid
  | M_next mid
  | Thread_h | Message_h | Readyq | Blockedq | T_wait4clock

text \<open>\<open>container_of\<close>, for the four members that link a descriptor into a list.\<close>

fun pcb_of_siblings :: "node \<Rightarrow> pid option" where
  "pcb_of_siblings (P_siblings p) = Some p"
| "pcb_of_siblings _ = None"

fun tcb_of_next :: "node \<Rightarrow> tid option" where
  "tcb_of_next (T_next t) = Some t"
| "tcb_of_next _ = None"

fun tcb_of_sched :: "node \<Rightarrow> tid option" where
  "tcb_of_sched (T_sched t) = Some t"
| "tcb_of_sched _ = None"

fun msg_of_next :: "node \<Rightarrow> mid option" where
  "msg_of_next (M_next m) = Some m"
| "msg_of_next _ = None"

section \<open>The kernel state\<close>

record kstate =
  lk :: "node links"
  procs :: "pid \<Rightarrow> pcb_t"
  threads :: "tid \<Rightarrow> tcb_t"
  msgs :: "mid \<Rightarrow> msg_t"
  current_thread :: "tid option"
  thread_count :: u32
  soft_block_count :: u32
  is_idle :: bool
  state_init_n :: u32
  SSI :: "tid option"
  soft_blocked_thread :: "nat \<Rightarrow> tid option"
  pseudoclock :: u32
  timeSliceLeft :: u32
  clockPerTimeslice :: u32
  mem :: memory
  SYSBK_OLDAREA :: state_t
  PGMTRAP_OLDAREA :: state_t
  TLB_OLDAREA :: state_t
  INT_OLDAREA :: state_t
  SYSBK_NEWAREA :: state_t
  PGMTRAP_NEWAREA :: state_t
  TLB_NEWAREA :: state_t
  INT_NEWAREA :: state_t
  TIMER :: u32
  STATUS :: u32

definition upd_proc :: "pid \<Rightarrow> (pcb_t \<Rightarrow> pcb_t) \<Rightarrow> kstate \<Rightarrow> kstate" where
  "upd_proc p f s = s\<lparr>procs := (procs s)(p := f (procs s p))\<rparr>"

definition upd_thread :: "tid \<Rightarrow> (tcb_t \<Rightarrow> tcb_t) \<Rightarrow> kstate \<Rightarrow> kstate" where
  "upd_thread t f s = s\<lparr>threads := (threads s)(t := f (threads s t))\<rparr>"

definition upd_msg :: "mid \<Rightarrow> (msg_t \<Rightarrow> msg_t) \<Rightarrow> kstate \<Rightarrow> kstate" where
  "upd_msg m f s = s\<lparr>msgs := (msgs s)(m := f (msgs s m))\<rparr>"

definition with_links :: "(node links \<Rightarrow> node links option) \<Rightarrow> kstate \<Rightarrow> kstate option" where
  "with_links f s = map_option (\<lambda>l. s\<lparr>lk := l\<rparr>) (f (lk s))"

text \<open>
  The macros \<open>__qhead\<close> and \<open>__dequeue\<close>, the first element of a queue and its removal; \<open>container\<close> is the
  \<open>container_of\<close> of their arguments \<open>type\<close> and \<open>member\<close>.
\<close>

definition qhead :: "(node \<Rightarrow> 'a option) \<Rightarrow> node \<Rightarrow> kstate \<Rightarrow> 'a option option" where
  "qhead container queue s =
     (case list_next queue (lk s) of
        None \<Rightarrow> Some None
      | Some new_head \<Rightarrow> map_option Some (container new_head))"

definition dequeue :: "(node \<Rightarrow> 'a option) \<Rightarrow> node \<Rightarrow> kstate \<Rightarrow> ('a option \<times> kstate) option" where
  "dequeue container queue s =
     (case list_next queue (lk s) of
        None \<Rightarrow> Some (None, s)
      | Some new_head \<Rightarrow> do {
          s \<leftarrow> with_links (list_del new_head) s;
          x \<leftarrow> container new_head;
          Some (Some x, s) })"

lemmas queue_macros = qhead_def dequeue_def

lemmas upd_defs = upd_proc_def upd_thread_def upd_msg_def

section \<open>Which lists there are, and what they may hold\<close>

fun valid_tid :: "tid \<Rightarrow> bool" where
  "valid_tid (Thread i) \<longleftrightarrow> i < MAXTHREAD"
| "valid_tid SSI_thread \<longleftrightarrow> True"

fun is_head :: "node \<Rightarrow> bool" where
  "is_head (P_threads p) \<longleftrightarrow> p < MAXPROC"
| "is_head (P_children p) \<longleftrightarrow> p < MAXPROC"
| "is_head (P_siblings p) \<longleftrightarrow> p = 0"
| "is_head (T_msgq t) \<longleftrightarrow> valid_tid t"
| "is_head (T_wait4me t) \<longleftrightarrow> valid_tid t"
| "is_head (T_next t) \<longleftrightarrow> False"
| "is_head (T_sched t) \<longleftrightarrow> False"
| "is_head (M_next m) \<longleftrightarrow> False"
| "is_head _ \<longleftrightarrow> True"

abbreviation heads :: "node set" where "heads \<equiv> Collect is_head"

fun is_proc_head :: "node \<Rightarrow> bool" where
  "is_proc_head (P_children p) \<longleftrightarrow> p < MAXPROC"
| "is_proc_head (P_siblings p) \<longleftrightarrow> p = 0"
| "is_proc_head _ \<longleftrightarrow> False"

fun is_thread_head :: "node \<Rightarrow> bool" where
  "is_thread_head (P_threads p) \<longleftrightarrow> p < MAXPROC"
| "is_thread_head Thread_h \<longleftrightarrow> True"
| "is_thread_head _ \<longleftrightarrow> False"

fun is_sched_head :: "node \<Rightarrow> bool" where
  "is_sched_head (T_wait4me t) \<longleftrightarrow> valid_tid t"
| "is_sched_head Readyq \<longleftrightarrow> True"
| "is_sched_head Blockedq \<longleftrightarrow> True"
| "is_sched_head T_wait4clock \<longleftrightarrow> True"
| "is_sched_head _ \<longleftrightarrow> False"

fun is_msg_head :: "node \<Rightarrow> bool" where
  "is_msg_head (T_msgq t) \<longleftrightarrow> valid_tid t"
| "is_msg_head Message_h \<longleftrightarrow> True"
| "is_msg_head _ \<longleftrightarrow> False"

lemma head_kinds: "is_head h \<longleftrightarrow> is_proc_head h \<or> is_thread_head h \<or> is_sched_head h \<or> is_msg_head h"
  by (cases h) auto

lemma head_kindsI [intro]:
  "is_proc_head h \<Longrightarrow> is_head h" "is_thread_head h \<Longrightarrow> is_head h"
  "is_sched_head h \<Longrightarrow> is_head h" "is_msg_head h \<Longrightarrow> is_head h"
  by (simp_all add: head_kinds)

text \<open>\<open>member_ok h n\<close>: the member \<open>n\<close> has the type that the list \<open>h\<close> links.\<close>

fun member_ok :: "node \<Rightarrow> node \<Rightarrow> bool" where
  "member_ok h (P_siblings p) \<longleftrightarrow> is_proc_head h \<and> 0 < p \<and> p < MAXPROC"
| "member_ok h (T_next (Thread i)) \<longleftrightarrow> is_thread_head h \<and> i < MAXTHREAD"
| "member_ok h (T_sched t) \<longleftrightarrow> is_sched_head h \<and> valid_tid t"
| "member_ok h (M_next m) \<longleftrightarrow> is_msg_head h \<and> m < MAXMSG"
| "member_ok h _ \<longleftrightarrow> False"

type_synonym queues = "node \<Rightarrow> node list"

text \<open>
  \<open>Q\<close> is what the pointers of \<open>s\<close> stand for: every list of the kernel is a ring, the lists are
  disjoint, and every list holds members of its own type only.
\<close>

definition typed :: "queues \<Rightarrow> bool" where
  "typed Q \<longleftrightarrow> (\<forall>h n. is_head h \<longrightarrow> n \<in> set (Q h) \<longrightarrow> member_ok h n)"

definition lists_ok :: "queues \<Rightarrow> kstate \<Rightarrow> bool" where
  "lists_ok Q s \<longleftrightarrow> shape (lk s) heads Q \<and> typed Q"

abbreviation not_linked :: "node \<Rightarrow> queues \<Rightarrow> bool" where
  "not_linked n Q \<equiv> unlinked_node n heads Q"

section \<open>The invariants of the descriptor tables\<close>

text \<open>
  Processes: a process other than the root is either free (no parent, linked in the free list, no
  children, no threads) or the child of exactly the process whose child list holds it; the parent
  relation has no cycle.
\<close>

definition parent_rel :: "(pid \<Rightarrow> pcb_t) \<Rightarrow> (pid \<times> pid) set" where
  "parent_rel ps = {(c, p). p_parent (ps c) = Some p}"

definition proc_inv :: "queues \<Rightarrow> (pid \<Rightarrow> pcb_t) \<Rightarrow> bool" where
  "proc_inv Q ps \<longleftrightarrow>
     p_parent (ps 0) = None \<and>
     (\<forall>c \<ge> MAXPROC. p_parent (ps c) = None) \<and>
     (\<forall>c. 0 < c \<longrightarrow> c < MAXPROC \<longrightarrow>
        (p_parent (ps c) = None \<longrightarrow>
           P_siblings c \<in> set (Q (P_siblings 0)) \<and> Q (P_children c) = [] \<and> Q (P_threads c) = []) \<and>
        (\<forall>p. p_parent (ps c) = Some p \<longrightarrow>
           p < MAXPROC \<and> P_siblings c \<in> set (Q (P_children p)))) \<and>
     acyclic (parent_rel ps)"

text \<open>
  Threads: a descriptor is either free (no process, linked in the free list, status
  \<open>T_STATUS_NONE\<close>, no messages) or linked in the thread list of its process.
  The SSI belongs to no process and is never free.
\<close>

definition thread_inv :: "queues \<Rightarrow> (tid \<Rightarrow> tcb_t) \<Rightarrow> bool" where
  "thread_inv Q ts \<longleftrightarrow>
     (\<forall>i < MAXTHREAD.
        (t_pcb (ts (Thread i)) = None \<longrightarrow>
           T_next (Thread i) \<in> set (Q Thread_h) \<and> t_status (ts (Thread i)) = T_STATUS_NONE \<and>
           Q (T_msgq (Thread i)) = []) \<and>
        (\<forall>p. t_pcb (ts (Thread i)) = Some p \<longrightarrow>
           p < MAXPROC \<and> T_next (Thread i) \<in> set (Q (P_threads p)) \<and>
           t_status (ts (Thread i)) \<noteq> T_STATUS_NONE)) \<and>
     t_pcb (ts SSI_thread) = None \<and> t_status (ts SSI_thread) \<noteq> T_STATUS_NONE"

text \<open>Messages: free with no sender, or pending in the queue of one thread with a sender.\<close>

definition msg_inv :: "queues \<Rightarrow> (mid \<Rightarrow> msg_t) \<Rightarrow> bool" where
  "msg_inv Q ms \<longleftrightarrow>
     (\<forall>m < MAXMSG.
        (m_sender (ms m) = None \<longrightarrow> M_next m \<in> set (Q Message_h)) \<and>
        (m_sender (ms m) \<noteq> None \<longrightarrow> (\<exists>t. valid_tid t \<and> M_next m \<in> set (Q (T_msgq t)))))"

definition kernel_ok :: "queues \<Rightarrow> kstate \<Rightarrow> bool" where
  "kernel_ok Q s \<longleftrightarrow>
     lists_ok Q s \<and> proc_inv Q (procs s) \<and> thread_inv Q (threads s) \<and> msg_inv Q (msgs s)"

lemmas kernel_ok_parts = kernel_ok_def lists_ok_def

section \<open>List operations on the kernel state\<close>

lemma typed_upd: "typed Q \<Longrightarrow> (\<And>n. n \<in> set ns \<Longrightarrow> member_ok h n) \<Longrightarrow> typed (Q(h := ns))"
  by (simp add: typed_def)

lemma typed_member: "typed Q \<Longrightarrow> is_head h \<Longrightarrow> n \<in> set (Q h) \<Longrightarrow> member_ok h n"
  by (simp add: typed_def)

text \<open>Members of a typed list, by the kind of the list.\<close>

lemma member_ok_cases:
  "is_proc_head h \<Longrightarrow> member_ok h n \<Longrightarrow> \<exists>p. n = P_siblings p \<and> 0 < p \<and> p < MAXPROC"
  "is_thread_head h \<Longrightarrow> member_ok h n \<Longrightarrow> \<exists>i. n = T_next (Thread i) \<and> i < MAXTHREAD"
  "is_sched_head h \<Longrightarrow> member_ok h n \<Longrightarrow> \<exists>t. n = T_sched t \<and> valid_tid t"
  "is_msg_head h \<Longrightarrow> member_ok h n \<Longrightarrow> \<exists>m. n = M_next m \<and> m < MAXMSG"
  by (cases "(h, n)" rule: member_ok.cases; cases h; auto)+

lemma with_links_add_tail:
  assumes "shape (lk s) heads Q" "is_head h" "not_linked n Q"
  shows "\<exists>l. with_links (list_add_tail n h) s = Some (s\<lparr>lk := l\<rparr>) \<and> shape l heads (Q(h := Q h @ [n]))"
  using list_add_tail_shape[of "lk s" heads Q h n] assms by (auto simp: with_links_def)

lemma with_links_add:
  assumes "shape (lk s) heads Q" "is_head h" "not_linked n Q"
  shows "\<exists>l. with_links (list_add n h) s = Some (s\<lparr>lk := l\<rparr>) \<and> shape l heads (Q(h := n # Q h))"
  using list_add_shape[of "lk s" heads Q h n] assms by (auto simp: with_links_def)

lemma with_links_del:
  assumes "shape (lk s) heads Q" "is_head h" "n \<in> set (Q h)"
  shows "\<exists>l. with_links (list_del n) s = Some (s\<lparr>lk := l\<rparr>) \<and>
             shape l heads (Q(h := remove1 n (Q h))) \<and> not_linked n (Q(h := remove1 n (Q h)))"
  using list_del_shape[of "lk s" heads Q h n] unlinked_node_after_del[of "lk s" heads Q h n] assms
  by (auto simp: with_links_def)

lemma not_linkedD: "not_linked n Q \<Longrightarrow> is_head h \<Longrightarrow> n \<notin> set (Q h)"
  by (simp add: unlinked_node_def)

section \<open>Invariants and list updates\<close>

text \<open>Each invariant reads some of the lists only; updates of the others pass it by.\<close>

lemma proc_inv_other [simp]:
  "proc_inv (Q(T_msgq t := x)) ps = proc_inv Q ps"
  "proc_inv (Q(T_wait4me t := x)) ps = proc_inv Q ps"
  "proc_inv (Q(Thread_h := x)) ps = proc_inv Q ps"
  "proc_inv (Q(Message_h := x)) ps = proc_inv Q ps"
  "proc_inv (Q(Readyq := x)) ps = proc_inv Q ps"
  "proc_inv (Q(Blockedq := x)) ps = proc_inv Q ps"
  "proc_inv (Q(T_wait4clock := x)) ps = proc_inv Q ps"
  by (simp_all add: proc_inv_def)

lemma thread_inv_other [simp]:
  "thread_inv (Q(P_siblings p := x)) ts = thread_inv Q ts"
  "thread_inv (Q(P_children p := x)) ts = thread_inv Q ts"
  "thread_inv (Q(T_wait4me t := x)) ts = thread_inv Q ts"
  "thread_inv (Q(Message_h := x)) ts = thread_inv Q ts"
  "thread_inv (Q(Readyq := x)) ts = thread_inv Q ts"
  "thread_inv (Q(Blockedq := x)) ts = thread_inv Q ts"
  "thread_inv (Q(T_wait4clock := x)) ts = thread_inv Q ts"
  by (simp_all add: thread_inv_def)

lemma msg_inv_other [simp]:
  "msg_inv (Q(P_siblings p := x)) ms = msg_inv Q ms"
  "msg_inv (Q(P_children p := x)) ms = msg_inv Q ms"
  "msg_inv (Q(P_threads p := x)) ms = msg_inv Q ms"
  "msg_inv (Q(T_wait4me t := x)) ms = msg_inv Q ms"
  "msg_inv (Q(Thread_h := x)) ms = msg_inv Q ms"
  "msg_inv (Q(Readyq := x)) ms = msg_inv Q ms"
  "msg_inv (Q(Blockedq := x)) ms = msg_inv Q ms"
  "msg_inv (Q(T_wait4clock := x)) ms = msg_inv Q ms"
  by (simp_all add: msg_inv_def)

lemma sched_list_other:
  assumes "is_sched_head h"
  shows "proc_inv (Q(h := x)) ps = proc_inv Q ps"
    and "thread_inv (Q(h := x)) ts = thread_inv Q ts"
    and "msg_inv (Q(h := x)) ms = msg_inv Q ms"
  using assms by (cases h; simp)+

lemma kernel_ok_shape: "kernel_ok Q s \<Longrightarrow> shape (lk s) heads Q"
  and kernel_ok_typed: "kernel_ok Q s \<Longrightarrow> typed Q"
  and kernel_ok_procs: "kernel_ok Q s \<Longrightarrow> proc_inv Q (procs s)"
  and kernel_ok_threads: "kernel_ok Q s \<Longrightarrow> thread_inv Q (threads s)"
  and kernel_ok_msgs: "kernel_ok Q s \<Longrightarrow> msg_inv Q (msgs s)"
  by (simp_all add: kernel_ok_parts)

lemmas kernel_okD = kernel_ok_shape kernel_ok_typed kernel_ok_procs kernel_ok_threads kernel_ok_msgs

lemma kernel_okI:
  "shape (lk s) heads Q \<Longrightarrow> typed Q \<Longrightarrow> proc_inv Q (procs s) \<Longrightarrow> thread_inv Q (threads s) \<Longrightarrow>
   msg_inv Q (msgs s) \<Longrightarrow> kernel_ok Q s"
  by (simp add: kernel_ok_parts)

lemma kernel_ok_unique: "kernel_ok Q s \<Longrightarrow> kernel_ok Q' s \<Longrightarrow> is_head h \<Longrightarrow> Q h = Q' h"
  by (rule shape_unique[OF kernel_ok_shape kernel_ok_shape]) simp_all

text \<open>The invariants do not read the other fields of the state.\<close>

lemma kernel_ok_other [simp]:
  "kernel_ok Q (s\<lparr>current_thread := x_0\<rparr>) = kernel_ok Q s"
  "kernel_ok Q (s\<lparr>thread_count := x_1\<rparr>) = kernel_ok Q s"
  "kernel_ok Q (s\<lparr>soft_block_count := x_2\<rparr>) = kernel_ok Q s"
  "kernel_ok Q (s\<lparr>is_idle := x_3\<rparr>) = kernel_ok Q s"
  "kernel_ok Q (s\<lparr>state_init_n := x_4\<rparr>) = kernel_ok Q s"
  "kernel_ok Q (s\<lparr>SSI := x_5\<rparr>) = kernel_ok Q s"
  "kernel_ok Q (s\<lparr>soft_blocked_thread := x_6\<rparr>) = kernel_ok Q s"
  "kernel_ok Q (s\<lparr>pseudoclock := x_7\<rparr>) = kernel_ok Q s"
  "kernel_ok Q (s\<lparr>timeSliceLeft := x_8\<rparr>) = kernel_ok Q s"
  "kernel_ok Q (s\<lparr>clockPerTimeslice := x_9\<rparr>) = kernel_ok Q s"
  "kernel_ok Q (s\<lparr>mem := x_10\<rparr>) = kernel_ok Q s"
  "kernel_ok Q (s\<lparr>SYSBK_OLDAREA := x_11\<rparr>) = kernel_ok Q s"
  "kernel_ok Q (s\<lparr>PGMTRAP_OLDAREA := x_12\<rparr>) = kernel_ok Q s"
  "kernel_ok Q (s\<lparr>TLB_OLDAREA := x_13\<rparr>) = kernel_ok Q s"
  "kernel_ok Q (s\<lparr>INT_OLDAREA := x_14\<rparr>) = kernel_ok Q s"
  "kernel_ok Q (s\<lparr>SYSBK_NEWAREA := x_15\<rparr>) = kernel_ok Q s"
  "kernel_ok Q (s\<lparr>PGMTRAP_NEWAREA := x_16\<rparr>) = kernel_ok Q s"
  "kernel_ok Q (s\<lparr>TLB_NEWAREA := x_17\<rparr>) = kernel_ok Q s"
  "kernel_ok Q (s\<lparr>INT_NEWAREA := x_18\<rparr>) = kernel_ok Q s"
  "kernel_ok Q (s\<lparr>TIMER := x_19\<rparr>) = kernel_ok Q s"
  "kernel_ok Q (s\<lparr>STATUS := x_20\<rparr>) = kernel_ok Q s"
  by (simp_all add: kernel_ok_parts)

text \<open>
  The contents of a list as a function of the state alone, computed by the walk of
  \<open>list_for_each\<close>; on a state that satisfies the invariants it is \<open>Q\<close>.
\<close>

definition contents :: "kstate \<Rightarrow> queues" where
  "contents s h = (case list_for_each h (lk s) of None \<Rightarrow> [] | Some ns \<Rightarrow> ns)"

lemma contents_eq: "kernel_ok Q s \<Longrightarrow> is_head h \<Longrightarrow> contents s h = Q h"
  by (simp add: contents_def shape_for_each[OF kernel_ok_shape])

text \<open>The invariants as rules.\<close>

lemma proc_inv_rules:
  assumes "proc_inv Q ps"
  shows proc_inv_root: "p_parent (ps 0) = None"
    and proc_inv_range: "p_parent (ps c) = Some p \<Longrightarrow> 0 < c \<and> c < MAXPROC"
    and proc_inv_parent: "p_parent (ps c) = Some p \<Longrightarrow> p < MAXPROC \<and> P_siblings c \<in> set (Q (P_children p))"
    and proc_inv_free: "0 < c \<Longrightarrow> c < MAXPROC \<Longrightarrow> p_parent (ps c) = None \<Longrightarrow>
      P_siblings c \<in> set (Q (P_siblings 0)) \<and> Q (P_children c) = [] \<and> Q (P_threads c) = []"
    and proc_inv_acyclic: "acyclic (parent_rel ps)"
proof -
  show range: "0 < c \<and> c < MAXPROC" if "p_parent (ps c) = Some p" for c p
    using assms that unfolding proc_inv_def by (metis gr0I linorder_not_less option.distinct(1))
  show "p < MAXPROC \<and> P_siblings c \<in> set (Q (P_children p))" if "p_parent (ps c) = Some p"
    using assms that range[OF that] unfolding proc_inv_def by blast
qed (use assms in \<open>simp_all add: proc_inv_def\<close>)

lemma thread_inv_rules:
  assumes "thread_inv Q ts"
  shows thread_inv_SSI: "t_pcb (ts SSI_thread) = None" "t_status (ts SSI_thread) \<noteq> T_STATUS_NONE"
    and thread_inv_free: "i < MAXTHREAD \<Longrightarrow> t_pcb (ts (Thread i)) = None \<Longrightarrow>
      T_next (Thread i) \<in> set (Q Thread_h) \<and> t_status (ts (Thread i)) = T_STATUS_NONE \<and>
      Q (T_msgq (Thread i)) = []"
    and thread_inv_used: "i < MAXTHREAD \<Longrightarrow> t_pcb (ts (Thread i)) = Some p \<Longrightarrow>
      p < MAXPROC \<and> T_next (Thread i) \<in> set (Q (P_threads p)) \<and> t_status (ts (Thread i)) \<noteq> T_STATUS_NONE"
  using assms by (simp_all add: thread_inv_def)

lemma msg_inv_rules:
  assumes "msg_inv Q ms"
  shows msg_inv_free: "m < MAXMSG \<Longrightarrow> m_sender (ms m) = None \<Longrightarrow> M_next m \<in> set (Q Message_h)"
    and msg_inv_used: "m < MAXMSG \<Longrightarrow> m_sender (ms m) = Some t \<Longrightarrow>
      \<exists>u. valid_tid u \<and> M_next m \<in> set (Q (T_msgq u))"
  using assms by (simp_all add: msg_inv_def)

lemma kernel_ok_cong:
  assumes ok: "kernel_ok Q s" and eq: "\<And>h. is_head h \<Longrightarrow> Q' h = Q h"
  shows "kernel_ok Q' s"
proof (rule kernel_okI)
  show "shape (lk s) heads Q'"
    by (rule shape_cong_Q[OF kernel_ok_shape[OF ok]]) (simp add: eq)
  show "typed Q'"
    using kernel_ok_typed[OF ok] eq by (auto simp: typed_def)
  show "proc_inv Q' (procs s)"
    using kernel_ok_procs[OF ok] unfolding proc_inv_def by (simp add: eq)
  show "thread_inv Q' (threads s)"
    using kernel_ok_threads[OF ok] unfolding thread_inv_def by (simp add: eq)
  have "\<exists>t. valid_tid t \<and> M_next m \<in> set (Q' (T_msgq t))" if "m < MAXMSG" "m_sender (msgs s m) = Some u" for m u
    using msg_inv_used[OF kernel_ok_msgs[OF ok] that] eq by (metis is_head.simps(4))
  then show "msg_inv Q' (msgs s)"
    using kernel_ok_msgs[OF ok] eq by (auto simp: msg_inv_def)
qed

definition kernel_wf :: "kstate \<Rightarrow> bool" where
  "kernel_wf s \<longleftrightarrow> kernel_ok (contents s) s"

lemma kernel_ok_wf:
  assumes "kernel_ok Q s"
  shows "kernel_wf s"
  unfolding kernel_wf_def using assms contents_eq[OF assms] by (rule kernel_ok_cong)

section \<open>Reading the invariants\<close>

lemma in_one_list:
  "kernel_ok Q s \<Longrightarrow> is_head h \<Longrightarrow> is_head k \<Longrightarrow> n \<in> set (Q h) \<Longrightarrow> n \<in> set (Q k) \<Longrightarrow> h = k"
  using shape_unique_list[OF kernel_ok_shape] by blast

lemma member_type: "kernel_ok Q s \<Longrightarrow> is_head h \<Longrightarrow> n \<in> set (Q h) \<Longrightarrow> member_ok h n"
  using typed_member[OF kernel_ok_typed] .

lemma proc_free_iff:
  assumes ok: "kernel_ok Q s" and c: "0 < c" "c < MAXPROC"
  shows "P_siblings c \<in> set (Q (P_siblings 0)) \<longleftrightarrow> p_parent (procs s c) = None"
proof (cases "p_parent (procs s c)")
  case None
  with proc_inv_free[OF kernel_ok_procs[OF ok] c] show ?thesis by simp
next
  case (Some p)
  with proc_inv_parent[OF kernel_ok_procs[OF ok]]
  have "p < MAXPROC" "P_siblings c \<in> set (Q (P_children p))" by simp_all
  with in_one_list[OF ok, of "P_siblings 0" "P_children p" "P_siblings c"] Some
  show ?thesis by auto
qed

lemma proc_child_iff:
  assumes ok: "kernel_ok Q s" and p: "p < MAXPROC"
  shows "P_siblings c \<in> set (Q (P_children p)) \<longleftrightarrow> p_parent (procs s c) = Some p"
proof
  assume c: "P_siblings c \<in> set (Q (P_children p))"
  have range: "0 < c" "c < MAXPROC" using member_type[OF ok _ c] p by simp_all
  show "p_parent (procs s c) = Some p"
  proof (cases "p_parent (procs s c)")
    case None
    with proc_free_iff[OF ok range] in_one_list[OF ok _ _ c, of "P_siblings 0"] p show ?thesis by simp
  next
    case (Some q)
    with proc_inv_parent[OF kernel_ok_procs[OF ok] Some] in_one_list[OF ok _ _ c, of "P_children q"] p
    show ?thesis by simp
  qed
next
  assume "p_parent (procs s c) = Some p"
  with proc_inv_parent[OF kernel_ok_procs[OF ok]] show "P_siblings c \<in> set (Q (P_children p))" by simp
qed

lemma thread_free_iff:
  assumes ok: "kernel_ok Q s" and i: "i < MAXTHREAD"
  shows "T_next (Thread i) \<in> set (Q Thread_h) \<longleftrightarrow> t_pcb (threads s (Thread i)) = None"
proof (cases "t_pcb (threads s (Thread i))")
  case None
  with thread_inv_free[OF kernel_ok_threads[OF ok] i] show ?thesis by simp
next
  case (Some p)
  with thread_inv_used[OF kernel_ok_threads[OF ok] i]
  have "p < MAXPROC" "T_next (Thread i) \<in> set (Q (P_threads p))" by simp_all
  with in_one_list[OF ok, of Thread_h "P_threads p" "T_next (Thread i)"] Some show ?thesis by auto
qed

lemma thread_of_iff:
  assumes ok: "kernel_ok Q s" and p: "p < MAXPROC" and t: "valid_tid t"
  shows "T_next t \<in> set (Q (P_threads p)) \<longleftrightarrow> t_pcb (threads s t) = Some p"
proof (cases t)
  case SSI_thread
  with thread_inv_SSI[OF kernel_ok_threads[OF ok]] member_type[OF ok, of "P_threads p" "T_next t"] p
  show ?thesis by auto
next
  case (Thread i)
  with t have i: "i < MAXTHREAD" by simp
  show ?thesis
  proof (cases "t_pcb (threads s t)")
    case None
    then have "T_next t \<in> set (Q Thread_h)" using thread_free_iff[OF ok i] Thread by simp
    with None in_one_list[OF ok, of Thread_h "P_threads p" "T_next t"] p show ?thesis by auto
  next
    case (Some q)
    with thread_inv_used[OF kernel_ok_threads[OF ok] i] Thread
    have "q < MAXPROC" "T_next t \<in> set (Q (P_threads q))" by simp_all
    with Some in_one_list[OF ok, of "P_threads q" "P_threads p" "T_next t"] p show ?thesis by auto
  qed
qed

lemma msg_free_iff:
  assumes ok: "kernel_ok Q s" and m: "m < MAXMSG"
  shows "M_next m \<in> set (Q Message_h) \<longleftrightarrow> m_sender (msgs s m) = None"
proof (cases "m_sender (msgs s m)")
  case None
  with msg_inv_free[OF kernel_ok_msgs[OF ok] m] show ?thesis by simp
next
  case (Some t)
  with msg_inv_used[OF kernel_ok_msgs[OF ok] m]
  obtain u where "valid_tid u" "M_next m \<in> set (Q (T_msgq u))" by auto
  with in_one_list[OF ok, of Message_h "T_msgq u" "M_next m"] Some show ?thesis by auto
qed

text \<open>Changes of a thread that keep its process and whether it is free.\<close>

lemma kernel_ok_thread_upd:
  assumes "kernel_ok Q s" "t_pcb x = t_pcb (threads s t)"
    "t_status x = T_STATUS_NONE \<longleftrightarrow> t_status (threads s t) = T_STATUS_NONE"
  shows "kernel_ok Q (s\<lparr>threads := (threads s)(t := x)\<rparr>)"
  using assms by (auto simp: kernel_ok_parts thread_inv_def)

lemma thread_status_none_iff:
  assumes ok: "kernel_ok Q s" and t: "valid_tid t"
  shows "t_status (threads s t) = T_STATUS_NONE \<longleftrightarrow> t \<noteq> SSI_thread \<and> t_pcb (threads s t) = None"
proof (cases t)
  case SSI_thread
  with thread_inv_SSI[OF kernel_ok_threads[OF ok]] show ?thesis by simp
next
  case (Thread i)
  with t have "i < MAXTHREAD" by simp
  with thread_inv_free[OF kernel_ok_threads[OF ok]] thread_inv_used[OF kernel_ok_threads[OF ok]] Thread
  show ?thesis by (cases "t_pcb (threads s t)") auto
qed

end
