(* ===== verification/Contracts.thy ===== *)
theory Contracts imports Prelude begin

text \<open>
  The interfaces between the tables of \<open>mikabooq.c\<close> and their clients, as locales: a pool of
  descriptors, a queue and a mailbox. Each states what an operation promises in terms of an abstract
  value of the state; what clients make of several calls in a row is proved here once. The theories
  \<open>Processes\<close>, \<open>Threads\<close> and \<open>Messages\<close> interpret them on the operations of the kernel.
\<close>

section \<open>Calling an operation several times\<close>

text \<open>Allocate up to \<open>n\<close> times, until the operation returns NULL.\<close>

fun alloc_many :: "('s \<Rightarrow> ('a option \<times> 's) option) \<Rightarrow> nat \<Rightarrow> 's \<Rightarrow> ('a list \<times> 's) option" where
  "alloc_many alloc 0 s = Some ([], s)"
| "alloc_many alloc (Suc n) s = do {
     (x, s) \<leftarrow> alloc s;
     (case x of
        None \<Rightarrow> Some ([], s)
      | Some y \<Rightarrow> do { (ys, s) \<leftarrow> alloc_many alloc n s; Some (y # ys, s) })
   }"

text \<open>Take up to \<open>n\<close> elements out of a queue, until the operation returns NULL.\<close>

abbreviation take_many :: "('s \<Rightarrow> ('a option \<times> 's) option) \<Rightarrow> nat \<Rightarrow> 's \<Rightarrow> ('a list \<times> 's) option" where
  "take_many \<equiv> alloc_many"

section \<open>A pool of descriptors\<close>

locale pool =
  fixes inv :: "'s \<Rightarrow> bool" and unused :: "'s \<Rightarrow> nat" and alloc :: "'s \<Rightarrow> ('a option \<times> 's) option"
  assumes alloc_none: "inv s \<Longrightarrow> unused s = 0 \<Longrightarrow> alloc s = Some (None, s)"
    and alloc_some: "inv s \<Longrightarrow> unused s = Suc n \<Longrightarrow> \<exists>x s'. alloc s = Some (Some x, s') \<and> inv s' \<and> unused s' = n"
begin

lemma alloc_many_length:
  "inv s \<Longrightarrow> \<exists>xs s'. alloc_many alloc n s = Some (xs, s') \<and> inv s' \<and>
     length xs = min n (unused s) \<and> unused s' = unused s - n"
proof (induction n arbitrary: s)
  case 0
  then show ?case by simp
next
  case (Suc n)
  show ?case
  proof (cases "unused s")
    case 0
    with alloc_none[OF Suc.prems] Suc.prems show ?thesis by simp
  next
    case (Suc m)
    obtain x s1 where "alloc s = Some (Some x, s1)" "inv s1" "unused s1 = m" using alloc_some[OF Suc.prems Suc] by blast
    with Suc.IH[of s1] Suc show ?thesis by auto
  qed
qed

end

text \<open>The descriptors are told apart: what is allocated was not in use.\<close>

locale identified_pool = pool inv unused alloc
  for inv :: "'s \<Rightarrow> bool" and unused :: "'s \<Rightarrow> nat" and alloc :: "'s \<Rightarrow> ('a option \<times> 's) option" +
  fixes used :: "'s \<Rightarrow> 'a set"
  assumes alloc_fresh: "inv s \<Longrightarrow> alloc s = Some (Some x, s') \<Longrightarrow> x \<notin> used s \<and> used s' = insert x (used s)"
begin

lemma alloc_many_distinct:
  "inv s \<Longrightarrow> alloc_many alloc n s = Some (xs, s') \<Longrightarrow>
   distinct xs \<and> set xs \<inter> used s = {} \<and> used s' = used s \<union> set xs"
proof (induction n arbitrary: s xs)
  case 0
  then show ?case by simp
next
  case (Suc n)
  show ?case
  proof (cases "unused s")
    case 0
    with alloc_none[OF Suc.prems(1)] Suc.prems show ?thesis by auto
  next
    case (Suc m)
    obtain x s1 where x: "alloc s = Some (Some x, s1)" "inv s1" using alloc_some[OF Suc.prems(1) Suc] by blast
    obtain ys where ys: "alloc_many alloc n s1 = Some (ys, s')" "xs = x # ys"
      using Suc.prems(2) x(1) by (auto split: Option.bind_splits)
    from Suc.IH[OF x(2) ys(1)] alloc_fresh[OF Suc.prems(1) x(1)] ys(2) show ?thesis by auto
  qed
qed

text \<open>Exactly the unused descriptors can be allocated, each of them once; then the answer is NULL.\<close>

lemma exhaustion:
  assumes "inv s"
  shows "\<exists>xs s'. alloc_many alloc (unused s) s = Some (xs, s') \<and> inv s' \<and> length xs = unused s \<and> distinct xs \<and>
    set xs \<inter> used s = {} \<and> used s' = used s \<union> set xs \<and> alloc s' = Some (None, s')"
  using alloc_many_length[OF assms, of "unused s"] alloc_many_distinct[OF assms, of "unused s"] alloc_none by fastforce

end

section \<open>A queue\<close>

text \<open>\<open>items\<close> is what the queue holds; an element that \<open>idle\<close> accepts is in no queue and may be enqueued.\<close>

locale fifo =
  fixes inv :: "'s \<Rightarrow> bool" and items :: "'s \<Rightarrow> 'a list" and idle :: "'s \<Rightarrow> 'a \<Rightarrow> bool"
    and enq :: "'a \<Rightarrow> 's \<Rightarrow> 's option" and deq :: "'s \<Rightarrow> ('a option \<times> 's) option"
  assumes enq_law: "inv s \<Longrightarrow> idle s a \<Longrightarrow>
      \<exists>s'. enq a s = Some s' \<and> inv s' \<and> items s' = items s @ [a] \<and> (\<forall>b. b \<noteq> a \<longrightarrow> idle s b \<longrightarrow> idle s' b)"
    and deq_empty: "inv s \<Longrightarrow> items s = [] \<Longrightarrow> deq s = Some (None, s)"
    and deq_law: "inv s \<Longrightarrow> items s = a # as \<Longrightarrow>
      \<exists>s'. deq s = Some (Some a, s') \<and> inv s' \<and> items s' = as \<and> idle s' a \<and> (\<forall>b. idle s b \<longrightarrow> idle s' b)"
begin

lemma enqueue_all:
  "inv s \<Longrightarrow> distinct xs \<Longrightarrow> \<forall>x \<in> set xs. idle s x \<Longrightarrow>
   \<exists>s'. for_each enq xs s = Some s' \<and> inv s' \<and> items s' = items s @ xs"
proof (induction xs arbitrary: s)
  case Nil
  then show ?case by simp
next
  case (Cons x xs)
  obtain s1 where s1: "enq x s = Some s1" "inv s1" "items s1 = items s @ [x]" "\<forall>b. b \<noteq> x \<longrightarrow> idle s b \<longrightarrow> idle s1 b"
    using enq_law[of s x] Cons.prems by auto
  moreover have "\<forall>y \<in> set xs. idle s1 y" using s1(4) Cons.prems by auto
  ultimately show ?case using Cons.IH[of s1] Cons.prems by auto
qed

lemma take_all:
  "inv s \<Longrightarrow> \<exists>s'. take_many deq n s = Some (take n (items s), s') \<and> inv s' \<and> items s' = drop n (items s) \<and>
     (\<forall>b. idle s b \<or> b \<in> set (take n (items s)) \<longrightarrow> idle s' b)"
proof (induction n arbitrary: s)
  case 0
  then show ?case by simp
next
  case (Suc n)
  show ?case
  proof (cases "items s")
    case Nil
    with deq_empty[OF Suc.prems] Suc.prems show ?thesis by simp
  next
    case (Cons a as)
    obtain s1 where "deq s = Some (Some a, s1)" "inv s1" "items s1 = as" "idle s1 a" "\<forall>b. idle s b \<longrightarrow> idle s1 b"
      using deq_law[OF Suc.prems Cons] by blast
    with Suc.IH[of s1] Cons show ?thesis by auto
  qed
qed

text \<open>What is put in comes out in the same order, after what was there before.\<close>

lemma first_in_first_out:
  assumes "inv s" "distinct xs" "\<forall>x \<in> set xs. idle s x"
  shows "\<exists>s1 s2. for_each enq xs s = Some s1 \<and>
    take_many deq (length (items s) + length xs) s1 = Some (items s @ xs, s2) \<and> inv s2 \<and> items s2 = [] \<and>
    (\<forall>x \<in> set xs. idle s2 x)"
proof -
  obtain s1 where s1: "for_each enq xs s = Some s1" "inv s1" "items s1 = items s @ xs"
    using enqueue_all[OF assms] by blast
  from take_all[OF s1(2), of "length (items s) + length xs"] s1 show ?thesis by auto
qed

end

section \<open>A mailbox\<close>

text \<open>
  \<open>box\<close> is the list of pending letters (sender and payload), oldest first; \<open>get u\<close> takes the oldest
  letter of the sender \<open>u\<close> and returns its payload, \<open>room\<close> is the number of letters that still fit.
\<close>

locale letterbox =
  fixes inv :: "'s \<Rightarrow> bool" and room :: "'s \<Rightarrow> nat" and box :: "'s \<Rightarrow> ('t \<times> 'v) list" and sender_ok :: "'t \<Rightarrow> bool"
    and put :: "'t \<Rightarrow> 'v \<Rightarrow> 's \<Rightarrow> (bool \<times> 's) option" and get :: "'t \<Rightarrow> 's \<Rightarrow> ('v option \<times> 's) option"
  assumes put_full: "inv s \<Longrightarrow> room s = 0 \<Longrightarrow> sender_ok u \<Longrightarrow> put u v s = Some (False, s)"
    and put_law: "inv s \<Longrightarrow> room s = Suc n \<Longrightarrow> sender_ok u \<Longrightarrow>
      \<exists>s'. put u v s = Some (True, s') \<and> inv s' \<and> room s' = n \<and> box s' = box s @ [(u, v)]"
    and get_none: "inv s \<Longrightarrow> sender_ok u \<Longrightarrow> find (\<lambda>l. fst l = u) (box s) = None \<Longrightarrow> get u s = Some (None, s)"
    and get_law: "inv s \<Longrightarrow> sender_ok u \<Longrightarrow> find (\<lambda>l. fst l = u) (box s) = Some (u, v) \<Longrightarrow>
      \<exists>s'. get u s = Some (Some v, s') \<and> inv s' \<and> box s' = remove_first (\<lambda>l. fst l = u) (box s) \<and> room s' = Suc (room s)"
begin

lemma put_all:
  "inv s \<Longrightarrow> length ls \<le> room s \<Longrightarrow> \<forall>l \<in> set ls. sender_ok (fst l) \<Longrightarrow>
   \<exists>s'. for_each (\<lambda>(u, v) s. map_option snd (put u v s)) ls s = Some s' \<and> inv s' \<and> box s' = box s @ ls"
proof (induction ls arbitrary: s)
  case Nil
  then show ?case by simp
next
  case (Cons l ls)
  obtain u v where l: "l = (u, v)" by (cases l)
  then obtain n where n: "room s = Suc n" using Cons.prems(2) by (cases "room s") auto
  obtain s1 where s1: "put u v s = Some (True, s1)" "inv s1" "room s1 = n" "box s1 = box s @ [(u, v)]"
    using put_law[OF Cons.prems(1) n, of u v] Cons.prems(3) l by auto
  then show ?case using Cons.IH[of s1] Cons.prems l n by auto
qed

lemma remove_first_filter:
  "find P xs = Some x \<Longrightarrow> filter P xs = x # filter P (remove_first P xs)"
  "filter (\<lambda>y. \<not> P y) (remove_first P xs) = filter (\<lambda>y. \<not> P y) xs"
  by (induction xs) (auto split: if_splits)

text \<open>The letters of one sender are taken in the order in which they were put; the others stay.\<close>

lemma take_letters:
  "inv s \<Longrightarrow> sender_ok u \<Longrightarrow>
   \<exists>s'. take_many (get u) n s = Some (take n (map snd (filter (\<lambda>l. fst l = u) (box s))), s') \<and> inv s' \<and>
     filter (\<lambda>l. fst l \<noteq> u) (box s') = filter (\<lambda>l. fst l \<noteq> u) (box s)"
proof (induction n arbitrary: s)
  case 0
  then show ?case by auto
next
  case (Suc n)
  show ?case
  proof (cases "find (\<lambda>l. fst l = u) (box s)")
    case None
    then have "filter (\<lambda>l. fst l = u) (box s) = []" by (auto simp: find_None_iff filter_empty_conv)
    with get_none[OF Suc.prems None] Suc.prems(1) show ?thesis by simp
  next
    case (Some l)
    then obtain v where v: "l = (u, v)" using find_SomeD[OF Some] by (cases l) auto
    obtain s1 where s1: "get u s = Some (Some v, s1)" "inv s1" "box s1 = remove_first (\<lambda>l. fst l = u) (box s)"
      using get_law[OF Suc.prems] Some v by blast
    with Suc.IH[OF s1(2) Suc.prems(2)] remove_first_filter[of "\<lambda>l. fst l = u" "box s"] Some v show ?thesis by auto
  qed
qed

lemma in_order:
  assumes "inv s" "length ls \<le> room s" "\<forall>l \<in> set ls. sender_ok (fst l)" "sender_ok u"
    and "filter (\<lambda>l. fst l = u) (box s) = []"
  shows "\<exists>s1 s2. for_each (\<lambda>(u, v) s. map_option snd (put u v s)) ls s = Some s1 \<and>
    take_many (get u) (length ls) s1 = Some (map snd (filter (\<lambda>l. fst l = u) ls), s2) \<and> inv s2"
proof -
  obtain s1 where s1: "for_each (\<lambda>(u, v) s. map_option snd (put u v s)) ls s = Some s1" "inv s1" "box s1 = box s @ ls"
    using put_all[OF assms(1-3)] by blast
  have "take (length ls) (map snd (filter (\<lambda>l. fst l = u) ls)) = map snd (filter (\<lambda>l. fst l = u) ls)"
    by simp
  with take_letters[OF s1(2) assms(4), of "length ls"] s1(1,3) assms(5) show ?thesis by auto
qed

end

end
