(* ===== verification/Processes.thy ===== *)
theory Processes imports Kernel Contracts begin

text \<open>
  Process descriptors: the first part of \<open>src/src/mikabooq.c\<close>. The free descriptors are linked
  through \<open>p_siblings\<close> with the root's \<open>p_siblings\<close> as sentinel; the children of a process through
  \<open>p_siblings\<close> with the parent's \<open>p_children\<close> as sentinel.
\<close>

section \<open>Definitions\<close>

definition clean_mgr :: "pid \<Rightarrow> kstate \<Rightarrow> kstate" where
  "clean_mgr p = upd_proc p (\<lambda>x. x\<lparr>sys_mgr := None, tlb_mgr := None, pgm_mgr := None\<rparr>)"

definition init_head :: "node \<Rightarrow> kstate \<Rightarrow> kstate" where
  "init_head n s = s\<lparr>lk := init_list_head n (lk s)\<rparr>"

text \<open>The body of the loop of \<open>proc_init\<close>.\<close>

definition proc_init_body :: "pid \<Rightarrow> kstate \<Rightarrow> kstate option" where
  "proc_init_body i s = do {
     s \<leftarrow> with_links (list_add_tail (P_siblings i) (P_siblings 0)) s;
     let s = upd_proc i (\<lambda>p. p\<lparr>p_parent := None\<rparr>) s;
     let s = init_head (P_threads i) s;
     let s = init_head (P_children i) s;
     Some (clean_mgr i s)
   }"

definition proc_init :: "kstate \<Rightarrow> (pid \<times> kstate) option" where
  "proc_init s = do {
     let s = upd_proc 0 (\<lambda>p. p\<lparr>p_parent := None\<rparr>) s;
     let s = init_head (P_threads 0) s;
     let s = init_head (P_children 0) s;
     let s = init_head (P_siblings 0) s;
     let s = clean_mgr 0 s;
     s \<leftarrow> for_each proc_init_body [1..<MAXPROC] s;
     Some (0, s)
   }"

definition proc_enqueue :: "pid \<Rightarrow> node \<Rightarrow> kstate \<Rightarrow> kstate option" where
  "proc_enqueue new queue = with_links (list_add_tail (P_siblings new) queue)"

definition proc_dequeue :: "node \<Rightarrow> kstate \<Rightarrow> (pid option \<times> kstate) option" where
  "proc_dequeue queue = dequeue pcb_of_siblings queue"

definition proc_alloc :: "pid option \<Rightarrow> kstate \<Rightarrow> (pid option \<times> kstate) option" where
  "proc_alloc parent s =
     (case (list_next (P_siblings 0) (lk s), parent) of
        (Some new_space, Some p) \<Rightarrow> do {
          s \<leftarrow> with_links (list_del new_space) s;
          new_proc \<leftarrow> pcb_of_siblings new_space;
          let s = upd_proc new_proc (\<lambda>x. x\<lparr>p_parent := Some p\<rparr>) s;
          s \<leftarrow> proc_enqueue new_proc (P_children p) s;
          Some (Some new_proc, s) }
      | _ \<Rightarrow> Some (None, s))"

definition proc_delete :: "pid \<Rightarrow> kstate \<Rightarrow> (int \<times> kstate) option" where
  "proc_delete oldproc s =
     (if p_parent (procs s oldproc) = None \<or>
         \<not> list_empty (P_children oldproc) (lk s) \<or>
         \<not> list_empty (P_threads oldproc) (lk s)
      then Some (-1, s)
      else do {
        let s = upd_proc oldproc (\<lambda>p. p\<lparr>p_parent := None\<rparr>) s;
        s \<leftarrow> with_links (list_del (P_siblings oldproc)) s;
        s \<leftarrow> with_links (list_add_tail (P_siblings oldproc) (P_siblings 0)) s;
        Some (0, clean_mgr oldproc s) })"

definition proc_firstchild :: "pid \<Rightarrow> kstate \<Rightarrow> pid option option" where
  "proc_firstchild proc = qhead pcb_of_siblings (P_children proc)"

definition proc_firstthread :: "pid \<Rightarrow> kstate \<Rightarrow> tid option option" where
  "proc_firstthread proc = qhead tcb_of_next (P_threads proc)"

section \<open>Live processes\<close>

definition proc_alive :: "kstate \<Rightarrow> pid \<Rightarrow> bool" where
  "proc_alive s p \<longleftrightarrow> p = 0 \<or> p_parent (procs s p) \<noteq> None"

lemma proc_alive_lt: "kernel_ok Q s \<Longrightarrow> proc_alive s p \<Longrightarrow> p < MAXPROC"
  using proc_inv_range[OF kernel_ok_procs, of Q s p]
  by (auto simp: proc_alive_def MAXPROC_def)

lemma free_list_procs:
  assumes ok: "kernel_ok Q s" and c: "P_siblings c \<in> set (Q (P_siblings 0))"
  shows "0 < c" "c < MAXPROC" "p_parent (procs s c) = None" "\<not> proc_alive s c"
    "Q (P_children c) = []" "Q (P_threads c) = []"
proof -
  show range: "0 < c" "c < MAXPROC" using member_type[OF ok _ c] by simp_all
  with c proc_free_iff[OF ok range] show free: "p_parent (procs s c) = None" by simp
  from range free show "\<not> proc_alive s c" by (simp add: proc_alive_def)
  from proc_inv_free[OF kernel_ok_procs[OF ok] range free]
  show "Q (P_children c) = []" "Q (P_threads c) = []" by simp_all
qed

text \<open>Every process with threads or children is alive.\<close>

lemma thread_proc_alive:
  assumes ok: "kernel_ok Q s" and p: "p < MAXPROC" and t: "Q (P_threads p) \<noteq> [] \<or> Q (P_children p) \<noteq> []"
  shows "proc_alive s p"
proof (rule ccontr)
  assume "\<not> proc_alive s p"
  then have "0 < p" "p_parent (procs s p) = None" by (simp_all add: proc_alive_def)
  with proc_inv_free[OF kernel_ok_procs[OF ok] \<open>0 < p\<close> p] t show False by simp
qed

section \<open>The parent relation\<close>

lemma parent_rel_set:
  "p_parent (ps c) = None \<Longrightarrow>
   parent_rel (ps(c := (ps c)\<lparr>p_parent := Some p\<rparr>)) = insert (c, p) (parent_rel ps)"
  by (auto simp: parent_rel_def split: if_splits)

lemma parent_rel_clear:
  "p_parent x = None \<Longrightarrow> parent_rel (ps(c := x)) \<subseteq> parent_rel ps"
  by (auto simp: parent_rel_def split: if_splits)

text \<open>Attaching a childless process keeps the relation acyclic.\<close>

lemma parent_rel_attach_acyclic:
  assumes "acyclic (parent_rel ps)" and "p_parent (ps c) = None" and "c \<noteq> p"
    and childless: "\<And>x. p_parent (ps x) \<noteq> Some c"
  shows "acyclic (parent_rel (ps(c := (ps c)\<lparr>p_parent := Some p\<rparr>)))"
proof -
  have "(p, c) \<notin> (parent_rel ps)\<^sup>*"
  proof
    assume "(p, c) \<in> (parent_rel ps)\<^sup>*"
    then show False
      by (cases rule: rtranclE) (use \<open>c \<noteq> p\<close> childless in \<open>auto simp: parent_rel_def\<close>)
  qed
  with assms show ?thesis by (simp add: parent_rel_set acyclic_insert)
qed

section \<open>Functional correctness\<close>

lemma proc_firstchild_eq [queue_simps]:
  assumes ok: "kernel_ok Q s" and p: "p < MAXPROC"
  shows "proc_firstchild p s =
    Some (case Q (P_children p) of [] \<Rightarrow> None | n # _ \<Rightarrow> pcb_of_siblings n)"
proof (cases "Q (P_children p)")
  case Nil
  with shape_list_next[OF kernel_ok_shape[OF ok], of "P_children p"] p
  show ?thesis by (simp add: proc_firstchild_def queue_macros)
next
  case (Cons n ns)
  with member_type[OF ok, of "P_children p" n] p obtain c where "n = P_siblings c"
    using member_ok_cases(1)[of "P_children p" n] by auto
  with Cons shape_list_next[OF kernel_ok_shape[OF ok], of "P_children p"] p
  show ?thesis by (simp add: proc_firstchild_def queue_macros)
qed

lemma proc_firstthread_eq [queue_simps]:
  assumes ok: "kernel_ok Q s" and p: "p < MAXPROC"
  shows "proc_firstthread p s =
    Some (case Q (P_threads p) of [] \<Rightarrow> None | n # _ \<Rightarrow> tcb_of_next n)"
proof (cases "Q (P_threads p)")
  case Nil
  with shape_list_next[OF kernel_ok_shape[OF ok], of "P_threads p"] p
  show ?thesis by (simp add: proc_firstthread_def queue_macros)
next
  case (Cons n ns)
  with member_type[OF ok, of "P_threads p" n] p obtain c where "n = T_next c"
    using member_ok_cases(2)[of "P_threads p" n] by auto
  with Cons shape_list_next[OF kernel_ok_shape[OF ok], of "P_threads p"] p
  show ?thesis by (simp add: proc_firstthread_def queue_macros)
qed

lemma proc_alloc_fails:
  assumes ok: "kernel_ok Q s" and "parent = None \<or> Q (P_siblings 0) = []"
  shows "proc_alloc parent s = Some (None, s)"
  using assms(2) shape_list_next[OF kernel_ok_shape[OF ok], of "P_siblings 0"]
  by (auto simp: proc_alloc_def split: option.splits)

lemma proc_alloc_inv:
  assumes ok: "kernel_ok Q s" and alive: "proc_alive s p"
    and free: "Q (P_siblings 0) = P_siblings c # ns"
  shows "proc_inv (Q(P_siblings 0 := ns, P_children p := Q (P_children p) @ [P_siblings c]))
           ((procs s)(c := (procs s c)\<lparr>p_parent := Some p\<rparr>))"
proof -
  note c = free_list_procs[OF ok, of c, unfolded free, simplified]
  note inv = kernel_ok_procs[OF ok]
  have p: "p < MAXPROC" "p \<noteq> c" using proc_alive_lt[OF ok alive] c alive by auto
  have d: "distinct (P_siblings c # ns)"
    using shape_distinct[OF kernel_ok_shape[OF ok], of "P_siblings 0"] free by simp
  have childless: "p_parent (procs s x) \<noteq> Some c" for x
    using proc_inv_parent[OF inv, of x c] c by auto
  have free_x: "P_siblings x \<in> set ns \<and> Q (P_children x) = [] \<and> Q (P_threads x) = []"
    if "0 < x" "x < MAXPROC" "x \<noteq> c" "p_parent (procs s x) = None" for x
    using proc_inv_free[OF inv that(1,2,4)] that(3) free by auto
  have pNone: "p_parent (procs s p) = None \<Longrightarrow> p = 0" using alive by (simp add: proc_alive_def)
  show ?thesis
    unfolding proc_inv_def
  proof (intro conjI allI impI)
    show "p_parent (((procs s)(c := (procs s c)\<lparr>p_parent := Some p\<rparr>)) 0) = None"
      using c proc_inv_root[OF inv] by simp
    show "p_parent (((procs s)(c := (procs s c)\<lparr>p_parent := Some p\<rparr>)) x) = None" if "MAXPROC \<le> x" for x
      using c that proc_inv_range[OF inv, of x] by (cases "p_parent (procs s x)") auto
    show "acyclic (parent_rel ((procs s)(c := (procs s c)\<lparr>p_parent := Some p\<rparr>)))"
      using parent_rel_attach_acyclic[OF proc_inv_acyclic[OF inv] c(3)] p childless by auto
  next
    fix x assume x: "0 < x" "x < MAXPROC"
      "p_parent (((procs s)(c := (procs s c)\<lparr>p_parent := Some p\<rparr>)) x) = None"
    then have "x \<noteq> c" "p_parent (procs s x) = None" by (auto split: if_splits)
    moreover from this x pNone have "x \<noteq> p" by auto
    ultimately show
      "P_siblings x \<in> set ((Q(P_siblings 0 := ns, P_children p := Q (P_children p) @ [P_siblings c])) (P_siblings 0))"
      "(Q(P_siblings 0 := ns, P_children p := Q (P_children p) @ [P_siblings c])) (P_children x) = []"
      "(Q(P_siblings 0 := ns, P_children p := Q (P_children p) @ [P_siblings c])) (P_threads x) = []"
      using free_x[OF x(1,2)] by simp_all
  next
    fix x q assume x: "0 < x" "x < MAXPROC"
      "p_parent (((procs s)(c := (procs s c)\<lparr>p_parent := Some p\<rparr>)) x) = Some q"
    then show "q < MAXPROC"
      using p proc_inv_parent[OF inv, of x q] by (auto split: if_splits)
    show "P_siblings x \<in> set ((Q(P_siblings 0 := ns, P_children p := Q (P_children p) @ [P_siblings c])) (P_children q))"
      using x p proc_inv_parent[OF inv, of x q] by (auto split: if_splits)
  qed
qed

lemma proc_alloc_correct:
  assumes ok: "kernel_ok Q s" and alive: "proc_alive s p"
    and free: "Q (P_siblings 0) = P_siblings c # ns"
  shows "\<exists>s'. proc_alloc (Some p) s = Some (Some c, s') \<and>
    s' = s\<lparr>lk := lk s', procs := (procs s)(c := (procs s c)\<lparr>p_parent := Some p\<rparr>)\<rparr> \<and>
    kernel_ok (Q(P_siblings 0 := ns, P_children p := Q (P_children p) @ [P_siblings c])) s'"
proof -
  let ?Q1 = "Q(P_siblings 0 := ns)"
  have p: "p < MAXPROC" using proc_alive_lt[OF ok alive] .
  have c: "0 < c" "c < MAXPROC" using free_list_procs[OF ok, of c] free by simp_all
  have d: "distinct (P_siblings c # ns)"
    using shape_distinct[OF kernel_ok_shape[OF ok], of "P_siblings 0"] free by simp
  obtain l1 where l1: "with_links (list_del (P_siblings c)) s = Some (s\<lparr>lk := l1\<rparr>)"
    "shape l1 heads ?Q1" "not_linked (P_siblings c) ?Q1"
    using with_links_del[OF kernel_ok_shape[OF ok], of "P_siblings 0" "P_siblings c"] free by auto
  let ?s1 = "upd_proc c (\<lambda>x. x\<lparr>p_parent := Some p\<rparr>) (s\<lparr>lk := l1\<rparr>)"
  obtain l2 where l2: "with_links (list_add_tail (P_siblings c) (P_children p)) ?s1 = Some (?s1\<lparr>lk := l2\<rparr>)"
    "shape l2 heads (?Q1(P_children p := ?Q1 (P_children p) @ [P_siblings c]))"
    using with_links_add_tail[of ?s1 ?Q1 "P_children p" "P_siblings c"] l1 p by (auto simp: upd_defs)
  have nxt: "list_next (P_siblings 0) (lk s) = Some (P_siblings c)"
    using shape_list_next[OF kernel_ok_shape[OF ok], of "P_siblings 0"] free by simp
  have run: "proc_alloc (Some p) s = Some (Some c, ?s1\<lparr>lk := l2\<rparr>)"
    by (simp add: proc_alloc_def nxt proc_enqueue_def l1(1) l2(1))
  have typed1: "typed ?Q1"
    using typed_member[OF kernel_ok_typed[OF ok], of "P_siblings 0"] free
    by (intro typed_upd[OF kernel_ok_typed[OF ok]]) simp
  have "kernel_ok (Q(P_siblings 0 := ns, P_children p := Q (P_children p) @ [P_siblings c])) (?s1\<lparr>lk := l2\<rparr>)"
  proof (rule kernel_okI)
    show "typed (Q(P_siblings 0 := ns, P_children p := Q (P_children p) @ [P_siblings c]))"
      using typed_member[OF kernel_ok_typed[OF ok], of "P_children p"] p c
      by (intro typed_upd[OF typed1]) auto
    show "proc_inv (Q(P_siblings 0 := ns, P_children p := Q (P_children p) @ [P_siblings c]))
           (procs (?s1\<lparr>lk := l2\<rparr>))"
      using proc_alloc_inv[OF ok alive free] by (simp add: upd_defs)
  qed (use l2(2) kernel_okD[OF ok] in \<open>simp_all add: upd_defs\<close>)
  with run show ?thesis by (auto simp: upd_defs)
qed

section \<open>Deletion\<close>

text \<open>A descriptor in the free list: no parent, no managers.\<close>

definition free_pcb :: pcb_t where
  "free_pcb = \<lparr>p_parent = None, pgm_mgr = None, tlb_mgr = None, sys_mgr = None\<rparr>"

lemma free_pcb_eq:
  "x\<lparr>p_parent := None, sys_mgr := None, tlb_mgr := None, pgm_mgr := None\<rparr> = free_pcb"
  by (cases x) (simp add: free_pcb_def)

lemma proc_delete_fails:
  assumes ok: "kernel_ok Q s" and c: "c < MAXPROC"
    and "p_parent (procs s c) = None \<or> Q (P_children c) \<noteq> [] \<or> Q (P_threads c) \<noteq> []"
  shows "proc_delete c s = Some (-1, s)"
  using assms(3) c shape_list_empty[OF kernel_ok_shape[OF ok], of "P_children c"]
    shape_list_empty[OF kernel_ok_shape[OF ok], of "P_threads c"]
  by (auto simp: proc_delete_def)

lemma proc_delete_inv:
  assumes ok: "kernel_ok Q s" and par: "p_parent (procs s c) = Some p"
    and empty: "Q (P_children c) = []" "Q (P_threads c) = []" and x: "p_parent x = None"
  shows "proc_inv (Q(P_children p := remove1 (P_siblings c) (Q (P_children p)),
                     P_siblings 0 := Q (P_siblings 0) @ [P_siblings c])) ((procs s)(c := x))"
    (is "proc_inv ?Q' ?ps'")
proof -
  note inv = kernel_ok_procs[OF ok]
  have c: "0 < c" "c < MAXPROC" "p < MAXPROC" using proc_inv_range[OF inv par] proc_inv_parent[OF inv par] by auto
  show ?thesis
    unfolding proc_inv_def
  proof (intro conjI allI impI)
    show "p_parent (?ps' 0) = None" using c proc_inv_root[OF inv] by simp
    show "p_parent (?ps' y) = None" if "MAXPROC \<le> y" for y
      using c that proc_inv_range[OF inv, of y] by (cases "p_parent (procs s y)") auto
    show "acyclic (parent_rel ?ps')"
      by (rule acyclic_subset[OF proc_inv_acyclic[OF inv] parent_rel_clear[OF x]])
  next
    fix y assume y: "0 < y" "y < MAXPROC" "p_parent (?ps' y) = None"
    have "y = c \<or> (P_siblings y \<in> set (Q (P_siblings 0)) \<and> Q (P_children y) = [] \<and> Q (P_threads y) = [])"
      using y proc_inv_free[OF inv y(1,2)] by (auto split: if_splits)
    then show "P_siblings y \<in> set (?Q' (P_siblings 0))" "?Q' (P_children y) = []" "?Q' (P_threads y) = []"
      using empty by auto
  next
    fix y q assume y: "0 < y" "y < MAXPROC" "p_parent (?ps' y) = Some q"
    then have yq: "y \<noteq> c" "p_parent (procs s y) = Some q" using x by (auto split: if_splits)
    with proc_inv_parent[OF inv yq(2)] show "q < MAXPROC" "P_siblings y \<in> set (?Q' (P_children q))" by auto
  qed
qed

lemma proc_delete_correct:
  assumes ok: "kernel_ok Q s" and par: "p_parent (procs s c) = Some p"
    and empty: "Q (P_children c) = []" "Q (P_threads c) = []"
  shows "\<exists>s'. proc_delete c s = Some (0, s') \<and>
    s' = s\<lparr>lk := lk s', procs := (procs s)(c := free_pcb)\<rparr> \<and>
    kernel_ok (Q(P_children p := remove1 (P_siblings c) (Q (P_children p)),
                 P_siblings 0 := Q (P_siblings 0) @ [P_siblings c])) s'"
    (is "\<exists>s'. _ \<and> _ \<and> kernel_ok ?Q' s'")
proof -
  note inv = kernel_ok_procs[OF ok]
  have c: "0 < c" "c < MAXPROC" "p < MAXPROC" using proc_inv_range[OF inv par] proc_inv_parent[OF inv par] by auto
  let ?Q1 = "Q(P_children p := remove1 (P_siblings c) (Q (P_children p)))"
  let ?s0 = "upd_proc c (\<lambda>p. p\<lparr>p_parent := None\<rparr>) s"
  have sh0: "shape (lk ?s0) heads Q" using kernel_ok_shape[OF ok] by (simp add: upd_defs)
  have mem: "P_siblings c \<in> set (Q (P_children p))" using proc_inv_parent[OF inv par] by simp
  obtain l1 where l1: "with_links (list_del (P_siblings c)) ?s0 = Some (?s0\<lparr>lk := l1\<rparr>)"
    "shape l1 heads ?Q1" "not_linked (P_siblings c) ?Q1"
    using with_links_del[OF sh0, of "P_children p" "P_siblings c"] mem c by auto
  obtain l2 where l2: "with_links (list_add_tail (P_siblings c) (P_siblings 0)) (?s0\<lparr>lk := l1\<rparr>) = Some (?s0\<lparr>lk := l2\<rparr>)"
    "shape l2 heads (?Q1(P_siblings 0 := ?Q1 (P_siblings 0) @ [P_siblings c]))"
    using with_links_add_tail[of "?s0\<lparr>lk := l1\<rparr>" ?Q1 "P_siblings 0" "P_siblings c"] l1 by auto
  have ne: "list_empty (P_children c) (lk s)" "list_empty (P_threads c) (lk s)"
    using shape_list_empty[OF kernel_ok_shape[OF ok]] empty c by simp_all
  let ?s' = "clean_mgr c (?s0\<lparr>lk := l2\<rparr>)"
  have run: "proc_delete c s = Some (0, ?s')"
    by (simp add: proc_delete_def ne par l1(1) l2(1))
  have typed1: "typed ?Q1"
    using typed_member[OF kernel_ok_typed[OF ok], of "P_children p"] c
    by (intro typed_upd[OF kernel_ok_typed[OF ok]]) (auto dest: notin_set_remove1)
  have "kernel_ok ?Q' ?s'"
  proof (rule kernel_okI)
    show "typed ?Q'"
      using typed_member[OF typed1, of "P_siblings 0"] c by (intro typed_upd[OF typed1]) auto
    show "proc_inv ?Q' (procs ?s')"
      using proc_delete_inv[OF ok par empty] by (simp add: upd_defs clean_mgr_def)
  qed (use l2(2) kernel_okD[OF ok] in \<open>simp_all add: upd_defs clean_mgr_def\<close>)
  with run show ?thesis by (auto simp: upd_defs clean_mgr_def free_pcb_eq)
qed

section \<open>The process table is a pool of descriptors\<close>

definition procs_unused :: "kstate \<Rightarrow> nat" where
  "procs_unused s = length (contents s (P_siblings 0))"

definition procs_used :: "kstate \<Rightarrow> pid set" where
  "procs_used s = {c. p_parent (procs s c) \<noteq> None}"

lemma proc_pool_step:
  assumes wf: "kernel_wf s" and alive: "proc_alive s p" and n: "procs_unused s = Suc n"
  shows "\<exists>c s'. proc_alloc (Some p) s = Some (Some c, s') \<and> kernel_wf s' \<and> proc_alive s' p \<and> procs_unused s' = n \<and>
    c \<notin> procs_used s \<and> procs_used s' = insert c (procs_used s)"
proof -
  let ?Q = "contents s"
  have ok: "kernel_ok ?Q s" using wf by (simp add: kernel_wf_def)
  obtain h ns where Q: "?Q (P_siblings 0) = h # ns" using n by (cases "?Q (P_siblings 0)") (auto simp: procs_unused_def)
  then obtain c where c: "h = P_siblings c"
    using member_type[OF ok, of "P_siblings 0" h] member_ok_cases(1)[of "P_siblings 0" h] by auto
  have free: "p_parent (procs s c) = None" using free_list_procs(3)[OF ok, of c] Q c by simp
  obtain s' where s': "proc_alloc (Some p) s = Some (Some c, s')"
    "s' = s\<lparr>lk := lk s', procs := (procs s)(c := (procs s c)\<lparr>p_parent := Some p\<rparr>)\<rparr>"
    "kernel_ok (?Q(P_siblings 0 := ns, P_children p := ?Q (P_children p) @ [P_siblings c])) s'"
    using proc_alloc_correct[OF ok alive Q[unfolded c]] by blast
  have procs: "procs s' = (procs s)(c := (procs s c)\<lparr>p_parent := Some p\<rparr>)" by (subst s'(2)) simp
  have "procs_unused s' = n" using contents_eq[OF s'(3), of "P_siblings 0"] Q n by (simp add: procs_unused_def)
  moreover have "procs_used s' = insert c (procs_used s)" "c \<notin> procs_used s"
    using free by (auto simp: procs_used_def procs)
  ultimately show ?thesis
    using s'(1) kernel_ok_wf[OF s'(3)] alive by (auto simp: proc_alive_def procs)
qed

lemma proc_pool_empty: "kernel_wf s \<Longrightarrow> procs_unused s = 0 \<Longrightarrow> proc_alloc (Some p) s = Some (None, s)"
  using proc_alloc_fails[of "contents s" s "Some p"] by (simp add: kernel_wf_def procs_unused_def)

interpretation proc_pool: identified_pool "\<lambda>s. kernel_wf s \<and> proc_alive s p" procs_unused "proc_alloc (Some p)" procs_used
  for p
proof unfold_locales
  fix s n assume "kernel_wf s \<and> proc_alive s p" "procs_unused s = Suc n"
  then show "\<exists>x s'. proc_alloc (Some p) s = Some (Some x, s') \<and> (kernel_wf s' \<and> proc_alive s' p) \<and> procs_unused s' = n"
    using proc_pool_step by blast
next
  fix s x s' assume inv: "kernel_wf s \<and> proc_alive s p" and run: "proc_alloc (Some p) s = Some (Some x, s')"
  then obtain n where "procs_unused s = Suc n" using proc_pool_empty[of s p] by (cases "procs_unused s") auto
  with inv run show "x \<notin> procs_used s \<and> procs_used s' = insert x (procs_used s)" using proc_pool_step[of s p n] by auto
qed (simp add: proc_pool_empty)

end
