(* ===== verification/Threads.thy ===== *)
theory Threads imports Processes begin

text \<open>
  Thread descriptors and scheduling queues: the second part of \<open>src/src/mikabooq.c\<close>. A descriptor
  is linked by \<open>t_next\<close> into the thread list of its process (or the free list \<open>thread_h\<close>) and by
  \<open>t_sched\<close> into at most one scheduling queue.
\<close>

section \<open>Definitions\<close>

definition clean_thread_data :: "tid \<Rightarrow> kstate \<Rightarrow> kstate" where
  "clean_thread_data t = upd_thread t
     (\<lambda>x. x\<lparr>t_pcb := None, t_status := T_STATUS_NONE, t_wait4sender := None, run_time := 0, errno := 0\<rparr>)"

definition thread_init_body :: "nat \<Rightarrow> kstate \<Rightarrow> kstate option" where
  "thread_init_body i s = do {
     let s = clean_thread_data (Thread i) s;
     s \<leftarrow> with_links (list_add_tail (T_next (Thread i)) Thread_h) s;
     let s = init_head (T_msgq (Thread i)) s;
     let s = init_head (T_wait4me (Thread i)) s;
     Some s
   }"

definition thread_init :: "kstate \<Rightarrow> kstate option" where
  "thread_init = for_each thread_init_body [0..<MAXTHREAD]"

definition thread_alloc :: "pid option \<Rightarrow> kstate \<Rightarrow> (tid option \<times> kstate) option" where
  "thread_alloc process s =
     (case (process, list_next Thread_h (lk s)) of
        (Some p, Some new_head) \<Rightarrow> do {
          new_thread \<leftarrow> tcb_of_next new_head;
          s \<leftarrow> with_links (list_del new_head) s;
          let s = upd_thread new_thread (\<lambda>x. x\<lparr>t_pcb := Some p\<rparr>) s;
          s \<leftarrow> with_links (list_add_tail new_head (P_threads p)) s;
          Some (Some new_thread, upd_thread new_thread (\<lambda>x. x\<lparr>t_status := T_STATUS_READY\<rparr>) s) }
      | _ \<Rightarrow> Some (None, s))"

definition thread_free :: "tid \<Rightarrow> kstate \<Rightarrow> (int \<times> kstate) option" where
  "thread_free oldthread s =
     (if \<not> list_empty (T_msgq oldthread) (lk s) then Some (-1, s)
      else if \<not> list_empty (T_wait4me oldthread) (lk s) then Some (-2, s)
      else do {
        let s = clean_thread_data oldthread s;
        s \<leftarrow> with_links (list_del (T_next oldthread)) s;
        s \<leftarrow> with_links (list_del (T_sched oldthread)) s;
        s \<leftarrow> with_links (list_add_tail (T_next oldthread) Thread_h) s;
        Some (0, s) })"

definition thread_enqueue :: "tid \<Rightarrow> node \<Rightarrow> kstate \<Rightarrow> kstate option" where
  "thread_enqueue new queue = with_links (list_add_tail (T_sched new) queue)"

definition thread_qhead :: "node \<Rightarrow> kstate \<Rightarrow> tid option option" where
  "thread_qhead queue = qhead tcb_of_sched queue"

definition thread_dequeue :: "node \<Rightarrow> kstate \<Rightarrow> (tid option \<times> kstate) option" where
  "thread_dequeue queue = dequeue tcb_of_sched queue"

definition thread_outqueue :: "tid \<Rightarrow> kstate \<Rightarrow> kstate option" where
  "thread_outqueue this = with_links (list_del (T_sched this))"

section \<open>Scheduling queues are FIFO queues of threads\<close>

text \<open>What a scheduling list holds, as threads.\<close>

fun tids :: "node list \<Rightarrow> tid list" where
  "tids [] = []"
| "tids (T_sched t # ns) = t # tids ns"
| "tids (_ # ns) = tids ns"

lemma tids_append [simp]: "tids (xs @ ys) = tids xs @ tids ys"
  by (induction xs rule: tids.induct) simp_all

lemma tids_map [simp]: "tids (map T_sched ts) = ts"
  by (induction ts) simp_all

lemma tids_in [simp]: "t \<in> set (tids ns) \<longleftrightarrow> T_sched t \<in> set ns"
  by (induction ns rule: tids.induct) auto

lemma tids_remove1 [simp]: "tids (remove1 (T_sched t) ns) = remove1 t (tids ns)"
  by (induction ns rule: tids.induct) auto

lemma sched_list_tids:
  assumes "kernel_ok Q s" "is_sched_head h"
  shows "Q h = map T_sched (tids (Q h))"
proof -
  have "\<exists>t. n = T_sched t \<and> valid_tid t" if "n \<in> set (Q h)" for n
    using member_type[OF assms(1) _ that] member_ok_cases(3)[OF assms(2)] assms(2) by blast
  moreover have "ns = map T_sched (tids ns)" if "\<forall>n\<in>set ns. \<exists>t. n = T_sched t \<and> valid_tid t" for ns
    using that by (induction ns) auto
  ultimately show ?thesis by blast
qed

text \<open>A change of one scheduling list and of nothing else but its pointers keeps the invariants.\<close>

lemma kernel_ok_sched_upd:
  assumes ok: "kernel_ok Q s" and h: "is_sched_head h" and sh: "shape l heads (Q(h := ns))"
    and mem: "\<And>n. n \<in> set ns \<Longrightarrow> n \<in> set (Q h) \<or> (\<exists>t. n = T_sched t \<and> valid_tid t)"
  shows "kernel_ok (Q(h := ns)) (s\<lparr>lk := l\<rparr>)"
proof (rule kernel_okI)
  show "typed (Q(h := ns))"
    using mem member_type[OF ok, of h] h by (intro typed_upd[OF kernel_ok_typed[OF ok]]) fastforce
qed (use sh kernel_okD[OF ok] sched_list_other[OF h] in simp_all)

lemma thread_enqueue_correct:
  assumes ok: "kernel_ok Q s" and h: "is_sched_head h" and t: "valid_tid t"
    and n: "not_linked (T_sched t) Q"
  shows "\<exists>l. thread_enqueue t h s = Some (s\<lparr>lk := l\<rparr>) \<and>
    kernel_ok (Q(h := Q h @ [T_sched t])) (s\<lparr>lk := l\<rparr>)"
proof -
  obtain l where l: "with_links (list_add_tail (T_sched t) h) s = Some (s\<lparr>lk := l\<rparr>)"
    "shape l heads (Q(h := Q h @ [T_sched t]))"
    using with_links_add_tail[OF kernel_ok_shape[OF ok] _ n] h by auto
  then show ?thesis
    using kernel_ok_sched_upd[OF ok h l(2)] t by (auto simp: thread_enqueue_def)
qed

lemma thread_qhead_eq [queue_simps]:
  assumes ok: "kernel_ok Q s" and h: "is_sched_head h"
  shows "thread_qhead h s = Some (case tids (Q h) of [] \<Rightarrow> None | t # _ \<Rightarrow> Some t)"
proof -
  have nxt: "list_next h (lk s) = (case Q h of [] \<Rightarrow> None | n # _ \<Rightarrow> Some n)"
    using shape_list_next[OF kernel_ok_shape[OF ok], of h] h by auto
  show ?thesis
    using sched_list_tids[OF ok h] nxt by (cases "tids (Q h)") (auto simp: thread_qhead_def queue_macros)
qed

lemma thread_dequeue_empty:
  "kernel_ok Q s \<Longrightarrow> is_sched_head h \<Longrightarrow> Q h = [] \<Longrightarrow> thread_dequeue h s = Some (None, s)"
  using shape_list_next[OF kernel_ok_shape, of Q s h] head_kindsI(3)[of h]
  by (simp add: thread_dequeue_def queue_macros)

lemma thread_dequeue_correct:
  assumes ok: "kernel_ok Q s" and h: "is_sched_head h" and Q: "Q h = T_sched t # ns"
  shows "\<exists>l. thread_dequeue h s = Some (Some t, s\<lparr>lk := l\<rparr>) \<and>
    kernel_ok (Q(h := ns)) (s\<lparr>lk := l\<rparr>) \<and> not_linked (T_sched t) (Q(h := ns))"
proof -
  have nxt: "list_next h (lk s) = Some (T_sched t)"
    using shape_list_next[OF kernel_ok_shape[OF ok], of h] h Q by auto
  obtain l where l: "with_links (list_del (T_sched t)) s = Some (s\<lparr>lk := l\<rparr>)"
    "shape l heads (Q(h := ns))" "not_linked (T_sched t) (Q(h := ns))"
    using with_links_del[OF kernel_ok_shape[OF ok], of h "T_sched t"] h Q by auto
  then show ?thesis
    using kernel_ok_sched_upd[OF ok h l(2)] Q by (auto simp: thread_dequeue_def queue_macros nxt)
qed

lemma thread_outqueue_correct:
  assumes ok: "kernel_ok Q s" and h: "is_sched_head h" and t: "T_sched t \<in> set (Q h)"
  shows "\<exists>l. thread_outqueue t s = Some (s\<lparr>lk := l\<rparr>) \<and>
    kernel_ok (Q(h := remove1 (T_sched t) (Q h))) (s\<lparr>lk := l\<rparr>) \<and>
    not_linked (T_sched t) (Q(h := remove1 (T_sched t) (Q h)))"
proof -
  obtain l where l: "with_links (list_del (T_sched t)) s = Some (s\<lparr>lk := l\<rparr>)"
    "shape l heads (Q(h := remove1 (T_sched t) (Q h)))"
    "not_linked (T_sched t) (Q(h := remove1 (T_sched t) (Q h)))"
    using with_links_del[OF kernel_ok_shape[OF ok] _ t] h by auto
  have "kernel_ok (Q(h := remove1 (T_sched t) (Q h))) (s\<lparr>lk := l\<rparr>)"
    by (rule kernel_ok_sched_upd[OF ok h l(2)]) (auto dest: notin_set_remove1)
  with l show ?thesis by (auto simp: thread_outqueue_def)
qed

section \<open>Allocation\<close>

lemma free_list_threads:
  assumes ok: "kernel_ok Q s" and n: "n \<in> set (Q Thread_h)"
  shows "\<exists>i. n = T_next (Thread i) \<and> i < MAXTHREAD \<and> t_pcb (threads s (Thread i)) = None \<and>
    t_status (threads s (Thread i)) = T_STATUS_NONE \<and> Q (T_msgq (Thread i)) = []"
proof -
  obtain i where i: "n = T_next (Thread i)" "i < MAXTHREAD"
    using member_type[OF ok _ n] member_ok_cases(2)[of Thread_h n] by auto
  with n thread_free_iff[OF ok] have "t_pcb (threads s (Thread i)) = None" by simp
  with i thread_inv_free[OF kernel_ok_threads[OF ok]] show ?thesis by simp
qed

lemma thread_alloc_fails:
  assumes ok: "kernel_ok Q s" and "process = None \<or> Q Thread_h = []"
  shows "thread_alloc process s = Some (None, s)"
  using assms(2) shape_list_next[OF kernel_ok_shape[OF ok], of Thread_h]
  by (auto simp: thread_alloc_def split: option.splits)

lemma proc_inv_threads_upd:
  assumes "proc_inv Q ps" "p = 0 \<or> p_parent (ps p) \<noteq> None"
  shows "proc_inv (Q(P_threads p := x)) ps"
  using assms by (auto simp: proc_inv_def)

lemma thread_alloc_correct:
  assumes ok: "kernel_ok Q s" and alive: "proc_alive s p" and free: "Q Thread_h = n # ns"
  shows "\<exists>t l. n = T_next t \<and> valid_tid t \<and> t \<noteq> SSI_thread \<and> t_status (threads s t) = T_STATUS_NONE \<and>
    thread_alloc (Some p) s =
      Some (Some t, s\<lparr>lk := l, threads := (threads s)(t := (threads s t)\<lparr>t_pcb := Some p, t_status := T_STATUS_READY\<rparr>)\<rparr>) \<and>
    kernel_ok (Q(Thread_h := ns, P_threads p := Q (P_threads p) @ [n]))
      (s\<lparr>lk := l, threads := (threads s)(t := (threads s t)\<lparr>t_pcb := Some p, t_status := T_STATUS_READY\<rparr>)\<rparr>)"
proof -
  let ?Q1 = "Q(Thread_h := ns)"
  obtain i where i: "n = T_next (Thread i)" "i < MAXTHREAD" "t_pcb (threads s (Thread i)) = None"
    "t_status (threads s (Thread i)) = T_STATUS_NONE"
    using free_list_threads[OF ok, of n] free by auto
  have p: "p < MAXPROC" using proc_alive_lt[OF ok alive] .
  have d: "n \<notin> set ns"
    using shape_distinct[OF kernel_ok_shape[OF ok], of Thread_h] free by simp
  obtain l1 where l1: "with_links (list_del n) s = Some (s\<lparr>lk := l1\<rparr>)"
    "shape l1 heads ?Q1" "not_linked n ?Q1"
    using with_links_del[OF kernel_ok_shape[OF ok], of Thread_h n] free by auto
  let ?s1 = "upd_thread (Thread i) (\<lambda>x. x\<lparr>t_pcb := Some p\<rparr>) (s\<lparr>lk := l1\<rparr>)"
  obtain l2 where l2: "with_links (list_add_tail n (P_threads p)) ?s1 = Some (?s1\<lparr>lk := l2\<rparr>)"
    "shape l2 heads (?Q1(P_threads p := ?Q1 (P_threads p) @ [n]))"
    using with_links_add_tail[of ?s1 ?Q1 "P_threads p" n] l1 p by (auto simp: upd_defs)
  have nxt: "list_next Thread_h (lk s) = Some n"
    using shape_list_next[OF kernel_ok_shape[OF ok], of Thread_h] free by simp
  let ?s' = "s\<lparr>lk := l2, threads := (threads s)(Thread i := (threads s (Thread i))\<lparr>t_pcb := Some p, t_status := T_STATUS_READY\<rparr>)\<rparr>"
  have run: "thread_alloc (Some p) s = Some (Some (Thread i), ?s')"
    using l2(1) by (simp add: thread_alloc_def nxt i(1) l1(1)[unfolded i(1)] upd_defs)
  have typed1: "typed ?Q1"
    using member_type[OF ok, of Thread_h] free by (intro typed_upd[OF kernel_ok_typed[OF ok]]) simp
  have "kernel_ok (Q(Thread_h := ns, P_threads p := Q (P_threads p) @ [n])) ?s'"
  proof (rule kernel_okI)
    show "typed (Q(Thread_h := ns, P_threads p := Q (P_threads p) @ [n]))"
      using member_type[OF ok, of "P_threads p"] p i by (intro typed_upd[OF typed1]) auto
    show "proc_inv (Q(Thread_h := ns, P_threads p := Q (P_threads p) @ [n])) (procs ?s')"
      using kernel_ok_procs[OF ok] alive by (simp add: proc_inv_threads_upd proc_alive_def)
    show "thread_inv (Q(Thread_h := ns, P_threads p := Q (P_threads p) @ [n])) (threads ?s')"
      using kernel_ok_threads[OF ok] free d i p by (auto simp: thread_inv_def)
  qed (use l2(2) kernel_okD[OF ok] in simp_all)
  with run i show ?thesis by (metis tid.distinct(1) valid_tid.simps(1))
qed

section \<open>Deallocation\<close>

definition free_tcb :: "tcb_t \<Rightarrow> tcb_t" where
  "free_tcb x = x\<lparr>t_pcb := None, t_status := T_STATUS_NONE, t_wait4sender := None, run_time := 0, errno := 0\<rparr>"

lemma free_tcb_simps [simp]:
  "t_pcb (free_tcb x) = None" "t_status (free_tcb x) = T_STATUS_NONE"
  "t_wait4sender (free_tcb x) = None" "run_time (free_tcb x) = 0" "errno (free_tcb x) = 0"
  "t_s (free_tcb x) = t_s x"
  by (simp_all add: free_tcb_def)

lemma clean_thread_data_eq:
  "clean_thread_data t s = s\<lparr>threads := (threads s)(t := free_tcb (threads s t))\<rparr>"
  by (simp add: clean_thread_data_def upd_defs free_tcb_def)

lemma thread_free_has_messages:
  assumes "kernel_ok Q s" "valid_tid t" "Q (T_msgq t) \<noteq> []"
  shows "thread_free t s = Some (-1, s)"
  using shape_list_empty[OF kernel_ok_shape[OF assms(1)], of "T_msgq t"] assms(2,3)
  by (simp add: thread_free_def)

lemma thread_free_has_waiters:
  assumes "kernel_ok Q s" "valid_tid t" "Q (T_msgq t) = []" "Q (T_wait4me t) \<noteq> []"
  shows "thread_free t s = Some (-2, s)"
  using shape_list_empty[OF kernel_ok_shape[OF assms(1)], of "T_msgq t"]
    shape_list_empty[OF kernel_ok_shape[OF assms(1)], of "T_wait4me t"] assms(2,3,4)
  by (simp add: thread_free_def)

lemma live_thread_index:
  assumes ok: "kernel_ok Q s" and t: "valid_tid t" "t_pcb (threads s t) = Some p"
  shows "\<exists>i. t = Thread i \<and> i < MAXTHREAD \<and> p < MAXPROC \<and> T_next t \<in> set (Q (P_threads p))"
proof (cases t)
  case SSI_thread
  with t thread_inv_SSI[OF kernel_ok_threads[OF ok]] show ?thesis by simp
next
  case (Thread i)
  with t thread_inv_used[OF kernel_ok_threads[OF ok], of i p] show ?thesis by simp
qed

lemma thread_free_inv:
  assumes ok: "kernel_ok Q s" and t: "valid_tid t" "t_pcb (threads s t) = Some p"
    and empty: "Q (T_msgq t) = []" and d: "distinct (Q (P_threads p))"
  shows "thread_inv (Q(P_threads p := remove1 (T_next t) (Q (P_threads p)), Thread_h := Q Thread_h @ [T_next t]))
    ((threads s)(t := free_tcb (threads s t)))"
    (is "thread_inv ?Q' ?ts'")
proof -
  note inv = kernel_ok_threads[OF ok]
  obtain i where i: "t = Thread i" "i < MAXTHREAD" using live_thread_index[OF ok t] by auto
  show ?thesis
    unfolding thread_inv_def
  proof (intro conjI allI impI)
    fix j assume j: "j < MAXTHREAD" "t_pcb (?ts' (Thread j)) = None"
    show "T_next (Thread j) \<in> set (?Q' Thread_h)" "t_status (?ts' (Thread j)) = T_STATUS_NONE"
      "?Q' (T_msgq (Thread j)) = []"
      using j thread_inv_free[OF inv j(1)] i empty by (auto split: if_splits)
  next
    fix j q assume j: "j < MAXTHREAD" "t_pcb (?ts' (Thread j)) = Some q"
    then have "j \<noteq> i" "t_pcb (threads s (Thread j)) = Some q" using i by (auto split: if_splits)
    with thread_inv_used[OF inv j(1), of q] i
    show "q < MAXPROC" "T_next (Thread j) \<in> set (?Q' (P_threads q))" "t_status (?ts' (Thread j)) \<noteq> T_STATUS_NONE"
      by auto
  qed (use i thread_inv_SSI[OF inv] in simp_all)
qed

lemma thread_free_correct:
  assumes ok: "kernel_ok Q s" and t: "valid_tid t" "t_pcb (threads s t) = Some p"
    and empty: "Q (T_msgq t) = []" "Q (T_wait4me t) = []"
    and h: "is_sched_head h" "T_sched t \<in> set (Q h)"
  shows "\<exists>l. thread_free t s = Some (0, s\<lparr>lk := l, threads := (threads s)(t := free_tcb (threads s t))\<rparr>) \<and>
    kernel_ok (Q(P_threads p := remove1 (T_next t) (Q (P_threads p)),
                 h := remove1 (T_sched t) (Q h),
                 Thread_h := Q Thread_h @ [T_next t]))
      (s\<lparr>lk := l, threads := (threads s)(t := free_tcb (threads s t))\<rparr>)"
proof -
  obtain i where i: "t = Thread i" "i < MAXTHREAD" "p < MAXPROC" and mem: "T_next t \<in> set (Q (P_threads p))"
    using live_thread_index[OF ok t] by auto
  let ?s0 = "clean_thread_data t s"
  let ?Q1 = "Q(P_threads p := remove1 (T_next t) (Q (P_threads p)))"
  let ?Q2 = "?Q1(h := remove1 (T_sched t) (Q h))"
  let ?Q3 = "?Q2(Thread_h := Q Thread_h @ [T_next t])"
  have hne: "h \<noteq> P_threads p" "h \<noteq> Thread_h" "is_head h" using h(1) by auto
  obtain l1 where l1: "with_links (list_del (T_next t)) ?s0 = Some (?s0\<lparr>lk := l1\<rparr>)"
    "shape l1 heads ?Q1" "not_linked (T_next t) ?Q1"
    using with_links_del[of ?s0 Q "P_threads p" "T_next t"] kernel_ok_shape[OF ok] mem i
    by (auto simp: clean_thread_data_eq)
  obtain l2 where l2: "with_links (list_del (T_sched t)) (?s0\<lparr>lk := l1\<rparr>) = Some (?s0\<lparr>lk := l2\<rparr>)"
    "shape l2 heads ?Q2"
    using with_links_del[of "?s0\<lparr>lk := l1\<rparr>" ?Q1 h "T_sched t"] l1(2) h hne by auto
  have "not_linked (T_next t) ?Q2"
    using l1(3) hne by (auto simp: unlinked_node_def dest: notin_set_remove1)
  then obtain l3 where l3: "with_links (list_add_tail (T_next t) Thread_h) (?s0\<lparr>lk := l2\<rparr>) = Some (?s0\<lparr>lk := l3\<rparr>)"
    "shape l3 heads ?Q3"
    using with_links_add_tail[of "?s0\<lparr>lk := l2\<rparr>" ?Q2 Thread_h "T_next t"] l2(2) hne by auto
  have ne: "list_empty (T_msgq t) (lk s)" "list_empty (T_wait4me t) (lk s)"
    using shape_list_empty[OF kernel_ok_shape[OF ok]] empty t(1) by simp_all
  have run: "thread_free t s = Some (0, ?s0\<lparr>lk := l3\<rparr>)"
    by (simp add: thread_free_def ne l1(1) l2(1) l3(1))
  have typed1: "typed ?Q1"
    using member_type[OF ok, of "P_threads p"] i
    by (intro typed_upd[OF kernel_ok_typed[OF ok]]) (auto dest: notin_set_remove1)
  have typed2: "typed ?Q2"
    using member_type[OF ok hne(3)] by (intro typed_upd[OF typed1]) (auto dest: notin_set_remove1)
  have comm: "?Q3 = (Q(P_threads p := remove1 (T_next t) (Q (P_threads p)), Thread_h := Q Thread_h @ [T_next t]))
      (h := remove1 (T_sched t) (Q h))"
    using hne by (auto simp: fun_eq_iff)
  have alive: "p = 0 \<or> p_parent (procs s p) \<noteq> None"
    using thread_proc_alive[OF ok i(3)] mem
    by (cases "Q (P_threads p)") (auto simp: proc_alive_def)
  have "kernel_ok ?Q3 (?s0\<lparr>lk := l3\<rparr>)"
  proof (rule kernel_okI)
    show "typed ?Q3"
      using typed_member[OF typed2, of Thread_h] hne i by (intro typed_upd[OF typed2]) auto
    show "thread_inv ?Q3 (threads (?s0\<lparr>lk := l3\<rparr>))"
      unfolding comm sched_list_other[OF h(1)]
      using thread_free_inv[OF ok t empty(1)] shape_distinct[OF kernel_ok_shape[OF ok], of "P_threads p"] i
      by (simp add: clean_thread_data_eq)
    show "proc_inv ?Q3 (procs (?s0\<lparr>lk := l3\<rparr>))"
      unfolding comm sched_list_other[OF h(1)]
      using proc_inv_threads_upd[OF kernel_ok_procs[OF ok] alive] by (simp add: clean_thread_data_eq)
    show "msg_inv ?Q3 (msgs (?s0\<lparr>lk := l3\<rparr>))"
      unfolding comm sched_list_other[OF h(1)]
      using kernel_ok_msgs[OF ok] by (simp add: clean_thread_data_eq)
  qed (use l3(2) in simp)
  moreover have "?s0\<lparr>lk := l3\<rparr> = s\<lparr>lk := l3, threads := (threads s)(t := free_tcb (threads s t))\<rparr>"
    by (simp add: clean_thread_data_eq)
  ultimately show ?thesis using run by auto
qed

text \<open>
  \<open>thread_init\<close> and \<open>thread_alloc\<close> never write \<open>t_sched\<close>, so a descriptor that was never put in
  a scheduling queue has NULL pointers there, and \<open>thread_free\<close> writes through them.
\<close>

lemma thread_free_never_enqueued:
  assumes ok: "kernel_ok Q s" and t: "valid_tid t" "t_pcb (threads s t) = Some p"
    and empty: "Q (T_msgq t) = []" "Q (T_wait4me t) = []"
    and null: "lnext (lk s) (T_sched t) = None" "lprev (lk s) (T_sched t) = None"
  shows "thread_free t s = None"
proof -
  obtain i where i: "t = Thread i" "i < MAXTHREAD" "p < MAXPROC" and mem: "T_next t \<in> set (Q (P_threads p))"
    using live_thread_index[OF ok t] by auto
  have ne: "list_empty (T_msgq t) (lk s)" "list_empty (T_wait4me t) (lk s)"
    using shape_list_empty[OF kernel_ok_shape[OF ok]] empty t(1) by simp_all
  have "lprev l (T_sched t) = None" if "list_del (T_next t) (lk s) = Some l" for l
  proof -
    obtain xs ys where Q: "Q (P_threads p) = xs @ T_next t # ys" using mem by (meson split_list)
    have c: "chain (lk s) (P_threads p) (xs @ T_next t # ys) (P_threads p)"
      using shape_ring[OF kernel_ok_shape[OF ok], of "P_threads p"] i Q by (simp add: ring_def)
    then have "lnext (lk s) (T_next t) = Some (hd (ys @ [P_threads p]))"
      by (simp add: chain_append chain_first)
    moreover have "hd (ys @ [P_threads p]) \<noteq> T_sched t"
      using member_type[OF ok, of "P_threads p" "hd ys"] Q i by (cases ys) auto
    ultimately show ?thesis
      using that null by (auto simp: list_del_def list_del_between_def put_prev_def put_next_def
          bind_eq_Some_conv split: option.splits)
  qed
  then show ?thesis
    by (auto simp: thread_free_def ne with_links_def clean_thread_data_eq list_del_null split: Option.bind_split)
qed

section \<open>The thread table is a pool, and the scheduling lists are queues\<close>

definition threads_unused :: "kstate \<Rightarrow> nat" where
  "threads_unused s = length (contents s Thread_h)"

definition threads_used :: "kstate \<Rightarrow> tid set" where
  "threads_used s = {t. t_status (threads s t) \<noteq> T_STATUS_NONE}"

lemma thread_pool_step:
  assumes wf: "kernel_wf s" and alive: "proc_alive s p" and n: "threads_unused s = Suc n"
  shows "\<exists>t s'. thread_alloc (Some p) s = Some (Some t, s') \<and> kernel_wf s' \<and> proc_alive s' p \<and> threads_unused s' = n \<and>
    t \<notin> threads_used s \<and> threads_used s' = insert t (threads_used s)"
proof -
  let ?Q = "contents s"
  have ok: "kernel_ok ?Q s" using wf by (simp add: kernel_wf_def)
  obtain h ns where Q: "?Q Thread_h = h # ns" using n by (cases "?Q Thread_h") (auto simp: threads_unused_def)
  obtain t l where t: "t_status (threads s t) = T_STATUS_NONE"
    "thread_alloc (Some p) s =
      Some (Some t, s\<lparr>lk := l, threads := (threads s)(t := (threads s t)\<lparr>t_pcb := Some p, t_status := T_STATUS_READY\<rparr>)\<rparr>)"
    "kernel_ok (?Q(Thread_h := ns, P_threads p := ?Q (P_threads p) @ [h]))
      (s\<lparr>lk := l, threads := (threads s)(t := (threads s t)\<lparr>t_pcb := Some p, t_status := T_STATUS_READY\<rparr>)\<rparr>)"
    using thread_alloc_correct[OF ok alive Q] by blast
  then show ?thesis
    using kernel_ok_wf[OF t(3)] contents_eq[OF t(3), of Thread_h] alive Q n
    by (auto simp: threads_unused_def threads_used_def proc_alive_def)
qed

lemma thread_pool_empty: "kernel_wf s \<Longrightarrow> threads_unused s = 0 \<Longrightarrow> thread_alloc (Some p) s = Some (None, s)"
  using thread_alloc_fails[of "contents s" s "Some p"] by (simp add: kernel_wf_def threads_unused_def)

interpretation thread_pool: identified_pool "\<lambda>s. kernel_wf s \<and> proc_alive s p" threads_unused "thread_alloc (Some p)" threads_used
  for p
proof unfold_locales
  fix s n assume "kernel_wf s \<and> proc_alive s p" "threads_unused s = Suc n"
  then show "\<exists>x s'. thread_alloc (Some p) s = Some (Some x, s') \<and> (kernel_wf s' \<and> proc_alive s' p) \<and> threads_unused s' = n"
    using thread_pool_step by blast
next
  fix s x s' assume inv: "kernel_wf s \<and> proc_alive s p" and run: "thread_alloc (Some p) s = Some (Some x, s')"
  then obtain n where "threads_unused s = Suc n" using thread_pool_empty[of s p] by (cases "threads_unused s") auto
  with inv run show "x \<notin> threads_used s \<and> threads_used s' = insert x (threads_used s)" using thread_pool_step[of s p n] by auto
qed (simp add: thread_pool_empty)

text \<open>A thread that is in no list may be enqueued.\<close>

definition unscheduled :: "kstate \<Rightarrow> tid \<Rightarrow> bool" where
  "unscheduled s t \<longleftrightarrow> valid_tid t \<and> not_linked (T_sched t) (contents s)"

lemma unlinked_contents: "kernel_ok Q s \<Longrightarrow> not_linked n (contents s) \<longleftrightarrow> not_linked n Q"
  by (simp add: unlinked_node_def contents_eq)

interpretation sched_queue: fifo "\<lambda>s. kernel_wf s \<and> is_sched_head h" "\<lambda>s. tids (contents s h)" unscheduled
  "\<lambda>t. thread_enqueue t h" "thread_dequeue h"
  for h
proof unfold_locales
  fix s t assume inv: "kernel_wf s \<and> is_sched_head h" and t: "unscheduled s t"
  then have ok: "kernel_ok (contents s) s" by (simp add: kernel_wf_def)
  obtain l where l: "thread_enqueue t h s = Some (s\<lparr>lk := l\<rparr>)"
    "kernel_ok ((contents s)(h := contents s h @ [T_sched t])) (s\<lparr>lk := l\<rparr>)"
    using thread_enqueue_correct[OF ok] inv t by (auto simp: unscheduled_def)
  have "unscheduled (s\<lparr>lk := l\<rparr>) u" if "u \<noteq> t" "unscheduled s u" for u
    using that unfolding unscheduled_def unlinked_contents[OF l(2)] by (auto simp: unlinked_node_def)
  with l inv show "\<exists>s'. thread_enqueue t h s = Some s' \<and> (kernel_wf s' \<and> is_sched_head h) \<and>
      tids (contents s' h) = tids (contents s h) @ [t] \<and> (\<forall>b. b \<noteq> t \<longrightarrow> unscheduled s b \<longrightarrow> unscheduled s' b)"
    using kernel_ok_wf[OF l(2)] contents_eq[OF l(2) head_kindsI(3)[of h]] by auto
next
  fix s assume inv: "kernel_wf s \<and> is_sched_head h" and e: "tids (contents s h) = []"
  then have ok: "kernel_ok (contents s) s" by (simp add: kernel_wf_def)
  have "contents s h = []" using sched_list_tids[OF ok, of h] inv e by simp
  then show "thread_dequeue h s = Some (None, s)" using thread_dequeue_empty[OF ok] inv by simp
next
  fix s t ts assume inv: "kernel_wf s \<and> is_sched_head h" and e: "tids (contents s h) = t # ts"
  then have ok: "kernel_ok (contents s) s" by (simp add: kernel_wf_def)
  have Q: "contents s h = T_sched t # map T_sched ts" using sched_list_tids[OF ok, of h] inv e by simp
  then have v: "valid_tid t" using member_type[OF ok, of h "T_sched t"] inv by auto
  obtain l where l: "thread_dequeue h s = Some (Some t, s\<lparr>lk := l\<rparr>)"
    "kernel_ok ((contents s)(h := map T_sched ts)) (s\<lparr>lk := l\<rparr>)" "not_linked (T_sched t) ((contents s)(h := map T_sched ts))"
    using thread_dequeue_correct[OF ok _ Q] inv by auto
  have "unscheduled (s\<lparr>lk := l\<rparr>) u" if "unscheduled s u" for u
    using that Q unfolding unscheduled_def unlinked_contents[OF l(2)] by (auto simp: unlinked_node_def split: if_splits)
  with l v inv show "\<exists>s'. thread_dequeue h s = Some (Some t, s') \<and> (kernel_wf s' \<and> is_sched_head h) \<and>
      tids (contents s' h) = ts \<and> unscheduled s' t \<and> (\<forall>b. unscheduled s b \<longrightarrow> unscheduled s' b)"
    using kernel_ok_wf[OF l(2)] contents_eq[OF l(2) head_kindsI(3)[of h]] by (auto simp: unscheduled_def unlinked_contents[OF l(2)])
qed

end
