(* ===== verification/Messages.thy ===== *)
theory Messages imports Threads begin

text \<open>
  Messages: the last part of \<open>src/src/mikabooq.c\<close>. The free messages are linked in \<open>message_h\<close>,
  the pending ones in the \<open>t_msgq\<close> of their destination, oldest first. The second half states what
  a message queue promises: a mailbox of (sender, payload) pairs, and proves that the pointer code
  implements it.
\<close>

section \<open>Definitions\<close>

definition msgq_init_body :: "mid \<Rightarrow> kstate \<Rightarrow> kstate option" where
  "msgq_init_body i s = do {
     s \<leftarrow> with_links (list_add (M_next i) Message_h) s;
     Some (upd_msg i (\<lambda>m. m\<lparr>m_sender := None\<rparr>) s)
   }"

definition msgq_init :: "kstate \<Rightarrow> kstate option" where
  "msgq_init = for_each msgq_init_body [0..<MAXMSG]"

definition msgq_add :: "tid option \<Rightarrow> tid option \<Rightarrow> val \<Rightarrow> kstate \<Rightarrow> (int \<times> kstate) option" where
  "msgq_add sender destination v s =
     (case (list_next Message_h (lk s), sender, destination) of
        (Some new_space, Some sndr, Some d) \<Rightarrow> do {
          s \<leftarrow> with_links (list_del new_space) s;
          new_msg \<leftarrow> msg_of_next new_space;
          let s = upd_msg new_msg (\<lambda>m. m\<lparr>m_sender := Some sndr, m_value := v\<rparr>) s;
          s \<leftarrow> with_links (list_add_tail new_space (T_msgq d)) s;
          Some (0, s) }
      | _ \<Rightarrow> Some (-1, s))"

definition msgq_add_head :: "tid option \<Rightarrow> tid option \<Rightarrow> val \<Rightarrow> kstate \<Rightarrow> (int \<times> kstate) option" where
  "msgq_add_head sender destination v s =
     (case (list_next Message_h (lk s), sender, destination) of
        (Some new_space, Some sndr, Some d) \<Rightarrow> do {
          s \<leftarrow> with_links (list_del new_space) s;
          new_msg \<leftarrow> msg_of_next new_space;
          let s = upd_msg new_msg (\<lambda>m. m\<lparr>m_sender := Some sndr, m_value := v\<rparr>) s;
          s \<leftarrow> with_links (list_add new_space (T_msgq d)) s;
          Some (0, s) }
      | _ \<Rightarrow> Some (-1, s))"

definition store_val :: "val \<Rightarrow> mid \<Rightarrow> kstate \<Rightarrow> kstate option" where
  "store_val value msg s =
     (if value = NULL then Some s
      else map_option (\<lambda>m. s\<lparr>mem := m\<rparr>) (store_word value (m_value (msgs s msg)) (mem s)))"

definition msg_free :: "mid \<Rightarrow> kstate \<Rightarrow> (int \<times> kstate) option" where
  "msg_free oldmsg s = do {
     s \<leftarrow> with_links (list_del (M_next oldmsg)) s;
     let s = upd_msg oldmsg (\<lambda>m. m\<lparr>m_sender := None\<rparr>) s;
     s \<leftarrow> with_links (list_add_tail (M_next oldmsg) Message_h) s;
     Some (0, s)
   }"

text \<open>
  The search loop of \<open>msgq_get\<close>: \<open>list_for_each_entry(pos, head, m_next)\<close> until a message of the
  wanted sender is met; \<open>Some None\<close> is the end of the list.
\<close>

partial_function (option) msgq_search ::
  "kstate \<Rightarrow> node \<Rightarrow> node option \<Rightarrow> tid option \<Rightarrow> mid option option" where
  "msgq_search s head pos sender =
     (case pos of
        None \<Rightarrow> None
      | Some n \<Rightarrow>
          if n = head then Some None
          else do {
            m \<leftarrow> msg_of_next n;
            if m_sender (msgs s m) = sender then Some (Some m)
            else msgq_search s head (lnext (lk s) n) sender })"

text \<open>
  \<open>sender\<close> is the pointer \<open>struct tcb_t **sender\<close>: \<open>None\<close> for NULL, otherwise the content of the
  cell it points to. The result holds the return value, the content of that cell afterwards and
  the state.
\<close>

definition msgq_get ::
  "tid option option \<Rightarrow> tid option \<Rightarrow> val \<Rightarrow> kstate \<Rightarrow> (int \<times> tid option option \<times> kstate) option" where
  "msgq_get sender destination value s =
     (if sender = None \<or> sender = Some None then
        (case (case destination of None \<Rightarrow> None | Some d \<Rightarrow> list_next (T_msgq d) (lk s)) of
           None \<Rightarrow> Some (-1, sender, s)
         | Some msg_conc \<Rightarrow> do {
             msg \<leftarrow> msg_of_next msg_conc;
             s \<leftarrow> store_val value msg s;
             let sender = map_option (\<lambda>_. m_sender (msgs s msg)) sender;
             (_, s) \<leftarrow> msg_free msg s;
             Some (0, sender, s) })
      else
        (case destination of
           None \<Rightarrow> Some (-1, sender, s)
         | Some d \<Rightarrow> do {
             found \<leftarrow> msgq_search s (T_msgq d) (lnext (lk s) (T_msgq d)) (Option.bind sender id);
             (case found of
                None \<Rightarrow> Some (-1, sender, s)
              | Some pos \<Rightarrow> do {
                  s \<leftarrow> store_val value pos s;
                  (_, s) \<leftarrow> msg_free pos s;
                  Some (0, sender, s) }) }))"

definition msg_qhead :: "node \<Rightarrow> kstate \<Rightarrow> mid option option" where
  "msg_qhead queue = qhead msg_of_next queue"

section \<open>Mailboxes\<close>

fun mids :: "node list \<Rightarrow> mid list" where
  "mids [] = []"
| "mids (M_next m # ns) = m # mids ns"
| "mids (_ # ns) = mids ns"

lemma mids_append [simp]: "mids (xs @ ys) = mids xs @ mids ys"
  by (induction xs rule: mids.induct) simp_all

lemma mids_map [simp]: "mids (map M_next ms) = ms"
  by (induction ms) simp_all

lemma mids_in [simp]: "m \<in> set (mids ns) \<longleftrightarrow> M_next m \<in> set ns"
  by (induction ns rule: mids.induct) auto

lemma mids_remove1 [simp]: "mids (remove1 (M_next m) ns) = remove1 m (mids ns)"
  by (induction ns rule: mids.induct) auto

lemma mids_distinct: "distinct ns \<Longrightarrow> distinct (mids ns)"
  by (induction ns rule: mids.induct) auto

lemma msg_list_mids:
  assumes "kernel_ok Q s" "is_msg_head h"
  shows "Q h = map M_next (mids (Q h))"
proof -
  have "\<exists>m. n = M_next m \<and> m < MAXMSG" if "n \<in> set (Q h)" for n
    using member_type[OF assms(1) _ that] member_ok_cases(4)[OF assms(2)] assms(2) by blast
  moreover have "ns = map M_next (mids ns)" if "\<forall>n\<in>set ns. \<exists>m. n = M_next m \<and> m < MAXMSG" for ns
    using that by (induction ns) auto
  ultimately show ?thesis by blast
qed

type_synonym letter = "tid option \<times> val"

definition letter_of :: "(mid \<Rightarrow> msg_t) \<Rightarrow> mid \<Rightarrow> letter" where
  "letter_of ms m = (m_sender (ms m), m_value (ms m))"

text \<open>The pending messages of a thread, oldest first: the abstract state of the message layer.\<close>

definition mailbox :: "queues \<Rightarrow> kstate \<Rightarrow> tid \<Rightarrow> letter list" where
  "mailbox Q s t = map (letter_of (msgs s)) (mids (Q (T_msgq t)))"

lemma letters_unchanged:
  "m \<notin> set xs \<Longrightarrow> map (letter_of (ms(m := x))) xs = map (letter_of ms) xs"
  by (induction xs) (auto simp: letter_of_def)

section \<open>Adding a message\<close>

lemma msgq_add_fails:
  assumes ok: "kernel_ok Q s" and "sender = None \<or> destination = None \<or> Q Message_h = []"
  shows "msgq_add sender destination v s = Some (-1, s)"
    and "msgq_add_head sender destination v s = Some (-1, s)"
  using assms(2) shape_list_next[OF kernel_ok_shape[OF ok], of Message_h]
  by (auto simp: msgq_add_def msgq_add_head_def split: option.splits)

lemma thread_inv_msgq_upd:
  assumes "thread_inv Q ts" "t_status (ts d) \<noteq> T_STATUS_NONE \<or> x = []"
  shows "thread_inv (Q(T_msgq d := x)) ts"
  using assms by (auto simp: thread_inv_def)

lemma msgq_take_inv:
  assumes inv: "msg_inv Q ms" and d: "valid_tid d" and free: "Q Message_h = M_next m # ns"
    and sub: "set xs = insert (M_next m) (set (Q (T_msgq d)))"
  shows "msg_inv (Q(Message_h := ns, T_msgq d := xs)) (ms(m := \<lparr>m_sender = Some sndr, m_value = v\<rparr>))"
  unfolding msg_inv_def
proof (intro allI impI conjI)
  fix k assume k: "k < MAXMSG" "m_sender ((ms(m := \<lparr>m_sender = Some sndr, m_value = v\<rparr>)) k) = None"
  then show "M_next k \<in> set ((Q(Message_h := ns, T_msgq d := xs)) Message_h)"
    using msg_inv_free[OF inv, of k] free by (auto split: if_splits)
next
  fix k assume k: "k < MAXMSG" "m_sender ((ms(m := \<lparr>m_sender = Some sndr, m_value = v\<rparr>)) k) \<noteq> None"
  show "\<exists>t. valid_tid t \<and> M_next k \<in> set ((Q(Message_h := ns, T_msgq d := xs)) (T_msgq t))"
  proof (cases "k = m")
    case True with d sub show ?thesis by (intro exI[of _ d]) simp
  next
    case False
    with k msg_inv_used[OF inv, of k] obtain u where "valid_tid u" "M_next k \<in> set (Q (T_msgq u))" by auto
    with sub show ?thesis by (intro exI[of _ u]) auto
  qed
qed

lemma msgq_add_correct:
  assumes ok: "kernel_ok Q s" and d: "valid_tid d" "t_status (threads s d) \<noteq> T_STATUS_NONE"
    and free: "Q Message_h = M_next m # ns"
  shows "\<exists>l. msgq_add (Some sndr) (Some d) v s =
      Some (0, s\<lparr>lk := l, msgs := (msgs s)(m := \<lparr>m_sender = Some sndr, m_value = v\<rparr>)\<rparr>) \<and>
    kernel_ok (Q(Message_h := ns, T_msgq d := Q (T_msgq d) @ [M_next m]))
      (s\<lparr>lk := l, msgs := (msgs s)(m := \<lparr>m_sender = Some sndr, m_value = v\<rparr>)\<rparr>)"
proof -
  let ?Q1 = "Q(Message_h := ns)"
  have m: "m < MAXMSG" using member_type[OF ok, of Message_h "M_next m"] free by simp
  obtain l1 where l1: "with_links (list_del (M_next m)) s = Some (s\<lparr>lk := l1\<rparr>)"
    "shape l1 heads ?Q1" "not_linked (M_next m) ?Q1"
    using with_links_del[OF kernel_ok_shape[OF ok], of Message_h "M_next m"] free by auto
  let ?s1 = "upd_msg m (\<lambda>x. x\<lparr>m_sender := Some sndr, m_value := v\<rparr>) (s\<lparr>lk := l1\<rparr>)"
  obtain l2 where l2: "with_links (list_add_tail (M_next m) (T_msgq d)) ?s1 = Some (?s1\<lparr>lk := l2\<rparr>)"
    "shape l2 heads (?Q1(T_msgq d := ?Q1 (T_msgq d) @ [M_next m]))"
    using with_links_add_tail[of ?s1 ?Q1 "T_msgq d" "M_next m"] l1 d by (auto simp: upd_defs)
  have nxt: "list_next Message_h (lk s) = Some (M_next m)"
    using shape_list_next[OF kernel_ok_shape[OF ok], of Message_h] free by simp
  have rec: "(msgs s m)\<lparr>m_sender := Some sndr, m_value := v\<rparr> = \<lparr>m_sender = Some sndr, m_value = v\<rparr>"
    by (cases "msgs s m") simp
  let ?s' = "s\<lparr>lk := l2, msgs := (msgs s)(m := \<lparr>m_sender = Some sndr, m_value = v\<rparr>)\<rparr>"
  have run: "msgq_add (Some sndr) (Some d) v s = Some (0, ?s')"
    using l2(1) by (simp add: msgq_add_def nxt l1(1) upd_defs rec)
  have typed1: "typed ?Q1"
    using member_type[OF ok, of Message_h] free by (intro typed_upd[OF kernel_ok_typed[OF ok]]) simp
  have "kernel_ok (Q(Message_h := ns, T_msgq d := Q (T_msgq d) @ [M_next m])) ?s'"
  proof (rule kernel_okI)
    show "typed (Q(Message_h := ns, T_msgq d := Q (T_msgq d) @ [M_next m]))"
      using member_type[OF ok, of "T_msgq d"] d m by (intro typed_upd[OF typed1]) auto
    show "msg_inv (Q(Message_h := ns, T_msgq d := Q (T_msgq d) @ [M_next m])) (msgs ?s')"
      using msgq_take_inv[OF kernel_ok_msgs[OF ok] d(1) free] by simp
    show "thread_inv (Q(Message_h := ns, T_msgq d := Q (T_msgq d) @ [M_next m])) (threads ?s')"
      using thread_inv_msgq_upd[of ?Q1 "threads s" d] kernel_ok_threads[OF ok] d by simp
  qed (use l2(2) kernel_okD[OF ok] in simp_all)
  with run show ?thesis by blast
qed

lemma mailbox_add:
  assumes ok: "kernel_ok Q s" and free: "Q Message_h = M_next m # ns" and t: "valid_tid t" "valid_tid d"
    and ms: "msgs s' = (msgs s)(m := \<lparr>m_sender = Some sndr, m_value = v\<rparr>)"
  shows "mailbox (Q(Message_h := ns, T_msgq d := Q (T_msgq d) @ [M_next m])) s' t =
    (if t = d then mailbox Q s d @ [(Some sndr, v)] else mailbox Q s t)"
proof -
  have "M_next m \<notin> set (Q (T_msgq t))"
    using in_one_list[OF ok, of Message_h "T_msgq t" "M_next m"] free t by auto
  then show ?thesis using ms
    by (cases "t = d") (simp_all add: mailbox_def letters_unchanged letter_of_def)
qed

section \<open>Removing a message\<close>

lemma msg_inv_release:
  assumes inv: "msg_inv Q ms" and d: "valid_tid d"
  shows "msg_inv (Q(T_msgq d := remove1 (M_next m) (Q (T_msgq d)), Message_h := Q Message_h @ [M_next m]))
    (ms(m := (ms m)\<lparr>m_sender := None\<rparr>))"
  unfolding msg_inv_def
proof (intro allI impI conjI)
  fix k assume "k < MAXMSG" "m_sender ((ms(m := (ms m)\<lparr>m_sender := None\<rparr>)) k) = None"
  then show "M_next k \<in> set ((Q(T_msgq d := remove1 (M_next m) (Q (T_msgq d)), Message_h := Q Message_h @ [M_next m])) Message_h)"
    using msg_inv_free[OF inv, of k] by (auto split: if_splits)
next
  fix k assume k: "k < MAXMSG" "m_sender ((ms(m := (ms m)\<lparr>m_sender := None\<rparr>)) k) \<noteq> None"
  then have km: "k \<noteq> m" "m_sender (ms k) \<noteq> None" by (auto split: if_splits)
  with msg_inv_used[OF inv k(1)] obtain u where "valid_tid u" "M_next k \<in> set (Q (T_msgq u))" by auto
  with km show "\<exists>t. valid_tid t \<and>
      M_next k \<in> set ((Q(T_msgq d := remove1 (M_next m) (Q (T_msgq d)), Message_h := Q Message_h @ [M_next m])) (T_msgq t))"
    by (intro exI[of _ u]) auto
qed

lemma msg_free_correct:
  assumes ok: "kernel_ok Q s" and d: "valid_tid d" and m: "M_next m \<in> set (Q (T_msgq d))"
  shows "\<exists>l. msg_free m s = Some (0, s\<lparr>lk := l, msgs := (msgs s)(m := (msgs s m)\<lparr>m_sender := None\<rparr>)\<rparr>) \<and>
    kernel_ok (Q(T_msgq d := remove1 (M_next m) (Q (T_msgq d)), Message_h := Q Message_h @ [M_next m]))
      (s\<lparr>lk := l, msgs := (msgs s)(m := (msgs s m)\<lparr>m_sender := None\<rparr>)\<rparr>)"
    (is "\<exists>l. _ \<and> kernel_ok ?Q2 _")
proof -
  let ?Q1 = "Q(T_msgq d := remove1 (M_next m) (Q (T_msgq d)))"
  obtain l1 where l1: "with_links (list_del (M_next m)) s = Some (s\<lparr>lk := l1\<rparr>)"
    "shape l1 heads ?Q1" "not_linked (M_next m) ?Q1"
    using with_links_del[OF kernel_ok_shape[OF ok] _ m] d by auto
  let ?s1 = "upd_msg m (\<lambda>x. x\<lparr>m_sender := None\<rparr>) (s\<lparr>lk := l1\<rparr>)"
  obtain l2 where l2: "with_links (list_add_tail (M_next m) Message_h) ?s1 = Some (?s1\<lparr>lk := l2\<rparr>)"
    "shape l2 heads (?Q1(Message_h := ?Q1 Message_h @ [M_next m]))"
    using with_links_add_tail[of ?s1 ?Q1 Message_h "M_next m"] l1 by (auto simp: upd_defs)
  let ?s' = "s\<lparr>lk := l2, msgs := (msgs s)(m := (msgs s m)\<lparr>m_sender := None\<rparr>)\<rparr>"
  have run: "msg_free m s = Some (0, ?s')"
    using l2(1) by (simp add: msg_free_def l1(1) upd_defs)
  have mlt: "m < MAXMSG" using member_type[OF ok _ m] d by simp
  have typed1: "typed ?Q1"
    using member_type[OF ok, of "T_msgq d"] d
    by (intro typed_upd[OF kernel_ok_typed[OF ok]]) (auto dest: notin_set_remove1)
  have "kernel_ok ?Q2 ?s'"
  proof (rule kernel_okI)
    show "typed ?Q2"
      using typed_member[OF typed1, of Message_h] mlt by (intro typed_upd[OF typed1]) auto
    show "msg_inv ?Q2 (msgs ?s')"
      using msg_inv_release[OF kernel_ok_msgs[OF ok] d, of m] by simp
    have "Q (T_msgq d) = [] \<Longrightarrow> False" using m by simp
    moreover have "t_status (threads s d) = T_STATUS_NONE \<Longrightarrow> Q (T_msgq d) = []"
      using thread_status_none_iff[OF ok d] thread_inv_free[OF kernel_ok_threads[OF ok]] d
      by (cases d) auto
    ultimately show "thread_inv ?Q2 (threads ?s')"
      using thread_inv_msgq_upd[OF kernel_ok_threads[OF ok], of d] by auto
  qed (use l2(2) kernel_okD[OF ok] in simp_all)
  with run show ?thesis by blast
qed

text \<open>In the mailboxes: the letter disappears from the queue that held it.\<close>

lemma mailbox_free:
  assumes ok: "kernel_ok Q s" and d: "valid_tid d" "valid_tid t" and m: "M_next m \<in> set (Q (T_msgq d))"
    and ms: "msgs s' = (msgs s)(m := (msgs s m)\<lparr>m_sender := None\<rparr>)"
  shows "mailbox (Q(T_msgq d := remove1 (M_next m) (Q (T_msgq d)), Message_h := Q Message_h @ [M_next m])) s' t =
    (if t = d then map (letter_of (msgs s)) (remove1 m (mids (Q (T_msgq d)))) else mailbox Q s t)"
proof (cases "t = d")
  case True
  have "distinct (mids (Q (T_msgq d)))"
    using shape_distinct[OF kernel_ok_shape[OF ok], of "T_msgq d"] d by (simp add: mids_distinct)
  then have "m \<notin> set (remove1 m (mids (Q (T_msgq d))))" by simp
  with True ms show ?thesis by (simp add: mailbox_def letters_unchanged)
next
  case False
  have "M_next m \<notin> set (Q (T_msgq t))"
    using in_one_list[OF ok, of "T_msgq d" "T_msgq t" "M_next m"] m d False by auto
  with False ms show ?thesis by (simp add: mailbox_def letters_unchanged)
qed

section \<open>Receiving\<close>

definition put_word :: "u32 \<Rightarrow> val \<Rightarrow> memory \<Rightarrow> memory" where
  "put_word a v m = (if a = 0 then m else m(a := v))"

lemma store_val_eq: "store_val (U a) m s = Some (s\<lparr>mem := put_word a (m_value (msgs s m)) (mem s)\<rparr>)"
  by (simp add: store_val_def put_word_def)

lemma msgq_search_chain:
  assumes "chain (lk s) a (map M_next ms) h" "h \<notin> M_next ` set ms"
  shows "msgq_search s h (lnext (lk s) a) sender = Some (find (\<lambda>m. m_sender (msgs s m) = sender) ms)"
  using assms
proof (induction ms arbitrary: a)
  case Nil
  then show ?case by (subst msgq_search.simps) simp
next
  case (Cons m ms)
  then show ?case by (subst msgq_search.simps) auto
qed

lemma msgq_search_eq:
  assumes ok: "kernel_ok Q s" and d: "valid_tid d"
  shows "msgq_search s (T_msgq d) (lnext (lk s) (T_msgq d)) sender =
    Some (find (\<lambda>m. m_sender (msgs s m) = sender) (mids (Q (T_msgq d))))"
proof (rule msgq_search_chain)
  have "chain (lk s) (T_msgq d) (Q (T_msgq d)) (T_msgq d)"
    using shape_ring[OF kernel_ok_shape[OF ok], of "T_msgq d"] d by (simp add: ring_def)
  with msg_list_mids[OF ok, of "T_msgq d"] d
  show "chain (lk s) (T_msgq d) (map M_next (mids (Q (T_msgq d)))) (T_msgq d)" by simp
qed auto

text \<open>Which message \<open>msgq_get\<close> takes: the first, or the first of the wanted sender.\<close>

definition wanted :: "tid option option \<Rightarrow> letter \<Rightarrow> bool" where
  "wanted sender l \<longleftrightarrow> sender = None \<or> sender = Some None \<or> sender = Some (fst l)"

lemma wanted_any [simp]: "wanted None = (\<lambda>_. True)" "wanted (Some None) = (\<lambda>_. True)"
  by (auto simp: wanted_def fun_eq_iff)

lemma find_True: "find (\<lambda>_. True) xs = (case xs of [] \<Rightarrow> None | x # _ \<Rightarrow> Some x)"
  by (cases xs) auto

lemma msgq_get_none:
  assumes ok: "kernel_ok Q s" and d: "\<And>t. destination = Some t \<Longrightarrow> valid_tid t"
    and none: "\<And>t. destination = Some t \<Longrightarrow> find (wanted sender) (mailbox Q s t) = None"
  shows "msgq_get sender destination value s = Some (-1, sender, s)"
proof (cases destination)
  case None
  then show ?thesis by (simp add: msgq_get_def)
next
  case (Some t)
  have t: "valid_tid t" and f: "find (wanted sender) (mailbox Q s t) = None" using d none Some by auto
  show ?thesis
  proof (cases "sender = None \<or> sender = Some None")
    case True
    then have "mids (Q (T_msgq t)) = []"
      using f by (auto simp: mailbox_def find_True split: list.splits)
    then have "Q (T_msgq t) = []" using msg_list_mids[OF ok, of "T_msgq t"] t by simp
    with True shape_list_next[OF kernel_ok_shape[OF ok], of "T_msgq t"] t Some
    show ?thesis by (auto simp: msgq_get_def)
  next
    case False
    then obtain u where u: "sender = Some (Some u)" by (metis not_Some_eq)
    have "wanted sender \<circ> letter_of (msgs s) = (\<lambda>m. m_sender (msgs s m) = Some u)"
      by (auto simp: fun_eq_iff wanted_def letter_of_def u)
    with f have "find (\<lambda>m. m_sender (msgs s m) = Some u) (mids (Q (T_msgq t))) = None"
      by (simp add: mailbox_def find_map)
    with u msgq_search_eq[OF ok t] Some show ?thesis by (simp add: msgq_get_def)
  qed
qed

abbreviation after_take :: "queues \<Rightarrow> tid \<Rightarrow> mid \<Rightarrow> queues" where
  "after_take Q t m \<equiv>
     Q(T_msgq t := remove1 (M_next m) (Q (T_msgq t)), Message_h := Q Message_h @ [M_next m])"

lemma find_letter:
  assumes "find P (mailbox Q s t) = Some l"
  shows "\<exists>m. find (P \<circ> letter_of (msgs s)) (mids (Q (T_msgq t))) = Some m \<and> letter_of (msgs s) m = l \<and>
    M_next m \<in> set (Q (T_msgq t)) \<and>
    map (letter_of (msgs s)) (remove1 m (mids (Q (T_msgq t)))) = remove_first P (mailbox Q s t)"
proof -
  from assms obtain m where m: "find (P \<circ> letter_of (msgs s)) (mids (Q (T_msgq t))) = Some m" "letter_of (msgs s) m = l"
    by (auto simp: mailbox_def find_map)
  have "remove_first (P \<circ> letter_of (msgs s)) (mids (Q (T_msgq t))) = remove1 m (mids (Q (T_msgq t)))"
    using m(1) by (rule remove_first_found)
  then have "map (letter_of (msgs s)) (remove1 m (mids (Q (T_msgq t)))) = remove_first P (mailbox Q s t)"
    by (metis map_remove_first mailbox_def)
  with m find_SomeD[OF m(1)] show ?thesis by simp
qed

lemma msgq_get_runs:
  assumes ok: "kernel_ok Q s" and t: "valid_tid t"
    and m: "find (wanted sender \<circ> letter_of (msgs s)) (mids (Q (T_msgq t))) = Some m"
  shows "msgq_get sender (Some t) (U a) s =
    (case msg_free m (s\<lparr>mem := put_word a (m_value (msgs s m)) (mem s)\<rparr>) of
       None \<Rightarrow> None
     | Some (r, s') \<Rightarrow> Some (0, map_option (\<lambda>_. m_sender (msgs s m)) sender, s'))"
proof (cases "sender = None \<or> sender = Some None")
  case True
  then have "wanted sender \<circ> letter_of (msgs s) = (\<lambda>_. True)" by auto
  with m obtain ms where ms: "mids (Q (T_msgq t)) = m # ms"
    by (auto simp: find_True split: list.splits)
  have "Q (T_msgq t) = map M_next (mids (Q (T_msgq t)))" using msg_list_mids[OF ok, of "T_msgq t"] t by simp
  also have "\<dots> = M_next m # map M_next ms" by (simp add: ms)
  finally have Q: "Q (T_msgq t) = M_next m # map M_next ms" .
  have nxt: "list_next (T_msgq t) (lk s) = Some (M_next m)"
    using shape_list_next[OF kernel_ok_shape[OF ok], of "T_msgq t"] t Q by (simp split: list.splits)
  from True nxt show ?thesis
    by (auto simp: msgq_get_def store_val_eq split: option.splits Option.bind_split)
next
  case False
  then obtain u where u: "sender = Some (Some u)" by (metis not_Some_eq)
  have "wanted sender \<circ> letter_of (msgs s) = (\<lambda>m. m_sender (msgs s m) = Some u)"
    by (auto simp: fun_eq_iff wanted_def letter_of_def u)
  with m have f: "find (\<lambda>m. m_sender (msgs s m) = Some u) (mids (Q (T_msgq t))) = Some m" by simp
  with find_SomeD[OF f] u msgq_search_eq[OF ok t] show ?thesis
    by (auto simp: msgq_get_def store_val_eq split: option.splits Option.bind_split)
qed

text \<open>
  \<open>msgq_get\<close> implements the mailbox: it returns the first wanted letter, stores its payload through
  \<open>value\<close> when that is not NULL, removes it from the mailbox of \<open>destination\<close> and touches no other
  mailbox.
\<close>

lemma msgq_get_found:
  assumes ok: "kernel_ok Q s" and t: "valid_tid t"
    and f: "find (wanted sender) (mailbox Q s t) = Some (w, v)"
  shows "\<exists>m s'. msgq_get sender (Some t) (U a) s = Some (0, map_option (\<lambda>_. w) sender, s') \<and>
    s' = s\<lparr>lk := lk s', mem := put_word a v (mem s), msgs := (msgs s)(m := (msgs s m)\<lparr>m_sender := None\<rparr>)\<rparr> \<and>
    M_next m \<in> set (Q (T_msgq t)) \<and> kernel_ok (after_take Q t m) s' \<and>
    mailbox (after_take Q t m) s' t = remove_first (wanted sender) (mailbox Q s t) \<and>
    (\<forall>u. valid_tid u \<longrightarrow> u \<noteq> t \<longrightarrow> mailbox (after_take Q t m) s' u = mailbox Q s u)"
proof -
  obtain m where m: "find (wanted sender \<circ> letter_of (msgs s)) (mids (Q (T_msgq t))) = Some m"
    "letter_of (msgs s) m = (w, v)" "M_next m \<in> set (Q (T_msgq t))"
    "map (letter_of (msgs s)) (remove1 m (mids (Q (T_msgq t)))) = remove_first (wanted sender) (mailbox Q s t)"
    using find_letter[OF f] by auto
  have wv: "m_sender (msgs s m) = w" "m_value (msgs s m) = v" using m(2) by (simp_all add: letter_of_def)
  let ?s1 = "s\<lparr>mem := put_word a v (mem s)\<rparr>"
  obtain l where l: "msg_free m ?s1 =
      Some (0, ?s1\<lparr>lk := l, msgs := (msgs s)(m := (msgs s m)\<lparr>m_sender := None\<rparr>)\<rparr>)"
    "kernel_ok (after_take Q t m) (?s1\<lparr>lk := l, msgs := (msgs s)(m := (msgs s m)\<lparr>m_sender := None\<rparr>)\<rparr>)"
    using msg_free_correct[of Q ?s1 t m] ok t m(3) by auto
  let ?s' = "?s1\<lparr>lk := l, msgs := (msgs s)(m := (msgs s m)\<lparr>m_sender := None\<rparr>)\<rparr>"
  have run: "msgq_get sender (Some t) (U a) s = Some (0, map_option (\<lambda>_. w) sender, ?s')"
    using msgq_get_runs[OF ok t m(1), of a] l(1) wv by simp
  have "mailbox (after_take Q t m) ?s' t = remove_first (wanted sender) (mailbox Q s t)"
    using mailbox_free[OF ok t t m(3), of ?s'] m(4) by simp
  moreover have "\<forall>u. valid_tid u \<longrightarrow> u \<noteq> t \<longrightarrow> mailbox (after_take Q t m) ?s' u = mailbox Q s u"
    using mailbox_free[OF ok t _ m(3), of _ ?s'] by auto
  moreover have "?s' = s\<lparr>lk := lk ?s', mem := put_word a v (mem s), msgs := (msgs s)(m := (msgs s m)\<lparr>m_sender := None\<rparr>)\<rparr>"
    by simp
  ultimately show ?thesis using run l(2) m(3) by blast
qed

section \<open>The message queue of a thread is a letterbox\<close>

text \<open>The view of a client: \<open>a\<close> is the address of the variable that receives the payload.\<close>

definition post :: "tid \<Rightarrow> tid option \<Rightarrow> val \<Rightarrow> kstate \<Rightarrow> (bool \<times> kstate) option" where
  "post d u v s = do { (r, s) \<leftarrow> msgq_add u (Some d) v s; Some (r = 0, s) }"

definition fetch :: "u32 \<Rightarrow> tid \<Rightarrow> tid option \<Rightarrow> kstate \<Rightarrow> (val option \<times> kstate) option" where
  "fetch a d u s = do { (r, _, s) \<leftarrow> msgq_get (Some u) (Some d) (U a) s; Some (if r = 0 then Some (mem s a) else None, s) }"

definition letters_left :: "kstate \<Rightarrow> nat" where
  "letters_left s = length (contents s Message_h)"

definition mail_client :: "u32 \<Rightarrow> tid \<Rightarrow> kstate \<Rightarrow> bool" where
  "mail_client a d s \<longleftrightarrow> kernel_wf s \<and> valid_tid d \<and> a \<noteq> 0 \<and> t_status (threads s d) \<noteq> T_STATUS_NONE"

lemma mailbox_contents: "kernel_ok Q s \<Longrightarrow> valid_tid d \<Longrightarrow> mailbox (contents s) s d = mailbox Q s d"
  by (simp add: mailbox_def contents_eq)

lemma wanted_sender: "u \<noteq> None \<Longrightarrow> wanted (Some u) = (\<lambda>l. fst l = u)"
  by (auto simp: wanted_def fun_eq_iff)

interpretation letters: letterbox "mail_client a d" letters_left "\<lambda>s. mailbox (contents s) s d" "\<lambda>u. u \<noteq> None" "post d" "fetch a d"
  for a d
proof unfold_locales
  fix s u v assume "mail_client a d s" "letters_left s = 0"
  then show "post d u v s = Some (False, s)"
    using msgq_add_fails(1)[of "contents s" s u "Some d" v] by (simp add: mail_client_def kernel_wf_def letters_left_def post_def)
next
  fix s n u v assume inv: "mail_client a d s" and n: "letters_left s = Suc n" and u: "u \<noteq> (None :: tid option)"
  have ok: "kernel_ok (contents s) s" and d: "valid_tid d" "t_status (threads s d) \<noteq> T_STATUS_NONE"
    using inv by (simp_all add: mail_client_def kernel_wf_def)
  obtain h ns where Q: "contents s Message_h = h # ns"
    using n by (cases "contents s Message_h") (auto simp: letters_left_def)
  then obtain m where m: "h = M_next m"
    using member_type[OF ok, of Message_h h] member_ok_cases(4)[of Message_h h] by auto
  obtain t where t: "u = Some t" using u by blast
  let ?Q' = "(contents s)(Message_h := ns, T_msgq d := contents s (T_msgq d) @ [M_next m])"
  obtain l where l: "msgq_add (Some t) (Some d) v s = Some (0, s\<lparr>lk := l, msgs := (msgs s)(m := \<lparr>m_sender = Some t, m_value = v\<rparr>)\<rparr>)"
    "kernel_ok ?Q' (s\<lparr>lk := l, msgs := (msgs s)(m := \<lparr>m_sender = Some t, m_value = v\<rparr>)\<rparr>)"
    using msgq_add_correct[OF ok d Q[unfolded m], of t v] by blast
  let ?s' = "s\<lparr>lk := l, msgs := (msgs s)(m := \<lparr>m_sender = Some t, m_value = v\<rparr>)\<rparr>"
  have "mailbox (contents ?s') ?s' d = mailbox (contents s) s d @ [(u, v)]"
    unfolding mailbox_contents[OF l(2) d(1)] using mailbox_add[OF ok Q[unfolded m] d(1) d(1), of ?s' t v] t by simp
  moreover have "mail_client a d ?s'" using inv kernel_ok_wf[OF l(2)] by (simp add: mail_client_def)
  moreover have "letters_left ?s' = n" using contents_eq[OF l(2), of Message_h] Q n by (simp add: letters_left_def)
  ultimately show "\<exists>s'. post d u v s = Some (True, s') \<and> mail_client a d s' \<and> letters_left s' = n \<and>
      mailbox (contents s') s' d = mailbox (contents s) s d @ [(u, v)]"
    using l(1) t by (auto simp: post_def)
next
  fix s u assume "mail_client a d s" "u \<noteq> (None :: tid option)" "find (\<lambda>l. fst l = u) (mailbox (contents s) s d) = None"
  then show "fetch a d u s = Some (None, s)"
    using msgq_get_none[of "contents s" s "Some d" "Some u" "U a"]
    by (simp add: mail_client_def kernel_wf_def fetch_def wanted_sender)
next
  fix s u v assume inv: "mail_client a d s" and u: "u \<noteq> (None :: tid option)"
    and f: "find (\<lambda>l. fst l = u) (mailbox (contents s) s d) = Some (u, v)"
  have ok: "kernel_ok (contents s) s" and d: "valid_tid d" "t_status (threads s d) \<noteq> T_STATUS_NONE" and a: "a \<noteq> 0"
    using inv by (simp_all add: mail_client_def kernel_wf_def)
  obtain m s' where s': "msgq_get (Some u) (Some d) (U a) s = Some (0, Some u, s')"
    "s' = s\<lparr>lk := lk s', mem := put_word a v (mem s), msgs := (msgs s)(m := (msgs s m)\<lparr>m_sender := None\<rparr>)\<rparr>"
    "M_next m \<in> set (contents s (T_msgq d))" "kernel_ok (after_take (contents s) d m) s'"
    "mailbox (after_take (contents s) d m) s' d = remove_first (\<lambda>l. fst l = u) (mailbox (contents s) s d)"
    using msgq_get_found[OF ok d(1), of "Some u" u v a] f u by (auto simp: wanted_sender)
  have fr: "mem s' = put_word a v (mem s)" "threads s' = threads s" by (subst s'(2), simp)+
  have "letters_left s' = Suc (letters_left s)"
    using contents_eq[OF s'(4), of Message_h] by (simp add: letters_left_def)
  moreover have "mail_client a d s'" using inv kernel_ok_wf[OF s'(4)] by (simp add: mail_client_def fr)
  ultimately show "\<exists>s'. fetch a d u s = Some (Some v, s') \<and> mail_client a d s' \<and>
      mailbox (contents s') s' d = remove_first (\<lambda>l. fst l = u) (mailbox (contents s) s d) \<and> letters_left s' = Suc (letters_left s)"
    using s'(1,5) a by (auto simp: fetch_def fr put_word_def mailbox_contents[OF s'(4) d(1)])
qed

end
