(* ===== verification/Scheduler.thy ===== *)
theory Scheduler imports Messages begin

text \<open>
  The scheduler, \<open>src/src/scheduler.c\<close>, and the invariant that ties the status of every thread to
  the scheduling queue that links it. The functions that never return in C (they load a processor
  state, halt, or wait for an interrupt) return an \<open>outcome\<close>.
\<close>

section \<open>Definitions\<close>

datatype outcome =
    Ldst state_t \<comment> \<open>\<open>LDST(&state)\<close>: the processor continues in this state\<close>
  | Halt         \<comment> \<open>\<open>HALT()\<close>\<close>
  | Panic        \<comment> \<open>\<open>PANIC()\<close>, also through a failed \<open>assert\<close>\<close>
  | Wait         \<comment> \<open>\<open>WAIT()\<close>: idle until an interrupt; its handlers never come back here\<close>
  | Ret          \<comment> \<open>\<open>LDST((state_t *) SYSBK_OLDAREA)\<close>: the code that executed the SYSCALL goes on\<close>

definition empty_readyq_h :: "kstate \<Rightarrow> outcome \<times> kstate" where
  "empty_readyq_h s =
     (if thread_count s = 1 then (Halt, s)
      else if soft_block_count s = 0 then (Panic, s)
      else if is_idle s then (Panic, s)
      else (Wait, s\<lparr>is_idle := True, TIMER := clockPerTimeslice s,
                     STATUS := STATUS_ALL_INT_ENABLE (STATUS s)\<rparr>))"

definition scheduler :: "kstate \<Rightarrow> (outcome \<times> kstate) option" where
  "scheduler s = do {
     (t, s) \<leftarrow> thread_dequeue Readyq s;
     let s = s\<lparr>current_thread := t\<rparr>;
     (case t of
        None \<Rightarrow> Some (empty_readyq_h s)
      | Some cur \<Rightarrow> do {
          let s = s\<lparr>TIMER := clockPerTimeslice s\<rparr>;
          Some (Ldst (t_s (threads s cur)), s) })
   }"

text \<open>\<open>cpu\<close> is the processor state that \<open>STST\<close> stores.\<close>

definition state_init :: "state_t \<Rightarrow> tid \<Rightarrow> fn_sym \<Rightarrow> u32 \<Rightarrow> kstate \<Rightarrow> kstate option" where
  "state_init cpu to_load target status s = do {
     top \<leftarrow> ram_top (mem s);
     let s = upd_thread to_load (\<lambda>x. x\<lparr>t_s := cpu\<rparr>) s;
     let s = upd_thread to_load (\<lambda>x. x\<lparr>t_s := (t_s x)\<lparr>pc := Fn target\<rparr>\<rparr>) s;
     let s = upd_thread to_load (\<lambda>x. x\<lparr>t_s := (t_s x)\<lparr>sp := U (top - state_init_n s * FRAME_SIZE)\<rparr>\<rparr>) s;
     let s = upd_thread to_load (\<lambda>x. x\<lparr>t_s := (t_s x)\<lparr>cpsr := U status\<rparr>\<rparr>) s;
     Some (s\<lparr>state_init_n := state_init_n s + 1\<rparr>)
   }"

definition init_and_load :: "state_t \<Rightarrow> tid \<Rightarrow> fn_sym \<Rightarrow> u32 \<Rightarrow> kstate \<Rightarrow> kstate option" where
  "init_and_load cpu to_load target status s = do {
     s \<leftarrow> state_init cpu to_load target status s;
     s \<leftarrow> thread_enqueue to_load Readyq s;
     Some (s\<lparr>thread_count := thread_count s + 1\<rparr>)
   }"

section \<open>Threads and scheduling queues agree\<close>

definition linked_at :: "queues \<Rightarrow> tid \<Rightarrow> node \<Rightarrow> bool" where
  "linked_at Q t h \<longleftrightarrow> is_sched_head h \<and> T_sched t \<in> set (Q h)"

text \<open>
  A free thread is in no queue. A ready thread is in no queue when it is running, otherwise in one
  that is not a waiting list of another thread. A thread that waits for a message is in the waiting
  list of the expected sender, or in \<open>blockedq\<close> when it expects anybody, and the place where it
  wants the payload (register \<open>a3\<close>) is a plain address.
\<close>

definition thread_sched_ok :: "queues \<Rightarrow> tid option \<Rightarrow> tcb_t \<Rightarrow> tid \<Rightarrow> bool" where
  "thread_sched_ok Q cur x t \<longleftrightarrow>
     (t_status x = T_STATUS_NONE \<longrightarrow> cur \<noteq> Some t \<and> (\<forall>h. \<not> linked_at Q t h)) \<and>
     (t_status x = T_STATUS_READY \<longrightarrow>
        (cur = Some t \<longrightarrow> (\<forall>h. \<not> linked_at Q t h)) \<and>
        (cur \<noteq> Some t \<longrightarrow> (\<exists>h. linked_at Q t h \<and> (\<forall>u. h \<noteq> T_wait4me u)))) \<and>
     (t_status x = T_STATUS_W4MSG \<longrightarrow>
        cur \<noteq> Some t \<and> (\<exists>a. a3 (t_s x) = U a) \<and>
        (t_wait4sender x = None \<longrightarrow> linked_at Q t Blockedq) \<and>
        (\<forall>u. t_wait4sender x = Some u \<longrightarrow> linked_at Q t (T_wait4me u)))"

text \<open>The queue that a waiting thread is linked in.\<close>

definition wait_queue :: "tid option \<Rightarrow> node" where
  "wait_queue expected = (case expected of None \<Rightarrow> Blockedq | Some u \<Rightarrow> T_wait4me u)"

lemma wait_queue_simps [simp]: "wait_queue None = Blockedq" "wait_queue (Some u) = T_wait4me u"
  by (simp_all add: wait_queue_def)

definition sched_inv :: "queues \<Rightarrow> tid option \<Rightarrow> (tid \<Rightarrow> tcb_t) \<Rightarrow> bool" where
  "sched_inv Q cur ts \<longleftrightarrow>
     (\<forall>t. valid_tid t \<longrightarrow> thread_sched_ok Q cur (ts t) t) \<and> (\<forall>t. cur = Some t \<longrightarrow> valid_tid t)"

text \<open>
  Mail: every pending letter names a sender, and a thread that waits has no letter it would accept
  (no message is left lying in the queue of a thread that waits for it).
\<close>

definition mail_inv :: "(tid \<Rightarrow> letter list) \<Rightarrow> (tid \<Rightarrow> tcb_t) \<Rightarrow> bool" where
  "mail_inv mb ts \<longleftrightarrow>
     (\<forall>t. valid_tid t \<longrightarrow>
        (\<forall>l \<in> set (mb t). \<exists>u. fst l = Some u \<and> valid_tid u) \<and>
        (t_status (ts t) = T_STATUS_W4MSG \<longrightarrow> (\<forall>l \<in> set (mb t). \<not> wanted (Some (t_wait4sender (ts t))) l)))"

definition mgrs_ok :: "(pid \<Rightarrow> pcb_t) \<Rightarrow> bool" where
  "mgrs_ok ps \<longleftrightarrow> (\<forall>p t. pgm_mgr (ps p) = Some t \<or> tlb_mgr (ps p) = Some t \<or> sys_mgr (ps p) = Some t \<longrightarrow> valid_tid t)"

text \<open>The threads that wait for a device are thread descriptors.\<close>

definition devices_ok :: "(nat \<Rightarrow> tid option) \<Rightarrow> bool" where
  "devices_ok sb \<longleftrightarrow> (\<forall>i t. sb i = Some t \<longrightarrow> valid_tid t)"

text \<open>
  The invariant of the running kernel; the trap managers of a process are thread descriptors. The queue of \<open>WAIT_FOR_CLOCK\<close> is empty: the service that
  fills it breaks the lists (theory \<open>Services\<close>), so a system that keeps the invariant does not use it.
\<close>

definition sys_ok :: "queues \<Rightarrow> kstate \<Rightarrow> bool" where
  "sys_ok Q s \<longleftrightarrow> kernel_ok Q s \<and> sched_inv Q (current_thread s) (threads s) \<and>
     mail_inv (mailbox Q s) (threads s) \<and> mgrs_ok (procs s) \<and>
     devices_ok (soft_blocked_thread s) \<and> (is_idle s \<longrightarrow> current_thread s = None) \<and> SSI s = Some SSI_thread \<and> Q T_wait4clock = []"

lemma sys_okD:
  assumes "sys_ok Q s"
  shows sys_ok_kernel: "kernel_ok Q s"
    and sys_ok_sched: "sched_inv Q (current_thread s) (threads s)"
    and sys_ok_mail: "mail_inv (mailbox Q s) (threads s)"
    and sys_ok_mgrs: "mgrs_ok (procs s)"
    and sys_ok_devices: "devices_ok (soft_blocked_thread s)"
    and sys_ok_idle: "is_idle s \<longrightarrow> current_thread s = None"
    and sys_ok_SSI: "SSI s = Some SSI_thread"
    and sys_ok_clock: "Q T_wait4clock = []"
  using assms by (simp_all add: sys_ok_def)

lemma sys_okI:
  "kernel_ok Q s \<Longrightarrow> sched_inv Q (current_thread s) (threads s) \<Longrightarrow> mail_inv (mailbox Q s) (threads s) \<Longrightarrow>
   mgrs_ok (procs s) \<Longrightarrow> devices_ok (soft_blocked_thread s) \<Longrightarrow>
   is_idle s \<longrightarrow> current_thread s = None \<Longrightarrow> SSI s = Some SSI_thread \<Longrightarrow> Q T_wait4clock = [] \<Longrightarrow> sys_ok Q s"
  by (simp add: sys_ok_def)

lemma mailbox_fun: "mailbox Q s = (\<lambda>t. map (letter_of (msgs s)) (mids (Q (T_msgq t))))"
  by (rule ext) (simp add: mailbox_def)

lemma mailbox_frame [frame_simps]:
  "msgs s' = msgs s \<Longrightarrow> (\<And>t. Q' (T_msgq t) = Q (T_msgq t)) \<Longrightarrow> mailbox Q' s' = mailbox Q s"
  by (simp add: mailbox_fun)

lemma mailbox_sched_upd [simp]: "is_sched_head h \<Longrightarrow> mailbox (Q(h := x)) s = mailbox Q s"
  by (cases h) (simp_all add: mailbox_fun)

lemma mail_inv_senders: "mail_inv mb ts \<Longrightarrow> valid_tid t \<Longrightarrow> l \<in> set (mb t) \<Longrightarrow> \<exists>u. fst l = Some u \<and> valid_tid u"
  and mail_inv_waiting: "mail_inv mb ts \<Longrightarrow> valid_tid t \<Longrightarrow> t_status (ts t) = T_STATUS_W4MSG \<Longrightarrow>
    l \<in> set (mb t) \<Longrightarrow> \<not> wanted (Some (t_wait4sender (ts t))) l"
  by (simp_all add: mail_inv_def)

text \<open>A change of one thread and its mailbox.\<close>

lemma mail_inv_update:
  assumes "mail_inv mb ts"
    and "\<And>u. valid_tid u \<Longrightarrow> u \<noteq> t \<Longrightarrow> mb' u = mb u" "\<And>u. valid_tid u \<Longrightarrow> u \<noteq> t \<Longrightarrow> ts' u = ts u"
    and "\<And>l. valid_tid t \<Longrightarrow> l \<in> set (mb' t) \<Longrightarrow> \<exists>u. fst l = Some u \<and> valid_tid u"
    and "\<And>l. valid_tid t \<Longrightarrow> t_status (ts' t) = T_STATUS_W4MSG \<Longrightarrow> l \<in> set (mb' t) \<Longrightarrow>
      \<not> wanted (Some (t_wait4sender (ts' t))) l"
  shows "mail_inv mb' ts'"
  unfolding mail_inv_def
proof (intro allI impI conjI)
  fix t' assume t': "valid_tid t'"
  show "\<forall>l\<in>set (mb' t'). \<exists>u. fst l = Some u \<and> valid_tid u"
    using assms t' mail_inv_senders[OF assms(1) t'] by (cases "t' = t") auto
  assume w: "t_status (ts' t') = T_STATUS_W4MSG"
  show "\<forall>l\<in>set (mb' t'). \<not> wanted (Some (t_wait4sender (ts' t'))) l"
    using assms t' w mail_inv_waiting[OF assms(1) t'] by (cases "t' = t") auto
qed

text \<open>The other fields of the state do not matter.\<close>

lemma sys_ok_other [simp]:
  "sys_ok Q (s\<lparr>thread_count := x_1\<rparr>) = sys_ok Q s"
  "sys_ok Q (s\<lparr>soft_block_count := x_2\<rparr>) = sys_ok Q s"
  "sys_ok Q (s\<lparr>state_init_n := x_4\<rparr>) = sys_ok Q s"
  "sys_ok Q (s\<lparr>pseudoclock := x_6\<rparr>) = sys_ok Q s"
  "sys_ok Q (s\<lparr>timeSliceLeft := x_7\<rparr>) = sys_ok Q s"
  "sys_ok Q (s\<lparr>clockPerTimeslice := x_8\<rparr>) = sys_ok Q s"
  "sys_ok Q (s\<lparr>mem := x_9\<rparr>) = sys_ok Q s"
  "sys_ok Q (s\<lparr>SYSBK_OLDAREA := x_10\<rparr>) = sys_ok Q s"
  "sys_ok Q (s\<lparr>PGMTRAP_OLDAREA := x_11\<rparr>) = sys_ok Q s"
  "sys_ok Q (s\<lparr>TLB_OLDAREA := x_12\<rparr>) = sys_ok Q s"
  "sys_ok Q (s\<lparr>INT_OLDAREA := x_13\<rparr>) = sys_ok Q s"
  "sys_ok Q (s\<lparr>TIMER := x_14\<rparr>) = sys_ok Q s"
  "sys_ok Q (s\<lparr>STATUS := x_15\<rparr>) = sys_ok Q s"
  by (simp_all add: sys_ok_def mailbox_fun)

text \<open>
  Between two handlers the kernel is idle only when no thread is ready to run. (A handler that wakes a
  thread of an idle kernel leaves that state before it calls the scheduler.)
\<close>

definition settled :: "queues \<Rightarrow> kstate \<Rightarrow> bool" where
  "settled Q s \<longleftrightarrow> sys_ok Q s \<and> (is_idle s \<longrightarrow> Q Readyq = [])"

lemma settled_sys_ok: "settled Q s \<Longrightarrow> sys_ok Q s"
  by (simp add: settled_def)

lemma sys_ok_busy: "sys_ok Q s \<Longrightarrow> current_thread s = Some c \<Longrightarrow> \<not> is_idle s"
  using sys_ok_idle[of Q s] by auto

lemma settled_running: "sys_ok Q s \<Longrightarrow> current_thread s = Some c \<Longrightarrow> settled Q s"
  using sys_ok_busy[of Q s c] by (simp add: settled_def)

lemma sys_ok_idle_none: "sys_ok Q (s\<lparr>is_idle := b, current_thread := None\<rparr>) = sys_ok Q (s\<lparr>current_thread := None\<rparr>)"
    "sys_ok Q (s\<lparr>current_thread := None, is_idle := b\<rparr>) = sys_ok Q (s\<lparr>current_thread := None\<rparr>)"
  by (simp_all add: sys_ok_def mailbox_fun)

lemma sys_ok_not_idle: "sys_ok Q s \<Longrightarrow> sys_ok Q (s\<lparr>is_idle := False\<rparr>)"
  by (simp add: sys_ok_def mailbox_fun)

lemma sys_ok_soft_blocked: "sys_ok Q s \<Longrightarrow> devices_ok f \<Longrightarrow> sys_ok Q (s\<lparr>soft_blocked_thread := f\<rparr>)"
  by (simp add: sys_ok_def mailbox_fun)

lemma devices_ok_upd:
  "devices_ok f \<Longrightarrow> devices_ok (f(i := None))" "devices_ok f \<Longrightarrow> valid_tid t \<Longrightarrow> devices_ok (f(i := Some t))"
  by (auto simp: devices_ok_def)

lemma linked_at_add [simp]:
  "linked_at (Q(h := Q h @ [T_sched t])) u k \<longleftrightarrow> linked_at Q u k \<or> (k = h \<and> u = t \<and> is_sched_head h)"
  by (auto simp: linked_at_def)

lemma linked_at_other [simp]:
  "\<not> is_sched_head h \<Longrightarrow> linked_at (Q(h := x)) u k \<longleftrightarrow> linked_at Q u k"
  by (auto simp: linked_at_def)

lemma linked_at_remove: "u \<noteq> t \<Longrightarrow> linked_at (Q(h := remove1 (T_sched t) (Q h))) u k \<longleftrightarrow> linked_at Q u k"
  by (auto simp: linked_at_def)

lemma not_linked_iff:
  assumes "typed Q"
  shows "not_linked (T_sched t) Q \<longleftrightarrow> (\<forall>h. \<not> linked_at Q t h)"
proof
  assume "not_linked (T_sched t) Q"
  then show "\<forall>h. \<not> linked_at Q t h" by (auto simp: linked_at_def unlinked_node_def)
next
  assume n: "\<forall>h. \<not> linked_at Q t h"
  have "T_sched t \<notin> set (Q h)" if "is_head h" for h
    using typed_member[OF assms that, of "T_sched t"] n by (auto simp: linked_at_def)
  then show "not_linked (T_sched t) Q" by (simp add: unlinked_node_def)
qed

lemma linked_at_unique:
  "kernel_ok Q s \<Longrightarrow> linked_at Q t h \<Longrightarrow> linked_at Q t k \<Longrightarrow> h = k"
  using in_one_list[of Q s h k "T_sched t"] by (auto simp: linked_at_def)

lemma thread_sched_ok_cong:
  "(\<And>h. linked_at Q' t h \<longleftrightarrow> linked_at Q t h) \<Longrightarrow> (cur' = Some t \<longleftrightarrow> cur = Some t) \<Longrightarrow>
   thread_sched_ok Q' cur' x t = thread_sched_ok Q cur x t"
  by (simp add: thread_sched_ok_def)

text \<open>An operation that moves one thread has to re-establish the condition of that thread only.\<close>

lemma sched_inv_update:
  assumes inv: "sched_inv Q cur ts"
    and others: "\<And>u h. valid_tid u \<Longrightarrow> u \<noteq> t \<Longrightarrow> linked_at Q' u h \<longleftrightarrow> linked_at Q u h"
      "\<And>u. valid_tid u \<Longrightarrow> u \<noteq> t \<Longrightarrow> ts' u = ts u"
      "\<And>u. valid_tid u \<Longrightarrow> u \<noteq> t \<Longrightarrow> cur' = Some u \<longleftrightarrow> cur = Some u"
    and own: "valid_tid t \<Longrightarrow> thread_sched_ok Q' cur' (ts' t) t"
    and cur: "\<And>u. cur' = Some u \<Longrightarrow> valid_tid u"
  shows "sched_inv Q' cur' ts'"
  unfolding sched_inv_def
proof (intro conjI allI impI)
  fix u assume u: "valid_tid u"
  show "thread_sched_ok Q' cur' (ts' u) u"
  proof (cases "u = t")
    case True with own u show ?thesis by simp
  next
    case False
    have "thread_sched_ok Q' cur' (ts u) u = thread_sched_ok Q cur (ts u) u"
      by (rule thread_sched_ok_cong) (use others u False in auto)
    then show ?thesis using inv u False others by (simp add: sched_inv_def)
  qed
qed (use cur in simp)

lemma sched_inv_thread: "sched_inv Q cur ts \<Longrightarrow> valid_tid t \<Longrightarrow> thread_sched_ok Q cur (ts t) t"
  by (simp add: sched_inv_def)

lemma sched_inv_free:
  "sched_inv Q cur ts \<Longrightarrow> valid_tid t \<Longrightarrow> t_status (ts t) = T_STATUS_NONE \<Longrightarrow> \<not> linked_at Q t h"
  using sched_inv_thread[of Q cur ts t] by (simp add: thread_sched_ok_def)

lemma sched_inv_current: "sched_inv Q (Some t) ts \<Longrightarrow> valid_tid t"
  by (simp add: sched_inv_def)

lemma sched_inv_running:
  assumes "sched_inv Q (Some t) ts"
  shows "valid_tid t \<and> t_status (ts t) = T_STATUS_READY \<and> (\<forall>h. \<not> linked_at Q t h)"
  using sched_inv_current[OF assms] sched_inv_thread[OF assms sched_inv_current[OF assms]]
  by (cases "t_status (ts t)") (auto simp: thread_sched_ok_def)

lemma sched_inv_waiting:
  "sched_inv Q cur ts \<Longrightarrow> valid_tid t \<Longrightarrow> t_status (ts t) = T_STATUS_W4MSG \<Longrightarrow>
   cur \<noteq> Some t \<and> (\<exists>a. a3 (t_s (ts t)) = U a) \<and>
   linked_at Q t (wait_queue (t_wait4sender (ts t)))"
  using sched_inv_thread[of Q cur ts t] by (cases "t_wait4sender (ts t)") (auto simp: thread_sched_ok_def)

lemma sched_inv_linked:
  assumes "sched_inv Q cur ts" "valid_tid t" "t_status (ts t) \<noteq> T_STATUS_NONE" "cur \<noteq> Some t"
  shows "\<exists>h. linked_at Q t h"
  using sched_inv_thread[OF assms(1,2)] assms(3,4)
  by (cases "t_status (ts t)"; cases "t_wait4sender (ts t)") (auto simp: thread_sched_ok_def)

text \<open>Read backwards: the queue that holds a thread determines its status.\<close>

lemma sched_inv_in_readyq:
  assumes ok: "kernel_ok Q s" and inv: "sched_inv Q cur (threads s)" and t: "valid_tid t" and r: "linked_at Q t Readyq"
  shows "t_status (threads s t) = T_STATUS_READY \<and> cur \<noteq> Some t"
  using sched_inv_thread[OF inv t] r linked_at_unique[OF ok r]
  by (cases "t_status (threads s t)"; cases "t_wait4sender (threads s t)") (auto simp: thread_sched_ok_def)

lemma sched_inv_in_wait4me:
  assumes ok: "kernel_ok Q s" and inv: "sched_inv Q cur (threads s)" and t: "valid_tid t"
    and r: "linked_at Q t (T_wait4me u)"
  shows "t_status (threads s t) = T_STATUS_W4MSG \<and> t_wait4sender (threads s t) = Some u"
proof -
  have only: "h = T_wait4me u" if "linked_at Q t h" for h using linked_at_unique[OF ok that r] .
  show ?thesis
  proof (cases "t_status (threads s t)")
    case T_STATUS_NONE then show ?thesis using sched_inv_free[OF inv t] r by blast
  next
    case T_STATUS_READY
    with sched_inv_thread[OF inv t] r only show ?thesis by (fastforce simp: thread_sched_ok_def)
  next
    case T_STATUS_W4MSG
    with sched_inv_thread[OF inv t] only show ?thesis
      by (cases "t_wait4sender (threads s t)") (auto simp: thread_sched_ok_def)
  qed
qed

section \<open>Counting threads\<close>

definition all_tids :: "tid set" where "all_tids = Collect valid_tid"

lemma all_tids_eq: "all_tids = insert SSI_thread (Thread ` {..<MAXTHREAD})"
proof -
  have "valid_tid t \<longleftrightarrow> t \<in> insert SSI_thread (Thread ` {..<MAXTHREAD})" for t by (cases t) auto
  then show ?thesis by (auto simp: all_tids_def)
qed

lemma finite_all_tids [simp]: "finite all_tids"
  by (simp add: all_tids_eq)

lemma in_all_tids [simp]: "t \<in> all_tids \<longleftrightarrow> valid_tid t"
  by (simp add: all_tids_def)

definition live_threads :: "kstate \<Rightarrow> tid set" where
  "live_threads s = {t \<in> all_tids. t_status (threads s t) \<noteq> T_STATUS_NONE}"

text \<open>
  What \<open>thread_count\<close> is meant to be: the number of threads in the system. The operations below keep
  the difference of the two.
\<close>

definition count_error :: "kstate \<Rightarrow> u32" where
  "count_error s = thread_count s - of_nat (card (live_threads s))"

lemma finite_live_threads [simp]: "finite (live_threads s)"
  by (rule finite_subset[of _ all_tids]) (auto simp: live_threads_def)

lemma live_threads_remove:
  assumes "valid_tid t" "t_status (threads s t) \<noteq> T_STATUS_NONE" "t_status (threads s' t) = T_STATUS_NONE"
    "\<And>u. valid_tid u \<Longrightarrow> u \<noteq> t \<Longrightarrow> t_status (threads s' u) = T_STATUS_NONE \<longleftrightarrow> t_status (threads s u) = T_STATUS_NONE"
  shows "of_nat (card (live_threads s')) = (of_nat (card (live_threads s)) - 1 :: u32)"
proof -
  have "live_threads s = insert t (live_threads s')" "t \<notin> live_threads s'"
    using assms by (auto simp: live_threads_def)
  then show ?thesis by simp
qed

lemma live_threads_same:
  "(\<And>u. valid_tid u \<Longrightarrow> t_status (threads s' u) = T_STATUS_NONE \<longleftrightarrow> t_status (threads s u) = T_STATUS_NONE) \<Longrightarrow>
   live_threads s' = live_threads s"
  by (auto simp: live_threads_def)

lemma count_error_cong:
  "thread_count s' = thread_count s \<Longrightarrow>
   (\<And>u. valid_tid u \<Longrightarrow> t_status (threads s' u) = T_STATUS_NONE \<longleftrightarrow> t_status (threads s u) = T_STATUS_NONE) \<Longrightarrow>
   count_error s' = count_error s"
  using live_threads_same[of s' s] by (simp add: count_error_def)

text \<open>Updates of the other fields.\<close>

lemma count_error_other [simp]:
  "count_error (s\<lparr>lk := y_0\<rparr>) = count_error s"
  "count_error (s\<lparr>procs := y_1\<rparr>) = count_error s"
  "count_error (s\<lparr>msgs := y_2\<rparr>) = count_error s"
  "count_error (s\<lparr>current_thread := y_3\<rparr>) = count_error s"
  "count_error (s\<lparr>soft_block_count := y_4\<rparr>) = count_error s"
  "count_error (s\<lparr>is_idle := y_5\<rparr>) = count_error s"
  "count_error (s\<lparr>soft_blocked_thread := y_6\<rparr>) = count_error s"
  "count_error (s\<lparr>pseudoclock := y_7\<rparr>) = count_error s"
  "count_error (s\<lparr>timeSliceLeft := y_8\<rparr>) = count_error s"
  "count_error (s\<lparr>mem := y_9\<rparr>) = count_error s"
  "count_error (s\<lparr>SYSBK_OLDAREA := y_10\<rparr>) = count_error s"
  "count_error (s\<lparr>PGMTRAP_OLDAREA := y_11\<rparr>) = count_error s"
  "count_error (s\<lparr>TLB_OLDAREA := y_12\<rparr>) = count_error s"
  "count_error (s\<lparr>INT_OLDAREA := y_13\<rparr>) = count_error s"
  "count_error (s\<lparr>TIMER := y_14\<rparr>) = count_error s"
  "count_error (s\<lparr>STATUS := y_15\<rparr>) = count_error s"
  by (simp_all add: count_error_def live_threads_def)

section \<open>Dispatching\<close>

text \<open>
  \<open>scheduler\<close> is entered with no running thread: every ready thread is in a queue. It dispatches the
  head of the ready queue, which becomes the running thread with a full time slice.
\<close>

lemma scheduler_dispatch:
  assumes ok: "sys_ok Q (s\<lparr>current_thread := None\<rparr>)"
    and busy: "\<not> is_idle s" and Q: "Q Readyq = T_sched t # ns"
  shows "\<exists>l. scheduler s =
      Some (Ldst (t_s (threads s t)),
        s\<lparr>lk := l, current_thread := Some t, TIMER := clockPerTimeslice s\<rparr>) \<and>
    sys_ok (Q(Readyq := ns)) (s\<lparr>lk := l, current_thread := Some t, TIMER := clockPerTimeslice s\<rparr>)"
proof -
  have kok: "kernel_ok Q s" and inv: "sched_inv Q None (threads s)"
    using sys_ok_kernel[OF ok] sys_ok_sched[OF ok] by simp_all
  obtain l where l: "thread_dequeue Readyq s = Some (Some t, s\<lparr>lk := l\<rparr>)"
    "kernel_ok (Q(Readyq := ns)) (s\<lparr>lk := l\<rparr>)" "not_linked (T_sched t) (Q(Readyq := ns))"
    using thread_dequeue_correct[OF kok _ Q] by auto
  have t: "valid_tid t" using member_type[OF kok, of Readyq "T_sched t"] Q by simp
  have st: "t_status (threads s t) = T_STATUS_READY"
    using sched_inv_in_readyq[OF kok inv t] Q by (simp add: linked_at_def)
  have nl: "\<forall>h. \<not> linked_at (Q(Readyq := ns)) t h"
    using l(3) not_linked_iff[OF kernel_ok_typed[OF l(2)]] by simp
  have "sched_inv (Q(Readyq := ns)) (Some t) (threads s)"
    by (rule sched_inv_update[OF inv, of t]) (use Q t st nl in \<open>auto simp: linked_at_def thread_sched_ok_def\<close>)
  moreover have "mailbox (Q(Readyq := ns)) (s\<lparr>lk := l, current_thread := Some t, TIMER := clockPerTimeslice s\<rparr>) =
      mailbox Q (s\<lparr>current_thread := None\<rparr>)"
    by (rule mailbox_frame) simp_all
  ultimately have "sys_ok (Q(Readyq := ns)) (s\<lparr>lk := l, current_thread := Some t, TIMER := clockPerTimeslice s\<rparr>)"
    using l(2) sys_okD[OF ok] busy by (intro sys_okI) simp_all
  with l(1) show ?thesis by (intro exI[of _ l]) (simp add: scheduler_def)
qed

lemma scheduler_empty:
  assumes "kernel_ok Q s" "Q Readyq = []"
  shows "scheduler s = Some (empty_readyq_h (s\<lparr>current_thread := None\<rparr>))"
  using thread_dequeue_empty[OF assms(1), of Readyq] assms(2) by (simp add: scheduler_def)

text \<open>The thread that ran before does not matter: the scheduler overwrites \<open>current_thread\<close> first.\<close>

lemma scheduler_current: "scheduler (s\<lparr>current_thread := x\<rparr>) = scheduler s"
  by (auto simp: scheduler_def thread_dequeue_def queue_macros with_links_def empty_readyq_h_def split: option.splits Option.bind_split)

text \<open>The scheduler always reaches an outcome, and the state it leaves satisfies the invariants.\<close>

lemma scheduler_total:
  assumes ok: "sys_ok Q (s\<lparr>current_thread := None\<rparr>)" and idle: "is_idle s \<Longrightarrow> Q Readyq = []"
  shows "\<exists>out s' Q'. scheduler s = Some (out, s') \<and> settled Q' s' \<and>
    (\<forall>h. h \<noteq> Readyq \<longrightarrow> Q' h = Q h) \<and> threads s' = threads s \<and> msgs s' = msgs s \<and> mem s' = mem s \<and>
    count_error s' = count_error s \<and> out \<noteq> Ret"
proof -
  have kok: "kernel_ok Q s" using sys_ok_kernel[OF ok] by simp
  show ?thesis
  proof (cases "Q Readyq")
    case Nil
    let ?r = "empty_readyq_h (s\<lparr>current_thread := None\<rparr>)"
    have "settled Q (snd ?r) \<and> threads (snd ?r) = threads s \<and> msgs (snd ?r) = msgs s \<and> mem (snd ?r) = mem s \<and>
      count_error (snd ?r) = count_error s \<and> fst ?r \<noteq> Ret"
      using ok Nil by (simp add: empty_readyq_h_def settled_def sys_ok_idle_none)
    then show ?thesis
      using scheduler_empty[OF kok Nil] by (intro exI[of _ "fst ?r"] exI[of _ "snd ?r"] exI[of _ Q]) simp
  next
    case (Cons n ns)
    obtain t where n: "n = T_sched t"
      using member_type[OF kok, of Readyq n] member_ok_cases(3)[of Readyq n] Cons by auto
    obtain l where l: "scheduler s =
        Some (Ldst (t_s (threads s t)),
          s\<lparr>lk := l, current_thread := Some t, TIMER := clockPerTimeslice s\<rparr>)"
      "sys_ok (Q(Readyq := ns)) (s\<lparr>lk := l, current_thread := Some t, TIMER := clockPerTimeslice s\<rparr>)"
      using scheduler_dispatch[OF ok _, of t ns] Cons n idle by auto
    then show ?thesis
      by (intro exI[of _ "Ldst (t_s (threads s t))"] exI[of _ "Q(Readyq := ns)"]
          exI[of _ "s\<lparr>lk := l, current_thread := Some t, TIMER := clockPerTimeslice s\<rparr>"] conjI) (simp_all add: settled_running)
  qed
qed

end
