(* ===== verification/Syscall.thy ===== *)
theory Syscall imports Scheduler begin

text \<open>
  Message passing as system calls: \<open>src/src/handlers/syscall.c\<close>, the trap handlers of
  \<open>src/src/handlers/trap.c\<close>, the clock of \<open>src/src/clock/accounting.c\<close> and the two client stubs of
  \<open>nucleus.h\<close> that the handlers call.

  A handler that calls \<open>msgsend\<close> or \<open>msgrecv\<close> executes a nested SYSCALL: the processor saves the
  state of the handler in \<open>SYSBK_OLDAREA\<close> and enters \<open>syscall_h\<close> again. That saved state, apart
  from the argument registers, is the argument \<open>cpu\<close> below; \<open>frame\<close> is the address of the local
  variable on the stack of the handler that holds a request.
\<close>

section \<open>Sending\<close>

definition SEND_SUCCESS :: u32 where "SEND_SUCCESS = 0"
definition SEND_FAILURE :: u32 where "SEND_FAILURE = -1"
definition SYS_ERR :: u32 where "SYS_ERR = 0"
definition SYS_SEND :: u32 where "SYS_SEND = 1"
definition SYS_RECV :: u32 where "SYS_RECV = 2"

lemmas sys_defs = SEND_SUCCESS_def SEND_FAILURE_def SYS_ERR_def SYS_SEND_def SYS_RECV_def

definition store_return_value :: "val \<Rightarrow> kstate \<Rightarrow> kstate" where
  "store_return_value rval s = s\<lparr>SYSBK_OLDAREA := (SYSBK_OLDAREA s)\<lparr>a1 := rval\<rparr>\<rparr>"

definition deliver_msg :: "tid \<Rightarrow> tid option \<Rightarrow> val \<Rightarrow> kstate \<Rightarrow> (u32 \<times> kstate) option" where
  "deliver_msg dest sender msg s = do {
     (r, s) \<leftarrow> msgq_add sender (Some dest) msg s;
     Some (if r = 0 then SEND_SUCCESS else SEND_FAILURE, s)
   }"

definition deliver_directly :: "tid \<Rightarrow> tid option \<Rightarrow> val \<Rightarrow> kstate \<Rightarrow> kstate option" where
  "deliver_directly dest recv_rval msg s = do {
     let s = upd_thread dest (\<lambda>x. x\<lparr>t_s := (t_s x)\<lparr>a1 := of_tcb recv_rval\<rparr>\<rparr>) s;
     if a3 (t_s (threads s dest)) \<noteq> NULL
     then do { m \<leftarrow> store_word (a3 (t_s (threads s dest))) msg (mem s); Some (s\<lparr>mem := m\<rparr>) }
     else Some s
   }"

definition resume_thread :: "tid \<Rightarrow> tid option \<Rightarrow> val \<Rightarrow> kstate \<Rightarrow> kstate option" where
  "resume_thread resuming recv_rval msg s = do {
     s \<leftarrow> deliver_directly resuming recv_rval msg s;
     let s = upd_thread resuming (\<lambda>x. x\<lparr>t_status := T_STATUS_READY\<rparr>) s;
     let s = upd_thread resuming (\<lambda>x. x\<lparr>t_wait4sender := None\<rparr>) s;
     s \<leftarrow> thread_outqueue resuming s;
     thread_enqueue resuming Readyq s
   }"

definition send :: "tid option \<Rightarrow> tid option \<Rightarrow> val \<Rightarrow> kstate \<Rightarrow> (u32 \<times> kstate) option" where
  "send dest sender msg s = do {
     dest \<leftarrow> dest;
     (case t_status (threads s dest) of
        T_STATUS_READY \<Rightarrow> deliver_msg dest sender msg s
      | T_STATUS_W4MSG \<Rightarrow>
          if t_wait4sender (threads s dest) = sender \<or> t_wait4sender (threads s dest) = None
          then do { s \<leftarrow> resume_thread dest sender msg s; Some (SEND_SUCCESS, s) }
          else deliver_msg dest sender msg s
      | T_STATUS_NONE \<Rightarrow> Some (SEND_FAILURE, s))
   }"

section \<open>System calls from a handler\<close>

text \<open>
  The precedence of \<open>==\<close> over \<open>&\<close> makes the test \<open>cpsr & (STATUS_SYS_MODE == STATUS_SYS_MODE)\<close>.
\<close>

definition IS_KERNEL_MODE :: "kstate \<Rightarrow> bool option" where
  "IS_KERNEL_MODE s = do {
     w \<leftarrow> as_u32 (cpsr (SYSBK_OLDAREA s));
     Some (w AND (if STATUS_SYS_MODE = STATUS_SYS_MODE then 1 else 0) \<noteq> 0)
   }"

definition enter_syscall :: "state_t \<Rightarrow> u32 \<Rightarrow> val \<Rightarrow> val \<Rightarrow> kstate \<Rightarrow> kstate" where
  "enter_syscall cpu n x y s = s\<lparr>SYSBK_OLDAREA := cpu\<lparr>a1 := U n, a2 := x, a3 := y, a4 := U 0\<rparr>\<rparr>"

text \<open>
  \<open>msgsend\<close> executed by a handler. A handler runs in kernel mode (\<open>LOAD_NEW_STATE\<close> gives it
  \<open>STATUS_SYS_MODE\<close>), so only that branch of \<open>send_kernel\<close> is followed.
\<close>

definition msgsend_k :: "state_t \<Rightarrow> val \<Rightarrow> val \<Rightarrow> kstate \<Rightarrow> (val \<times> kstate) option" where
  "msgsend_k cpu dest payload s = do {
     let s = enter_syscall cpu SYS_SEND dest payload s;
     kernel_mode \<leftarrow> IS_KERNEL_MODE s;
     if kernel_mode then do {
       dest \<leftarrow> as_tcb (a2 (SYSBK_OLDAREA s));
       (r, s) \<leftarrow> send dest (current_thread s) (a3 (SYSBK_OLDAREA s)) s;
       let s = store_return_value (U r) s;
       Some (a1 (SYSBK_OLDAREA s), s) }
     else None
   }"

section \<open>The pseudo-clock\<close>

definition PSEUDOCLOCK_TICK :: u32 where "PSEUDOCLOCK_TICK = 100"

text \<open>
  \<open>pseudoclock\<close> is a signed \<open>int\<close>: the sum with an unsigned number wraps, the comparison is signed. The call of
  \<open>thread_dequeue\<close> in the loop has the list head \<open>t_wait4clock\<close> itself as its argument, where a pointer is expected,
  so that the file does not compile; here, as the other uses of that list have it, it is the address of the head.
\<close>

partial_function (option) clock_loop :: "state_t \<Rightarrow> kstate \<Rightarrow> kstate option" where
  "clock_loop cpu s = do {
     (to_resume, s) \<leftarrow> thread_dequeue T_wait4clock s;
     (case to_resume of
        None \<Rightarrow> Some s
      | Some t \<Rightarrow> do { (_, s) \<leftarrow> msgsend_k cpu (Tcb t) NULL s; clock_loop cpu s })
   }"

definition update_clock :: "state_t \<Rightarrow> u32 \<Rightarrow> kstate \<Rightarrow> kstate option" where
  "update_clock cpu milliseconds s = do {
     let s = s\<lparr>pseudoclock := pseudoclock s + milliseconds\<rparr>;
     if sint PSEUDOCLOCK_TICK \<le> sint (pseudoclock s)
     then clock_loop cpu (s\<lparr>pseudoclock := pseudoclock s - PSEUDOCLOCK_TICK\<rparr>)
     else Some s
   }"

section \<open>Receiving\<close>

definition recv :: "state_t \<Rightarrow> tid option \<Rightarrow> val \<Rightarrow> kstate \<Rightarrow> (outcome \<times> kstate) option" where
  "recv cpu sender pmsg s = do {
     (r, sender, s) \<leftarrow> msgq_get (Some sender) (current_thread s) pmsg s;
     sender \<leftarrow> sender;
     if r = 0 then Some (Ret, store_return_value (of_tcb sender) s)
     else do {
       let s = s\<lparr>timeSliceLeft := TIMER s\<rparr>;
       cur \<leftarrow> current_thread s;
       let s = upd_thread cur (\<lambda>x. x\<lparr>t_s := SYSBK_OLDAREA s\<rparr>) s;
       let s = upd_thread cur (\<lambda>x. x\<lparr>t_status := T_STATUS_W4MSG\<rparr>) s;
       let s = upd_thread cur (\<lambda>x. x\<lparr>t_wait4sender := sender\<rparr>) s;
       let s = upd_thread cur (\<lambda>x. x\<lparr>run_time := run_time x + timeSliceLeft s\<rparr>) s;
       s \<leftarrow> update_clock cpu (timeSliceLeft s) s;
       s \<leftarrow> (case sender of
               Some u \<Rightarrow> thread_enqueue cur (T_wait4me u) s
             | None \<Rightarrow> thread_enqueue cur Blockedq s);
       scheduler s }
   }"

definition msgrecv_k :: "state_t \<Rightarrow> val \<Rightarrow> val \<Rightarrow> kstate \<Rightarrow> (outcome \<times> kstate) option" where
  "msgrecv_k cpu src reply s = do {
     let s = enter_syscall cpu SYS_RECV src reply s;
     kernel_mode \<leftarrow> IS_KERNEL_MODE s;
     if kernel_mode then do {
       src \<leftarrow> as_tcb (a2 (SYSBK_OLDAREA s));
       recv cpu src (a3 (SYSBK_OLDAREA s)) s }
     else None
   }"

section \<open>Traps\<close>

text \<open>The stubs \<open>terminate_process()\<close> and \<open>terminate_thread()\<close> of \<open>nucleus.h\<close>, called by a handler.\<close>

definition terminate_request :: "u32 \<Rightarrow> state_t \<Rightarrow> u32 \<Rightarrow> kstate \<Rightarrow> (outcome \<times> kstate) option" where
  "terminate_request tag cpu frame s = do {
     let s = s\<lparr>mem := (mem s)(frame := U tag)\<rparr>;
     (_, s) \<leftarrow> msgsend_k cpu (of_tcb (SSI s)) (U frame) s;
     msgrecv_k cpu (of_tcb (SSI s)) NULL s
   }"

fun sub_word :: "val \<Rightarrow> u32 \<Rightarrow> val option" where
  "sub_word (U w) d = Some (U (w - d))"
| "sub_word _ d = None"

text \<open>When the request for termination comes back to the handler, it falls through to \<open>PANIC()\<close>.\<close>

fun not_returning :: "outcome \<times> kstate \<Rightarrow> outcome \<times> kstate" where
  "not_returning (Ret, s) = (Panic, s)"
| "not_returning r = r"

definition trap_h :: "state_t \<Rightarrow> u32 \<Rightarrow> tid option \<Rightarrow> state_t \<Rightarrow> kstate \<Rightarrow> (outcome \<times> kstate) option" where
  "trap_h cpu frame mgr oldarea s =
     (case mgr of
        Some m \<Rightarrow> do {
          cur \<leftarrow> current_thread s;
          let s = upd_thread cur (\<lambda>x. x\<lparr>t_s := oldarea\<rparr>) s;
          pc' \<leftarrow> sub_word (pc (t_s (threads s cur))) 4;
          let s = upd_thread cur (\<lambda>x. x\<lparr>t_s := (t_s x)\<lparr>pc := pc'\<rparr>\<rparr>) s;
          (_, s) \<leftarrow> msgsend_k cpu (Tcb m) (TcbState cur) s;
          s \<leftarrow> thread_enqueue cur Blockedq s;
          scheduler s }
      | None \<Rightarrow> map_option not_returning (terminate_request 3 cpu frame s))"

definition pgmtrap_h :: "state_t \<Rightarrow> u32 \<Rightarrow> kstate \<Rightarrow> (outcome \<times> kstate) option" where
  "pgmtrap_h cpu frame s = do {
     cur \<leftarrow> current_thread s;
     p \<leftarrow> t_pcb (threads s cur);
     trap_h cpu frame (pgm_mgr (procs s p)) (PGMTRAP_OLDAREA s) s
   }"

definition tlbtrap_h :: "state_t \<Rightarrow> u32 \<Rightarrow> kstate \<Rightarrow> (outcome \<times> kstate) option" where
  "tlbtrap_h cpu frame s = do {
     cur \<leftarrow> current_thread s;
     p \<leftarrow> t_pcb (threads s cur);
     trap_h cpu frame (tlb_mgr (procs s p)) (TLB_OLDAREA s) s
   }"

definition raise_reserved_instruction :: "state_t \<Rightarrow> u32 \<Rightarrow> kstate \<Rightarrow> (outcome \<times> kstate) option" where
  "raise_reserved_instruction cpu frame s = do {
     let s = s\<lparr>PGMTRAP_OLDAREA := SYSBK_OLDAREA s\<rparr>;
     let s = s\<lparr>PGMTRAP_OLDAREA := (PGMTRAP_OLDAREA s)\<lparr>CP15_Cause := U EXC_RESERVEDINSTR\<rparr>\<rparr>;
     pgmtrap_h cpu frame s
   }"

section \<open>The system call handler\<close>

definition send_kernel :: "state_t \<Rightarrow> u32 \<Rightarrow> tid option \<Rightarrow> val \<Rightarrow> kstate \<Rightarrow> (outcome \<times> kstate) option" where
  "send_kernel cpu frame dest msg s = do {
     kernel_mode \<leftarrow> IS_KERNEL_MODE s;
     if kernel_mode then do {
       (r, s) \<leftarrow> send dest (current_thread s) msg s;
       Some (Ret, store_return_value (U r) s) }
     else raise_reserved_instruction cpu frame s
   }"

definition recv_kernel :: "state_t \<Rightarrow> u32 \<Rightarrow> tid option \<Rightarrow> val \<Rightarrow> kstate \<Rightarrow> (outcome \<times> kstate) option" where
  "recv_kernel cpu frame src pmsg s = do {
     kernel_mode \<leftarrow> IS_KERNEL_MODE s;
     if kernel_mode then recv cpu src pmsg s
     else raise_reserved_instruction cpu frame s
   }"

definition syscall_other ::
  "state_t \<Rightarrow> u32 \<Rightarrow> val \<Rightarrow> val \<Rightarrow> val \<Rightarrow> val \<Rightarrow> kstate \<Rightarrow> (outcome \<times> kstate) option" where
  "syscall_other cpu frame sysNum arg1 arg2 arg3 s = do {
     cur \<leftarrow> current_thread s;
     current_process \<leftarrow> t_pcb (threads s cur);
     (case sys_mgr (procs s current_process) of
        Some m \<Rightarrow> do {
          let s = upd_thread cur (\<lambda>x. x\<lparr>t_s := SYSBK_OLDAREA s\<rparr>) s;
          let s = s\<lparr>mem := (mem s)(frame := sysNum, frame + 4 := arg1, frame + 8 := arg2, frame + 12 := arg3)\<rparr>;
          (_, s) \<leftarrow> send (Some m) (Some cur) (U frame) s;
          s \<leftarrow> thread_enqueue cur Blockedq s;
          scheduler s }
      | None \<Rightarrow>
          (case pgm_mgr (procs s current_process) of
             Some m \<Rightarrow> do {
               let s = upd_thread cur (\<lambda>x. x\<lparr>t_s := SYSBK_OLDAREA s\<rparr>) s;
               pc' \<leftarrow> sub_word (pc (t_s (threads s cur))) 4;
               let s = upd_thread cur (\<lambda>x. x\<lparr>t_s := (t_s x)\<lparr>pc := pc'\<rparr>\<rparr>) s;
               (_, s) \<leftarrow> send (Some m) (Some cur) (TcbState cur) s;
               s \<leftarrow> thread_enqueue cur Blockedq s;
               scheduler s }
           | None \<Rightarrow> map_option not_returning (terminate_request 4 cpu frame s)))
   }"

definition syscall_h :: "state_t \<Rightarrow> u32 \<Rightarrow> kstate \<Rightarrow> (outcome \<times> kstate) option" where
  "syscall_h cpu frame s =
     (let old = SYSBK_OLDAREA s in
      if a1 old = U SYS_ERR then raise_reserved_instruction cpu frame s
      else if a1 old = U SYS_SEND then do { dest \<leftarrow> as_tcb (a2 old); send_kernel cpu frame dest (a3 old) s }
      else if a1 old = U SYS_RECV then do { src \<leftarrow> as_tcb (a2 old); recv_kernel cpu frame src (a3 old) s }
      else syscall_other cpu frame (a1 old) (a2 old) (a3 old) (a4 old) s)"

section \<open>What a send does\<close>

lemma send_null: "send None sender msg s = None"
  by (simp add: send_def)

lemma send_dead: "t_status (threads s d) = T_STATUS_NONE \<Longrightarrow> send (Some d) sender msg s = Some (SEND_FAILURE, s)"
  by (simp add: send_def)

text \<open>The destination is ready, or waits for somebody else: the letter is queued.\<close>

definition queues_letter :: "tcb_t \<Rightarrow> tid \<Rightarrow> bool" where
  "queues_letter x sender \<longleftrightarrow> t_status x = T_STATUS_READY \<or>
     (t_status x = T_STATUS_W4MSG \<and> t_wait4sender x \<noteq> None \<and> t_wait4sender x \<noteq> Some sender)"

lemma send_queue_eq:
  "queues_letter (threads s d) c \<Longrightarrow> send (Some d) (Some c) v s = deliver_msg d (Some c) v s"
  by (auto simp: queues_letter_def send_def split: t_status.splits)

lemma send_pool_empty:
  assumes "kernel_ok Q s" "Q Message_h = []" "queues_letter (threads s d) c"
  shows "send (Some d) (Some c) v s = Some (SEND_FAILURE, s)"
  using msgq_add_fails(1)[OF assms(1)] assms(2,3) by (simp add: send_queue_eq deliver_msg_def)

lemma sched_inv_msgq_upd [simp]:
  "\<not> is_sched_head h \<Longrightarrow> sched_inv (Q(h := x)) cur ts = sched_inv Q cur ts"
  by (simp add: sched_inv_def thread_sched_ok_def)

lemma mail_inv_deliver:
  assumes inv: "mail_inv mb ts" and c: "valid_tid c" and q: "queues_letter (ts d) c"
    and mb: "\<And>t. valid_tid t \<Longrightarrow> mb' t = (if t = d then mb d @ [(Some c, v)] else mb t)"
  shows "mail_inv mb' ts"
proof (rule mail_inv_update[OF inv, of d])
  fix l assume d: "valid_tid d" and l: "l \<in> set (mb' d)"
  show "\<exists>u. fst l = Some u \<and> valid_tid u"
    using l mb[OF d] mail_inv_senders[OF inv d, of l] c by auto
  assume w: "t_status (ts d) = T_STATUS_W4MSG"
  have "\<not> wanted (Some (t_wait4sender (ts d))) (Some c, v)"
    using q w by (auto simp: queues_letter_def wanted_def)
  then show "\<not> wanted (Some (t_wait4sender (ts d))) l"
    using l mb[OF d] mail_inv_waiting[OF inv d w, of l] by auto
qed (use mb in auto)

lemma send_queued:
  assumes ok: "sys_ok Q s" and c: "valid_tid c" and d: "valid_tid d" and q: "queues_letter (threads s d) c"
    and free: "Q Message_h = M_next m # ns"
  shows "\<exists>l. send (Some d) (Some c) v s =
      Some (SEND_SUCCESS, s\<lparr>lk := l, msgs := (msgs s)(m := \<lparr>m_sender = Some c, m_value = v\<rparr>)\<rparr>) \<and>
    sys_ok (Q(Message_h := ns, T_msgq d := Q (T_msgq d) @ [M_next m]))
      (s\<lparr>lk := l, msgs := (msgs s)(m := \<lparr>m_sender = Some c, m_value = v\<rparr>)\<rparr>)"
proof -
  note kok = sys_ok_kernel[OF ok]
  have st: "t_status (threads s d) \<noteq> T_STATUS_NONE" using q by (auto simp: queues_letter_def)
  let ?Q' = "Q(Message_h := ns, T_msgq d := Q (T_msgq d) @ [M_next m])"
  obtain l where l: "msgq_add (Some c) (Some d) v s =
      Some (0, s\<lparr>lk := l, msgs := (msgs s)(m := \<lparr>m_sender = Some c, m_value = v\<rparr>)\<rparr>)"
    "kernel_ok ?Q' (s\<lparr>lk := l, msgs := (msgs s)(m := \<lparr>m_sender = Some c, m_value = v\<rparr>)\<rparr>)"
    using msgq_add_correct[OF kok d st free, of c v] by blast
  let ?s' = "s\<lparr>lk := l, msgs := (msgs s)(m := \<lparr>m_sender = Some c, m_value = v\<rparr>)\<rparr>"
  have "mail_inv (mailbox ?Q' ?s') (threads s)"
    by (rule mail_inv_deliver[OF sys_ok_mail[OF ok] c q])
       (use mailbox_add[OF kok free _ d, of _ ?s' c v] in simp)
  then have "sys_ok ?Q' ?s'"
    using l(2) sys_okD[OF ok] by (intro sys_okI) simp_all
  with l(1) show ?thesis by (intro exI[of _ l]) (simp add: send_queue_eq[OF q] deliver_msg_def)
qed

text \<open>The destination waits for this sender, or for anybody: it is woken up.\<close>

definition wakes :: "tcb_t \<Rightarrow> tid \<Rightarrow> bool" where
  "wakes x sender \<longleftrightarrow> t_status x = T_STATUS_W4MSG \<and> (t_wait4sender x = None \<or> t_wait4sender x = Some sender)"

definition woken :: "tcb_t \<Rightarrow> tid option \<Rightarrow> tcb_t" where
  "woken x rval = x\<lparr>t_s := (t_s x)\<lparr>a1 := of_tcb rval\<rparr>, t_status := T_STATUS_READY, t_wait4sender := None\<rparr>"

lemma woken_simps [simp]:
  "t_pcb (woken x c) = t_pcb x" "t_status (woken x c) = T_STATUS_READY" "t_wait4sender (woken x c) = None"
  "run_time (woken x c) = run_time x" "errno (woken x c) = errno x" "t_s (woken x c) = (t_s x)\<lparr>a1 := of_tcb c\<rparr>"
  by (simp_all add: woken_def)

lemma send_cases:
  "t_status x = T_STATUS_NONE \<or> queues_letter x c \<or> wakes x c"
  by (cases "t_status x"; cases "t_wait4sender x") (auto simp: queues_letter_def wakes_def)

lemma resume_thread_eq:
  assumes "a3 (t_s (threads s d)) = U a"
  shows "resume_thread d rval v s =
    do { s \<leftarrow> thread_outqueue d (s\<lparr>mem := put_word a v (mem s), threads := (threads s)(d := woken (threads s d) rval)\<rparr>);
         thread_enqueue d Readyq s }"
proof (cases "a = 0")
  case True
  have "s\<lparr>mem := put_word 0 v (mem s)\<rparr> = s" by (simp add: put_word_def)
  with True assms show ?thesis
    by (simp add: resume_thread_def deliver_directly_def upd_defs woken_def)
next
  case False
  with assms show ?thesis
    by (simp add: resume_thread_def deliver_directly_def upd_defs woken_def put_word_def)
qed

lemma send_wake_eq:
  "wakes (threads s d) c \<Longrightarrow>
   send (Some d) (Some c) v s = map_option (\<lambda>s. (SEND_SUCCESS, s)) (resume_thread d (Some c) v s)"
  by (auto simp: wakes_def send_def split: Option.bind_split)

lemma linked_at_move:
  assumes "\<And>h. \<not> linked_at (Q(q := remove1 (T_sched d) (Q q))) d h" "is_sched_head r" "q \<noteq> r"
  shows "linked_at (Q(q := remove1 (T_sched d) (Q q), r := Q r @ [T_sched d])) u h \<longleftrightarrow>
    (if u = d then h = r else linked_at Q u h)"
  using assms(1)[of h] assms(2,3) by (auto simp: linked_at_def split: if_splits)

text \<open>
  Waking a waiting thread: the result and the payload are delivered into its saved state, and it
  moves from its waiting queue to the end of the ready queue.
\<close>

abbreviation after_resume :: "queues \<Rightarrow> kstate \<Rightarrow> tid \<Rightarrow> queues" where
  "after_resume Q s d \<equiv>
     Q(wait_queue (t_wait4sender (threads s d)) :=
         remove1 (T_sched d) (Q (wait_queue (t_wait4sender (threads s d)))),
       Readyq := Q Readyq @ [T_sched d])"

lemma resume_thread_correct:
  assumes ok: "sys_ok Q s" and d: "valid_tid d" and st: "t_status (threads s d) = T_STATUS_W4MSG"
    and a: "a3 (t_s (threads s d)) = U a"
  shows "\<exists>l. resume_thread d rval v s =
      Some (s\<lparr>lk := l, mem := put_word a v (mem s), threads := (threads s)(d := woken (threads s d) rval)\<rparr>) \<and>
    sys_ok (after_resume Q s d)
      (s\<lparr>lk := l, mem := put_word a v (mem s), threads := (threads s)(d := woken (threads s d) rval)\<rparr>)"
proof -
  define q where "q = wait_queue (t_wait4sender (threads s d))"
  define Q' where "Q' = Q(q := remove1 (T_sched d) (Q q), Readyq := Q Readyq @ [T_sched d])"
  note kok = sys_ok_kernel[OF ok] and inv = sys_ok_sched[OF ok]
  have q: "is_sched_head q" "T_sched d \<in> set (Q q)" "q \<noteq> Readyq" "q \<noteq> T_wait4clock"
    and dc: "current_thread s \<noteq> Some d"
    using sched_inv_waiting[OF inv d st] by (auto simp: q_def linked_at_def wait_queue_def split: option.splits)
  let ?s1 = "s\<lparr>mem := put_word a v (mem s), threads := (threads s)(d := woken (threads s d) rval)\<rparr>"
  let ?Q1 = "Q(q := remove1 (T_sched d) (Q q))"
  have ok1: "kernel_ok Q ?s1"
    using kernel_ok_thread_upd[of Q "s\<lparr>mem := put_word a v (mem s)\<rparr>" "woken (threads s d) rval" d] kok st by simp
  obtain l1 where l1: "thread_outqueue d ?s1 = Some (?s1\<lparr>lk := l1\<rparr>)" "kernel_ok ?Q1 (?s1\<lparr>lk := l1\<rparr>)"
    "not_linked (T_sched d) ?Q1"
    using thread_outqueue_correct[OF ok1 q(1,2)] by blast
  obtain l2 where l2: "thread_enqueue d Readyq (?s1\<lparr>lk := l1\<rparr>) = Some (?s1\<lparr>lk := l1\<rparr>\<lparr>lk := l2\<rparr>)"
    "kernel_ok (?Q1(Readyq := ?Q1 Readyq @ [T_sched d])) (?s1\<lparr>lk := l1\<rparr>\<lparr>lk := l2\<rparr>)"
    using thread_enqueue_correct[OF l1(2) _ d l1(3), of Readyq] by auto
  have Q': "?Q1(Readyq := ?Q1 Readyq @ [T_sched d]) = Q'" using q(3) by (simp add: Q'_def)
  let ?s' = "s\<lparr>lk := l2, mem := put_word a v (mem s), threads := (threads s)(d := woken (threads s d) rval)\<rparr>"
  have eq: "?s1\<lparr>lk := l1\<rparr>\<lparr>lk := l2\<rparr> = ?s'" by simp
  have nd: "\<not> linked_at ?Q1 d h" for h
    using l1(3) not_linked_iff[OF kernel_ok_typed[OF l1(2)]] by blast
  have link: "linked_at Q' u h \<longleftrightarrow> (if u = d then h = Readyq else linked_at Q u h)" for u h
    unfolding Q'_def using nd q(3) by (intro linked_at_move) simp_all
  have sched: "sched_inv Q' (current_thread ?s') (threads ?s')"
  proof (rule sched_inv_update[OF inv, of d])
    show "thread_sched_ok Q' (current_thread ?s') (threads ?s' d) d"
      using dc by (simp add: thread_sched_ok_def link)
    show "valid_tid u" if "current_thread ?s' = Some u" for u
      using that inv sched_inv_current[of Q u] by simp
  qed (simp_all add: link)
  have mb: "mailbox Q' ?s' = mailbox Q s"
    using q(1) by (intro mailbox_frame) (auto simp: Q'_def)
  have "mail_inv (mailbox Q' ?s') (threads ?s')"
    unfolding mb by (rule mail_inv_update[OF sys_ok_mail[OF ok], of d])
      (use mail_inv_senders[OF sys_ok_mail[OF ok]] in auto)
  then have "sys_ok Q' ?s'"
    using l2(2) sched sys_okD[OF ok] q(4) unfolding Q' eq by (intro sys_okI) (simp_all add: Q'_def)
  moreover have "resume_thread d rval v s = Some ?s'"
    using l1(1) l2(1) by (simp add: resume_thread_eq[OF a])
  ultimately show ?thesis unfolding Q'_def q_def by blast
qed

lemma send_woken:
  assumes ok: "sys_ok Q s" and d: "valid_tid d" and w: "wakes (threads s d) c"
    and a: "a3 (t_s (threads s d)) = U a"
  shows "\<exists>l. send (Some d) (Some c) v s =
      Some (SEND_SUCCESS,
        s\<lparr>lk := l, mem := put_word a v (mem s), threads := (threads s)(d := woken (threads s d) (Some c))\<rparr>) \<and>
    sys_ok (after_resume Q s d)
      (s\<lparr>lk := l, mem := put_word a v (mem s), threads := (threads s)(d := woken (threads s d) (Some c))\<rparr>)"
  using resume_thread_correct[OF ok d _ a, of "Some c" v] w by (auto simp: send_wake_eq wakes_def)

text \<open>
  Whatever the state of the destination, a send between two threads returns, keeps the invariants
  and does not touch the running thread.
\<close>

definition send_frame :: "kstate \<Rightarrow> kstate \<Rightarrow> bool" where
  "send_frame s s' \<longleftrightarrow>
     current_thread s' = current_thread s \<and> procs s' = procs s \<and> SYSBK_OLDAREA s' = SYSBK_OLDAREA s \<and>
     SSI s' = SSI s \<and> INT_OLDAREA s' = INT_OLDAREA s \<and> soft_blocked_thread s' = soft_blocked_thread s \<and>
     is_idle s' = is_idle s \<and> count_error s' = count_error s \<and>
     (\<forall>t. t_pcb (threads s' t) = t_pcb (threads s t)) \<and>
     (\<forall>t. current_thread s = Some t \<longrightarrow> threads s' t = threads s t)"

lemma send_total:
  assumes ok: "sys_ok Q s" and c: "valid_tid c" and d: "valid_tid d"
  shows "\<exists>r s' Q'. send (Some d) (Some c) v s = Some (r, s') \<and> sys_ok Q' s' \<and> send_frame s s' \<and>
    (r \<noteq> SEND_SUCCESS \<longrightarrow> s' = s)"
proof -
  note kok = sys_ok_kernel[OF ok]
  consider (none) "t_status (threads s d) = T_STATUS_NONE" | (queue) "queues_letter (threads s d) c"
    | (wake) "wakes (threads s d) c"
    using send_cases[of "threads s d" c] by blast
  then show ?thesis
  proof cases
    case none
    with send_dead[of s d] ok show ?thesis by (auto simp: send_frame_def)
  next
    case queue
    show ?thesis
    proof (cases "Q Message_h")
      case Nil
      with send_pool_empty[OF kok Nil queue] ok show ?thesis by (auto simp: send_frame_def)
    next
      case (Cons n ns)
      then obtain m where "n = M_next m"
        using member_type[OF kok, of Message_h n] member_ok_cases(4)[of Message_h n] by auto
      with Cons send_queued[OF ok c d queue, of m ns v] show ?thesis by (auto simp: send_frame_def)
    qed
  next
    case wake
    then have st: "t_status (threads s d) = T_STATUS_W4MSG" by (simp add: wakes_def)
    obtain a where a: "a3 (t_s (threads s d)) = U a" and n: "current_thread s \<noteq> Some d"
      using sched_inv_waiting[OF sys_ok_sched[OF ok] d st] by auto
    from send_woken[OF ok d wake a, of v] obtain l Q' where l: "send (Some d) (Some c) v s =
        Some (SEND_SUCCESS, s\<lparr>lk := l, mem := put_word a v (mem s), threads := (threads s)(d := woken (threads s d) (Some c))\<rparr>)"
      "sys_ok Q' (s\<lparr>lk := l, mem := put_word a v (mem s), threads := (threads s)(d := woken (threads s d) (Some c))\<rparr>)"
      by blast
    let ?s' = "s\<lparr>lk := l, mem := put_word a v (mem s), threads := (threads s)(d := woken (threads s d) (Some c))\<rparr>"
    have "count_error ?s' = count_error s"
      by (rule count_error_cong) (use st in simp_all)
    then have "send_frame s ?s'" using n by (auto simp: send_frame_def)
    with l show ?thesis by blast
  qed
qed

lemma sys_ok_running:
  assumes "sys_ok Q s" "current_thread s = Some c"
  shows "valid_tid c \<and> t_status (threads s c) = T_STATUS_READY \<and> (\<forall>h. \<not> linked_at Q c h) \<and>
    not_linked (T_sched c) Q"
proof -
  have r: "valid_tid c \<and> t_status (threads s c) = T_STATUS_READY \<and> (\<forall>h. \<not> linked_at Q c h)"
    using sched_inv_running[of Q c] sys_ok_sched[OF assms(1)] assms(2) by simp
  then show ?thesis using not_linked_iff[OF kernel_ok_typed[OF sys_ok_kernel[OF assms(1)]]] by blast
qed

section \<open>System calls from a handler return\<close>

definition handler_mode :: "state_t \<Rightarrow> bool" where
  "handler_mode cpu \<longleftrightarrow> (\<exists>w. cpsr cpu = U w \<and> w AND 1 \<noteq> 0)"

lemma enter_syscall_kernel_mode:
  "handler_mode cpu \<Longrightarrow> IS_KERNEL_MODE (enter_syscall cpu n x y s) = Some True"
  by (auto simp: handler_mode_def IS_KERNEL_MODE_def enter_syscall_def)

lemma sys_ok_enter_syscall [simp]: "sys_ok Q (enter_syscall cpu n x y s) = sys_ok Q s"
  by (simp add: enter_syscall_def)

lemma sys_ok_store_return_value [simp]: "sys_ok Q (store_return_value v s) = sys_ok Q s"
  by (simp add: store_return_value_def)

lemma count_error_syscall [simp]:
  "count_error (enter_syscall cpu n x y s) = count_error s" "count_error (store_return_value v s) = count_error s"
  by (simp_all add: enter_syscall_def store_return_value_def)

lemma enter_syscall_simps [simp]:
  "current_thread (enter_syscall cpu n x y s) = current_thread s"
  "threads (enter_syscall cpu n x y s) = threads s" "procs (enter_syscall cpu n x y s) = procs s"
  "msgs (enter_syscall cpu n x y s) = msgs s" "mem (enter_syscall cpu n x y s) = mem s"
  "SSI (enter_syscall cpu n x y s) = SSI s"
  "a2 (SYSBK_OLDAREA (enter_syscall cpu n x y s)) = x" "a3 (SYSBK_OLDAREA (enter_syscall cpu n x y s)) = y"
  by (simp_all add: enter_syscall_def)

lemma store_return_value_simps [simp]:
  "current_thread (store_return_value v s) = current_thread s"
  "threads (store_return_value v s) = threads s" "procs (store_return_value v s) = procs s"
  "msgs (store_return_value v s) = msgs s" "mem (store_return_value v s) = mem s" "SSI (store_return_value v s) = SSI s"
  "SYSBK_OLDAREA (store_return_value v s) = (SYSBK_OLDAREA s)\<lparr>a1 := v\<rparr>"
  by (simp_all add: store_return_value_def)

lemma msgsend_k_total:
  assumes ok: "sys_ok Q s" and cpu: "handler_mode cpu" and c: "current_thread s = Some c" and d: "valid_tid d"
  shows "\<exists>r s' Q'. msgsend_k cpu (Tcb d) v s = Some (r, s') \<and> sys_ok Q' s' \<and> count_error s' = count_error s \<and> current_thread s' = Some c \<and>
    procs s' = procs s \<and> SSI s' = SSI s \<and> threads s' c = threads s c"
proof -
  have vc: "valid_tid c" using sys_ok_running[OF ok c] by simp
  obtain r s' Q' where s': "send (Some d) (Some c) v (enter_syscall cpu SYS_SEND (Tcb d) v s) = Some (r, s')"
    "sys_ok Q' s'" "send_frame (enter_syscall cpu SYS_SEND (Tcb d) v s) s'"
    using send_total[of Q "enter_syscall cpu SYS_SEND (Tcb d) v s" c d v] ok vc d by auto
  then show ?thesis
    using c by (auto simp: msgsend_k_def enter_syscall_kernel_mode[OF cpu] send_frame_def)
qed

lemma clock_loop_empty: "kernel_ok Q s \<Longrightarrow> Q T_wait4clock = [] \<Longrightarrow> clock_loop cpu s = Some s"
  by (subst clock_loop.simps) (simp add: thread_dequeue_empty)

text \<open>The pseudo-clock wraps by one tick at most, however long the slice was.\<close>

definition clock_after :: "u32 \<Rightarrow> u32 \<Rightarrow> u32" where
  "clock_after old ms =
     (if sint PSEUDOCLOCK_TICK \<le> sint (old + ms) then old + ms - PSEUDOCLOCK_TICK else old + ms)"

lemma update_clock_no_waiter:
  assumes "kernel_ok Q s" "Q T_wait4clock = []"
  shows "update_clock cpu ms s = Some (s\<lparr>pseudoclock := clock_after (pseudoclock s) ms\<rparr>)"
proof -
  have "clock_loop cpu (s\<lparr>pseudoclock := x\<rparr>) = Some (s\<lparr>pseudoclock := x\<rparr>)" for x
    by (rule clock_loop_empty[of Q]) (use assms in simp_all)
  then show ?thesis by (simp add: update_clock_def clock_after_def)
qed

section \<open>What a receive does\<close>

text \<open>A letter is there: the oldest one that is wanted is taken and the caller goes on.\<close>

lemma mail_inv_take:
  assumes inv: "mail_inv mb ts" and c: "t_status (ts c) = T_STATUS_READY"
    and mb: "\<And>t. valid_tid t \<Longrightarrow> t \<noteq> c \<Longrightarrow> mb' t = mb t" "valid_tid c \<Longrightarrow> set (mb' c) \<subseteq> set (mb c)"
  shows "mail_inv mb' ts"
  by (rule mail_inv_update[OF inv, of c]) (use mb c mail_inv_senders[OF inv, of c] in auto)

lemma set_remove_first: "set (remove_first P xs) \<subseteq> set xs"
  by (induction xs) auto

lemma recv_found:
  assumes ok: "sys_ok Q s" and c: "current_thread s = Some c"
    and f: "find (wanted (Some sender)) (mailbox Q s c) = Some (w, v)"
  shows "\<exists>Q' s'. recv cpu sender (U a) s = Some (Ret, store_return_value (of_tcb w) s') \<and>
    sys_ok Q' s' \<and> count_error s' = count_error s \<and> threads s' = threads s \<and> mem s' = put_word a v (mem s) \<and> current_thread s' = Some c \<and>
    procs s' = procs s \<and> SSI s' = SSI s \<and> SYSBK_OLDAREA s' = SYSBK_OLDAREA s \<and>
    mailbox Q' s' c = remove_first (wanted (Some sender)) (mailbox Q s c) \<and>
    (\<forall>u. valid_tid u \<longrightarrow> u \<noteq> c \<longrightarrow> mailbox Q' s' u = mailbox Q s u)"
proof -
  note kok = sys_ok_kernel[OF ok]
  have vc: "valid_tid c" and rc: "t_status (threads s c) = T_STATUS_READY"
    using sys_ok_running[OF ok c] by simp_all
  obtain m s' where s': "msgq_get (Some sender) (Some c) (U a) s = Some (0, Some w, s')"
    "s' = s\<lparr>lk := lk s', mem := put_word a v (mem s), msgs := (msgs s)(m := (msgs s m)\<lparr>m_sender := None\<rparr>)\<rparr>"
    "kernel_ok (after_take Q c m) s'"
    "mailbox (after_take Q c m) s' c = remove_first (wanted (Some sender)) (mailbox Q s c)"
    "\<forall>u. valid_tid u \<longrightarrow> u \<noteq> c \<longrightarrow> mailbox (after_take Q c m) s' u = mailbox Q s u"
    using msgq_get_found[OF kok vc f, of a] by auto
  have fr: "threads s' = threads s" "mem s' = put_word a v (mem s)" "current_thread s' = Some c"
    "procs s' = procs s" "SSI s' = SSI s" "SYSBK_OLDAREA s' = SYSBK_OLDAREA s"
    "thread_count s' = thread_count s" "soft_blocked_thread s' = soft_blocked_thread s" "is_idle s' = is_idle s"
    by (subst s'(2), simp add: c)+
  have count: "count_error s' = count_error s" by (rule count_error_cong) (simp_all add: fr)
  have "mail_inv (mailbox (after_take Q c m) s') (threads s)"
    by (rule mail_inv_take[OF sys_ok_mail[OF ok] rc]) (use s'(4,5) set_remove_first[of "wanted (Some sender)" "mailbox Q s c"] in simp_all)
  then have "sys_ok (after_take Q c m) s'"
    using s'(3) sys_okD[OF ok] fr c by (intro sys_okI) simp_all
  with s'(1,4,5) fr count show ?thesis
    by (intro exI[of _ "after_take Q c m"] exI[of _ s']) (simp add: recv_def c)
qed

text \<open>
  No wanted letter: the saved state of the caller becomes the state of the thread, the thread enters
  the waiting queue of the expected sender and the scheduler chooses another one.
\<close>

definition blocked :: "state_t \<Rightarrow> tid option \<Rightarrow> u32 \<Rightarrow> tcb_t \<Rightarrow> tcb_t" where
  "blocked old expected t x =
     x\<lparr>t_s := old, t_status := T_STATUS_W4MSG, t_wait4sender := expected, run_time := run_time x + t\<rparr>"

lemma blocked_simps [simp]:
  "t_pcb (blocked old e t x) = t_pcb x" "t_status (blocked old e t x) = T_STATUS_W4MSG"
  "t_wait4sender (blocked old e t x) = e" "t_s (blocked old e t x) = old" "run_time (blocked old e t x) = run_time x + t"
  by (simp_all add: blocked_def)

definition before_switch :: "node links \<Rightarrow> tid \<Rightarrow> tid option \<Rightarrow> kstate \<Rightarrow> kstate" where
  "before_switch l c expected s =
     s\<lparr>lk := l, threads := (threads s)(c := blocked (SYSBK_OLDAREA s) expected (TIMER s) (threads s c)),
       timeSliceLeft := TIMER s, pseudoclock := clock_after (pseudoclock s) (TIMER s)\<rparr>"

lemma before_switch_simps [simp]:
  "lk (before_switch l c e s) = l" "msgs (before_switch l c e s) = msgs s" "mem (before_switch l c e s) = mem s"
  "threads (before_switch l c e s) = (threads s)(c := blocked (SYSBK_OLDAREA s) e (TIMER s) (threads s c))"
  "procs (before_switch l c e s) = procs s" "SSI (before_switch l c e s) = SSI s"
  "current_thread (before_switch l c e s) = current_thread s"
  "soft_blocked_thread (before_switch l c e s) = soft_blocked_thread s" "is_idle (before_switch l c e s) = is_idle s"
  by (simp_all add: before_switch_def)

lemma recv_blocks:
  assumes ok: "sys_ok Q s" and c: "current_thread s = Some c" and e: "\<And>u. sender = Some u \<Longrightarrow> valid_tid u"
    and a: "a3 (SYSBK_OLDAREA s) = U a"
    and f: "find (wanted (Some sender)) (mailbox Q s c) = None"
  defines "Q' \<equiv> Q(wait_queue sender := Q (wait_queue sender) @ [T_sched c])"
  shows "\<exists>l. recv cpu sender p s = scheduler (before_switch l c sender s) \<and>
    sys_ok Q' ((before_switch l c sender s)\<lparr>current_thread := None\<rparr>)"
proof -
  note kok = sys_ok_kernel[OF ok] and inv = sys_ok_sched[OF ok]
  have vc: "valid_tid c" and rc: "t_status (threads s c) = T_STATUS_READY" and nc: "\<forall>h. \<not> linked_at Q c h"
    and nl: "not_linked (T_sched c) Q"
    using sys_ok_running[OF ok c] by simp_all
  have hq: "is_sched_head (wait_queue sender)" using e by (cases sender) simp_all
  let ?x = "blocked (SYSBK_OLDAREA s) sender (TIMER s) (threads s c)"
  let ?s0 = "s\<lparr>threads := (threads s)(c := ?x), timeSliceLeft := TIMER s\<rparr>"
  let ?s1 = "?s0\<lparr>pseudoclock := clock_after (pseudoclock s) (TIMER s)\<rparr>"
  have get: "msgq_get (Some sender) (Some c) p s = Some (-1, Some sender, s)"
    using msgq_get_none[OF kok, of "Some c" "Some sender" p] vc f by simp
  have "kernel_ok Q (s\<lparr>threads := (threads s)(c := ?x)\<rparr>)"
    using kernel_ok_thread_upd[OF kok, of ?x c] rc by simp
  then have ok0: "kernel_ok Q ?s0" by simp
  have clock: "update_clock cpu (TIMER s) ?s0 = Some ?s1"
    using update_clock_no_waiter[OF ok0 sys_ok_clock[OF ok], of cpu "TIMER s"] by simp
  have ok1: "kernel_ok Q ?s1" using ok0 by simp
  obtain l where l: "thread_enqueue c (wait_queue sender) ?s1 = Some (?s1\<lparr>lk := l\<rparr>)" "kernel_ok Q' (?s1\<lparr>lk := l\<rparr>)"
    using thread_enqueue_correct[OF ok1 hq vc nl] by (auto simp: Q'_def)
  have s1: "?s1\<lparr>lk := l\<rparr> = before_switch l c sender s" by (simp add: before_switch_def)
  have step: "s\<lparr>timeSliceLeft := TIMER s, threads := (threads s)(c := (threads s c)
      \<lparr>t_s := SYSBK_OLDAREA s, t_status := T_STATUS_W4MSG, t_wait4sender := sender, run_time := run_time (threads s c) + TIMER s\<rparr>)\<rparr> = ?s0"
    by (simp add: blocked_def)
  have enq: "(case sender of None \<Rightarrow> thread_enqueue c Blockedq x | Some u \<Rightarrow> thread_enqueue c (T_wait4me u) x) =
      thread_enqueue c (wait_queue sender) x" for x
    by (cases sender) simp_all
  have run: "recv cpu sender p s = scheduler (before_switch l c sender s)"
    using clock l(1) by (simp add: recv_def c get upd_defs s1 step enq)
  have link: "linked_at Q' u h \<longleftrightarrow> linked_at Q u h \<or> (h = wait_queue sender \<and> u = c)" for u h
    using hq by (auto simp: Q'_def)
  have "sched_inv Q' None (threads (before_switch l c sender s))"
  proof (rule sched_inv_update[OF inv, of c])
    show "thread_sched_ok Q' None (threads (before_switch l c sender s) c) c"
      using a by (auto simp: thread_sched_ok_def link)
  qed (use c in \<open>auto simp: link\<close>)
  moreover have "mailbox Q' (before_switch l c sender s\<lparr>current_thread := None\<rparr>) = mailbox Q s"
    using hq by (cases sender) (auto simp: Q'_def intro!: mailbox_frame)
  moreover have "mail_inv (mailbox Q s) (threads (before_switch l c sender s))"
  proof (rule mail_inv_update[OF sys_ok_mail[OF ok], of c])
    fix y assume y: "y \<in> set (mailbox Q s c)"
    show "\<exists>u. fst y = Some u \<and> valid_tid u" using mail_inv_senders[OF sys_ok_mail[OF ok] vc y] .
    show "\<not> wanted (Some (t_wait4sender (threads (before_switch l c sender s) c))) y"
      using f y by (cases y) (simp add: find_None_iff)
  qed simp_all
  ultimately have "sys_ok Q' (before_switch l c sender s\<lparr>current_thread := None\<rparr>)"
    using l(2) s1 sys_okD[OF ok] sys_ok_busy[OF ok c] hq by (intro sys_okI) (auto simp: Q'_def wait_queue_def split: option.splits)
  with run show ?thesis by blast
qed

text \<open>In both cases the handler returns and the invariants hold.\<close>

lemma recv_total:
  assumes ok: "sys_ok Q s" and c: "current_thread s = Some c" and e: "\<And>u. sender = Some u \<Longrightarrow> valid_tid u"
    and a: "a3 (SYSBK_OLDAREA s) = U a"
  shows "\<exists>out s' Q'. recv cpu sender (U a) s = Some (out, s') \<and> settled Q' s' \<and> count_error s' = count_error s \<and>
    (out = Ret \<longrightarrow> current_thread s' = Some c)"
proof (cases "find (wanted (Some sender)) (mailbox Q s c)")
  case None
  from recv_blocks[OF ok c e a None, of cpu "U a"] obtain l where l:
    "recv cpu sender (U a) s = scheduler (before_switch l c sender s)"
    "sys_ok (Q(wait_queue sender := Q (wait_queue sender) @ [T_sched c])) ((before_switch l c sender s)\<lparr>current_thread := None\<rparr>)"
    by auto
  have "count_error (before_switch l c sender s) = count_error s"
    by (rule count_error_cong) (use sys_ok_running[OF ok c] in \<open>simp_all add: before_switch_def\<close>)
  moreover have "\<not> is_idle (before_switch l c sender s)" using sys_ok_busy[OF ok c] by simp
  ultimately show ?thesis using scheduler_total[OF l(2)] unfolding l(1) by metis
next
  case (Some y)
  then obtain w v where "find (wanted (Some sender)) (mailbox Q s c) = Some (w, v)" by (cases y) auto
  from recv_found[OF ok c this, of cpu a] obtain Q' s' where
    "recv cpu sender (U a) s = Some (Ret, store_return_value (of_tcb w) s')" "sys_ok Q' s'" "current_thread s' = Some c"
    "count_error s' = count_error s"
    by blast
  then show ?thesis
    by (intro exI[of _ Ret] exI[of _ "store_return_value (of_tcb w) s'"] exI[of _ Q']) (simp add: settled_running)
qed

section \<open>Traps and system calls return\<close>

text \<open>A running thread is put aside in \<open>blockedq\<close>, still ready, while its manager looks at it.\<close>

lemma park_running:
  assumes ok: "sys_ok Q s" and c: "current_thread s = Some c"
  shows "\<exists>l. thread_enqueue c Blockedq s = Some (s\<lparr>lk := l\<rparr>) \<and>
    sys_ok (Q(Blockedq := Q Blockedq @ [T_sched c])) (s\<lparr>lk := l, current_thread := None\<rparr>)"
proof -
  note kok = sys_ok_kernel[OF ok] and inv = sys_ok_sched[OF ok]
  have vc: "valid_tid c" and rc: "t_status (threads s c) = T_STATUS_READY" and nl: "not_linked (T_sched c) Q"
    using sys_ok_running[OF ok c] by simp_all
  let ?Q' = "Q(Blockedq := Q Blockedq @ [T_sched c])"
  obtain l where l: "thread_enqueue c Blockedq s = Some (s\<lparr>lk := l\<rparr>)" "kernel_ok ?Q' (s\<lparr>lk := l\<rparr>)"
    using thread_enqueue_correct[OF kok _ vc nl, of Blockedq] by auto
  have "sched_inv ?Q' None (threads s)"
    by (rule sched_inv_update[OF inv, of c]) (use rc c in \<open>auto simp: thread_sched_ok_def\<close>)
  moreover have "mailbox ?Q' (s\<lparr>lk := l, current_thread := None\<rparr>) = mailbox Q s"
    by (rule mailbox_frame) simp_all
  ultimately have "sys_ok ?Q' (s\<lparr>lk := l, current_thread := None\<rparr>)"
    using l(2) sys_okD[OF ok] sys_ok_busy[OF ok c] by (intro sys_okI) simp_all
  with l(1) show ?thesis by blast
qed

lemma park_and_schedule:
  assumes ok: "sys_ok Q s" and c: "current_thread s = Some c"
  shows "\<exists>out s' Q'. (do { s \<leftarrow> thread_enqueue c Blockedq s; scheduler s }) = Some (out, s') \<and> settled Q' s' \<and>
    count_error s' = count_error s \<and> out \<noteq> Ret"
proof -
  obtain l where l: "thread_enqueue c Blockedq s = Some (s\<lparr>lk := l\<rparr>)"
    "sys_ok (Q(Blockedq := Q Blockedq @ [T_sched c])) (s\<lparr>lk := l, current_thread := None\<rparr>)"
    using park_running[OF ok c] by auto
  with scheduler_total[of _ "s\<lparr>lk := l\<rparr>"] sys_ok_busy[OF ok c] show ?thesis by fastforce
qed

text \<open>Changing the saved state of the running thread is harmless.\<close>

lemma sys_ok_upd_state:
  assumes ok: "sys_ok Q s" and c: "current_thread s = Some c"
  shows "sys_ok Q (s\<lparr>threads := (threads s)(c := (threads s c)\<lparr>t_s := x\<rparr>)\<rparr>)"
proof -
  have rc: "t_status (threads s c) = T_STATUS_READY" "\<forall>h. \<not> linked_at Q c h" "valid_tid c"
    using sys_ok_running[OF ok c] by simp_all
  let ?s' = "s\<lparr>threads := (threads s)(c := (threads s c)\<lparr>t_s := x\<rparr>)\<rparr>"
  have "kernel_ok Q ?s'" by (rule kernel_ok_thread_upd[OF sys_ok_kernel[OF ok]]) simp_all
  moreover have "sched_inv Q (current_thread s) (threads ?s')"
    by (rule sched_inv_update[OF sys_ok_sched[OF ok], of c]) (use rc c in \<open>auto simp: thread_sched_ok_def\<close>)
  moreover have "mail_inv (mailbox Q s) (threads ?s')"
    by (rule mail_inv_update[OF sys_ok_mail[OF ok], of c])
      (use rc mail_inv_senders[OF sys_ok_mail[OF ok] rc(3)] in auto)
  moreover have "mailbox Q ?s' = mailbox Q s" by (rule mailbox_frame) simp_all
  ultimately show ?thesis using sys_okD[OF ok] by (intro sys_okI) simp_all
qed

lemma count_error_upd_state [simp]:
  "count_error (s\<lparr>threads := (threads s)(c := (threads s c)\<lparr>t_s := x\<rparr>)\<rparr>) = count_error s"
  by (rule count_error_cong) simp_all

text \<open>The stubs \<open>terminate_process()\<close> and \<open>terminate_thread()\<close> hand the running thread to the SSI.\<close>

lemma terminate_request_total:
  assumes ok: "sys_ok Q s" and c: "current_thread s = Some c" and cpu: "handler_mode cpu"
  shows "\<exists>out s' Q'. terminate_request tag cpu frame s = Some (out, s') \<and> settled Q' s' \<and> count_error s' = count_error s \<and>
    (out = Ret \<longrightarrow> current_thread s' = Some c)"
proof -
  let ?s0 = "s\<lparr>mem := (mem s)(frame := U tag)\<rparr>"
  obtain r s1 Q1 where s1: "msgsend_k cpu (Tcb SSI_thread) (U frame) ?s0 = Some (r, s1)" "sys_ok Q1 s1"
    "count_error s1 = count_error s"
    "current_thread s1 = Some c" "SSI s1 = SSI s"
    using msgsend_k_total[of Q ?s0 cpu c SSI_thread "U frame"] ok c cpu by auto
  let ?s2 = "enter_syscall cpu SYS_RECV (Tcb SSI_thread) NULL s1"
  obtain out s' Q' where s': "recv cpu (Some SSI_thread) (U 0) ?s2 = Some (out, s')" "settled Q' s'"
    "count_error s' = count_error s1"
    "out = Ret \<longrightarrow> current_thread s' = Some c"
    using recv_total[of Q1 ?s2 c "Some SSI_thread" 0 cpu] s1 by auto
  with s1 sys_ok_SSI[OF ok] show ?thesis
    by (auto simp: terminate_request_def msgrecv_k_def enter_syscall_kernel_mode[OF cpu])
qed

lemma not_returning_total:
  "\<exists>out s' Q'. r = Some (out, s') \<and> settled Q' s' \<and> count_error s' = count_error s \<and> (out = Ret \<longrightarrow> current_thread s' = Some c) \<Longrightarrow>
   \<exists>out s' Q'. map_option not_returning r = Some (out, s') \<and> settled Q' s' \<and>
    count_error s' = count_error s \<and> out \<noteq> Ret"
proof -
  assume "\<exists>out s' Q'. r = Some (out, s') \<and> settled Q' s' \<and> count_error s' = count_error s \<and> (out = Ret \<longrightarrow> current_thread s' = Some c)"
  then obtain out s' Q' where "r = Some (out, s')" "settled Q' s'" "count_error s' = count_error s" by blast
  then show ?thesis by (cases out) auto
qed

lemma trap_h_total:
  assumes ok: "sys_ok Q s" and c: "current_thread s = Some c" and cpu: "handler_mode cpu"
    and m: "\<And>m. mgr = Some m \<Longrightarrow> valid_tid m" and pc: "pc old = U w"
  shows "\<exists>out s' Q'. trap_h cpu frame mgr old s = Some (out, s') \<and> settled Q' s' \<and>
    count_error s' = count_error s \<and> out \<noteq> Ret"
proof (cases mgr)
  case None
  with not_returning_total[OF terminate_request_total[OF ok c cpu]] show ?thesis by (simp add: trap_h_def)
next
  case (Some m)
  let ?s1 = "s\<lparr>threads := (threads s)(c := (threads s c)\<lparr>t_s := old\<lparr>pc := U (w - 4)\<rparr>\<rparr>)\<rparr>"
  obtain r s2 Q2 where s2: "msgsend_k cpu (Tcb m) (TcbState c) ?s1 = Some (r, s2)" "sys_ok Q2 s2"
    "current_thread s2 = Some c" "count_error s2 = count_error s"
    using msgsend_k_total[OF sys_ok_upd_state[OF ok c, of "old\<lparr>pc := U (w - 4)\<rparr>"] cpu, of c m "TcbState c"]
      c assms(4) Some by auto
  from park_and_schedule[OF s2(2,3)] s2(1,4) c pc Some show ?thesis
    by (simp add: trap_h_def upd_defs)
qed

lemma mgrs_okD:
  assumes "mgrs_ok ps"
  shows "pgm_mgr (ps p) = Some t \<Longrightarrow> valid_tid t" "tlb_mgr (ps p) = Some t \<Longrightarrow> valid_tid t"
    "sys_mgr (ps p) = Some t \<Longrightarrow> valid_tid t"
  using assms unfolding mgrs_ok_def by blast+

lemma pgmtrap_h_total:
  assumes ok: "sys_ok Q s" and c: "current_thread s = Some c" and cpu: "handler_mode cpu"
    and p: "t_pcb (threads s c) = Some p" and pc: "pc (PGMTRAP_OLDAREA s) = U w"
  shows "\<exists>out s' Q'. pgmtrap_h cpu frame s = Some (out, s') \<and> settled Q' s' \<and>
    count_error s' = count_error s \<and> out \<noteq> Ret"
  using trap_h_total[OF ok c cpu _ pc, of "pgm_mgr (procs s p)" frame] mgrs_okD(1)[OF sys_ok_mgrs[OF ok], of p]
  by (simp add: pgmtrap_h_def c p)

lemma tlbtrap_h_total:
  assumes ok: "sys_ok Q s" and c: "current_thread s = Some c" and cpu: "handler_mode cpu"
    and p: "t_pcb (threads s c) = Some p" and pc: "pc (TLB_OLDAREA s) = U w"
  shows "\<exists>out s' Q'. tlbtrap_h cpu frame s = Some (out, s') \<and> settled Q' s' \<and>
    count_error s' = count_error s \<and> out \<noteq> Ret"
  using trap_h_total[OF ok c cpu _ pc, of "tlb_mgr (procs s p)" frame] mgrs_okD(2)[OF sys_ok_mgrs[OF ok], of p]
  by (simp add: tlbtrap_h_def c p)

lemma raise_reserved_total:
  assumes ok: "sys_ok Q s" and c: "current_thread s = Some c" and cpu: "handler_mode cpu"
    and p: "t_pcb (threads s c) = Some p" and pc: "pc (SYSBK_OLDAREA s) = U w"
  shows "\<exists>out s' Q'. raise_reserved_instruction cpu frame s = Some (out, s') \<and> settled Q' s' \<and>
    count_error s' = count_error s \<and> out \<noteq> Ret"
proof -
  let ?s = "s\<lparr>PGMTRAP_OLDAREA := (SYSBK_OLDAREA s)\<lparr>CP15_Cause := U EXC_RESERVEDINSTR\<rparr>\<rparr>"
  have "\<exists>out s' Q'. pgmtrap_h cpu frame ?s = Some (out, s') \<and> settled Q' s' \<and> count_error s' = count_error ?s \<and> out \<noteq> Ret"
    by (rule pgmtrap_h_total[of Q _ c _ p w]) (use assms in simp_all)
  then show ?thesis by (simp add: raise_reserved_instruction_def)
qed

lemma syscall_other_total:
  assumes ok: "sys_ok Q s" and c: "current_thread s = Some c" and cpu: "handler_mode cpu"
    and p: "t_pcb (threads s c) = Some p" and pc: "pc (SYSBK_OLDAREA s) = U w"
  shows "\<exists>out s' Q'. syscall_other cpu frame n x y z s = Some (out, s') \<and> settled Q' s' \<and>
    count_error s' = count_error s \<and> out \<noteq> Ret"
proof -
  have vc: "valid_tid c" using sys_ok_running[OF ok c] by simp
  show ?thesis
  proof (cases "sys_mgr (procs s p)")
    case (Some m)
    let ?s1 = "s\<lparr>threads := (threads s)(c := (threads s c)\<lparr>t_s := SYSBK_OLDAREA s\<rparr>),
      mem := (mem s)(frame := n, frame + 4 := x, frame + 8 := y, frame + 12 := z)\<rparr>"
    have ok1: "sys_ok Q ?s1" using sys_ok_upd_state[OF ok c] by simp
    obtain r s2 Q2 where s2: "send (Some m) (Some c) (U frame) ?s1 = Some (r, s2)" "sys_ok Q2 s2" "send_frame ?s1 s2"
      using send_total[OF ok1 vc, of m "U frame"] mgrs_okD(3)[OF sys_ok_mgrs[OF ok] Some] by blast
    have cur2: "current_thread s2 = Some c" "count_error s2 = count_error s" using s2(3) c by (simp_all add: send_frame_def)
    from park_and_schedule[OF s2(2) cur2(1)] s2(1) cur2(2) c p Some show ?thesis
      by (simp add: syscall_other_def upd_defs)
  next
    case None
    show ?thesis
    proof (cases "pgm_mgr (procs s p)")
      case (Some m)
      let ?s1 = "s\<lparr>threads := (threads s)(c := (threads s c)\<lparr>t_s := (SYSBK_OLDAREA s)\<lparr>pc := U (w - 4)\<rparr>\<rparr>)\<rparr>"
      obtain r s2 Q2 where s2: "send (Some m) (Some c) (TcbState c) ?s1 = Some (r, s2)" "sys_ok Q2 s2" "send_frame ?s1 s2"
        using send_total[OF sys_ok_upd_state[OF ok c, of "(SYSBK_OLDAREA s)\<lparr>pc := U (w - 4)\<rparr>"] vc, of m "TcbState c"]
           mgrs_okD(1)[OF sys_ok_mgrs[OF ok] Some] by blast
      have cur2: "current_thread s2 = Some c" "count_error s2 = count_error s" using s2(3) c by (simp_all add: send_frame_def)
      from park_and_schedule[OF s2(2) cur2(1)] s2(1) cur2(2) c p pc None Some show ?thesis
        by (simp add: syscall_other_def upd_defs)
    next
      case none: None
      with not_returning_total[OF terminate_request_total[OF ok c cpu]] None c p show ?thesis
        by (simp add: syscall_other_def)
    qed
  qed
qed

text \<open>
  What a system call of the running thread may ask for: a send names a thread, a receive names a
  thread or NULL (anybody) and a place for the payload; registers \<open>cpsr\<close> and \<open>pc\<close> are numbers.
  A thread without a process (the SSI) only sends and receives, in kernel mode.
\<close>

definition syscall_args_ok :: "tid \<Rightarrow> kstate \<Rightarrow> bool" where
  "syscall_args_ok c s \<longleftrightarrow>
     (let old = SYSBK_OLDAREA s in
      (\<exists>w. pc old = U w) \<and> IS_KERNEL_MODE s \<noteq> None \<and>
      (a1 old = U SYS_SEND \<longrightarrow> (\<exists>d. a2 old = Tcb d \<and> valid_tid d)) \<and>
      (a1 old = U SYS_RECV \<longrightarrow>
         (a2 old = NULL \<or> (\<exists>d. a2 old = Tcb d \<and> valid_tid d)) \<and> (\<exists>a. a3 old = U a)) \<and>
      (t_pcb (threads s c) = None \<longrightarrow>
         (a1 old = U SYS_SEND \<or> a1 old = U SYS_RECV) \<and> IS_KERNEL_MODE s = Some True))"

text \<open>
  The system call handler returns on every branch, the invariants hold afterwards, and when it goes
  back to the caller with \<open>LDST\<close> the caller is still the running thread.
\<close>

lemma syscall_h_total:
  assumes ok: "sys_ok Q s" and c: "current_thread s = Some c" and cpu: "handler_mode cpu"
    and args: "syscall_args_ok c s"
  shows "\<exists>out s' Q'. syscall_h cpu frame s = Some (out, s') \<and> settled Q' s' \<and> count_error s' = count_error s \<and>
    (out = Ret \<longrightarrow> current_thread s' = Some c)"
proof -
  let ?old = "SYSBK_OLDAREA s"
  note A = args[unfolded syscall_args_ok_def Let_def]
  obtain w where pc: "pc ?old = U w" using A by blast
  obtain km where km: "IS_KERNEL_MODE s = Some km" using A by blast
  have vc: "valid_tid c" using sys_ok_running[OF ok c] by simp
  have trap: "\<exists>out s' Q'. raise_reserved_instruction cpu frame s = Some (out, s') \<and> settled Q' s' \<and> count_error s' = count_error s \<and>
      (out = Ret \<longrightarrow> current_thread s' = Some c)" if "t_pcb (threads s c) = Some p" for p
    using raise_reserved_total[OF ok c cpu that pc] by blast
  consider (err) "a1 ?old = U SYS_ERR" | (snd) "a1 ?old = U SYS_SEND" | (rcv) "a1 ?old = U SYS_RECV"
    | (other) "a1 ?old \<noteq> U SYS_ERR" "a1 ?old \<noteq> U SYS_SEND" "a1 ?old \<noteq> U SYS_RECV" by blast
  then show ?thesis
  proof cases
    case err
    then obtain p where "t_pcb (threads s c) = Some p" using A by (auto simp: sys_defs)
    with trap err show ?thesis by (simp add: syscall_h_def)
  next
    case snd
    then obtain d where d: "a2 ?old = Tcb d" "valid_tid d" using A by blast
    have eq: "syscall_h cpu frame s = send_kernel cpu frame (Some d) (a3 ?old) s"
      using snd d by (simp add: syscall_h_def sys_defs)
    show ?thesis
    proof (cases km)
      case True
      obtain r s' Q' where "send (Some d) (Some c) (a3 ?old) s = Some (r, s')" "sys_ok Q' s'" "send_frame s s'"
        using send_total[OF ok vc d(2)] by blast
      then show ?thesis
        by (auto simp: eq send_kernel_def km True c send_frame_def intro!: exI[of _ Q'] settled_running)
    next
      case False
      then obtain p where "t_pcb (threads s c) = Some p" using A km by auto
      with trap False km show ?thesis by (simp add: eq send_kernel_def)
    qed
  next
    case rcv
    obtain a where a: "a3 ?old = U a" using A rcv by blast
    obtain src where src: "as_tcb (a2 ?old) = Some src" "\<And>u. src = Some u \<Longrightarrow> valid_tid u"
      using A rcv by fastforce
    have eq: "syscall_h cpu frame s = recv_kernel cpu frame src (a3 ?old) s"
      using rcv src(1) by (simp add: syscall_h_def sys_defs)
    show ?thesis
    proof (cases km)
      case True
      with recv_total[OF ok c src(2) a] a km show ?thesis by (simp add: eq recv_kernel_def)
    next
      case False
      then obtain p where "t_pcb (threads s c) = Some p" using A km by auto
      with trap False km show ?thesis by (simp add: eq recv_kernel_def)
    qed
  next
    case other
    then obtain p where p: "t_pcb (threads s c) = Some p" using A by auto
    have "syscall_h cpu frame s = syscall_other cpu frame (a1 ?old) (a2 ?old) (a3 ?old) (a4 ?old) s"
      using other by (simp add: syscall_h_def Let_def)
    with syscall_other_total[OF ok c cpu p pc] show ?thesis by fastforce
  qed
qed

text \<open>The mode test, on the modes of the processor and whatever the other bits are.\<close>

lemma IS_KERNEL_MODE_low_bit:
  "cpsr (SYSBK_OLDAREA s) = U w \<Longrightarrow> IS_KERNEL_MODE s = Some (odd w)"
  by (simp add: IS_KERNEL_MODE_def and_one_eq odd_iff_mod_2_eq_one)

end
