(* ===== verification/Accounting.thy ===== *)
theory Accounting imports Syscall begin

text \<open>
  The remaining part of \<open>src/src/clock\<close> (\<open>update_clock\<close> is in theory \<open>Syscall\<close>, with the system
  calls it makes): the conversion of processor cycles to milliseconds of \<open>accounting.c\<close> and the
  64-bit words of \<open>accounting.h\<close>; and the bitmaps of \<open>src/src/bitmap.h\<close>.
\<close>

section \<open>Cycles and milliseconds\<close>

text \<open>The loop of \<open>accountant\<close>: one millisecond for every 1000 cycles started.\<close>

function accountant_loop :: "int \<Rightarrow> int \<Rightarrow> int" where
  "accountant_loop cycles milliseconds =
     (if cycles > 0 then accountant_loop (cycles - 1000) (milliseconds + 1) else milliseconds)"
  by pat_completeness auto
termination by (relation "measure (\<lambda>(c, m). nat c)") auto

declare accountant_loop.simps [simp del]

text \<open>
  \<open>int cycles\<close> gets the unsigned \<open>run_time\<close>; the subtraction of 500 must not leave the range of
  \<open>int\<close>.
\<close>

definition accountant :: "tcb_t \<Rightarrow> u32 option" where
  "accountant thread = do {
     let cycles = sint (run_time thread);
     if cycles - 500 < - (2 ^ 31) then None
     else Some (word_of_int (accountant_loop (cycles - 500) 0))
   }"

lemma accountant_loop_eq:
  "accountant_loop c m = (if c > 0 then m + (c + 999) div 1000 else m)"
proof (induction c m rule: accountant_loop.induct)
  case (1 c m)
  show ?case
  proof (cases "c > 0")
    case True
    then have "accountant_loop c m = accountant_loop (c - 1000) (m + 1)"
      by (subst accountant_loop.simps) simp
    with 1 True show ?thesis by (auto simp: div_add_self2[symmetric])
  qed (subst accountant_loop.simps, simp)
qed

text \<open>The result is the number of milliseconds rounded to the nearest integer.\<close>

lemma accountant_rounds:
  assumes "0 \<le> sint (run_time x)"
  shows "\<exists>ms. accountant x = Some ms \<and> \<bar>1000 * sint ms - sint (run_time x)\<bar> \<le> 500"
proof -
  let ?r = "sint (run_time x)"
  let ?m = "if ?r - 500 > 0 then (?r + 499) div 1000 else 0"
  have hi: "?r < 2 ^ 31" using sint_lt[of "run_time x"] by simp
  have "accountant_loop (?r - 500) 0 = ?m"
    by (subst accountant_loop_eq) (simp add: algebra_simps)
  then have run: "accountant x = Some (word_of_int ?m)"
    using assms by (simp add: accountant_def)
  have m: "0 \<le> ?m" "?m < 2 ^ 31" using assms hi by auto
  have "sint (word_of_int ?m :: u32) = ?m"
    using m by (simp add: sint_sbintrunc' signed_take_bit_int_eq_self)
  moreover have "\<bar>1000 * ?m - ?r\<bar> \<le> 500" using assms by auto
  ultimately show ?thesis using run by auto
qed

section \<open>64-bit words\<close>

definition pack :: "u32 \<Rightarrow> u32 \<Rightarrow> 64 word" where
  "pack RegLow RegHigh = push_bit 32 (ucast RegHigh) OR ucast RegLow"

definition unpack :: "64 word \<Rightarrow> u32 \<times> u32" where
  "unpack Reg = (ucast Reg, ucast (drop_bit 32 Reg))"

lemma unpack_pack: "unpack (pack lo hi) = (lo, hi)"
  by (auto simp: pack_def unpack_def bit_eq_iff bit_simps dest: bit_imp_le_length)

lemma pack_unpack: "(case unpack r of (lo, hi) \<Rightarrow> pack lo hi) = r"
  by (auto simp: pack_def unpack_def bit_eq_iff bit_simps)

section \<open>Bitmaps\<close>

text \<open>
  A bitmap is an array of words; an index out of the array is a fault. The mask \<open>1 << BIT_OFFSET(n)\<close> of \<open>bitmap.h\<close> shifts
  a signed \<open>int\<close>, which for bit 31 is undefined in the C standard; here it has the value that compilers give it, the word
  with the highest bit set.
\<close>

definition BITS_PER_WORD :: nat where "BITS_PER_WORD = 32"

definition upd_word :: "(u32 \<Rightarrow> u32) \<Rightarrow> nat \<Rightarrow> u32 list \<Rightarrow> u32 list option" where
  "upd_word f i bm = (if i < length bm then Some (bm[i := f (bm ! i)]) else None)"

definition bitmap_set_bit :: "u32 list \<Rightarrow> nat \<Rightarrow> u32 list option" where
  "bitmap_set_bit bm n = upd_word (\<lambda>w. w OR push_bit (n mod BITS_PER_WORD) 1) (n div BITS_PER_WORD) bm"

definition bitmap_clear_bit :: "u32 list \<Rightarrow> nat \<Rightarrow> u32 list option" where
  "bitmap_clear_bit bm n = upd_word (\<lambda>w. w AND NOT (push_bit (n mod BITS_PER_WORD) 1)) (n div BITS_PER_WORD) bm"

definition bitmap_get_bit :: "u32 list \<Rightarrow> nat \<Rightarrow> bool option" where
  "bitmap_get_bit bm n =
     (if n div BITS_PER_WORD < length bm
      then Some (bm ! (n div BITS_PER_WORD) AND push_bit (n mod BITS_PER_WORD) 1 \<noteq> 0) else None)"

lemma and_push_bit_one: "(w :: u32) AND push_bit k 1 \<noteq> 0 \<longleftrightarrow> bit w k"
  by (simp add: push_bit_eq_mult and_exp_eq_0_iff_not_bit)

text \<open>The bitmap as a set of numbers.\<close>

definition bits :: "u32 list \<Rightarrow> nat set" where
  "bits bm = {n. bitmap_get_bit bm n = Some True}"

lemma bitmap_get_bit_bit: "n < 32 * length bm \<Longrightarrow> bitmap_get_bit bm n = Some (bit (bm ! (n div 32)) (n mod 32))"
  by (simp only: bitmap_get_bit_def BITS_PER_WORD_def and_push_bit_one) (simp add: less_mult_imp_div_less mult.commute)

lemma div_mod_32: "(m :: nat) div 32 = n div 32 \<Longrightarrow> m mod 32 = n mod 32 \<Longrightarrow> m = n"
  by (metis div_mult_mod_eq)

lemma bitmap_get_bit_out: "32 * length bm \<le> n \<Longrightarrow> bitmap_get_bit bm n = None"
  by (simp add: bitmap_get_bit_def BITS_PER_WORD_def not_less div_le_mono[of "32 * length bm" n 32, simplified])

lemma bitmap_get_bit_upd:
  assumes n: "n < 32 * length bm" and f: "\<And>k. k < 32 \<Longrightarrow> bit (f (bm ! (n div 32))) k \<longleftrightarrow>
      (if k = n mod 32 then b else bit (bm ! (n div 32)) k)"
  shows "\<exists>bm'. upd_word f (n div 32) bm = Some bm' \<and> length bm' = length bm \<and>
    (\<forall>k. bitmap_get_bit bm' k = (if k = n then Some b else bitmap_get_bit bm k))"
proof -
  have i: "n div 32 < length bm" using n by (simp add: less_mult_imp_div_less mult.commute)
  let ?bm = "bm[n div 32 := f (bm ! (n div 32))]"
  have "bitmap_get_bit ?bm k = (if k = n then Some b else bitmap_get_bit bm k)" for k
  proof (cases "k < 32 * length bm")
    case True
    then show ?thesis
      using f[of "k mod 32"] i n div_mod_32[of k n]
      by (cases "k div 32 = n div 32") (auto simp: bitmap_get_bit_bit)
  next
    case False
    with n show ?thesis by (auto simp: bitmap_get_bit_out)
  qed
  with i show ?thesis by (simp add: upd_word_def)
qed

lemma bits_upd:
  "(\<forall>k. bitmap_get_bit bm' k = (if k = n then Some b else bitmap_get_bit bm k)) \<Longrightarrow>
   bits bm' = (if b then insert n (bits bm) else bits bm - {n})"
  by (cases b) (auto simp: bits_def)

lemma bitmap_set_bit_correct:
  assumes "n < 32 * length bm"
  shows "\<exists>bm'. bitmap_set_bit bm n = Some bm' \<and> length bm' = length bm \<and> bits bm' = insert n (bits bm)"
proof -
  have "\<exists>bm'. bitmap_set_bit bm n = Some bm' \<and> length bm' = length bm \<and>
      (\<forall>k. bitmap_get_bit bm' k = (if k = n then Some True else bitmap_get_bit bm k))"
    unfolding bitmap_set_bit_def BITS_PER_WORD_def
    by (rule bitmap_get_bit_upd[OF assms]) (auto simp: bit_simps)
  then show ?thesis using bits_upd[where b = True] by fastforce
qed

lemma bitmap_clear_bit_correct:
  assumes "n < 32 * length bm"
  shows "\<exists>bm'. bitmap_clear_bit bm n = Some bm' \<and> length bm' = length bm \<and> bits bm' = bits bm - {n}"
proof -
  have "\<exists>bm'. bitmap_clear_bit bm n = Some bm' \<and> length bm' = length bm \<and>
      (\<forall>k. bitmap_get_bit bm' k = (if k = n then Some False else bitmap_get_bit bm k))"
    unfolding bitmap_clear_bit_def BITS_PER_WORD_def
    by (rule bitmap_get_bit_upd[OF assms]) (auto simp: bit_simps)
  then show ?thesis using bits_upd[where b = False] by fastforce
qed

end
