(* ===== verification/Syslib.thy ===== *)
theory Syslib imports Machine begin

text \<open>
  The support library, \<open>src/src/syslib.c\<close>: \<open>memcpy\<close> and the formatted output \<open>tprintf\<close>. A
  printing function returns the characters it prints, in order, and the number it returns. A C
  string is the list of its characters before the terminating NUL. The operands of \<open>+\<close> that print
  are evaluated from left to right, which is what the code relies on and C leaves open.
\<close>

section \<open>Definitions\<close>

text \<open>The loop of \<open>memcpy\<close> on memory seen as bytes.\<close>

definition memcpy :: "u32 \<Rightarrow> u32 \<Rightarrow> nat \<Rightarrow> (u32 \<Rightarrow> 8 word) \<Rightarrow> u32 \<Rightarrow> 8 word" where
  "memcpy dest source num m =
     fold (\<lambda>i m. m(dest + of_nat i := m (source + of_nat i))) [0..<num] m"

type_synonym printed = "string \<times> int"

abbreviation NUL :: char where "NUL \<equiv> CHR 0x00"

definition plus_printed :: "printed \<Rightarrow> printed \<Rightarrow> printed" where
  "plus_printed a b = (fst a @ fst b, snd a + snd b)"

definition putcx :: "char \<Rightarrow> printed" where
  "putcx c = (if c \<noteq> NUL then ([c], 1) else ([], 0))"

definition backchar :: "nat \<Rightarrow> char" where
  "backchar i =
     (if i = of_char (CHR ''a'') then CHR 0x07
      else if i = of_char (CHR ''b'') then CHR 0x08
      else if i = of_char (CHR ''f'') then CHR 0x0C
      else if i = of_char (CHR ''n'') then CHR 0x0A
      else if i = of_char (CHR ''r'') then CHR 0x0D
      else if i = of_char (CHR ''t'') then CHR 0x09
      else if i = of_char (CHR ''v'') then CHR 0x0B
      else if i = of_char (CHR 0x5C) then CHR 0x5C
      else if i = of_char (CHR 0x27) then CHR 0x27
      else if i = of_char (CHR 0x22) then CHR 0x22
      else if i = of_char (CHR ''?'') then CHR ''?''
      else NUL)"

definition put_backslash :: "char \<Rightarrow> printed" where
  "put_backslash escapeChar = putcx (backchar (of_char escapeChar mod 128))"

text \<open>The comment of the code demands \<open>val >= 0\<close>.\<close>

fun rvrp_int :: "nat \<Rightarrow> printed" where
  "rvrp_int val =
     (if val = 0 then ([], 0)
      else plus_printed (rvrp_int (val div 10)) (putcx (char_of (48 + val mod 10))))"

text \<open>\<open>-val\<close> overflows for the smallest \<open>int\<close>.\<close>

definition vrp_int :: "u32 \<Rightarrow> printed option" where
  "vrp_int val =
     (if val \<noteq> 0 then
        if sint val < 0 then
          if sint val = - (2 ^ 31) then None
          else Some (plus_printed (putcx (CHR ''-'')) (rvrp_int (nat (- sint val))))
        else Some (rvrp_int (nat (sint val)))
      else Some (putcx (CHR ''0'')))"

text \<open>The character at a position of a string: NUL at its end.\<close>

fun at :: "string \<Rightarrow> char" where
  "at [] = NUL"
| "at (c # s) = c"

fun vrp_string :: "string \<Rightarrow> printed" where
  "vrp_string [] = ([], 0)"
| "vrp_string (c # s) =
     (if c = NUL then ([], 0)
      else if c = CHR 0x5C then
        (let b = put_backslash (at s) in
         if snd b \<noteq> 0 then plus_printed (plus_printed (fst b, 0) (vrp_string (drop 1 s))) ([], 1)
         else (fst b, 0))
      else plus_printed (putcx c) (vrp_string s))"

definition hex_cx :: "nat \<Rightarrow> char" where
  "hex_cx n = char_of (if n < 10 then 48 + n else 97 + n mod 10)"

fun rvrp_pointer :: "nat \<Rightarrow> nat \<Rightarrow> printed" where
  "rvrp_pointer p dept =
     (if p = 0 then (replicate (8 - dept) (CHR ''0''), 8 - int dept)
      else plus_printed (rvrp_pointer (p div 16) (dept + 1)) (putcx (hex_cx (p mod 16))))"

text \<open>
  The arguments after the format. \<open>va_arg\<close> at the wrong type or beyond the last argument is
  undefined.
\<close>

datatype va_arg = Int_arg u32 | Str_arg string | Ptr_arg u32

fun plus_opt :: "printed option \<Rightarrow> printed option \<Rightarrow> printed option" where
  "plus_opt (Some a) (Some b) = Some (plus_printed a b)"
| "plus_opt _ _ = None"

definition vrp_pointer :: "printed option \<Rightarrow> printed option \<Rightarrow> u32 \<Rightarrow> printed option" where
  "vrp_pointer print_0x print_null p =
     (if p \<noteq> 0 then plus_opt print_0x (Some (rvrp_pointer (unat p) 0)) else print_null)"

function (sequential) vrprintf :: "string \<Rightarrow> va_arg list \<Rightarrow> printed option"
  and vrp_percent :: "string \<Rightarrow> va_arg list \<Rightarrow> printed option" where
  "vrprintf [] ap = Some ([], 0)"
| "vrprintf (c # format) ap =
     (if c = NUL then Some ([], 0)
      else if c = CHR ''%'' then vrp_percent format ap
      else if c = CHR 0x5C then
        (let b = put_backslash (at format) in
         if snd b \<noteq> 0 then plus_opt (Some (fst b, 0)) (plus_opt (vrprintf (drop 1 format) ap) (Some ([], 1)))
         else Some (fst b, 0))
      else plus_opt (Some (putcx c)) (vrprintf format ap))"
| "vrp_percent [] ap = Some ([], 0)"
| "vrp_percent (c # format) ap =
     (if c = NUL then Some ([], 0)
      else if c = CHR ''%'' then plus_opt (Some (putcx c)) (vrprintf format ap)
      else if c = CHR ''d'' then
        (case ap of Int_arg i # ap \<Rightarrow> plus_opt (vrp_int i) (vrprintf format ap) | _ \<Rightarrow> None)
      else if c = CHR ''s'' then
        (case ap of Str_arg s # ap \<Rightarrow> plus_opt (Some (vrp_string s)) (vrprintf format ap) | _ \<Rightarrow> None)
      else if c = CHR ''p'' then
        (case ap of
           Ptr_arg p # ap \<Rightarrow> plus_opt (vrp_pointer (vrprintf ''0x'' []) (vrprintf ''(null)'' []) p) (vrprintf format ap)
         | _ \<Rightarrow> None)
      else Some (''ERROR'' @ [CHR 0x0A], 0))"
  by pat_completeness auto

termination
  by (relation "measures [\<lambda>x. case x of Inl (f, ap) \<Rightarrow> length ap | Inr (f, ap) \<Rightarrow> length ap,
      \<lambda>x. case x of Inl (f, ap) \<Rightarrow> length f | Inr (f, ap) \<Rightarrow> length f]") auto

definition tprintf :: "string \<Rightarrow> va_arg list \<Rightarrow> printed option" where
  "tprintf format ap = vrprintf format ap"

section \<open>memcpy\<close>

text \<open>
  The copy goes upwards, so it is right unless the destination starts inside the source region.
\<close>

lemma memcpy_Suc:
  "memcpy dest source (Suc k) m =
   (memcpy dest source k m)(dest + of_nat k := memcpy dest source k m (source + of_nat k))"
  by (simp add: memcpy_def)

lemma memcpy_prefix:
  assumes num: "num \<le> 2 ^ 32" and apart: "dest = source \<or> num \<le> unat (dest - source)" and "k \<le> num"
  shows "memcpy dest source k m a = (if unat (a - dest) < k then m (source + (a - dest)) else m a)"
  using assms(3)
proof (induction k arbitrary: a)
  case (Suc k)
  then have IH: "memcpy dest source k m b = (if unat (b - dest) < k then m (source + (b - dest)) else m b)" for b by simp
  have k: "unat (of_nat k :: u32) = k" using Suc.prems num by (simp add: unat_of_nat)
  have "\<not> unat (source + of_nat k - dest) < k"
  proof (cases "dest = source")
    case True then show ?thesis using k by simp
  next
    case False
    then have d: "k < unat (dest - source)" using apart Suc.prems by simp
    have e: "source + of_nat k - dest = of_nat k - (dest - source)" by simp
    have "unat (of_nat k - (dest - source)) = k + 2 ^ 32 - unat (dest - source)"
      using d k by (simp add: unat_sub_if_size word_size)
    moreover have "unat (dest - source) < 2 ^ 32" by (rule order_less_le_trans[OF unsigned_less]) simp
    ultimately show ?thesis unfolding e by simp
  qed
  then have read: "memcpy dest source k m (source + of_nat k) = m (source + of_nat k)" using IH by simp
  show ?case
  proof (cases "a = dest + of_nat k")
    case True
    then show ?thesis using k read by (simp add: memcpy_Suc)
  next
    case False
    have "unat (a - dest) \<noteq> k"
    proof
      assume "unat (a - dest) = k"
      then have "a - dest = of_nat k" by (simp add: word_unat_eq_iff k)
      with False show False by (simp add: diff_eq_eq add.commute)
    qed
    then show ?thesis using False IH by (auto simp: memcpy_Suc less_Suc_eq)
  qed
qed (simp add: memcpy_def)

lemma memcpy_correct:
  "num \<le> 2 ^ 32 \<Longrightarrow> dest = source \<or> num \<le> unat (dest - source) \<Longrightarrow>
   memcpy dest source num m = (\<lambda>a. if unat (a - dest) < num then m (source + (a - dest)) else m a)"
  using memcpy_prefix by blast

section \<open>Numbers\<close>

text \<open>The value that a reader gives to a printed number.\<close>

definition digit_value :: "char \<Rightarrow> nat" where
  "digit_value c = (if of_char c < (97 :: nat) then of_char c - 48 else of_char c - 87)"

definition read_base :: "nat \<Rightarrow> string \<Rightarrow> nat" where
  "read_base b = foldl (\<lambda>n c. n * b + digit_value c) 0"

definition read_int :: "string \<Rightarrow> int" where
  "read_int s = (case s of [] \<Rightarrow> 0 | c # cs \<Rightarrow> if c = CHR ''-'' then - int (read_base 10 cs) else int (read_base 10 s))"

definition is_digit :: "char \<Rightarrow> bool" where
  "is_digit c \<longleftrightarrow> 48 \<le> (of_char c :: nat) \<and> (of_char c :: nat) \<le> 57"

lemma plus_printed_simps [simp]:
  "fst (plus_printed a b) = fst a @ fst b" "snd (plus_printed a b) = snd a + snd b"
  by (simp_all add: plus_printed_def)

text \<open>The printed number is counted right.\<close>

abbreviation counted :: "printed \<Rightarrow> bool" where "counted r \<equiv> snd r = int (length (fst r))"

lemma of_char_NUL [simp]: "(of_char NUL :: nat) = 0"
  by simp

lemma char_of_not_NUL: "0 < n \<Longrightarrow> n < 256 \<Longrightarrow> char_of (n :: nat) \<noteq> NUL"
proof
  assume n: "0 < n" "n < 256" and "char_of n = NUL"
  then have "of_char (char_of n) = (0 :: nat)" by (simp only: of_char_NUL)
  with n show False by simp
qed

lemma putcx_digit: "(n :: nat) < 10 \<Longrightarrow> putcx (char_of (48 + n)) = ([char_of (48 + n)], 1)"
  using char_of_not_NUL[of "48 + n"] by (simp add: putcx_def)

lemma digit_value_dec: "(n :: nat) < 10 \<Longrightarrow> digit_value (char_of (48 + n)) = n"
  by (simp add: digit_value_def)

lemma is_digit_dec: "(n :: nat) < 10 \<Longrightarrow> is_digit (char_of (48 + n))"
  by (simp add: is_digit_def)

declare rvrp_int.simps [simp del] rvrp_pointer.simps [simp del]

lemma rvrp_int_correct:
  "read_base 10 (fst (rvrp_int n)) = n \<and> list_all is_digit (fst (rvrp_int n)) \<and> counted (rvrp_int n) \<and>
   (n \<noteq> 0 \<longrightarrow> hd (fst (rvrp_int n)) \<noteq> CHR ''0'' \<and> fst (rvrp_int n) \<noteq> [])"
proof (induction n rule: rvrp_int.induct)
  case (1 n)
  show ?case
  proof (cases "n = 0")
    case True then show ?thesis by (simp add: rvrp_int.simps[of 0] read_base_def)
  next
    case False
    let ?r = "rvrp_int (n div 10)"
    have e: "fst (rvrp_int n) = fst ?r @ [char_of (48 + n mod 10)]" "snd (rvrp_int n) = snd ?r + 1"
      using False by (simp_all add: rvrp_int.simps[of n] putcx_digit)
    have IH: "read_base 10 (fst ?r) = n div 10" "list_all is_digit (fst ?r)" "counted ?r"
      "n div 10 \<noteq> 0 \<Longrightarrow> hd (fst ?r) \<noteq> CHR ''0'' \<and> fst ?r \<noteq> []" using 1 False by simp_all
    have "read_base 10 (fst (rvrp_int n)) = n" using IH(1) by (simp add: e read_base_def digit_value_dec)
    moreover have "hd (fst (rvrp_int n)) \<noteq> CHR ''0''"
    proof (cases "n div 10 = 0")
      case True
      then have "fst ?r = []" by (simp add: rvrp_int.simps[of 0])
      moreover have "char_of (48 + n mod 10) \<noteq> CHR ''0''"
      proof
        assume "char_of (48 + n mod 10) = CHR ''0''"
        then have "digit_value (char_of (48 + n mod 10)) = digit_value (CHR ''0'')" by (simp only:)
        then have "n mod 10 = 0" using digit_value_dec[of "n mod 10"] by (simp add: digit_value_def)
        with True False show False by presburger
      qed
      ultimately show ?thesis by (simp add: e)
    qed (use IH(4) in \<open>simp add: e\<close>)
    ultimately show ?thesis using IH by (simp add: e is_digit_dec)
  qed
qed

lemmas rvrp_int_rules =
  rvrp_int_correct[THEN conjunct1] rvrp_int_correct[THEN conjunct2, THEN conjunct1]
  rvrp_int_correct[THEN conjunct2, THEN conjunct2, THEN conjunct1]
  rvrp_int_correct[THEN conjunct2, THEN conjunct2, THEN conjunct2, rule_format]

lemma read_int_nat:
  assumes "0 < n" shows "read_int (fst (rvrp_int n)) = int n"
proof -
  obtain c cs where r: "fst (rvrp_int n) = c # cs" using rvrp_int_rules(4)[of n] assms by (cases "fst (rvrp_int n)") auto
  have "is_digit c" using rvrp_int_rules(2)[of n] r by simp
  then have "c \<noteq> CHR ''-''" by (auto simp: is_digit_def)
  then show ?thesis using rvrp_int_rules(1)[of n] r by (simp add: read_int_def)
qed

text \<open>\<open>%d\<close>: the printed number reads back as the argument, for every \<open>int\<close> but the smallest.\<close>

lemma vrp_int_roundtrip:
  assumes "sint i \<noteq> - (2 ^ 31)"
  shows "\<exists>r. vrp_int i = Some r \<and> read_int (fst r) = sint i \<and> counted r"
proof (cases "i = 0")
  case True
  then show ?thesis by (simp add: vrp_int_def putcx_def read_int_def read_base_def digit_value_def)
next
  case False
  then have "sint i \<noteq> 0" by (metis signed_0 signed_word_eqI)
  then consider "sint i < 0" | "0 < sint i" by linarith
  then show ?thesis
  proof cases
    case 1
    then show ?thesis using False assms rvrp_int_rules(1,3)[of "nat (- sint i)"]
      by (simp add: vrp_int_def putcx_def read_int_def)
  next
    case 2
    then show ?thesis using False assms rvrp_int_rules(3)[of "nat (sint i)"] read_int_nat[of "nat (sint i)"]
      by (simp add: vrp_int_def)
  qed
qed

lemma vrp_int_smallest: "vrp_int 0x80000000 = None"
  by (simp add: vrp_int_def)

text \<open>\<open>%p\<close>: eight hexadecimal digits with the value of the pointer.\<close>

lemma hex_cx_value: "n < 16 \<Longrightarrow> digit_value (hex_cx n) = n \<and> hex_cx n \<noteq> NUL"
proof -
  assume n: "n < 16"
  then have m: "n mod 10 = (if n < 10 then n else n - 10)" by (auto simp: mod_if)
  show ?thesis using n m char_of_not_NUL[of "48 + n"] char_of_not_NUL[of "87 + n"]
    by (auto simp: hex_cx_def digit_value_def)
qed

lemma read_base_zeros: "read_base b (replicate n (CHR ''0'')) = 0"
  by (induction n) (simp_all add: read_base_def digit_value_def)

lemma rvrp_pointer_digits:
  "p < 16 ^ k \<Longrightarrow> d + k \<le> 8 \<Longrightarrow>
   read_base 16 (fst (rvrp_pointer p d)) = p \<and> length (fst (rvrp_pointer p d)) = 8 - d \<and> counted (rvrp_pointer p d)"
proof (induction p d arbitrary: k rule: rvrp_pointer.induct)
  case (1 p d)
  show ?case
  proof (cases "p = 0")
    case True
    then show ?thesis using 1(3) by (simp add: rvrp_pointer.simps[of 0] read_base_zeros)
  next
    case False
    then obtain k' where k: "k = Suc k'" using 1(2) by (cases k) auto
    let ?r = "rvrp_pointer (p div 16) (d + 1)"
    have "p div 16 < 16 ^ k'" using 1(2) by (simp add: k div_less_iff_less_mult mult.commute)
    then have IH: "read_base 16 (fst ?r) = p div 16" "length (fst ?r) = 8 - (d + 1)" "counted ?r"
      using 1(1)[OF False, of k'] 1(3) k by simp_all
    have e: "fst (rvrp_pointer p d) = fst ?r @ [hex_cx (p mod 16)]" "snd (rvrp_pointer p d) = snd ?r + 1"
      using False hex_cx_value[of "p mod 16"] by (simp_all add: rvrp_pointer.simps[of p] putcx_def)
    have "read_base 16 (fst (rvrp_pointer p d)) = p"
      using IH(1) hex_cx_value[of "p mod 16"] by (simp add: e read_base_def)
    then show ?thesis using IH 1(3) k by (simp add: e)
  qed
qed

lemma rvrp_pointer_correct:
  fixes p :: u32
  shows "read_base 16 (fst (rvrp_pointer (unat p) 0)) = unat p \<and> length (fst (rvrp_pointer (unat p) 0)) = 8 \<and>
    counted (rvrp_pointer (unat p) 0)"
proof -
  have "unat p < 16 ^ 8" by (rule order_less_le_trans[OF unsigned_less]) simp
  with rvrp_pointer_digits[of "unat p" 8 0] show ?thesis by simp
qed

section \<open>tprintf\<close>

text \<open>
  The arguments fit the format: every directive is one of \<open>%%\<close>, \<open>%d\<close>, \<open>%s\<close>, \<open>%p\<close> and finds an
  argument of its type, and no \<open>%d\<close> gets the smallest \<open>int\<close>.
\<close>

fun fits :: "string \<Rightarrow> va_arg list \<Rightarrow> bool" and fits_percent :: "string \<Rightarrow> va_arg list \<Rightarrow> bool" where
  "fits [] ap \<longleftrightarrow> True"
| "fits (c # format) ap \<longleftrightarrow>
     (if c = NUL then True
      else if c = CHR ''%'' then fits_percent format ap
      else if c = CHR 0x5C then (case format of [] \<Rightarrow> True | d # rest \<Rightarrow> fits rest ap)
      else fits format ap)"
| "fits_percent [] ap \<longleftrightarrow> True"
| "fits_percent (c # format) ap \<longleftrightarrow>
     (if c = NUL then True
      else if c = CHR ''%'' then fits format ap
      else if c = CHR ''d'' then (case ap of Int_arg i # ap \<Rightarrow> sint i \<noteq> - (2 ^ 31) \<and> fits format ap | _ \<Rightarrow> False)
      else if c = CHR ''s'' then (case ap of Str_arg s # ap \<Rightarrow> fits format ap | _ \<Rightarrow> False)
      else if c = CHR ''p'' then (case ap of Ptr_arg p # ap \<Rightarrow> fits format ap | _ \<Rightarrow> False)
      else False)"

lemma plus_opt_eq_Some:
  "plus_opt a b = Some r \<longleftrightarrow> (\<exists>x y. a = Some x \<and> b = Some y \<and> r = plus_printed x y)"
  by (cases "(a, b)" rule: plus_opt.cases) auto

lemma counted_plus: "counted a \<Longrightarrow> counted b \<Longrightarrow> counted (plus_printed a b)"
  by simp

lemma counted_putcx: "counted (putcx c)"
  by (simp add: putcx_def)

lemma put_backslash_cases: "put_backslash c = ([], 0) \<or> (\<exists>d. put_backslash c = ([d], 1))"
  by (simp add: put_backslash_def putcx_def)

lemma counted_vrp_string: "counted (vrp_string s)"
proof (induction s rule: vrp_string.induct)
  case (2 c s)
  show ?case
  proof (cases "c = CHR 0x5C")
    case True
    then show ?thesis using put_backslash_cases[of "at s"] 2(1)
      by (auto simp: Let_def)
  next
    case False
    then show ?thesis using 2(2) counted_putcx[of c] by simp
  qed
qed simp

text \<open>Printing ends and gives the number of characters printed.\<close>

definition prints :: "printed option \<Rightarrow> bool" where
  "prints r \<longleftrightarrow> (\<exists>a. r = Some a \<and> counted a)"

lemma prints_plus: "prints a \<Longrightarrow> prints b \<Longrightarrow> prints (plus_opt a b)"
  by (auto simp: prints_def plus_printed_def)

lemma prints_Some [simp]: "prints (Some a) \<longleftrightarrow> counted a"
  by (simp add: prints_def)

lemma prints_literals: "prints (vrprintf ''0x'' [])" "prints (vrprintf ''(null)'' [])"
  by (simp_all add: putcx_def plus_printed_def)

lemma prints_pointer: "prints (vrp_pointer (vrprintf ''0x'' []) (vrprintf ''(null)'' []) p)"
  using prints_literals rvrp_pointer_correct[of p] prints_plus by (simp add: vrp_pointer_def)

lemma prints_int: "sint i \<noteq> - (2 ^ 31) \<Longrightarrow> prints (vrp_int i)"
  using vrp_int_roundtrip by (auto simp: prints_def)

lemma prints_escape:
  assumes "snd (put_backslash (at format)) \<noteq> 0 \<Longrightarrow> prints (vrprintf (drop 1 format) ap)"
  shows "prints (let b = put_backslash (at format) in
         if snd b \<noteq> 0 then plus_opt (Some (fst b, 0)) (plus_opt (vrprintf (drop 1 format) ap) (Some ([], 1)))
         else Some (fst b, 0))"
  using put_backslash_cases[of "at format"] assms
  by (auto simp: prints_def Let_def plus_printed_def)

lemma tprintf_counts: "fits format ap \<Longrightarrow> prints (vrprintf format ap)"
  and "fits_percent format ap \<Longrightarrow> prints (vrp_percent format ap)"
proof (induction format ap and format ap rule: vrprintf_vrp_percent.induct)
  case (2 c format ap)
  have "prints (let b = put_backslash (at format) in
         if snd b \<noteq> 0 then plus_opt (Some (fst b, 0)) (plus_opt (vrprintf (drop 1 format) ap) (Some ([], 1)))
         else Some (fst b, 0))" if c: "c = CHR 0x5C"
  proof (rule prints_escape)
    assume b: "snd (put_backslash (at format)) \<noteq> 0"
    have "fits (drop 1 format) ap" using "2.prems" c by (cases format) auto
    then show "prints (vrprintf (drop 1 format) ap)" using 2(2) b c by simp
  qed
  then show ?case using 2 by (auto intro!: prints_plus simp: counted_putcx)
next
  case (4 c format ap)
  have simple: "prints (plus_opt a (vrprintf format ap'))" if "prints a" "prints (vrprintf format ap')" for a ap'
    using that by (rule prints_plus)
  show ?case
  proof (cases "c = NUL \<or> c = CHR ''%''")
    case True
    then show ?thesis using 4 by (auto intro!: simple simp: counted_putcx)
  next
    case False
    then obtain a ap' where ap: "ap = a # ap'" using "4.prems" by (cases ap) (auto split: if_splits)
    show ?thesis using 4 False unfolding ap
      by (cases a) (auto intro!: simple prints_int prints_pointer[simplified] counted_vrp_string split: if_splits)
  qed
qed simp_all

text \<open>
  An unknown directive ends the output: the six characters of the error message are printed, but
  not counted.
\<close>

lemma vrp_percent_unknown:
  "c \<notin> {NUL, CHR ''%'', CHR ''d'', CHR ''s'', CHR ''p''} \<Longrightarrow>
   tprintf (CHR ''%'' # c # format) ap = Some (''ERROR'' @ [CHR 0x0A], 0)"
  by (simp add: tprintf_def)

end
