(* ===== verification/Drivers.thy ===== *)
theory Drivers imports Accounting Syslib begin

text \<open>
  The drivers that need no kernel: \<open>test_wait\<close>, \<open>test_syscall\<close> and \<open>test_timer\<close> of \<open>tests/debug_tests.c\<close>
  as the actions that they take, and the program \<open>tests/64bit.c\<close> with what it prints.
\<close>

section \<open>Actions\<close>

datatype action = Tprint string | Break | Wait | Svc u32 u32 u32 u32 | Halts

definition line :: "string \<Rightarrow> string" where
  "line s = s @ [CHR 0x0A]"

definition test_wait :: "action list" where
  "test_wait = [Tprint (line '' The test has started'' @ line '' Ready to wait''), Break, Wait]"

definition test_syscall :: "action list" where
  "test_syscall =
     [Tprint (line ''test_syscall has started''), Break,
      Tprint (line ''First syscall...'' @ line ''All arguments are 1''), Svc 1 1 1 1,
      Tprint (line ''Second syscall...'' @ line ''All arguments are 0''), Svc 0 0 0 0,
      Tprint (line ''Third syscall...'' @ line ''First two args are 1 the others are 0''), Svc 1 1 0 0,
      Halts]"

definition test_timer :: "action list" where
  "test_timer =
     Tprint (line ''test_timer started'') #
     concat (map (\<lambda>i. map (\<lambda>j. Wait) [0..<100] @ [Break, Tprint (line ''100 done'')]) [0..<10]) @
     [Tprint (line ''terminating test_timer'')]"

text \<open>\<open>test_timer\<close> waits a thousand times, a hundred times before each of its ten reports.\<close>

lemma test_timer_waits:
  "length (filter (\<lambda>x. x = Wait) test_timer) = 1000"
  "length (filter (\<lambda>x. x = Tprint (line ''100 done'')) test_timer) = 10"
  by (simp_all add: test_timer_def filter_concat length_concat comp_def line_def sum_list_triv)

section \<open>64-bit numbers as pairs\<close>

text \<open>The functions of \<open>64bit.c\<close> and the numbers that its \<open>main\<close> prints.\<close>

definition pack_64bit :: "u32 \<Rightarrow> u32 \<Rightarrow> 64 word" where
  "pack_64bit RegLow RegHigh = (let rval = ucast RegHigh in push_bit 32 rval OR ucast RegLow)"

definition unpack_64bit :: "64 word \<Rightarrow> u32 \<times> u32" where
  "unpack_64bit Reg = (ucast Reg, ucast (drop_bit 32 Reg))"

definition main_64bit :: "64 word \<times> u32 \<times> u32" where
  "main_64bit =
     (let Low = 255; High = 255; full = pack_64bit Low High;
          (Low, High) = unpack_64bit full
      in (full, Low, High))"

text \<open>They are the functions of the clock.\<close>

lemma clock_64bit: "pack_64bit = pack" "unpack_64bit = unpack"
  by (simp_all add: pack_64bit_def unpack_64bit_def pack_def unpack_def fun_eq_iff Let_def)

lemma main_64bit_prints: "main_64bit = (0xFF000000FF, 255, 255)"
proof -
  have "pack_64bit 255 255 = 0xFF000000FF" by (simp add: pack_64bit_def push_bit_eq_mult)
  moreover have "unpack_64bit (pack_64bit 255 255) = (255, 255)" by (simp add: clock_64bit unpack_pack)
  ultimately show ?thesis by (simp add: main_64bit_def)
qed

end
