(* ===== verification/Services.thy ===== *)
theory Services imports Syscall begin

text \<open>
  The services of the SSI, \<open>src/src/SSI/services\<close>: creation and termination of threads and
  processes, trap managers, identities, clock and input/output. The services run in the thread of the
  SSI, which is the running thread.
\<close>

section \<open>Enquiries\<close>

definition get_errno_s :: "tid \<Rightarrow> kstate \<Rightarrow> int" where
  "get_errno_s applicant s = errno (threads s applicant)"

definition get_processid_s :: "tid \<Rightarrow> kstate \<Rightarrow> pid option" where
  "get_processid_s thread s = t_pcb (threads s thread)"

definition get_parentprocid_s :: "pid \<Rightarrow> kstate \<Rightarrow> pid option" where
  "get_parentprocid_s p s = p_parent (procs s p)"

definition get_mythreadid_s :: "val \<Rightarrow> val" where
  "get_mythreadid_s thread = thread"

definition getcputime_s :: "tid \<Rightarrow> kstate \<Rightarrow> u32" where
  "getcputime_s applicant s = run_time (threads s applicant)"

section \<open>Creation\<close>

text \<open>The copy \<open>*initial_state\<close>, from memory or from the saved state of a thread.\<close>

fun read_state :: "val \<Rightarrow> kstate \<Rightarrow> state_t option" where
  "read_state (U a) s = (if a = 0 then None else Some (load_state (mem s) a))"
| "read_state (TcbState t) s = Some (t_s (threads s t))"
| "read_state _ s = None"

definition create_thread :: "val \<Rightarrow> pid option \<Rightarrow> kstate \<Rightarrow> (tid option \<times> kstate) option" where
  "create_thread initial_state process s = do {
     (new_thread, s) \<leftarrow> thread_alloc process s;
     (case new_thread of
        None \<Rightarrow> Some (None, s)
      | Some t \<Rightarrow> do {
          st \<leftarrow> read_state initial_state s;
          let s = upd_thread t (\<lambda>x. x\<lparr>t_s := st\<rparr>) s;
          s \<leftarrow> thread_enqueue t Readyq s;
          let s = s\<lparr>thread_count := thread_count s + 1\<rparr>;
          Some (Some t, s) })
   }"

definition create_thread_s :: "val \<Rightarrow> tid \<Rightarrow> kstate \<Rightarrow> (tid option \<times> kstate) option" where
  "create_thread_s initial_state applicant s = create_thread initial_state (get_processid_s applicant s) s"

definition create_process_s :: "val \<Rightarrow> tid \<Rightarrow> kstate \<Rightarrow> (tid option \<times> kstate) option" where
  "create_process_s initial_state applicant s = do {
     (new_process, s) \<leftarrow> proc_alloc (get_processid_s applicant s) s;
     (case new_process of
        None \<Rightarrow> Some (None, s)
      | Some p \<Rightarrow> do {
          (first_thread, s) \<leftarrow> create_thread initial_state (Some p) s;
          (case first_thread of
             None \<Rightarrow> do { (_, s) \<leftarrow> proc_delete p s; Some (None, s) }
           | Some t \<Rightarrow> Some (Some t, s)) })
   }"

section \<open>Termination\<close>

text \<open>The three loops of \<open>__terminate_thread_s\<close> and \<open>__terminate_process_s\<close>.\<close>

partial_function (option) free_messages :: "tid \<Rightarrow> kstate \<Rightarrow> kstate option" where
  "free_messages thread s =
     (if list_empty (T_msgq thread) (lk s) then Some s
      else do {
        m \<leftarrow> msg_qhead (T_msgq thread) s;
        m \<leftarrow> m;
        (_, s) \<leftarrow> msg_free m s;
        free_messages thread s })"

partial_function (option) resume_waiters :: "tid \<Rightarrow> kstate \<Rightarrow> kstate option" where
  "resume_waiters thread s = do {
     to_resume \<leftarrow> thread_qhead (T_wait4me thread) s;
     (case to_resume of
        None \<Rightarrow> Some s
      | Some u \<Rightarrow> do {
          let s = upd_thread u (\<lambda>x. x\<lparr>errno := 1\<rparr>) s;
          s \<leftarrow> resume_thread u None NULL s;
          resume_waiters thread s })
   }"

definition terminate_one_thread :: "tid \<Rightarrow> kstate \<Rightarrow> kstate option" where
  "terminate_one_thread thread s = do {
     s \<leftarrow> free_messages thread s;
     s \<leftarrow> resume_waiters thread s;
     (err, s) \<leftarrow> thread_free thread s;
     Some (s\<lparr>thread_count := thread_count s - 1\<rparr>)
   }"

definition clean_sys_msg :: "tid \<Rightarrow> kstate \<Rightarrow> kstate option" where
  "clean_sys_msg terminating s =
     (if t_wait4sender (threads s terminating) = SSI s then do {
        (_, _, s) \<leftarrow> msgq_get (Some (Some terminating)) (SSI s) NULL s; Some s }
      else do {
        p \<leftarrow> get_processid_s terminating s;
        if t_wait4sender (threads s terminating) = sys_mgr (procs s p) then do {
          (_, _, s) \<leftarrow> msgq_get (Some (Some terminating)) (sys_mgr (procs s p)) NULL s; Some s }
        else if t_wait4sender (threads s terminating) = pgm_mgr (procs s p) then do {
          (_, _, s) \<leftarrow> msgq_get (Some (Some terminating)) (sys_mgr (procs s p)) NULL s; Some s }
        else Some s })"

partial_function (option) terminate_threads :: "pid \<Rightarrow> tid option \<Rightarrow> kstate \<Rightarrow> kstate option" where
  "terminate_threads proc applicant s = do {
     thread_term \<leftarrow> proc_firstthread proc s;
     (case thread_term of
        None \<Rightarrow> Some s
      | Some t \<Rightarrow> do {
          s \<leftarrow> (if Some t \<noteq> applicant \<and> t_status (threads s t) = T_STATUS_W4MSG
                then clean_sys_msg t s else Some s);
          s \<leftarrow> terminate_one_thread t s;
          terminate_threads proc applicant s })
   }"

text \<open>
  The loop over the children of \<open>__terminate_process_s\<close>, with the recursive call unfolded into its
  three parts (\<open>terminate_children_unfold\<close> below puts it back).
\<close>

partial_function (option) terminate_children :: "pid \<Rightarrow> kstate \<Rightarrow> kstate option" where
  "terminate_children proc s = do {
     proc_term \<leftarrow> proc_firstchild proc s;
     (case proc_term of
        None \<Rightarrow> Some s
      | Some c \<Rightarrow> do {
          s \<leftarrow> terminate_threads c None s;
          s \<leftarrow> terminate_children c s;
          (_, s) \<leftarrow> proc_delete c s;
          terminate_children proc s })
   }"

definition terminate_process :: "pid \<Rightarrow> tid option \<Rightarrow> kstate \<Rightarrow> kstate option" where
  "terminate_process proc applicant s = do {
     s \<leftarrow> terminate_threads proc applicant s;
     s \<leftarrow> terminate_children proc s;
     (_, s) \<leftarrow> proc_delete proc s;
     Some s
   }"

lemma terminate_children_unfold:
  "terminate_children proc s = do {
     proc_term \<leftarrow> proc_firstchild proc s;
     (case proc_term of
        None \<Rightarrow> Some s
      | Some c \<Rightarrow> do { s \<leftarrow> terminate_process c None s; terminate_children proc s })
   }"
  by (subst terminate_children.simps)
    (auto simp: terminate_process_def split: option.split Option.bind_split prod.split)

definition terminate_process_s :: "tid \<Rightarrow> kstate \<Rightarrow> kstate option" where
  "terminate_process_s applicant s = do {
     p \<leftarrow> get_processid_s applicant s;
     terminate_process p (Some applicant) s
   }"

definition terminate_thread_s :: "tid \<Rightarrow> kstate \<Rightarrow> kstate option" where
  "terminate_thread_s thread s = do {
     p \<leftarrow> get_processid_s thread s;
     if list_is_only (T_next thread) (P_threads p) (lk s) then terminate_process_s thread s
     else terminate_one_thread thread s
   }"

section \<open>Trap managers, clock, input and output\<close>

text \<open>\<open>mgr\<close> and \<open>set_mgr\<close> read and write the cell \<open>*mgr\<close>. The result: manager, \<open>send_back\<close>, state.\<close>

definition setmgr ::
  "(pcb_t \<Rightarrow> tid option) \<Rightarrow> (tid option \<Rightarrow> pcb_t \<Rightarrow> pcb_t) \<Rightarrow> tid option \<Rightarrow> tid \<Rightarrow> kstate \<Rightarrow>
   (tid option \<times> bool \<times> kstate) option" where
  "setmgr mgr set_mgr new_mgr applicant s =
     (case new_mgr of
        None \<Rightarrow> Some (None, True, s)
      | Some m \<Rightarrow> do {
          p \<leftarrow> t_pcb (threads s applicant);
          if mgr (procs s p) \<noteq> None then do {
            s \<leftarrow> terminate_process_s applicant s;
            Some (None, False, s) }
          else Some (Some m, True, upd_proc p (set_mgr (Some m)) s) })"

definition setpgmmgr_s :: "tid option \<Rightarrow> tid \<Rightarrow> kstate \<Rightarrow> (tid option \<times> bool \<times> kstate) option" where
  "setpgmmgr_s = setmgr pgm_mgr (\<lambda>m x. x\<lparr>pgm_mgr := m\<rparr>)"

definition settlbmgr_s :: "tid option \<Rightarrow> tid \<Rightarrow> kstate \<Rightarrow> (tid option \<times> bool \<times> kstate) option" where
  "settlbmgr_s = setmgr tlb_mgr (\<lambda>m x. x\<lparr>tlb_mgr := m\<rparr>)"

definition setsysmgr_s :: "tid option \<Rightarrow> tid \<Rightarrow> kstate \<Rightarrow> (tid option \<times> bool \<times> kstate) option" where
  "setsysmgr_s = setmgr sys_mgr (\<lambda>m x. x\<lparr>sys_mgr := m\<rparr>)"

definition wait_for_clock_s :: "tid \<Rightarrow> kstate \<Rightarrow> kstate option" where
  "wait_for_clock_s applicant = thread_enqueue applicant T_wait4clock"

definition TERMINAL_REQUESTER_INDEX :: nat where "TERMINAL_REQUESTER_INDEX = 4"

text \<open>\<open>Some Panic\<close>: the service stops the machine; \<open>None\<close>: it returns.\<close>

definition do_io_s :: "val \<Rightarrow> val \<Rightarrow> val \<Rightarrow> val \<Rightarrow> tid \<Rightarrow> kstate \<Rightarrow> outcome option \<times> kstate" where
  "do_io_s device command data1 data2 applicant s =
     (if device = U (TERMINAL_DEV_FIELD 0 TRANSM_COMMAND) then
        (let s = s\<lparr>soft_block_count := soft_block_count s + 1\<rparr>;
             s = s\<lparr>mem := (mem s)(TERMINAL_DEV_FIELD 0 TRANSM_COMMAND := command)\<rparr> in
         if soft_blocked_thread s TERMINAL_REQUESTER_INDEX \<noteq> None then (Some Panic, s)
         else (None, s\<lparr>soft_blocked_thread := (soft_blocked_thread s)(TERMINAL_REQUESTER_INDEX := Some applicant)\<rparr>))
      else (Some Panic, s))"

end
