(* ===== verification/Termination.thy ===== *)
theory Termination imports Services begin

text \<open>
  Termination of threads and processes (\<open>terminate_thread.c\<close>, \<open>terminate_process.c\<close>): the loops end,
  exactly the threads and processes that should die do, the waiting threads are woken up with an
  error, and the invariants of the kernel hold afterwards.
\<close>

section \<open>Emptying the mailbox\<close>

lemma mail_inv_subset:
  "mail_inv mb ts \<Longrightarrow> (\<And>t. valid_tid t \<Longrightarrow> set (mb' t) \<subseteq> set (mb t)) \<Longrightarrow> mail_inv mb' ts"
  unfolding mail_inv_def by blast

lemma sys_ok_msg_free:
  assumes ok: "sys_ok Q s" and d: "valid_tid d" and m: "M_next m \<in> set (Q (T_msgq d))"
  shows "\<exists>l. msg_free m s = Some (0, s\<lparr>lk := l, msgs := (msgs s)(m := (msgs s m)\<lparr>m_sender := None\<rparr>)\<rparr>) \<and>
    sys_ok (after_take Q d m) (s\<lparr>lk := l, msgs := (msgs s)(m := (msgs s m)\<lparr>m_sender := None\<rparr>)\<rparr>)"
proof -
  obtain l where l: "msg_free m s = Some (0, s\<lparr>lk := l, msgs := (msgs s)(m := (msgs s m)\<lparr>m_sender := None\<rparr>)\<rparr>)"
    "kernel_ok (after_take Q d m) (s\<lparr>lk := l, msgs := (msgs s)(m := (msgs s m)\<lparr>m_sender := None\<rparr>)\<rparr>)"
    using msg_free_correct[OF sys_ok_kernel[OF ok] d m] by blast
  let ?s' = "s\<lparr>lk := l, msgs := (msgs s)(m := (msgs s m)\<lparr>m_sender := None\<rparr>)\<rparr>"
  have "mail_inv (mailbox (after_take Q d m) ?s') (threads s)"
  proof (rule mail_inv_subset[OF sys_ok_mail[OF ok]])
    fix t assume t: "valid_tid t"
    have "set (remove1 m (mids (Q (T_msgq d)))) \<subseteq> set (mids (Q (T_msgq d)))" by (rule set_remove1_subset)
    then show "set (mailbox (after_take Q d m) ?s' t) \<subseteq> set (mailbox Q s t)"
      using mailbox_free[OF sys_ok_kernel[OF ok] d t m, of ?s'] by (auto simp: mailbox_def)
  qed
  then have "sys_ok (after_take Q d m) ?s'"
    using l(2) sys_okD[OF ok] by (intro sys_okI) simp_all
  with l(1) show ?thesis by blast
qed

text \<open>States that differ in the messages only.\<close>

definition msgs_only :: "kstate \<Rightarrow> kstate \<Rightarrow> bool" where
  "msgs_only s s' \<longleftrightarrow> (\<exists>l m. s' = s\<lparr>lk := l, msgs := m\<rparr>)"

lemma msgs_only_refl [simp]: "msgs_only s s"
  unfolding msgs_only_def by (intro exI[of _ "lk s"] exI[of _ "msgs s"]) simp

lemma msgs_onlyI [intro]: "msgs_only s (s\<lparr>lk := l, msgs := m\<rparr>)"
  unfolding msgs_only_def by (intro exI) (rule refl)

lemma msgs_only_trans:
  assumes "msgs_only s s1" "msgs_only s1 s2"
  shows "msgs_only s s2"
proof -
  obtain l m l' m' where "s1 = s\<lparr>lk := l, msgs := m\<rparr>" "s2 = s1\<lparr>lk := l', msgs := m'\<rparr>"
    using assms unfolding msgs_only_def by blast
  then have "s2 = s\<lparr>lk := l', msgs := m'\<rparr>" by simp
  then show ?thesis by (simp only: msgs_onlyI)
qed

lemma msgs_only_frame:
  assumes "msgs_only s s'"
  shows "threads s' = threads s" "procs s' = procs s" "current_thread s' = current_thread s" "SSI s' = SSI s"
    "thread_count s' = thread_count s" "mem s' = mem s" "SYSBK_OLDAREA s' = SYSBK_OLDAREA s"
    "soft_blocked_thread s' = soft_blocked_thread s" "clockPerTimeslice s' = clockPerTimeslice s"
  using assms by (auto simp: msgs_only_def)

lemma free_messages_correct:
  assumes "sys_ok Q s" "valid_tid t"
  shows "\<exists>s' Q'. free_messages t s = Some s' \<and> sys_ok Q' s' \<and> msgs_only s s' \<and> Q' (T_msgq t) = [] \<and>
    (\<forall>h. h \<noteq> T_msgq t \<longrightarrow> h \<noteq> Message_h \<longrightarrow> Q' h = Q h) \<and>
    (\<forall>u. valid_tid u \<longrightarrow> u \<noteq> t \<longrightarrow> mailbox Q' s' u = mailbox Q s u)"
  using assms
proof (induction "length (Q (T_msgq t))" arbitrary: Q s)
  case 0
  then have "list_empty (T_msgq t) (lk s)"
    using shape_list_empty[OF kernel_ok_shape[OF sys_ok_kernel[OF 0(2)]], of "T_msgq t"] by simp
  with 0 show ?case
    by (subst free_messages.simps) (auto intro!: exI[of _ Q])
next
  case (Suc n)
  note ok = sys_ok_kernel[OF Suc.prems(1)]
  obtain k ns where Q: "Q (T_msgq t) = k # ns" using Suc.hyps(2) by (cases "Q (T_msgq t)") auto
  obtain m where m: "k = M_next m"
    using member_type[OF ok, of "T_msgq t" k] member_ok_cases(4)[of "T_msgq t" k] Q Suc.prems(2) by auto
  have nxt: "list_next (T_msgq t) (lk s) = Some (M_next m)" "\<not> list_empty (T_msgq t) (lk s)"
    using shape_list_next[OF kernel_ok_shape[OF ok], of "T_msgq t"]
      shape_list_empty[OF kernel_ok_shape[OF ok], of "T_msgq t"] Q m Suc.prems(2) by simp_all
  have mem: "M_next m \<in> set (Q (T_msgq t))" using Q m by simp
  obtain l where l: "msg_free m s = Some (0, s\<lparr>lk := l, msgs := (msgs s)(m := (msgs s m)\<lparr>m_sender := None\<rparr>)\<rparr>)"
    "sys_ok (after_take Q t m) (s\<lparr>lk := l, msgs := (msgs s)(m := (msgs s m)\<lparr>m_sender := None\<rparr>)\<rparr>)"
    using sys_ok_msg_free[OF Suc.prems mem] by blast
  let ?s1 = "s\<lparr>lk := l, msgs := (msgs s)(m := (msgs s m)\<lparr>m_sender := None\<rparr>)\<rparr>"
  have run: "free_messages t s = free_messages t ?s1"
    by (subst free_messages.simps) (simp add: nxt msg_qhead_def queue_macros l(1))
  have len: "n = length (after_take Q t m (T_msgq t))" using Suc.hyps(2) Q m by simp
  obtain s' Q' where s': "free_messages t ?s1 = Some s'" "sys_ok Q' s'" "msgs_only ?s1 s'" "Q' (T_msgq t) = []"
    "\<forall>h. h \<noteq> T_msgq t \<longrightarrow> h \<noteq> Message_h \<longrightarrow> Q' h = after_take Q t m h"
    "\<forall>u. valid_tid u \<longrightarrow> u \<noteq> t \<longrightarrow> mailbox Q' s' u = mailbox (after_take Q t m) ?s1 u"
    using Suc.hyps(1)[OF len l(2) Suc.prems(2)] by blast
  have "mailbox (after_take Q t m) ?s1 u = mailbox Q s u" if "valid_tid u" "u \<noteq> t" for u
    using mailbox_free[OF ok Suc.prems(2) that(1) mem, of ?s1] that(2) by simp
  with s' run msgs_only_trans[OF msgs_onlyI s'(3)] show ?case
    by (intro exI[of _ s'] exI[of _ Q']) simp
qed

section \<open>Waking the threads that wait for the dying one\<close>

lemma sys_ok_upd_errno:
  assumes "sys_ok Q s"
  shows "sys_ok Q (s\<lparr>threads := (threads s)(u := (threads s u)\<lparr>errno := e\<rparr>)\<rparr>)"
proof -
  let ?s' = "s\<lparr>threads := (threads s)(u := (threads s u)\<lparr>errno := e\<rparr>)\<rparr>"
  have same: "t_status (threads ?s' t) = t_status (threads s t)" "t_s (threads ?s' t) = t_s (threads s t)"
    "t_wait4sender (threads ?s' t) = t_wait4sender (threads s t)" for t by simp_all
  have "kernel_ok Q ?s'" by (rule kernel_ok_thread_upd[OF sys_ok_kernel[OF assms]]) simp_all
  moreover have "sched_inv Q (current_thread s) (threads ?s')"
    using sys_ok_sched[OF assms] unfolding sched_inv_def thread_sched_ok_def same .
  moreover have "mail_inv (mailbox Q s) (threads ?s')"
    using sys_ok_mail[OF assms] unfolding mail_inv_def same .
  moreover have "mailbox Q ?s' = mailbox Q s" by (rule mailbox_frame) simp_all
  ultimately show ?thesis using sys_okD[OF assms] by (intro sys_okI) simp_all
qed

text \<open>A thread that is told that the expected sender has died.\<close>

definition orphaned :: "tcb_t \<Rightarrow> tcb_t" where
  "orphaned x = woken (x\<lparr>errno := 1\<rparr>) None"

lemma orphaned_simps [simp]:
  "t_pcb (orphaned x) = t_pcb x" "t_status (orphaned x) = T_STATUS_READY" "t_wait4sender (orphaned x) = None"
  "errno (orphaned x) = 1" "a1 (t_s (orphaned x)) = NULL"
  by (simp_all add: orphaned_def)

text \<open>What the threads of \<open>D\<close> that die mean for the state of a survivor: it changes just when it waits for one of them.\<close>

definition told :: "tid set \<Rightarrow> tcb_t \<Rightarrow> tcb_t" where
  "told D x = (if t_status x = T_STATUS_W4MSG \<and> t_wait4sender x \<in> Some ` D then orphaned x else x)"

lemma told_simps [simp]:
  "t_pcb (told D x) = t_pcb x" "told {} x = x" "t_status x = T_STATUS_NONE \<Longrightarrow> told D x = x"
  "t_status x = T_STATUS_READY \<Longrightarrow> told D x = x"
  by (simp_all add: told_def)

lemma told_told [simp]: "told E (told D x) = told (D \<union> E) x"
  by (auto simp: told_def)

text \<open>Everything but the links, the memory and the threads.\<close>

definition threads_only :: "kstate \<Rightarrow> kstate \<Rightarrow> bool" where
  "threads_only s s' \<longleftrightarrow> (\<exists>l m ts. s' = s\<lparr>lk := l, mem := m, threads := ts\<rparr>)"

lemma threads_only_refl [simp]: "threads_only s s"
  unfolding threads_only_def by (intro exI[of _ "lk s"] exI[of _ "mem s"] exI[of _ "threads s"]) simp

lemma threads_onlyI [intro]: "threads_only s (s\<lparr>lk := l, mem := m, threads := ts\<rparr>)"
  unfolding threads_only_def by (intro exI) (rule refl)

lemma threads_only_trans:
  assumes "threads_only s s1" "threads_only s1 s2"
  shows "threads_only s s2"
proof -
  obtain l m ts l' m' ts' where "s1 = s\<lparr>lk := l, mem := m, threads := ts\<rparr>" "s2 = s1\<lparr>lk := l', mem := m', threads := ts'\<rparr>"
    using assms unfolding threads_only_def by blast
  then have "s2 = s\<lparr>lk := l', mem := m', threads := ts'\<rparr>" by simp
  then show ?thesis by (simp only: threads_onlyI)
qed

lemma threads_only_frame:
  assumes "threads_only s s'"
  shows "procs s' = procs s" "current_thread s' = current_thread s" "SSI s' = SSI s" "msgs s' = msgs s"
    "thread_count s' = thread_count s" "soft_blocked_thread s' = soft_blocked_thread s"
    "clockPerTimeslice s' = clockPerTimeslice s"
  using assms by (auto simp: threads_only_def)

lemma resume_waiters_step:
  assumes ok: "sys_ok Q s" and t: "valid_tid t" and Q: "Q (T_wait4me t) = T_sched u # ns"
  shows "\<exists>s1 Q1. resume_waiters t s = resume_waiters t s1 \<and> sys_ok Q1 s1 \<and> threads_only s s1 \<and>
    threads s1 = (threads s)(u := orphaned (threads s u)) \<and> Q1 = Q(T_wait4me t := ns, Readyq := Q Readyq @ [T_sched u])"
proof -
  have u: "valid_tid u" "linked_at Q u (T_wait4me t)"
    using member_type[OF sys_ok_kernel[OF ok], of "T_wait4me t" "T_sched u"] Q t by (simp_all add: linked_at_def)
  have w: "t_status (threads s u) = T_STATUS_W4MSG" "t_wait4sender (threads s u) = Some t"
    using sched_inv_in_wait4me[OF sys_ok_kernel[OF ok] sys_ok_sched[OF ok] u] by simp_all
  obtain a where a: "a3 (t_s (threads s u)) = U a" using sched_inv_waiting[OF sys_ok_sched[OF ok] u(1) w(1)] by blast
  let ?s0 = "s\<lparr>threads := (threads s)(u := (threads s u)\<lparr>errno := 1\<rparr>)\<rparr>"
  let ?Q1 = "Q(T_wait4me t := ns, Readyq := Q Readyq @ [T_sched u])"
  have Q1: "after_resume Q ?s0 u = ?Q1" using w Q by simp
  obtain l where l: "resume_thread u None NULL ?s0 =
      Some (s\<lparr>lk := l, mem := put_word a NULL (mem s), threads := (threads s)(u := orphaned (threads s u))\<rparr>)"
    "sys_ok ?Q1 (s\<lparr>lk := l, mem := put_word a NULL (mem s), threads := (threads s)(u := orphaned (threads s u))\<rparr>)"
    using resume_thread_correct[OF sys_ok_upd_errno[OF ok] u(1), of u 1 a None NULL] w a
    unfolding Q1 by (auto simp: orphaned_def)
  have "resume_waiters t s =
      resume_waiters t (s\<lparr>lk := l, mem := put_word a NULL (mem s), threads := (threads s)(u := orphaned (threads s u))\<rparr>)"
    using thread_qhead_eq[OF sys_ok_kernel[OF ok], of "T_wait4me t"] t Q l(1)
    by (subst resume_waiters.simps) (simp add: upd_defs)
  with l(2) threads_onlyI show ?thesis
    by (intro exI[of _ "s\<lparr>lk := l, mem := put_word a NULL (mem s), threads := (threads s)(u := orphaned (threads s u))\<rparr>"]
        exI[of _ ?Q1]) simp
qed

lemma resume_waiters_correct:
  assumes "sys_ok Q s" "valid_tid t"
  shows "\<exists>s' Q'. resume_waiters t s = Some s' \<and> sys_ok Q' s' \<and> threads_only s s' \<and>
    threads s' = (\<lambda>u. if T_sched u \<in> set (Q (T_wait4me t)) then orphaned (threads s u) else threads s u) \<and>
    Q' = Q(T_wait4me t := [], Readyq := Q Readyq @ Q (T_wait4me t))"
  using assms
proof (induction "length (Q (T_wait4me t))" arbitrary: Q s)
  case 0
  then have Q: "Q (T_wait4me t) = []" by simp
  have "resume_waiters t s = Some s"
    using thread_qhead_eq[OF sys_ok_kernel[OF 0(2)], of "T_wait4me t"] 0(3) Q
    by (subst resume_waiters.simps) simp
  moreover have same: "Q(T_wait4me t := [], Readyq := Q Readyq @ Q (T_wait4me t)) = Q" using Q by auto
  ultimately show ?case using 0(2) Q by (intro exI[of _ s] exI[of _ Q]) (simp only: same, simp)
next
  case (Suc n)
  obtain k ns where k: "Q (T_wait4me t) = k # ns" using Suc.hyps(2) by (cases "Q (T_wait4me t)") auto
  obtain u where u: "k = T_sched u"
    using member_type[OF sys_ok_kernel[OF Suc.prems(1)], of "T_wait4me t" k] member_ok_cases(3)[of "T_wait4me t" k]
      k Suc.prems(2) by auto
  note Q = k[unfolded u]
  obtain s1 Q1 where s1: "resume_waiters t s = resume_waiters t s1" "sys_ok Q1 s1" "threads_only s s1"
    "threads s1 = (threads s)(u := orphaned (threads s u))"
    "Q1 = Q(T_wait4me t := ns, Readyq := Q Readyq @ [T_sched u])"
    using resume_waiters_step[OF Suc.prems Q] by blast
  have nu: "T_sched u \<notin> set ns"
    using shape_distinct[OF kernel_ok_shape[OF sys_ok_kernel[OF Suc.prems(1)]], of "T_wait4me t"] Suc.prems(2) Q by simp
  have len: "n = length (Q1 (T_wait4me t))" using Suc.hyps(2) Q s1(5) by simp
  obtain s' Q' where s': "resume_waiters t s1 = Some s'" "sys_ok Q' s'" "threads_only s1 s'"
    "threads s' = (\<lambda>v. if T_sched v \<in> set (Q1 (T_wait4me t)) then orphaned (threads s1 v) else threads s1 v)"
    "Q' = Q1(T_wait4me t := [], Readyq := Q1 Readyq @ Q1 (T_wait4me t))"
    using Suc.hyps(1)[OF len s1(2) Suc.prems(2)] by blast
  have "threads s' = (\<lambda>v. if T_sched v \<in> set (Q (T_wait4me t)) then orphaned (threads s v) else threads s v)"
    using s'(4) s1(4,5) nu Q by (auto simp: fun_eq_iff)
  moreover have "Q' = Q(T_wait4me t := [], Readyq := Q Readyq @ Q (T_wait4me t))"
    using s'(5) s1(5) Q by (auto simp: fun_eq_iff)
  ultimately show ?case using s1(1) s' threads_only_trans[OF s1(3) s'(3)] by auto
qed

section \<open>Terminating one thread\<close>

lemma not_linked_after_remove:
  assumes ok: "kernel_ok Q s" and h: "linked_at Q t h"
  shows "\<not> linked_at (Q(h := remove1 (T_sched t) (Q h))) t k"
proof
  assume k: "linked_at (Q(h := remove1 (T_sched t) (Q h))) t k"
  have "distinct (Q h)"
    using shape_distinct[OF kernel_ok_shape[OF ok], of h] h by (auto simp: linked_at_def)
  with k linked_at_unique[OF ok h, of k] show False by (auto simp: linked_at_def split: if_splits)
qed

lemma sys_ok_thread_free:
  assumes ok: "sys_ok Q s" and t: "valid_tid t" "t_pcb (threads s t) = Some p" "current_thread s \<noteq> Some t"
    and empty: "Q (T_msgq t) = []" "Q (T_wait4me t) = []"
  shows "\<exists>l Q'. thread_free t s = Some (0, s\<lparr>lk := l, threads := (threads s)(t := free_tcb (threads s t))\<rparr>) \<and>
    sys_ok Q' (s\<lparr>lk := l, threads := (threads s)(t := free_tcb (threads s t))\<rparr>) \<and>
    (\<forall>u. Q' (T_msgq u) = Q (T_msgq u)) \<and> Q' (T_wait4me t) = []"
proof -
  note kok = sys_ok_kernel[OF ok]
  have st: "t_status (threads s t) \<noteq> T_STATUS_NONE" using thread_status_none_iff[OF kok t(1)] t(2) by simp
  obtain h where h: "linked_at Q t h" using sched_inv_linked[OF sys_ok_sched[OF ok] t(1) st t(3)] by blast
  then have hd: "is_sched_head h" "T_sched t \<in> set (Q h)" "h \<noteq> T_wait4me t" using empty(2) by (auto simp: linked_at_def)
  let ?Q' = "Q(P_threads p := remove1 (T_next t) (Q (P_threads p)), h := remove1 (T_sched t) (Q h),
    Thread_h := Q Thread_h @ [T_next t])"
  let ?ts = "(threads s)(t := free_tcb (threads s t))"
  obtain l where l: "thread_free t s = Some (0, s\<lparr>lk := l, threads := ?ts\<rparr>)" "kernel_ok ?Q' (s\<lparr>lk := l, threads := ?ts\<rparr>)"
    using thread_free_correct[OF kok t(1,2) empty hd(1,2)] by blast
  have hne: "h \<noteq> P_threads p" "h \<noteq> Thread_h" using hd(1) by auto
  have link: "linked_at ?Q' u k \<longleftrightarrow> linked_at (Q(h := remove1 (T_sched t) (Q h))) u k" for u k
    using hne by (auto simp: linked_at_def)
  have "sched_inv ?Q' (current_thread s) ?ts"
  proof (rule sched_inv_update[OF sys_ok_sched[OF ok], of t])
    show "linked_at ?Q' u k \<longleftrightarrow> linked_at Q u k" if "u \<noteq> t" for u k
      unfolding link by (rule linked_at_remove[OF that])
    show "thread_sched_ok ?Q' (current_thread s) (?ts t) t"
      using t(3) not_linked_after_remove[OF kok h] by (simp add: thread_sched_ok_def link)
    show "valid_tid u" if "current_thread s = Some u" for u
      using sys_ok_sched[OF ok] that sched_inv_current[of Q u "threads s"] by simp
  qed simp_all
  moreover have msgq: "?Q' (T_msgq u) = Q (T_msgq u)" for u using hd(1) by (cases h) simp_all
  then have "mailbox ?Q' (s\<lparr>lk := l, threads := ?ts\<rparr>) = mailbox Q s" by (intro mailbox_frame) simp_all
  moreover have "mail_inv (mailbox Q s) ?ts"
    by (rule mail_inv_update[OF sys_ok_mail[OF ok], of t]) (use mail_inv_senders[OF sys_ok_mail[OF ok] t(1)] in auto)
  moreover have "?Q' T_wait4clock = []" using sys_ok_clock[OF ok] by simp
  ultimately have "sys_ok ?Q' (s\<lparr>lk := l, threads := ?ts\<rparr>)"
    using l(2) sys_okD[OF ok] by (intro sys_okI) simp_all
  with l(1) msgq empty(2) hd(3) show ?thesis by (intro exI[of _ l] exI[of _ ?Q']) simp
qed

text \<open>
  \<open>__terminate_thread_s\<close>: the thread becomes a free descriptor with an empty mailbox and nobody waiting
  for it; exactly the threads that waited for it are woken up, with result NULL and \<open>errno\<close> 1; the
  other mailboxes are untouched and the thread count stays right.
\<close>

lemma terminate_one_thread_correct:
  assumes ok: "sys_ok Q s" and t: "valid_tid t" "t_pcb (threads s t) = Some p" "current_thread s \<noteq> Some t"
  shows "\<exists>s' Q'. terminate_one_thread t s = Some s' \<and> sys_ok Q' s' \<and>
    procs s' = procs s \<and> current_thread s' = current_thread s \<and>
    t_status (threads s' t) = T_STATUS_NONE \<and> t_pcb (threads s' t) = None \<and>
    (\<forall>u. u \<noteq> t \<longrightarrow> threads s' u = (if T_sched u \<in> set (Q (T_wait4me t)) then orphaned (threads s u) else threads s u)) \<and>
    Q' (T_msgq t) = [] \<and> Q' (T_wait4me t) = [] \<and>
    (\<forall>u. valid_tid u \<longrightarrow> u \<noteq> t \<longrightarrow> mailbox Q' s' u = mailbox Q s u) \<and>
    thread_count s' = thread_count s - 1 \<and> count_error s' = count_error s \<and>
    soft_blocked_thread s' = soft_blocked_thread s \<and> clockPerTimeslice s' = clockPerTimeslice s"
proof -
  have st: "t_status (threads s t) \<noteq> T_STATUS_NONE" using thread_status_none_iff[OF sys_ok_kernel[OF ok] t(1)] t(2) by simp
  obtain s1 Q1 where s1: "free_messages t s = Some s1" "sys_ok Q1 s1" "msgs_only s s1" "Q1 (T_msgq t) = []"
    "\<forall>h. h \<noteq> T_msgq t \<longrightarrow> h \<noteq> Message_h \<longrightarrow> Q1 h = Q h"
    "\<forall>u. valid_tid u \<longrightarrow> u \<noteq> t \<longrightarrow> mailbox Q1 s1 u = mailbox Q s u"
    using free_messages_correct[OF ok t(1)] by blast
  note f1 = msgs_only_frame[OF s1(3)]
  obtain s2 Q2 where s2: "resume_waiters t s1 = Some s2" "sys_ok Q2 s2" "threads_only s1 s2"
    "threads s2 = (\<lambda>u. if T_sched u \<in> set (Q1 (T_wait4me t)) then orphaned (threads s1 u) else threads s1 u)"
    "Q2 = Q1(T_wait4me t := [], Readyq := Q1 Readyq @ Q1 (T_wait4me t))"
    using resume_waiters_correct[OF s1(2) t(1)] by blast
  note f2 = threads_only_frame[OF s2(3)]
  have t2: "t_pcb (threads s2 t) = Some p" "current_thread s2 \<noteq> Some t" "Q2 (T_msgq t) = []" "Q2 (T_wait4me t) = []"
    using t s2(4,5) f1 f2 s1(4) by simp_all
  obtain l Q' where l: "thread_free t s2 = Some (0, s2\<lparr>lk := l, threads := (threads s2)(t := free_tcb (threads s2 t))\<rparr>)"
    "sys_ok Q' (s2\<lparr>lk := l, threads := (threads s2)(t := free_tcb (threads s2 t))\<rparr>)"
    "\<forall>u. Q' (T_msgq u) = Q2 (T_msgq u)" "Q' (T_wait4me t) = []"
    using sys_ok_thread_free[OF s2(2) t(1) t2] by blast
  let ?s' = "s2\<lparr>lk := l, threads := (threads s2)(t := free_tcb (threads s2 t)), thread_count := thread_count s2 - 1\<rparr>"
  have run: "terminate_one_thread t s = Some ?s'"
    by (simp add: terminate_one_thread_def s1(1) s2(1) l(1))
  have thr: "threads ?s' u = (if T_sched u \<in> set (Q (T_wait4me t)) then orphaned (threads s u) else threads s u)"
    if "u \<noteq> t" for u
    using that s2(4) s1(5) f1 by simp
  have mb: "mailbox Q' ?s' u = mailbox Q s u" if "valid_tid u" "u \<noteq> t" for u
    using s1(6) that l(3) s2(5) f2 by (simp add: mailbox_def)
  have "t_status (threads ?s' u) = T_STATUS_NONE \<longleftrightarrow> t_status (threads s u) = T_STATUS_NONE"
    if u: "valid_tid u" "u \<noteq> t" for u
  proof (cases "T_sched u \<in> set (Q (T_wait4me t))")
    case True
    then have "linked_at Q u (T_wait4me t)" using t(1) by (simp add: linked_at_def)
    with sched_inv_free[OF sys_ok_sched[OF ok] u(1)] True thr[OF u(2)] show ?thesis by auto
  qed (use thr[OF u(2)] in simp)
  then have "of_nat (card (live_threads ?s')) = (of_nat (card (live_threads s)) - 1 :: u32)"
    using live_threads_remove[OF t(1) st, of ?s'] by simp
  then have count: "count_error ?s' = count_error s" using f1 f2 by (simp add: count_error_def)
  have "sys_ok Q' ?s'" using l(2) by simp
  then show ?thesis
    using run thr mb count l(3,4) t2(3) f1 f2
    by (intro exI[of _ ?s'] exI[of _ Q']) simp
qed

section \<open>Discarding the pending request of a dying thread\<close>

lemma sys_ok_msgq_get:
  assumes ok: "sys_ok Q s" and d: "\<And>d. dest = Some d \<Longrightarrow> valid_tid d"
  shows "\<exists>r sd s' Q'. msgq_get (Some (Some t)) dest NULL s = Some (r, sd, s') \<and> sys_ok Q' s' \<and> msgs_only s s'"
proof (cases "\<exists>d. dest = Some d \<and> find (wanted (Some (Some t))) (mailbox Q s d) \<noteq> None")
  case False
  then have "msgq_get (Some (Some t)) dest NULL s = Some (-1, Some (Some t), s)"
    using msgq_get_none[OF sys_ok_kernel[OF ok] d] by blast
  with ok show ?thesis by auto
next
  case True
  then obtain d w v where dd: "dest = Some d" and f: "find (wanted (Some (Some t))) (mailbox Q s d) = Some (w, v)" by auto
  note vd = d[OF dd] and kok = sys_ok_kernel[OF ok]
  obtain m s' where s': "msgq_get (Some (Some t)) (Some d) (U 0) s = Some (0, Some w, s')"
    "s' = s\<lparr>lk := lk s', mem := put_word 0 v (mem s), msgs := (msgs s)(m := (msgs s m)\<lparr>m_sender := None\<rparr>)\<rparr>"
    "kernel_ok (after_take Q d m) s'"
    "mailbox (after_take Q d m) s' d = remove_first (wanted (Some (Some t))) (mailbox Q s d)"
    "\<forall>u. valid_tid u \<longrightarrow> u \<noteq> d \<longrightarrow> mailbox (after_take Q d m) s' u = mailbox Q s u"
    using msgq_get_found[OF kok vd f, of 0] by auto
  have fr: "threads s' = threads s" "current_thread s' = current_thread s" "procs s' = procs s" "SSI s' = SSI s"
    "soft_blocked_thread s' = soft_blocked_thread s" "is_idle s' = is_idle s"
    by (subst s'(2), simp)+
  have only: "msgs_only s s'"
    by (subst s'(2)) (simp add: put_word_def msgs_onlyI)
  have "mail_inv (mailbox (after_take Q d m) s') (threads s)"
  proof (rule mail_inv_subset[OF sys_ok_mail[OF ok]])
    fix u assume u: "valid_tid u"
    show "set (mailbox (after_take Q d m) s' u) \<subseteq> set (mailbox Q s u)"
      using s'(4,5) u set_remove_first[of "wanted (Some (Some t))" "mailbox Q s d"] by (cases "u = d") simp_all
  qed
  then have "sys_ok (after_take Q d m) s'"
    using s'(3) sys_okD[OF ok] fr by (intro sys_okI) simp_all
  with s'(1) dd only show ?thesis by auto
qed

lemma clean_sys_msg_correct:
  assumes ok: "sys_ok Q s" and t: "t_pcb (threads s t) = Some p"
  shows "\<exists>s' Q'. clean_sys_msg t s = Some s' \<and> sys_ok Q' s' \<and> msgs_only s s'"
proof -
  obtain r sd s1 Q1 where ssi: "msgq_get (Some (Some t)) (SSI s) NULL s = Some (r, sd, s1)" "sys_ok Q1 s1" "msgs_only s s1"
    using sys_ok_msgq_get[OF ok, of "SSI s" t] sys_ok_SSI[OF ok] by auto
  obtain r' sd' s2 Q2 where mgr: "msgq_get (Some (Some t)) (sys_mgr (procs s p)) NULL s = Some (r', sd', s2)"
    "sys_ok Q2 s2" "msgs_only s s2"
    using sys_ok_msgq_get[OF ok, of "sys_mgr (procs s p)" t] mgrs_okD(3)[OF sys_ok_mgrs[OF ok], of p] by blast
  show ?thesis
    using ok ssi mgr t by (simp add: clean_sys_msg_def get_processid_s_def) (metis msgs_only_refl)
qed

section \<open>Terminating the threads of a process\<close>

text \<open>In the waiting list of a thread are the threads that wait for it, and no others.\<close>

lemma waiting_list_iff:
  assumes ok: "sys_ok Q s" and u: "valid_tid u" and t: "valid_tid t"
  shows "T_sched u \<in> set (Q (T_wait4me t)) \<longleftrightarrow>
    t_status (threads s u) = T_STATUS_W4MSG \<and> t_wait4sender (threads s u) = Some t"
proof -
  have l: "linked_at Q u (T_wait4me t) \<longleftrightarrow> T_sched u \<in> set (Q (T_wait4me t))" using t by (simp add: linked_at_def)
  show ?thesis
    using sched_inv_in_wait4me[OF sys_ok_kernel[OF ok] sys_ok_sched[OF ok] u, of t] l
      sched_inv_thread[OF sys_ok_sched[OF ok] u] by (auto simp: thread_sched_ok_def)
qed

text \<open>
  The effect on the tables: the processes in \<open>P\<close> and the threads of the processes in \<open>T\<close> become free. Of the
  other threads those that wait for one of the dying threads are woken with the error and \<open>NULL\<close> as the sender;
  all the others keep their state. The devices still know the same threads, dead or not, and the time slice is the same.
\<close>

definition victims :: "pid set \<Rightarrow> (tid \<Rightarrow> tcb_t) \<Rightarrow> tid set" where
  "victims T ts = {t. valid_tid t \<and> t_pcb (ts t) \<in> Some ` T}"

definition killed :: "pid set \<Rightarrow> pid set \<Rightarrow> kstate \<Rightarrow> kstate \<Rightarrow> bool" where
  "killed P T s s' \<longleftrightarrow>
     procs s' = (\<lambda>c. if c \<in> P then free_pcb else procs s c) \<and>
     (\<forall>t \<in> victims T (threads s). t_pcb (threads s' t) = None \<and> t_status (threads s' t) = T_STATUS_NONE) \<and>
     (\<forall>t. valid_tid t \<and> t \<notin> victims T (threads s) \<longrightarrow> threads s' t = told (victims T (threads s)) (threads s t)) \<and>
     current_thread s' = current_thread s \<and> count_error s' = count_error s \<and>
     soft_blocked_thread s' = soft_blocked_thread s \<and> clockPerTimeslice s' = clockPerTimeslice s"

lemma victims_simps [simp]: "victims {} ts = {}"
  by (simp add: victims_def)

lemma killed_refl: "killed {} {} s s"
  by (simp add: killed_def)

text \<open>What a first round of deaths leaves to a second one.\<close>

lemma victims_after:
  assumes "killed P T s s1"
  shows "victims T' (threads s1) = victims T' (threads s) - victims T (threads s)"
proof -
  have "t_pcb (threads s1 t) = (if t \<in> victims T (threads s) then None else t_pcb (threads s t))" if "valid_tid t" for t
    using assms that by (auto simp: killed_def)
  then show ?thesis by (auto simp: victims_def split: if_splits)
qed

lemma victims_Un: "victims (T \<union> T') ts = victims T ts \<union> victims T' ts"
  by (auto simp: victims_def)

lemma killed_trans:
  assumes 1: "killed P T s s1" and 2: "killed P' T' s1 s2"
  shows "killed (P \<union> P') (T \<union> T') s s2"
proof -
  let ?V = "victims T (threads s)" and ?W = "victims T' (threads s)"
  have V: "victims T' (threads s1) = ?W - ?V" "victims (T \<union> T') (threads s) = ?V \<union> ?W" "?V \<union> (?W - ?V) = ?V \<union> ?W"
    using victims_after[OF 1] by (auto simp: victims_Un)
  have a: "t_pcb (threads s1 t) = None" "t_status (threads s1 t) = T_STATUS_NONE" if "t \<in> ?V" for t
    using 1 that by (simp_all add: killed_def)
  have b: "threads s1 t = told ?V (threads s t)" if "valid_tid t" "t \<notin> ?V" for t
    using 1 that by (simp add: killed_def)
  have c: "t_pcb (threads s2 t) = None \<and> t_status (threads s2 t) = T_STATUS_NONE" if "t \<in> ?W - ?V" for t
    using 2 that V(1) by (simp add: killed_def)
  have d: "threads s2 t = told (?W - ?V) (threads s1 t)" if "valid_tid t" "t \<notin> ?W - ?V" for t
    using 2 that V(1) by (simp add: killed_def)
  have "t_pcb (threads s2 t) = None \<and> t_status (threads s2 t) = T_STATUS_NONE" if t: "t \<in> ?V \<union> ?W" for t
  proof (cases "t \<in> ?V")
    case True
    then have "valid_tid t" by (simp add: victims_def)
    from d[OF this] True a[OF True] show ?thesis by simp
  qed (use t c in blast)
  moreover have "threads s2 t = told (?V \<union> ?W) (threads s t)" if "valid_tid t" "t \<notin> ?V \<union> ?W" for t
    using that b d V(3) by simp
  moreover have "procs s2 = (\<lambda>c. if c \<in> P \<union> P' then free_pcb else procs s c)"
    using 1 2 by (auto simp: killed_def fun_eq_iff)
  ultimately show ?thesis using 1 2 unfolding killed_def V(2) by simp
qed

definition threads_of :: "pid \<Rightarrow> kstate \<Rightarrow> tid set" where
  "threads_of p s = {t \<in> all_tids. t_pcb (threads s t) = Some p}"

lemma finite_threads_of [simp]: "finite (threads_of p s)"
  by (rule finite_subset[of _ all_tids]) (auto simp: threads_of_def)

lemma threads_of_list:
  assumes ok: "kernel_ok Q s" and p: "p < MAXPROC"
  shows "proc_firstthread p s = Some None \<and> threads_of p s = {} \<and> Q (P_threads p) = [] \<or>
    (\<exists>t. proc_firstthread p s = Some (Some t) \<and> t \<in> threads_of p s \<and> Q (P_threads p) \<noteq> [])"
proof (cases "Q (P_threads p)")
  case Nil
  with proc_firstthread_eq[OF ok p] thread_of_iff[OF ok p] show ?thesis by (auto simp: threads_of_def)
next
  case (Cons n ns)
  then obtain i where n: "n = T_next (Thread i)" "i < MAXTHREAD"
    using member_type[OF ok, of "P_threads p" n] member_ok_cases(2)[of "P_threads p" n] p by auto
  with thread_of_iff[OF ok p, of "Thread i"] Cons have "t_pcb (threads s (Thread i)) = Some p" by simp
  with proc_firstthread_eq[OF ok p] Cons n show ?thesis by (simp add: threads_of_def)
qed

lemma victims_one: "victims {p} (threads s) = threads_of p s"
  by (auto simp: victims_def threads_of_def all_tids_def)

lemma terminate_one_thread_killed:
  assumes ok: "sys_ok Q s" and t: "t \<in> threads_of p s" and cur: "current_thread s = Some SSI_thread"
  shows "\<exists>s' Q'. terminate_one_thread t s = Some s' \<and> sys_ok Q' s' \<and> threads_of p s' = threads_of p s - {t} \<and>
    procs s' = procs s \<and> current_thread s' = current_thread s \<and> count_error s' = count_error s \<and>
    t_pcb (threads s' t) = None \<and> t_status (threads s' t) = T_STATUS_NONE \<and>
    (\<forall>u. u \<noteq> t \<longrightarrow> threads s' u \<in> {threads s u, orphaned (threads s u)}) \<and>
    (\<forall>u. valid_tid u \<and> u \<noteq> t \<longrightarrow> threads s' u = told {t} (threads s u)) \<and>
    soft_blocked_thread s' = soft_blocked_thread s \<and> clockPerTimeslice s' = clockPerTimeslice s"
proof -
  have t': "valid_tid t" "t_pcb (threads s t) = Some p" using t by (simp_all add: threads_of_def)
  have "current_thread s \<noteq> Some t"
    using cur t'(2) thread_inv_SSI[OF kernel_ok_threads[OF sys_ok_kernel[OF ok]]] by auto
  from terminate_one_thread_correct[OF ok t' this] obtain s' Q' where s': "terminate_one_thread t s = Some s'" "sys_ok Q' s'"
    "procs s' = procs s" "current_thread s' = current_thread s" "t_pcb (threads s' t) = None"
    "\<forall>u. u \<noteq> t \<longrightarrow> threads s' u = (if T_sched u \<in> set (Q (T_wait4me t)) then orphaned (threads s u) else threads s u)"
    "count_error s' = count_error s" "t_status (threads s' t) = T_STATUS_NONE"
    "soft_blocked_thread s' = soft_blocked_thread s" "clockPerTimeslice s' = clockPerTimeslice s" by blast
  have "t_pcb (threads s' u) = (if u = t then None else t_pcb (threads s u))" for u using s'(5,6) by simp
  then have "threads_of p s' = threads_of p s - {t}" by (auto simp: threads_of_def split: if_splits)
  moreover have "threads s' u = told {t} (threads s u)" if "valid_tid u" "u \<noteq> t" for u
    using s'(6) that waiting_list_iff[OF ok that(1) t'(1)] by (auto simp: told_def)
  ultimately show ?thesis using s' by auto
qed

lemma terminate_threads_correct:
  assumes "sys_ok Q s" "p < MAXPROC" "current_thread s = Some SSI_thread"
  shows "\<exists>s' Q'. terminate_threads p applicant s = Some s' \<and> sys_ok Q' s' \<and> killed {} {p} s s'"
  using assms
proof (induction "card (threads_of p s)" arbitrary: Q s)
  case 0
  then have e: "threads_of p s = {}" by simp
  with threads_of_list[OF sys_ok_kernel[OF 0(2)] 0(3)] have "proc_firstthread p s = Some None" by auto
  then have "terminate_threads p applicant s = Some s" by (subst terminate_threads.simps) simp
  moreover have "killed {} {p} s s" using e by (simp add: killed_def victims_one)
  ultimately show ?case using 0(2) by blast
next
  case (Suc n)
  have "threads_of p s \<noteq> {}" using Suc.hyps(2) by auto
  then obtain t where t: "proc_firstthread p s = Some (Some t)" "t \<in> threads_of p s"
    using threads_of_list[OF sys_ok_kernel[OF Suc.prems(1)] Suc.prems(2)] by blast
  let ?clean = "if Some t \<noteq> applicant \<and> t_status (threads s t) = T_STATUS_W4MSG then clean_sys_msg t s else Some s"
  have "t_pcb (threads s t) = Some p" using t(2) by (simp add: threads_of_def)
  then obtain s1 Q1 where s1: "?clean = Some s1" "sys_ok Q1 s1" "msgs_only s s1"
    using clean_sys_msg_correct[OF Suc.prems(1)] Suc.prems(1) by (metis msgs_only_refl)
  note f1 = msgs_only_frame[OF s1(3)]
  have t1: "t \<in> threads_of p s1" "current_thread s1 = Some SSI_thread" "count_error s1 = count_error s"
    "threads_of p s1 = threads_of p s"
    using t(2) f1 Suc.prems(3) by (simp_all add: threads_of_def count_error_def live_threads_def)
  obtain s2 Q2 where s2: "terminate_one_thread t s1 = Some s2" "sys_ok Q2 s2" "threads_of p s2 = threads_of p s1 - {t}"
    "procs s2 = procs s1" "current_thread s2 = current_thread s1" "count_error s2 = count_error s1"
    "t_pcb (threads s2 t) = None" "t_status (threads s2 t) = T_STATUS_NONE"
    "\<forall>u. valid_tid u \<and> u \<noteq> t \<longrightarrow> threads s2 u = told {t} (threads s1 u)" "soft_blocked_thread s2 = soft_blocked_thread s1"
    "clockPerTimeslice s2 = clockPerTimeslice s1"
    using terminate_one_thread_killed[OF s1(2) t1(1,2)] by blast
  have "n = card (threads_of p s2)" using Suc.hyps(2) s2(3) t1(1,4) by simp
  from Suc.hyps(1)[OF this s2(2) Suc.prems(2)] s2(5) t1(2)
  obtain s' Q' where s': "terminate_threads p applicant s2 = Some s'" "sys_ok Q' s'" "killed {} {p} s2 s'" by auto
  have run: "terminate_threads p applicant s = terminate_threads p applicant s2"
    by (subst terminate_threads.simps) (simp add: t(1) s1(1) s2(1) del: if_split_asm)
  let ?V = "threads_of p s"
  have left: "threads_of p s2 = ?V - {t}" "{t} \<union> (?V - {t}) = ?V" using s2(3) t1(4) t(2) by auto
  have dead: "t_pcb (threads s' u) = None \<and> t_status (threads s' u) = T_STATUS_NONE" if "u \<in> ?V" for u
  proof (cases "u = t")
    case True
    have "valid_tid t" using t(2) by (simp add: threads_of_def)
    with s'(3) True s2(7,8) left(1) show ?thesis by (simp add: killed_def victims_one)
  next
    case False
    with s'(3) that left(1) show ?thesis by (simp add: killed_def victims_one)
  qed
  have kept: "threads s' u = told ?V (threads s u)" if "valid_tid u" "u \<notin> ?V" for u
  proof -
    have "u \<noteq> t" using that(2) t(2) by blast
    then have "threads s2 u = told {t} (threads s u)" using s2(9) that(1) f1 by simp
    moreover have "threads s' u = told (?V - {t}) (threads s2 u)"
      using s'(3) that left(1) by (simp add: killed_def victims_one)
    ultimately show ?thesis by (simp only: told_told left(2))
  qed
  have "killed {} {p} s s'"
    using dead kept s'(3) s2 f1 t1(3) by (simp add: killed_def victims_one)
  with run s' show ?case by auto
qed

section \<open>The progeny of a process\<close>

definition progeny :: "(pid \<Rightarrow> pcb_t) \<Rightarrow> pid \<Rightarrow> pid set" where
  "progeny ps p = {c. (c, p) \<in> (parent_rel ps)\<^sup>+}"

lemma progeny_child: "p_parent (ps c) = Some p \<Longrightarrow> c \<in> progeny ps p"
  by (auto simp: progeny_def parent_rel_def)

lemma progeny_trans: "c \<in> progeny ps p \<Longrightarrow> progeny ps c \<subseteq> progeny ps p"
  by (auto simp: progeny_def)

lemma progeny_closed: "p_parent (ps y) = Some x \<Longrightarrow> x \<in> progeny ps p \<Longrightarrow> y \<in> progeny ps p"
  by (auto simp: progeny_def parent_rel_def intro: trancl_into_trancl2)

lemma progeny_has_parent: "c \<in> progeny ps p \<Longrightarrow> p_parent (ps c) \<noteq> None"
  by (auto simp: progeny_def parent_rel_def elim: converse_tranclE)

lemma progeny_irrefl: "proc_inv Q ps \<Longrightarrow> p \<notin> progeny ps p"
  using proc_inv_acyclic[of Q ps] by (simp add: progeny_def acyclic_def)

lemma progeny_range:
  assumes "proc_inv Q ps" "c \<in> progeny ps p"
  shows "0 < c \<and> c < MAXPROC"
  using progeny_has_parent[OF assms(2)] proc_inv_range[OF assms(1)] by auto

lemma finite_progeny: "proc_inv Q ps \<Longrightarrow> finite (progeny ps p)"
  by (rule finite_subset[of _ "{..<MAXPROC}"]) (auto dest: progeny_range)

text \<open>Cutting off a set that is closed under children.\<close>

lemma trancl_cut:
  assumes "\<And>x y. (y, x) \<in> R \<Longrightarrow> x \<in> D \<Longrightarrow> y \<in> D"
  shows "(x, p) \<in> {(y, q). (y, q) \<in> R \<and> y \<notin> D}\<^sup>+ \<longleftrightarrow> (x, p) \<in> R\<^sup>+ \<and> x \<notin> D"
proof
  assume "(x, p) \<in> {(y, q). (y, q) \<in> R \<and> y \<notin> D}\<^sup>+"
  then show "(x, p) \<in> R\<^sup>+ \<and> x \<notin> D"
    by (induction rule: converse_trancl_induct) (auto intro: trancl_into_trancl2)
next
  assume "(x, p) \<in> R\<^sup>+ \<and> x \<notin> D"
  then have "(x, p) \<in> R\<^sup>+" "x \<notin> D" by simp_all
  then show "(x, p) \<in> {(y, q). (y, q) \<in> R \<and> y \<notin> D}\<^sup>+"
  proof (induction rule: converse_trancl_induct)
    case (base y)
    then show ?case by blast
  next
    case (step y z)
    then show ?case using assms by (intro trancl_into_trancl2[of y z]) auto
  qed
qed

lemma progeny_cut:
  assumes c: "c \<in> progeny ps p"
  defines "D \<equiv> insert c (progeny ps c)"
  shows "progeny (\<lambda>x. if x \<in> D then free_pcb else ps x) p = progeny ps p - D"
proof -
  have R: "parent_rel (\<lambda>x. if x \<in> D then free_pcb else ps x) = {(y, q). (y, q) \<in> parent_rel ps \<and> y \<notin> D}"
    by (auto simp: parent_rel_def free_pcb_def split: if_splits)
  have "y \<in> D" if "(y, x) \<in> parent_rel ps" "x \<in> D" for x y
    using that progeny_closed[of ps y x c] progeny_child[of ps y x] by (auto simp: D_def parent_rel_def)
  then show ?thesis
    unfolding progeny_def R by (subst trancl_cut) auto
qed

section \<open>Terminating a process and its progeny\<close>

lemma sys_ok_proc_delete:
  assumes ok: "sys_ok Q s" and par: "p_parent (procs s c) = Some p"
    and empty: "Q (P_children c) = []" "Q (P_threads c) = []"
  shows "\<exists>s' Q'. proc_delete c s = Some (0, s') \<and> sys_ok Q' s' \<and> killed {c} {} s s'"
proof -
  obtain s' where s': "proc_delete c s = Some (0, s')" "s' = s\<lparr>lk := lk s', procs := (procs s)(c := free_pcb)\<rparr>"
    "kernel_ok (Q(P_children p := remove1 (P_siblings c) (Q (P_children p)), P_siblings 0 := Q (P_siblings 0) @ [P_siblings c])) s'"
    using proc_delete_correct[OF sys_ok_kernel[OF ok] par empty] by blast
  let ?Q' = "Q(P_children p := remove1 (P_siblings c) (Q (P_children p)), P_siblings 0 := Q (P_siblings 0) @ [P_siblings c])"
  have fr: "threads s' = threads s" "msgs s' = msgs s" "current_thread s' = current_thread s" "SSI s' = SSI s"
    "procs s' = (procs s)(c := free_pcb)" "thread_count s' = thread_count s"
    "soft_blocked_thread s' = soft_blocked_thread s" "is_idle s' = is_idle s" "clockPerTimeslice s' = clockPerTimeslice s"
    by (subst s'(2), simp)+
  have "mailbox ?Q' s' = mailbox Q s" by (rule mailbox_frame) (simp_all add: fr)
  moreover have "mgrs_ok (procs s')"
    using sys_ok_mgrs[OF ok] unfolding fr mgrs_ok_def by (simp add: free_pcb_def)
  ultimately have "sys_ok ?Q' s'"
    using s'(3) sys_okD[OF ok] fr by (intro sys_okI) simp_all
  moreover have "killed {c} {} s s'"
    using fr by (auto simp: killed_def fun_eq_iff count_error_def live_threads_def)
  ultimately show ?thesis using s'(1) by blast
qed

lemma killed_current: "killed P T s s' \<Longrightarrow> current_thread s' = current_thread s"
  and killed_procs: "killed P T s s' \<Longrightarrow> procs s' = (\<lambda>c. if c \<in> P then free_pcb else procs s c)"
  by (simp_all add: killed_def)

lemma killed_no_threads:
  assumes "killed P T s s'" "p \<in> T"
  shows "threads_of p s' = {}"
proof -
  have "threads_of p s' \<subseteq> victims T (threads s')" using assms(2) by (auto simp: victims_def threads_of_def)
  also have "\<dots> = {}" using victims_after[OF assms(1), of T] by simp
  finally show ?thesis by blast
qed

lemma no_children_list:
  assumes ok: "kernel_ok Q s" and p: "p < MAXPROC" and none: "\<And>x. p_parent (procs s x) \<noteq> Some p"
  shows "Q (P_children p) = []"
proof (rule ccontr)
  assume "Q (P_children p) \<noteq> []"
  then obtain n where n: "n \<in> set (Q (P_children p))" by (cases "Q (P_children p)") auto
  then obtain x where "n = P_siblings x"
    using member_type[OF ok _ n] member_ok_cases(1)[of "P_children p" n] p by auto
  with n proc_child_iff[OF ok p] none show False by blast
qed

text \<open>One child: its threads, its own progeny and then its descriptor.\<close>

lemma terminate_child:
  assumes ok: "sys_ok Q s" and par: "p_parent (procs s c) = Some p" and cur: "current_thread s = Some SSI_thread"
    and rec: "\<And>Q s'. sys_ok Q s' \<Longrightarrow> procs s' = procs s \<Longrightarrow> current_thread s' = Some SSI_thread \<Longrightarrow>
      \<exists>s'' Q''. terminate_children c s' = Some s'' \<and> sys_ok Q'' s'' \<and> killed (progeny (procs s) c) (progeny (procs s) c) s' s''"
  shows "\<exists>s' Q'. terminate_process c None s = Some s' \<and> sys_ok Q' s' \<and>
    killed (insert c (progeny (procs s) c)) (insert c (progeny (procs s) c)) s s'"
proof -
  let ?D = "progeny (procs s) c"
  note inv = kernel_ok_procs[OF sys_ok_kernel[OF ok]]
  have c: "c < MAXPROC" using proc_inv_range[OF inv par] by simp
  obtain s1 Q1 where s1: "terminate_threads c None s = Some s1" "sys_ok Q1 s1" "killed {} {c} s s1"
    using terminate_threads_correct[OF ok c cur] by blast
  obtain s2 Q2 where s2: "terminate_children c s1 = Some s2" "sys_ok Q2 s2" "killed ?D ?D s1 s2"
    using rec[OF s1(2)] killed_current[OF s1(3)] killed_procs[OF s1(3)] cur by auto
  have k2: "killed ({} \<union> ?D) ({c} \<union> ?D) s s2" by (rule killed_trans[OF s1(3) s2(3)])
  have procs2: "procs s2 = (\<lambda>x. if x \<in> ?D then free_pcb else procs s x)" using killed_procs[OF k2] by simp
  have par2: "p_parent (procs s2 c) = Some p" using procs2 par progeny_irrefl[OF inv] by simp
  have "Q2 (P_children c) = []"
    by (rule no_children_list[OF sys_ok_kernel[OF s2(2)] c])
       (use procs2 progeny_child[of "procs s" _ c] in \<open>auto simp: free_pcb_def\<close>)
  moreover have "Q2 (P_threads c) = []"
    using threads_of_list[OF sys_ok_kernel[OF s2(2)] c] killed_no_threads[OF k2, of c] by auto
  ultimately obtain s3 Q3 where s3: "proc_delete c s2 = Some (0, s3)" "sys_ok Q3 s3" "killed {c} {} s2 s3"
    using sys_ok_proc_delete[OF s2(2) par2] by blast
  have "killed ({} \<union> ?D \<union> {c}) ({c} \<union> ?D \<union> {}) s s3" by (rule killed_trans[OF k2 s3(3)])
  then have "killed (insert c ?D) (insert c ?D) s s3" by simp
  with s1(1) s2(1) s3(1,2) show ?thesis by (auto simp: terminate_process_def)
qed

lemma terminate_children_correct:
  assumes "sys_ok Q s" "p < MAXPROC" "current_thread s = Some SSI_thread"
  shows "\<exists>s' Q'. terminate_children p s = Some s' \<and> sys_ok Q' s' \<and>
    killed (progeny (procs s) p) (progeny (procs s) p) s s'"
  using assms
proof (induction "card (progeny (procs s) p)" arbitrary: p Q s rule: less_induct)
  case less
  note ok = sys_ok_kernel[OF less.prems(1)]
  note inv = kernel_ok_procs[OF ok]
  show ?case
  proof (cases "Q (P_children p)")
    case Nil
    have "progeny (procs s) p = {}"
    proof (rule ccontr)
      assume "progeny (procs s) p \<noteq> {}"
      then obtain x where "(x, p) \<in> (parent_rel (procs s))\<^sup>+" by (auto simp: progeny_def)
      then obtain y where "p_parent (procs s y) = Some p" by (cases rule: tranclE) (auto simp: parent_rel_def)
      with proc_child_iff[OF ok less.prems(2)] Nil show False by (metis empty_iff empty_set)
    qed
    moreover have "terminate_children p s = Some s"
      using proc_firstchild_eq[OF ok less.prems(2)] Nil by (subst terminate_children_unfold) simp
    ultimately show ?thesis using less.prems(1) killed_refl by auto
  next
    case (Cons n ns)
    then obtain c where c: "n = P_siblings c"
      using member_type[OF ok, of "P_children p" n] member_ok_cases(1)[of "P_children p" n] less.prems(2) by auto
    have par: "p_parent (procs s c) = Some p"
      using proc_child_iff[OF ok less.prems(2), of c] Cons c by simp
    let ?D = "insert c (progeny (procs s) c)"
    have cp: "c \<in> progeny (procs s) p" using progeny_child[of "procs s" c p] par by simp
    have D: "?D \<subseteq> progeny (procs s) p" using cp progeny_trans[OF cp] by simp
    have "progeny (procs s) c \<subset> progeny (procs s) p" using D progeny_irrefl[OF inv, of c] by auto
    then have small: "card (progeny (procs s) c) < card (progeny (procs s) p)"
      by (rule psubset_card_mono[OF finite_progeny[OF inv]])
    have clt: "c < MAXPROC" using proc_inv_range[OF inv par] by simp
    have rec: "\<exists>s'' Q''. terminate_children c s' = Some s'' \<and> sys_ok Q'' s'' \<and>
        killed (progeny (procs s) c) (progeny (procs s) c) s' s''"
      if "sys_ok Q' s'" "procs s' = procs s" "current_thread s' = Some SSI_thread" for Q' s'
      using less.hyps[of s' c Q'] small that clt by simp
    have "\<exists>s' Q'. terminate_process c None s = Some s' \<and> sys_ok Q' s' \<and> killed ?D ?D s s'"
      by (rule terminate_child[OF less.prems(1) par less.prems(3)]) (rule rec)
    then obtain s1 Q1 where s1: "terminate_process c None s = Some s1" "sys_ok Q1 s1" "killed ?D ?D s s1"
      by blast
    have cut: "progeny (procs s1) p = progeny (procs s) p - ?D"
      using progeny_cut[OF cp] killed_procs[OF s1(3)] by simp
    have "card (progeny (procs s1) p) < card (progeny (procs s) p)"
      unfolding cut by (rule psubset_card_mono[OF finite_progeny[OF inv]]) (use cp in auto)
    from less.hyps[OF this s1(2) less.prems(2)] killed_current[OF s1(3)] less.prems(3)
    obtain s2 Q2 where s2: "terminate_children p s1 = Some s2" "sys_ok Q2 s2"
      "killed (progeny (procs s1) p) (progeny (procs s1) p) s1 s2" by auto
    have "?D \<union> progeny (procs s1) p = progeny (procs s) p" unfolding cut using D by auto
    with killed_trans[OF s1(3) s2(3)] have "killed (progeny (procs s) p) (progeny (procs s) p) s s2" by simp
    moreover have "terminate_children p s = Some s2"
      using proc_firstchild_eq[OF ok less.prems(2)] Cons c s1(1) s2(1) by (subst terminate_children_unfold) simp
    ultimately show ?thesis using s2(2) by blast
  qed
qed

text \<open>
  \<open>__terminate_process_s\<close>: the threads of the process and of its whole progeny die, the descriptors of
  the progeny and of the process itself become free. The root process loses its threads and progeny
  but keeps its descriptor (\<open>proc_delete\<close> refuses it).
\<close>

definition dying :: "(pid \<Rightarrow> pcb_t) \<Rightarrow> pid \<Rightarrow> pid set" where
  "dying ps p = insert p (progeny ps p)"

lemma terminate_process_correct:
  assumes ok: "sys_ok Q s" and p: "p < MAXPROC" and cur: "current_thread s = Some SSI_thread"
    and alive: "proc_alive s p"
  shows "\<exists>s' Q'. terminate_process p applicant s = Some s' \<and> sys_ok Q' s' \<and>
    killed (dying (procs s) p - {0}) (dying (procs s) p) s s'"
proof -
  let ?D = "progeny (procs s) p"
  note inv = kernel_ok_procs[OF sys_ok_kernel[OF ok]]
  have D0: "0 \<notin> ?D" using progeny_range[OF inv, of 0 p] by auto
  obtain s1 Q1 where s1: "terminate_threads p applicant s = Some s1" "sys_ok Q1 s1" "killed {} {p} s s1"
    using terminate_threads_correct[OF ok p cur] by blast
  have pr1: "procs s1 = procs s" "current_thread s1 = Some SSI_thread"
    using killed_current[OF s1(3)] killed_procs[OF s1(3)] cur by auto
  obtain s2 Q2 where s2: "terminate_children p s1 = Some s2" "sys_ok Q2 s2" "killed ?D ?D s1 s2"
    using terminate_children_correct[OF s1(2) p pr1(2)] pr1(1) by auto
  have k2: "killed ?D (dying (procs s) p) s s2"
    using killed_trans[OF s1(3) s2(3)] by (simp add: dying_def)
  have procs2: "procs s2 = (\<lambda>x. if x \<in> ?D then free_pcb else procs s x)" using killed_procs[OF k2] by simp
  show ?thesis
  proof (cases "p = 0")
    case True
    have "p_parent (procs s2 0) = None"
      using proc_inv_root[OF kernel_ok_procs[OF sys_ok_kernel[OF s2(2)]]] .
    then have "proc_delete p s2 = Some (-1, s2)"
      using proc_delete_fails[OF sys_ok_kernel[OF s2(2)] p] True by simp
    moreover have "dying (procs s) p - {0} = ?D" using True D0 by (auto simp: dying_def)
    ultimately show ?thesis using s1(1) s2(1,2) k2 by (auto simp: terminate_process_def)
  next
    case False
    then obtain q where "p_parent (procs s p) = Some q" using alive by (auto simp: proc_alive_def)
    have par2: "p_parent (procs s2 p) = Some q"
      using procs2 \<open>p_parent (procs s p) = Some q\<close> progeny_irrefl[OF inv] by simp
    have "Q2 (P_children p) = []"
      by (rule no_children_list[OF sys_ok_kernel[OF s2(2)] p])
         (use procs2 progeny_child[of "procs s" _ p] in \<open>auto simp: free_pcb_def\<close>)
    moreover have "Q2 (P_threads p) = []"
      using threads_of_list[OF sys_ok_kernel[OF s2(2)] p] killed_no_threads[OF k2, of p] by (auto simp: dying_def)
    ultimately obtain s3 Q3 where s3: "proc_delete p s2 = Some (0, s3)" "sys_ok Q3 s3" "killed {p} {} s2 s3"
      using sys_ok_proc_delete[OF s2(2) par2] by blast
    have "killed (dying (procs s) p - {0}) (dying (procs s) p) s s3"
      using killed_trans[OF k2 s3(3)] False D0 by (simp add: dying_def insert_absorb)
    with s1(1) s2(1) s3(1,2) show ?thesis by (auto simp: terminate_process_def)
  qed
qed

lemma thread_process:
  assumes ok: "kernel_ok Q s" and t: "valid_tid t" "t_pcb (threads s t) = Some p"
  shows "p < MAXPROC" "proc_alive s p" "T_next t \<in> set (Q (P_threads p))"
proof -
  show p: "p < MAXPROC" "T_next t \<in> set (Q (P_threads p))" using live_thread_index[OF ok t] by auto
  then show "proc_alive s p" using thread_proc_alive[OF ok p(1)] by fastforce
qed

lemma terminate_process_s_correct:
  assumes ok: "sys_ok Q s" and cur: "current_thread s = Some SSI_thread"
    and t: "valid_tid t" "t_pcb (threads s t) = Some p"
  shows "\<exists>s' Q'. terminate_process_s t s = Some s' \<and> sys_ok Q' s' \<and>
    killed (dying (procs s) p - {0}) (dying (procs s) p) s s'"
  using terminate_process_correct[OF ok _ cur] thread_process[OF sys_ok_kernel[OF ok] t] t(2)
  by (simp add: terminate_process_s_def get_processid_s_def)

text \<open>A request left behind by a thread that is already dead: the service dereferences NULL.\<close>

lemma terminate_process_s_dead: "t_pcb (threads s t) = None \<Longrightarrow> terminate_process_s t s = None"
  by (simp add: terminate_process_s_def get_processid_s_def)

lemma terminate_thread_s_correct:
  assumes ok: "sys_ok Q s" and cur: "current_thread s = Some SSI_thread"
    and t: "valid_tid t" "t_pcb (threads s t) = Some p"
  shows "\<exists>s' Q'. terminate_thread_s t s = Some s' \<and> sys_ok Q' s' \<and>
    (if threads_of p s = {t} then killed (dying (procs s) p - {0}) (dying (procs s) p) s s'
     else threads_of p s' = threads_of p s - {t} \<and> procs s' = procs s \<and>
       current_thread s' = current_thread s \<and> count_error s' = count_error s \<and>
       t_pcb (threads s' t) = None \<and> t_status (threads s' t) = T_STATUS_NONE \<and>
       (\<forall>u. u \<noteq> t \<longrightarrow> threads s' u \<in> {threads s u, orphaned (threads s u)}) \<and>
       (\<forall>u. valid_tid u \<and> u \<noteq> t \<longrightarrow> threads s' u = told {t} (threads s u)) \<and>
       soft_blocked_thread s' = soft_blocked_thread s \<and> clockPerTimeslice s' = clockPerTimeslice s)"
proof -
  note kok = sys_ok_kernel[OF ok] and tp = thread_process[OF sys_ok_kernel[OF ok] t]
  have mem: "t \<in> threads_of p s" using t by (simp add: threads_of_def)
  have "list_is_only (T_next t) (P_threads p) (lk s) \<longleftrightarrow> Q (P_threads p) = [T_next t]"
    by (rule shape_is_only[OF kernel_ok_shape[OF kok]]) (use tp in simp_all)
  also have "\<dots> \<longleftrightarrow> threads_of p s = {t}"
  proof
    assume Q: "Q (P_threads p) = [T_next t]"
    have "u = t" if "u \<in> threads_of p s" for u
      using that thread_of_iff[OF kok tp(1), of u] Q by (simp add: threads_of_def)
    with mem show "threads_of p s = {t}" by blast
  next
    assume only: "threads_of p s = {t}"
    have d: "distinct (Q (P_threads p))"
      using shape_distinct[OF kernel_ok_shape[OF kok], of "P_threads p"] tp(1) by simp
    have "n = T_next t" if n: "n \<in> set (Q (P_threads p))" for n
    proof -
      obtain i where i: "n = T_next (Thread i)" "i < MAXTHREAD"
        using member_type[OF kok _ n] member_ok_cases(2)[of "P_threads p" n] tp(1) by auto
      then have "Thread i \<in> threads_of p s" using thread_of_iff[OF kok tp(1), of "Thread i"] n by (simp add: threads_of_def)
      with only i show ?thesis by simp
    qed
    with tp(3) d show "Q (P_threads p) = [T_next t]"
      by (intro distinct_singleton)
  qed
  finally have only: "list_is_only (T_next t) (P_threads p) (lk s) \<longleftrightarrow> threads_of p s = {t}" .
  show ?thesis
  proof (cases "threads_of p s = {t}")
    case True
    with terminate_process_s_correct[OF ok cur t] only t(2) show ?thesis
      by (simp add: terminate_thread_s_def get_processid_s_def)
  next
    case False
    with terminate_one_thread_killed[OF ok mem cur] only t(2) show ?thesis
      by (simp add: terminate_thread_s_def get_processid_s_def)
  qed
qed

end
