(* ===== verification/Creation.thy ===== *)
theory Creation imports Termination begin

text \<open>
  Creation of threads and processes (\<open>create_thread.c\<close>, \<open>create_process.c\<close>) and the other services
  that change the kernel state (\<open>setmgr.c\<close>, \<open>do_io.c\<close>, \<open>wait_for_clock.c\<close>): their results and the
  invariants.
\<close>

section \<open>Creating a thread\<close>

definition new_tcb :: "pid \<Rightarrow> state_t \<Rightarrow> tcb_t \<Rightarrow> tcb_t" where
  "new_tcb p st x = x\<lparr>t_pcb := Some p, t_status := T_STATUS_READY, t_s := st\<rparr>"

lemma new_tcb_simps [simp]:
  "t_pcb (new_tcb p st x) = Some p" "t_status (new_tcb p st x) = T_STATUS_READY" "t_s (new_tcb p st x) = st"
  by (simp_all add: new_tcb_def)

lemma live_threads_add:
  assumes "valid_tid t" "t_status (threads s t) = T_STATUS_NONE" "t_status (threads s' t) \<noteq> T_STATUS_NONE"
    "\<And>u. u \<noteq> t \<Longrightarrow> threads s' u = threads s u"
  shows "of_nat (card (live_threads s')) = (of_nat (card (live_threads s)) + 1 :: u32)"
  using live_threads_remove[of t s' s] assms by simp

lemma read_state_cong:
  "mem s' = mem s \<Longrightarrow> (\<And>u. t_s (threads s' u) = t_s (threads s u)) \<Longrightarrow> read_state v s' = read_state v s"
  by (cases v) simp_all

lemma create_thread_fails:
  assumes "sys_ok Q s" "process = None \<or> Q Thread_h = []"
  shows "create_thread st process s = Some (None, s)"
  using thread_alloc_fails[OF sys_ok_kernel[OF assms(1)] assms(2)] by (simp add: create_thread_def)

lemma create_thread_correct:
  assumes ok: "sys_ok Q s" and alive: "proc_alive s p" and free: "Q Thread_h = n # ns"
    and st: "read_state v s = Some st"
  shows "\<exists>t s' Q'. create_thread v (Some p) s = Some (Some t, s') \<and> sys_ok Q' s' \<and>
    n = T_next t \<and> valid_tid t \<and> t_status (threads s t) = T_STATUS_NONE \<and>
    threads s' = (threads s)(t := new_tcb p st (threads s t)) \<and> procs s' = procs s \<and>
    current_thread s' = current_thread s \<and> Q' Readyq = Q Readyq @ [T_sched t] \<and>
    thread_count s' = thread_count s + 1 \<and> count_error s' = count_error s \<and>
    Q' = Q(Thread_h := ns, P_threads p := Q (P_threads p) @ [n], Readyq := Q Readyq @ [T_sched t])"
proof -
  note kok = sys_ok_kernel[OF ok]
  obtain t l where t: "n = T_next t" "valid_tid t" "t \<noteq> SSI_thread" "t_status (threads s t) = T_STATUS_NONE"
    and l: "thread_alloc (Some p) s = Some (Some t, s\<lparr>lk := l, threads := (threads s)
        (t := (threads s t)\<lparr>t_pcb := Some p, t_status := T_STATUS_READY\<rparr>)\<rparr>)"
      "kernel_ok (Q(Thread_h := ns, P_threads p := Q (P_threads p) @ [n])) (s\<lparr>lk := l, threads := (threads s)
        (t := (threads s t)\<lparr>t_pcb := Some p, t_status := T_STATUS_READY\<rparr>)\<rparr>)"
    using thread_alloc_correct[OF kok alive free] by blast
  let ?s1 = "s\<lparr>lk := l, threads := (threads s)(t := (threads s t)\<lparr>t_pcb := Some p, t_status := T_STATUS_READY\<rparr>)\<rparr>"
  let ?Q1 = "Q(Thread_h := ns, P_threads p := Q (P_threads p) @ [n])"
  let ?ts = "(threads s)(t := new_tcb p st (threads s t))"
  let ?s2 = "s\<lparr>lk := l, threads := ?ts\<rparr>"
  have cur: "current_thread s \<noteq> Some t"
    using sched_inv_thread[OF sys_ok_sched[OF ok] t(2)] t(4) by (simp add: thread_sched_ok_def)
  have s2: "?s2 = ?s1\<lparr>threads := (threads ?s1)(t := (threads ?s1 t)\<lparr>t_s := st\<rparr>)\<rparr>" by (simp add: new_tcb_def)
  have ok2: "kernel_ok ?Q1 ?s2"
    unfolding s2 by (rule kernel_ok_thread_upd[OF l(2)]) simp_all
  have nl: "\<not> linked_at ?Q1 t h" for h
    using sched_inv_free[OF sys_ok_sched[OF ok] t(2,4)] by simp
  obtain l2 where l2: "thread_enqueue t Readyq ?s2 = Some (?s2\<lparr>lk := l2\<rparr>)"
    "kernel_ok (?Q1(Readyq := ?Q1 Readyq @ [T_sched t])) (?s2\<lparr>lk := l2\<rparr>)"
    using thread_enqueue_correct[OF ok2 _ t(2), of Readyq] not_linked_iff[OF kernel_ok_typed[OF ok2], of t] nl by auto
  let ?Q' = "?Q1(Readyq := Q Readyq @ [T_sched t])"
  let ?s' = "s\<lparr>lk := l2, threads := ?ts, thread_count := thread_count s + 1\<rparr>"
  have Q': "?Q1(Readyq := ?Q1 Readyq @ [T_sched t]) = ?Q'" by simp
  have st1: "read_state v ?s1 = Some st" using read_state_cong[of ?s1 s v] st by simp
  have run: "create_thread v (Some p) s = Some (Some t, ?s')"
    using l2(1) st1 by (simp add: create_thread_def l(1) upd_defs new_tcb_def)
  have "?s2\<lparr>lk := l2\<rparr> = s\<lparr>lk := l2, threads := ?ts\<rparr>" by simp
  with l2(2) have kok': "kernel_ok ?Q' (s\<lparr>lk := l2, threads := ?ts\<rparr>)" unfolding Q' by (simp only:)
  have "sched_inv ?Q' (current_thread s) ?ts"
  proof (rule sched_inv_update[OF sys_ok_sched[OF ok], of t])
    show "thread_sched_ok ?Q' (current_thread s) (?ts t) t"
      using cur by (auto simp: thread_sched_ok_def linked_at_def)
    show "valid_tid u" if "current_thread s = Some u" for u
      using sys_ok_sched[OF ok] that sched_inv_current[of Q u "threads s"] by simp
  qed (auto simp: linked_at_def)
  moreover have "mailbox ?Q' ?s' = mailbox Q s" by (rule mailbox_frame) simp_all
  moreover have "mail_inv (mailbox Q s) ?ts"
    by (rule mail_inv_update[OF sys_ok_mail[OF ok], of t]) (use mail_inv_senders[OF sys_ok_mail[OF ok] t(2)] in auto)
  ultimately have "sys_ok ?Q' ?s'"
    using kok' sys_okD[OF ok] by (intro sys_okI) simp_all
  moreover have "of_nat (card (live_threads ?s')) = (of_nat (card (live_threads s)) + 1 :: u32)"
    using live_threads_add[OF t(2,4), of ?s'] by simp
  then have "count_error ?s' = count_error s" by (simp add: count_error_def)
  ultimately show ?thesis using run t by (intro exI[of _ t] exI[of _ ?s'] exI[of _ ?Q']) simp
qed

section \<open>Creating a process\<close>

lemma sys_ok_proc_alloc:
  assumes ok: "sys_ok Q s" and alive: "proc_alive s p" and free: "Q (P_siblings 0) = P_siblings c # ns"
  shows "\<exists>s' Q'. proc_alloc (Some p) s = Some (Some c, s') \<and> sys_ok Q' s' \<and>
    s' = s\<lparr>lk := lk s', procs := (procs s)(c := (procs s c)\<lparr>p_parent := Some p\<rparr>)\<rparr> \<and>
    Q' = Q(P_siblings 0 := ns, P_children p := Q (P_children p) @ [P_siblings c])"
proof -
  let ?Q' = "Q(P_siblings 0 := ns, P_children p := Q (P_children p) @ [P_siblings c])"
  obtain s' where s': "proc_alloc (Some p) s = Some (Some c, s')"
    "s' = s\<lparr>lk := lk s', procs := (procs s)(c := (procs s c)\<lparr>p_parent := Some p\<rparr>)\<rparr>" "kernel_ok ?Q' s'"
    using proc_alloc_correct[OF sys_ok_kernel[OF ok] alive free] by blast
  have fr: "threads s' = threads s" "msgs s' = msgs s" "current_thread s' = current_thread s" "SSI s' = SSI s"
    "procs s' = (procs s)(c := (procs s c)\<lparr>p_parent := Some p\<rparr>)" "soft_blocked_thread s' = soft_blocked_thread s" "is_idle s' = is_idle s"
    by (subst s'(2), simp)+
  have "mailbox ?Q' s' = mailbox Q s" by (rule mailbox_frame) (simp_all add: fr)
  moreover have "mgrs_ok (procs s')" using sys_ok_mgrs[OF ok] unfolding fr mgrs_ok_def by simp
  ultimately have "sys_ok ?Q' s'" using s'(3) sys_okD[OF ok] fr by (intro sys_okI) simp_all
  with s' show ?thesis by blast
qed

lemma create_process_no_slot:
  assumes "sys_ok Q s" "t_pcb (threads s a) = None \<or> Q (P_siblings 0) = []"
  shows "create_process_s st a s = Some (None, s)"
  using proc_alloc_fails[OF sys_ok_kernel[OF assms(1)] assms(2)] by (simp add: create_process_s_def get_processid_s_def)

text \<open>
  No thread descriptor is left for the first thread: the process descriptor that was just taken is
  given back, and no thread changes.
\<close>

lemma create_process_rolls_back:
  assumes ok: "sys_ok Q s" and a: "valid_tid a" "t_pcb (threads s a) = Some p"
    and free: "Q (P_siblings 0) = P_siblings c # ns" and none: "Q Thread_h = []"
  shows "\<exists>s' Q'. create_process_s v a s = Some (None, s') \<and> sys_ok Q' s' \<and>
    procs s' = (procs s)(c := free_pcb) \<and> threads s' = threads s \<and> msgs s' = msgs s \<and>
    current_thread s' = current_thread s \<and> count_error s' = count_error s"
proof -
  note alive = thread_process(2)[OF sys_ok_kernel[OF ok] a]
  note c = free_list_procs[OF sys_ok_kernel[OF ok], of c, unfolded free, simplified]
  obtain s1 Q1 where s1: "proc_alloc (Some p) s = Some (Some c, s1)" "sys_ok Q1 s1"
    "s1 = s\<lparr>lk := lk s1, procs := (procs s)(c := (procs s c)\<lparr>p_parent := Some p\<rparr>)\<rparr>"
    "Q1 = Q(P_siblings 0 := ns, P_children p := Q (P_children p) @ [P_siblings c])"
    using sys_ok_proc_alloc[OF ok alive free] by blast
  have pc: "p \<noteq> c" using alive c by auto
  have fr: "threads s1 = threads s" "msgs s1 = msgs s" "current_thread s1 = current_thread s"
    "procs s1 = (procs s)(c := (procs s c)\<lparr>p_parent := Some p\<rparr>)" "thread_count s1 = thread_count s"
    by (subst s1(3), simp)+
  have thr: "create_thread v (Some c) s1 = Some (None, s1)"
    using create_thread_fails[OF s1(2), of "Some c"] none s1(4) by simp
  have par: "p_parent (procs s1 c) = Some p" by (simp add: fr)
  have "Q1 (P_children c) = []" "Q1 (P_threads c) = []" using c pc s1(4) by simp_all
  from proc_delete_correct[OF sys_ok_kernel[OF s1(2)] par this] obtain s' where
    "proc_delete c s1 = Some (0, s')" "s' = s1\<lparr>lk := lk s', procs := (procs s1)(c := free_pcb)\<rparr>" by blast
  note s' = this
  obtain s2 Q' where "proc_delete c s1 = Some (0, s2)" "sys_ok Q' s2"
    using sys_ok_proc_delete[OF s1(2) par \<open>Q1 (P_children c) = []\<close> \<open>Q1 (P_threads c) = []\<close>] by blast
  with s'(1) have ok': "sys_ok Q' s'" by simp
  have "procs s' = (procs s)(c := free_pcb)" "threads s' = threads s" "msgs s' = msgs s"
    "current_thread s' = current_thread s" "thread_count s' = thread_count s"
    by (subst s'(2), simp add: fr)+
  moreover from this have "count_error s' = count_error s" by (simp add: count_error_def live_threads_def)
  moreover have "create_process_s v a s = Some (None, s')"
    by (simp add: create_process_s_def get_processid_s_def a(2) s1(1) thr s'(1))
  ultimately show ?thesis using ok' by blast
qed

text \<open>Both descriptors are there: a child of the process of the applicant, with one ready thread.\<close>

lemma create_process_correct:
  assumes ok: "sys_ok Q s" and a: "valid_tid a" "t_pcb (threads s a) = Some p"
    and free: "Q (P_siblings 0) = P_siblings c # ns" "Q Thread_h = T_next t # ms"
    and st: "read_state v s = Some st"
  shows "\<exists>s' Q'. create_process_s v a s = Some (Some t, s') \<and> sys_ok Q' s' \<and>
    p_parent (procs s c) = None \<and> t_status (threads s t) = T_STATUS_NONE \<and>
    procs s' = (procs s)(c := (procs s c)\<lparr>p_parent := Some p\<rparr>) \<and>
    threads s' = (threads s)(t := new_tcb c st (threads s t)) \<and>
    current_thread s' = current_thread s \<and> Q' Readyq = Q Readyq @ [T_sched t] \<and> count_error s' = count_error s"
proof -
  note alive = thread_process(2)[OF sys_ok_kernel[OF ok] a]
  note c = free_list_procs[OF sys_ok_kernel[OF ok], of c, unfolded free, simplified]
  obtain s1 Q1 where s1: "proc_alloc (Some p) s = Some (Some c, s1)" "sys_ok Q1 s1"
    "s1 = s\<lparr>lk := lk s1, procs := (procs s)(c := (procs s c)\<lparr>p_parent := Some p\<rparr>)\<rparr>"
    "Q1 = Q(P_siblings 0 := ns, P_children p := Q (P_children p) @ [P_siblings c])"
    using sys_ok_proc_alloc[OF ok alive free(1)] by blast
  have fr: "threads s1 = threads s" "mem s1 = mem s" "current_thread s1 = current_thread s"
    "procs s1 = (procs s)(c := (procs s c)\<lparr>p_parent := Some p\<rparr>)" "thread_count s1 = thread_count s"
    by (subst s1(3), simp)+
  have q: "Q1 Thread_h = T_next t # ms" "Q1 Readyq = Q Readyq" using free(2) s1(4) by simp_all
  have alive1: "proc_alive s1 c" by (simp add: proc_alive_def fr)
  have st1: "read_state v s1 = Some st" using read_state_cong[of s1 s v] st by (simp add: fr)
  obtain t' s' Q' where s': "create_thread v (Some c) s1 = Some (Some t', s')" "sys_ok Q' s'" "T_next t = T_next t'"
    "t_status (threads s1 t') = T_STATUS_NONE" "threads s' = (threads s1)(t' := new_tcb c st (threads s1 t'))"
    "procs s' = procs s1" "current_thread s' = current_thread s1" "Q' Readyq = Q1 Readyq @ [T_sched t']"
    "count_error s' = count_error s1"
    using create_thread_correct[OF s1(2) alive1 q(1) st1] by blast
  have "count_error s1 = count_error s" by (simp add: count_error_def live_threads_def fr)
  then show ?thesis
    using s' fr q c a(2) s1(1)
    by (intro exI[of _ s'] exI[of _ Q']) (simp add: create_process_s_def get_processid_s_def)
qed

section \<open>Trap managers\<close>

lemma sys_ok_set_mgr:
  assumes ok: "sys_ok Q s" and m: "mgrs_ok ((procs s)(p := x))" and par: "p_parent x = p_parent (procs s p)"
  shows "sys_ok Q (s\<lparr>procs := (procs s)(p := x)\<rparr>)"
proof -
  let ?s' = "s\<lparr>procs := (procs s)(p := x)\<rparr>"
  have same: "p_parent (procs ?s' c) = p_parent (procs s c)" for c using par by simp
  have "proc_inv Q (procs ?s')"
    using kernel_ok_procs[OF sys_ok_kernel[OF ok]] unfolding proc_inv_def parent_rel_def same .
  then have "kernel_ok Q ?s'" using kernel_okD[OF sys_ok_kernel[OF ok]] by (intro kernel_okI) simp_all
  moreover have "mailbox Q ?s' = mailbox Q s" by (rule mailbox_frame) simp_all
  ultimately show ?thesis using m sys_okD[OF ok] by (intro sys_okI) simp_all
qed

text \<open>
  The three managers are three cells of the same kind in a process descriptor: \<open>mgr\<close> reads the cell,
  \<open>set_mgr\<close> writes it and nothing else.
\<close>

locale mgr_cell =
  fixes mgr :: "pcb_t \<Rightarrow> tid option" and set_mgr :: "tid option \<Rightarrow> pcb_t \<Rightarrow> pcb_t"
  assumes set_get: "mgr (set_mgr m x) = m"
    and set_parent: "p_parent (set_mgr m x) = p_parent x"
    and set_others: "pgm_mgr (set_mgr m x) \<in> {pgm_mgr x, m}" "tlb_mgr (set_mgr m x) \<in> {tlb_mgr x, m}"
      "sys_mgr (set_mgr m x) \<in> {sys_mgr x, m}"
begin

lemma mgrs_ok_set:
  assumes "mgrs_ok ps" "valid_tid m"
  shows "mgrs_ok (ps(p := set_mgr (Some m) (ps p)))"
proof -
  have "valid_tid t" if "f (set_mgr (Some m) (ps p)) = Some t" "f (set_mgr (Some m) (ps p)) \<in> {f (ps p), Some m}"
    "\<And>t. f (ps p) = Some t \<Longrightarrow> valid_tid t" for f :: "pcb_t \<Rightarrow> tid option" and t
    using that assms(2) by auto
  then show ?thesis
    using set_others[of "Some m" "ps p"] mgrs_okD[OF assms(1)] unfolding mgrs_ok_def by (metis fun_upd_apply)
qed

lemma set_first_time:
  assumes ok: "sys_ok Q s" and a: "t_pcb (threads s a) = Some p" and m: "valid_tid m"
    and unset: "mgr (procs s p) = None"
  shows "setmgr mgr set_mgr (Some m) a s =
      Some (Some m, True, s\<lparr>procs := (procs s)(p := set_mgr (Some m) (procs s p))\<rparr>) \<and>
    sys_ok Q (s\<lparr>procs := (procs s)(p := set_mgr (Some m) (procs s p))\<rparr>)"
  using sys_ok_set_mgr[OF ok mgrs_ok_set[OF sys_ok_mgrs[OF ok] m] set_parent] a unset
  by (simp add: setmgr_def upd_defs)

lemma set_null: "setmgr mgr set_mgr None a s = Some (None, True, s)"
  by (simp add: setmgr_def)

lemma set_twice:
  assumes ok: "sys_ok Q s" and cur: "current_thread s = Some SSI_thread"
    and a: "valid_tid a" "t_pcb (threads s a) = Some p" and is_set: "mgr (procs s p) \<noteq> None"
  shows "\<exists>s' Q'. setmgr mgr set_mgr (Some m) a s = Some (None, False, s') \<and> sys_ok Q' s' \<and>
    killed (dying (procs s) p - {0}) (dying (procs s) p) s s'"
  using terminate_process_s_correct[OF ok cur a] is_set a(2) by (auto simp: setmgr_def)

lemma set_total:
  assumes ok: "sys_ok Q s" and cur: "current_thread s = Some SSI_thread"
    and a: "valid_tid a" "t_pcb (threads s a) = Some p" and m: "\<And>t. m = Some t \<Longrightarrow> valid_tid t"
  shows "\<exists>r sb s' Q'. setmgr mgr set_mgr m a s = Some (r, sb, s') \<and> sys_ok Q' s' \<and>
    current_thread s' = Some SSI_thread \<and> count_error s' = count_error s"
proof (cases m)
  case None
  with set_null ok cur show ?thesis by auto
next
  case (Some t)
  show ?thesis
  proof (cases "mgr (procs s p)")
    case None
    let ?s' = "s\<lparr>procs := (procs s)(p := set_mgr (Some t) (procs s p))\<rparr>"
    have "count_error ?s' = count_error s" by (simp add: count_error_def live_threads_def)
    with set_first_time[OF ok a(2) m[OF Some] None] cur Some show ?thesis by auto
  next
    case set: (Some u)
    with set_twice[OF ok cur a, of t] Some cur show ?thesis by (auto simp: killed_def)
  qed
qed

end

interpretation pgm: mgr_cell pgm_mgr "\<lambda>m x. x\<lparr>pgm_mgr := m\<rparr>"
  by unfold_locales simp_all

interpretation tlb: mgr_cell tlb_mgr "\<lambda>m x. x\<lparr>tlb_mgr := m\<rparr>"
  by unfold_locales simp_all

interpretation sysm: mgr_cell sys_mgr "\<lambda>m x. x\<lparr>sys_mgr := m\<rparr>"
  by unfold_locales simp_all

lemmas setmgr_s_defs = setpgmmgr_s_def settlbmgr_s_def setsysmgr_s_def

section \<open>Input and output\<close>

lemma sys_ok_do_io:
  assumes "sys_ok Q s" "valid_tid a"
  shows "sys_ok Q (snd (do_io_s dev cmd d1 d2 a s))"
  using assms sys_ok_soft_blocked devices_ok_upd(2)[OF sys_ok_devices[OF assms(1)]]
  by (simp add: do_io_s_def Let_def)

lemma do_io_frame:
  "current_thread (snd (do_io_s dev cmd d1 d2 a s)) = current_thread s"
  "threads (snd (do_io_s dev cmd d1 d2 a s)) = threads s"
  "count_error (snd (do_io_s dev cmd d1 d2 a s)) = count_error s"
  by (simp_all add: do_io_s_def Let_def count_error_def live_threads_def)

section \<open>Waiting for the clock breaks the queues\<close>

text \<open>
  The applicant of a service waits for the SSI, so it is linked in \<open>t_wait4me\<close> of the SSI, at any place,
  when \<open>wait_for_clock_s\<close> links it in \<open>t_wait4clock\<close> too: after that no assignment of contents to the
  lists of the kernel explains the pointers. Whoever follows the pointers from the head of the waiting list
  still comes to the applicant, by the same nodes as before, but the node before it is now the clock queue.
\<close>

lemma chain_reaches:
  assumes "chain l h xs t" "chain l' h (pre @ y # rest) t'" "\<forall>n \<in> set (h # pre). lnext l n = lnext l' n"
    and "t \<notin> set (pre @ [y])"
  shows "lprev l y = Some (last (h # pre))"
  using assms
proof (induction pre arbitrary: h xs)
  case Nil
  then show ?case by (cases xs) auto
next
  case (Cons z pre)
  then obtain ys where "xs = z # ys" by (cases xs) auto
  with Cons.IH[of z ys] Cons.prems show ?case by auto
qed

lemma add_tail_next_same:
  assumes "list_add_tail n h l = Some l'" "lprev l h = Some h" "m \<noteq> n" "m \<noteq> h"
  shows "lnext l' m = lnext l m"
  using assms by (auto simp: list_add_tail_def list_add_between_def put_next_def put_prev_def)

lemma wait_for_clock_breaks_lists:
  assumes ok: "sys_ok Q s" and a: "valid_tid a"
    and w: "t_status (threads s a) = T_STATUS_W4MSG" "t_wait4sender (threads s a) = Some SSI_thread"
  shows "\<exists>s'. wait_for_clock_s a s = Some s' \<and> (\<forall>Q'. \<not> kernel_ok Q' s')"
proof -
  note kok = sys_ok_kernel[OF ok]
  note sh = kernel_ok_shape[OF kok]
  let ?h = "T_wait4me SSI_thread"
  have "T_sched a \<in> set (Q ?h)" using waiting_list_iff[OF ok a] w by simp
  then obtain pre rest where Q: "Q ?h = pre @ T_sched a # rest" by (meson split_list)
  have ch: "chain (lk s) ?h (pre @ T_sched a # rest) ?h" using shape_ring[OF sh, of ?h] Q by (simp add: ring_def)
  have d: "distinct (?h # Q ?h)" using shape_ring[OF sh, of ?h] by (simp add: ring_def)
  have clk: "lnext (lk s) T_wait4clock = Some T_wait4clock" "lprev (lk s) T_wait4clock = Some T_wait4clock"
    using shape_ring[OF sh, of T_wait4clock] sys_ok_clock[OF ok] by (simp_all add: ring_def)
  obtain l where l: "list_add_tail (T_sched a) T_wait4clock (lk s) = Some l" "lprev l (T_sched a) = Some T_wait4clock"
    using clk by (simp add: list_add_tail_def list_add_between_def put_next_def put_prev_def)
  have members: "n \<in> range T_sched" if "n \<in> set (Q ?h)" for n
    using member_type[OF kok, of ?h n] member_ok_cases(3)[of ?h n] that by auto
  have same: "lnext l n = lnext (lk s) n" if "n \<in> set (?h # pre)" for n
    by (rule add_tail_next_same[OF l(1) clk(2)]) (use that d Q members[of n] in auto)
  have last: "last (?h # pre) \<noteq> T_wait4clock" using members[of "last pre"] Q by (cases "pre = []") auto
  have "\<not> kernel_ok Q' (s\<lparr>lk := l\<rparr>)" for Q'
  proof
    assume "kernel_ok Q' (s\<lparr>lk := l\<rparr>)"
    from shape_ring[OF kernel_ok_shape[OF this], of ?h]
    have "chain l ?h (Q' ?h) ?h" by (simp add: ring_def)
    from chain_reaches[OF this ch] same d Q l(2) last show False by auto
  qed
  with l(1) show ?thesis by (simp add: wait_for_clock_s_def thread_enqueue_def with_links_def)
qed

end
