(* ===== verification/Ssi.thy ===== *)
theory Ssi imports Creation begin

text \<open>
  The system service interface, \<open>src/src/SSI/ssi.c\<close>, and its clients, the request stubs of
  \<open>src/src/nucleus.h\<close>. A request is a small structure in the memory of the client whose first word
  is the tag; the client sends its address to the SSI and waits for the reply of the SSI.
\<close>

section \<open>The SSI thread\<close>

definition ssi_thread_init :: "kstate \<Rightarrow> (tid \<times> kstate) option" where
  "ssi_thread_init s = do {
     let s = upd_thread SSI_thread (\<lambda>x. x\<lparr>t_pcb := None\<rparr>) s;
     let s = upd_thread SSI_thread (\<lambda>x. x\<lparr>t_status := T_STATUS_READY\<rparr>) s;
     let s = upd_thread SSI_thread (\<lambda>x. x\<lparr>t_wait4sender := None\<rparr>) s;
     w \<leftarrow> as_u32 (cpsr (t_s (threads s SSI_thread)));
     let s = upd_thread SSI_thread (\<lambda>x. x\<lparr>t_s := (t_s x)\<lparr>cpsr := U (STATUS_ALL_INT_DISABLE w)\<rparr>\<rparr>) s;
     let s = init_head (T_msgq SSI_thread) s;
     let s = init_head (T_wait4me SSI_thread) s;
     let s = s\<lparr>soft_blocked_thread := (\<lambda>i. if i < 5 then None else soft_blocked_thread s i)\<rparr>;
     let s = s\<lparr>SSI := Some SSI_thread\<rparr>;
     Some (SSI_thread, s)
   }"

fun req_field :: "val \<Rightarrow> nat \<Rightarrow> kstate \<Rightarrow> val option" where
  "req_field (U a) i s = (if a = 0 then None else Some (mem s (a + 4 * of_nat i)))"
| "req_field _ i s = None"

definition GET_ERRNO :: u32 where "GET_ERRNO = 0"
definition CREATE_PROCESS :: u32 where "CREATE_PROCESS = 1"
definition CREATE_THREAD :: u32 where "CREATE_THREAD = 2"
definition TERMINATE_PROCESS :: u32 where "TERMINATE_PROCESS = 3"
definition TERMINATE_THREAD :: u32 where "TERMINATE_THREAD = 4"
definition SETPGMMGR :: u32 where "SETPGMMGR = 5"
definition SETTLBMGR :: u32 where "SETTLBMGR = 6"
definition SETSYSMGR :: u32 where "SETSYSMGR = 7"
definition GET_CPUTIME :: u32 where "GET_CPUTIME = 8"
definition WAIT_FOR_CLOCK :: u32 where "WAIT_FOR_CLOCK = 9"
definition DO_IO :: u32 where "DO_IO = 10"
definition GET_PROCESSID :: u32 where "GET_PROCESSID = 11"
definition GET_MYTHREADID :: u32 where "GET_MYTHREADID = 12"
definition GET_PARENTPROCID :: u32 where "GET_PARENTPROCID = 13"

lemmas tag_defs = GET_ERRNO_def CREATE_PROCESS_def CREATE_THREAD_def TERMINATE_PROCESS_def
  TERMINATE_THREAD_def SETPGMMGR_def SETTLBMGR_def SETSYSMGR_def GET_CPUTIME_def WAIT_FOR_CLOCK_def
  DO_IO_def GET_PROCESSID_def GET_MYTHREADID_def GET_PARENTPROCID_def

text \<open>
  The services return to the loop (\<open>None\<close>) or stop the machine (\<open>Some Panic\<close>). \<open>cpu\<close> is the state of
  the SSI thread that its SYSCALLs save.
\<close>

definition ssi_reply :: "state_t \<Rightarrow> tid \<Rightarrow> val \<Rightarrow> kstate \<Rightarrow> (outcome option \<times> kstate) option" where
  "ssi_reply cpu applicant reply s = do {
     (_, s) \<leftarrow> msgsend_k cpu (Tcb applicant) reply s;
     Some (None, s)
   }"

definition ssi_setmgr ::
  "(tid option \<Rightarrow> tid \<Rightarrow> kstate \<Rightarrow> (tid option \<times> bool \<times> kstate) option) \<Rightarrow>
   state_t \<Rightarrow> tid \<Rightarrow> val \<Rightarrow> kstate \<Rightarrow> (outcome option \<times> kstate) option" where
  "ssi_setmgr service cpu applicant new_mgr s = do {
     m \<leftarrow> as_tcb new_mgr;
     (reply, send_back, s) \<leftarrow> service m applicant s;
     if send_back then ssi_reply cpu applicant (of_tcb reply) s else Some (None, s)
   }"

definition ssi_handle :: "state_t \<Rightarrow> tid \<Rightarrow> val \<Rightarrow> kstate \<Rightarrow> (outcome option \<times> kstate) option" where
  "ssi_handle cpu applicant msg s = do {
     tag \<leftarrow> req_field msg 0 s;
     if tag = U GET_ERRNO then ssi_reply cpu applicant (U (word_of_int (get_errno_s applicant s))) s
     else if tag = U CREATE_PROCESS then do {
       st \<leftarrow> req_field msg 1 s;
       (t, s) \<leftarrow> create_process_s st applicant s;
       ssi_reply cpu applicant (of_tcb t) s }
     else if tag = U CREATE_THREAD then do {
       st \<leftarrow> req_field msg 1 s;
       (t, s) \<leftarrow> create_thread_s st applicant s;
       ssi_reply cpu applicant (of_tcb t) s }
     else if tag = U TERMINATE_PROCESS then do { s \<leftarrow> terminate_process_s applicant s; Some (None, s) }
     else if tag = U TERMINATE_THREAD then do { s \<leftarrow> terminate_thread_s applicant s; Some (None, s) }
     else if tag = U SETPGMMGR then do { m \<leftarrow> req_field msg 1 s; ssi_setmgr setpgmmgr_s cpu applicant m s }
     else if tag = U SETTLBMGR then do { m \<leftarrow> req_field msg 1 s; ssi_setmgr settlbmgr_s cpu applicant m s }
     else if tag = U SETSYSMGR then do { m \<leftarrow> req_field msg 1 s; ssi_setmgr setsysmgr_s cpu applicant m s }
     else if tag = U GET_CPUTIME then ssi_reply cpu applicant (U (getcputime_s applicant s)) s
     else if tag = U WAIT_FOR_CLOCK then do { s \<leftarrow> wait_for_clock_s applicant s; Some (None, s) }
     else if tag = U DO_IO then do {
       device \<leftarrow> req_field msg 1 s;
       command \<leftarrow> req_field msg 2 s;
       data1 \<leftarrow> req_field msg 3 s;
       data2 \<leftarrow> req_field msg 4 s;
       Some (do_io_s device command data1 data2 applicant s) }
     else if tag = U GET_PROCESSID then do {
       t \<leftarrow> req_field msg 1 s;
       t \<leftarrow> as_tcb t;
       t \<leftarrow> t;
       ssi_reply cpu applicant (of_pcb (get_processid_s t s)) s }
     else if tag = U GET_PARENTPROCID then do {
       p \<leftarrow> req_field msg 1 s;
       p \<leftarrow> as_pcb p;
       p \<leftarrow> p;
       ssi_reply cpu applicant (of_pcb (get_parentprocid_s p s)) s }
     else if tag = U GET_MYTHREADID then do {
       t \<leftarrow> req_field msg 1 s;
       ssi_reply cpu applicant (get_mythreadid_s t) s }
     else Some (Some Panic, s)
   }"

text \<open>
  One turn of the loop, from the request that the last receive stored in the variable \<open>msg\<close> (at the
  address \<open>msg_at\<close>) to the next receive.
\<close>

definition ssi_turn :: "state_t \<Rightarrow> u32 \<Rightarrow> tid \<Rightarrow> kstate \<Rightarrow> (outcome \<times> kstate) option" where
  "ssi_turn cpu msg_at applicant s = do {
     (stop, s) \<leftarrow> ssi_handle cpu applicant (mem s msg_at) s;
     (case stop of
        Some out \<Rightarrow> Some (out, s)
      | None \<Rightarrow> msgrecv_k cpu NULL (U msg_at) s)
   }"

section \<open>The client stubs\<close>

datatype request =
    Geterrno | Create_process val | Create_thread val | Terminate_process | Terminate_thread
  | Setpgmmgr val | Settlbmgr val | Setsysmgr val | Getcputime | Waitforclock
  | Do_io val val val val | Get_processid val | Get_parentprocid val | Get_mythreadid

text \<open>
  A stub builds the structure \<open>req\<close>, sends it to the SSI and receives the reply, in the variable \<open>retval\<close>
  or, when the second component is \<open>False\<close>, nowhere (\<open>NULL\<close>). The structures differ: one definition for
  each of them, word by word; the send and the receive that all of them make follow below.
\<close>

type_synonym stub = "val list \<times> bool"

definition geterrno_stub :: stub where "geterrno_stub = ([U GET_ERRNO], True)"
definition create_process_stub :: "val \<Rightarrow> stub" where "create_process_stub st = ([U CREATE_PROCESS, st], True)"
definition create_thread_stub :: "val \<Rightarrow> stub" where "create_thread_stub st = ([U CREATE_THREAD, st], True)"
definition terminate_process_stub :: stub where "terminate_process_stub = ([U TERMINATE_PROCESS], False)"
definition terminate_thread_stub :: stub where "terminate_thread_stub = ([U TERMINATE_THREAD], False)"
definition setpgmmgr_stub :: "val \<Rightarrow> stub" where "setpgmmgr_stub m = ([U SETPGMMGR, m], True)"
definition settlbmgr_stub :: "val \<Rightarrow> stub" where "settlbmgr_stub m = ([U SETTLBMGR, m], True)"
definition setsysmgr_stub :: "val \<Rightarrow> stub" where "setsysmgr_stub m = ([U SETSYSMGR, m], True)"
definition getcputime_stub :: stub where "getcputime_stub = ([U GET_CPUTIME], True)"
definition waitforclock_stub :: stub where "waitforclock_stub = ([U WAIT_FOR_CLOCK], False)"
definition do_io_stub :: "val \<Rightarrow> val \<Rightarrow> val \<Rightarrow> val \<Rightarrow> stub" where
  "do_io_stub device command data1 data2 = ([U DO_IO, device, command, data1, data2], True)"
definition get_processid_stub :: "val \<Rightarrow> stub" where "get_processid_stub t = ([U GET_PROCESSID, t], True)"
definition get_parentprocid_stub :: "val \<Rightarrow> stub" where "get_parentprocid_stub p = ([U GET_PARENTPROCID, p], True)"
definition get_mythreadid_stub :: stub where "get_mythreadid_stub = ([U GET_MYTHREADID], True)"

text \<open>The macros for the classes of devices.\<close>

definition do_disk_io :: "val \<Rightarrow> val \<Rightarrow> val \<Rightarrow> stub" where "do_disk_io dev cmd d1 = do_io_stub dev cmd d1 (U 0)"
definition do_tape_io :: "val \<Rightarrow> val \<Rightarrow> val \<Rightarrow> stub" where "do_tape_io dev cmd d1 = do_io_stub dev cmd d1 (U 0)"
definition do_net_io :: "val \<Rightarrow> val \<Rightarrow> val \<Rightarrow> val \<Rightarrow> stub" where "do_net_io dev cmd d1 d2 = do_io_stub dev cmd d1 d2"
definition do_printer_io :: "val \<Rightarrow> val \<Rightarrow> val \<Rightarrow> stub" where "do_printer_io dev cmd d1 = do_io_stub dev cmd d1 (U 0)"
definition do_terminal_io :: "val \<Rightarrow> val \<Rightarrow> stub" where "do_terminal_io dev cmd = do_io_stub dev cmd (U 0) (U 0)"

fun stub_of :: "request \<Rightarrow> stub" where
  "stub_of Geterrno = geterrno_stub"
| "stub_of (Create_process st) = create_process_stub st"
| "stub_of (Create_thread st) = create_thread_stub st"
| "stub_of Terminate_process = terminate_process_stub"
| "stub_of Terminate_thread = terminate_thread_stub"
| "stub_of (Setpgmmgr m) = setpgmmgr_stub m"
| "stub_of (Settlbmgr m) = settlbmgr_stub m"
| "stub_of (Setsysmgr m) = setsysmgr_stub m"
| "stub_of Getcputime = getcputime_stub"
| "stub_of Waitforclock = waitforclock_stub"
| "stub_of (Do_io device command data1 data2) = do_io_stub device command data1 data2"
| "stub_of (Get_processid t) = get_processid_stub t"
| "stub_of (Get_parentprocid p) = get_parentprocid_stub p"
| "stub_of Get_mythreadid = get_mythreadid_stub"

definition encode :: "request \<Rightarrow> val list" where "encode r = fst (stub_of r)"
definition wants_reply :: "request \<Rightarrow> bool" where "wants_reply r = snd (stub_of r)"

lemmas stub_defs = geterrno_stub_def create_process_stub_def create_thread_stub_def terminate_process_stub_def terminate_thread_stub_def setpgmmgr_stub_def settlbmgr_stub_def setsysmgr_stub_def getcputime_stub_def waitforclock_stub_def do_io_stub_def get_processid_stub_def get_parentprocid_stub_def get_mythreadid_stub_def

lemma encode_simps [simp]:
  "encode Geterrno = [U GET_ERRNO]"
  "encode (Create_process st) = [U CREATE_PROCESS, st]"
  "encode (Create_thread st) = [U CREATE_THREAD, st]"
  "encode Terminate_process = [U TERMINATE_PROCESS]"
  "encode Terminate_thread = [U TERMINATE_THREAD]"
  "encode (Setpgmmgr m) = [U SETPGMMGR, m]"
  "encode (Settlbmgr m) = [U SETTLBMGR, m]"
  "encode (Setsysmgr m) = [U SETSYSMGR, m]"
  "encode Getcputime = [U GET_CPUTIME]"
  "encode Waitforclock = [U WAIT_FOR_CLOCK]"
  "encode (Do_io device command data1 data2) = [U DO_IO, device, command, data1, data2]"
  "encode (Get_processid t) = [U GET_PROCESSID, t]"
  "encode (Get_parentprocid p) = [U GET_PARENTPROCID, p]"
  "encode Get_mythreadid = [U GET_MYTHREADID]"
  by (simp_all add: encode_def stub_defs)

lemma wants_reply_eq [simp]:
  "wants_reply r \<longleftrightarrow> r \<notin> {Terminate_process, Terminate_thread, Waitforclock}"
  by (cases r) (simp_all add: wants_reply_def stub_defs)

fun write_words :: "u32 \<Rightarrow> val list \<Rightarrow> memory \<Rightarrow> memory" where
  "write_words a [] m = m"
| "write_words a (w # ws) m = write_words (a + 4) ws (m(a := w))"

text \<open>
  Each stub sends the request and waits for the reply of the SSI.
  \<open>cpu\<close> is the state of the client at the SYSCALL, \<open>hcpu\<close> and \<open>hframe\<close> belong to the handler.
\<close>

definition stub_send ::
  "request \<Rightarrow> u32 \<Rightarrow> state_t \<Rightarrow> state_t \<Rightarrow> u32 \<Rightarrow> kstate \<Rightarrow> (outcome \<times> kstate) option" where
  "stub_send r req_at cpu hcpu hframe s = do {
     let s = s\<lparr>mem := write_words req_at (encode r) (mem s)\<rparr>;
     syscall_h hcpu hframe (enter_syscall cpu SYS_SEND (of_tcb (SSI s)) (U req_at) s)
   }"

definition stub_recv ::
  "request \<Rightarrow> u32 \<Rightarrow> state_t \<Rightarrow> state_t \<Rightarrow> u32 \<Rightarrow> kstate \<Rightarrow> (outcome \<times> kstate) option" where
  "stub_recv r retval_at cpu hcpu hframe s =
     syscall_h hcpu hframe
       (enter_syscall cpu SYS_RECV (of_tcb (SSI s)) (if wants_reply r then U retval_at else NULL) s)"

section \<open>Requests are decoded as they were encoded\<close>

lemma req_field_encode:
  assumes "a \<noteq> 0" "i < length (encode r)" "\<And>j. j < length (encode r) \<Longrightarrow> mem s (a + 4 * of_nat j) = encode r ! j"
  shows "req_field (U a) i s = Some (encode r ! i)"
  using assms by simp

lemma write_words_other:
  "(\<And>i. i < length ws \<Longrightarrow> b \<noteq> a + 4 * of_nat i) \<Longrightarrow> write_words a ws m b = m b"
proof (induction ws arbitrary: a m)
  case Nil
  then show ?case by simp
next
  case (Cons w ws)
  have "b \<noteq> a" using Cons.prems[of 0] by simp
  have "b \<noteq> (a + 4) + 4 * of_nat i" if "i < length ws" for i
    using Cons.prems[of "Suc i"] that by (simp add: algebra_simps)
  then have "write_words (a + 4) ws (m(a := w)) b = (m(a := w)) b" by (rule Cons.IH)
  with \<open>b \<noteq> a\<close> show ?case by simp
qed

lemma word_offset_nonzero:
  assumes "i < 2 ^ 29"
  shows "4 + 4 * of_nat i \<noteq> (0 :: u32)"
proof
  assume "4 + 4 * of_nat i = (0 :: u32)"
  then have "(of_nat (4 + 4 * i) :: u32) = 0" by simp
  then have "2 ^ 32 dvd 4 + 4 * i" by (simp only: word_of_nat_eq_0_iff) simp
  with assms show False by (auto dest: dvd_imp_le)
qed

lemma write_words_get:
  "i < length ws \<Longrightarrow> length ws < 2 ^ 29 \<Longrightarrow> write_words a ws m (a + 4 * of_nat i) = ws ! i"
proof (induction ws arbitrary: a m i)
  case Nil
  then show ?case by simp
next
  case (Cons w ws)
  show ?case
  proof (cases i)
    case 0
    have "a \<noteq> (a + 4) + 4 * of_nat j" if "j < length ws" for j
      using word_offset_nonzero[of j] that Cons.prems(2) by (simp add: add.assoc)
    with 0 write_words_other[of ws a "a + 4" "m(a := w)"] show ?thesis by simp
  next
    case (Suc j)
    have "write_words (a + 4) ws (m(a := w)) ((a + 4) + 4 * of_nat j) = ws ! j"
      using Suc Cons.prems by (intro Cons.IH) simp_all
    moreover have "a + 4 * of_nat i = (a + 4) + 4 * of_nat j" by (simp add: Suc algebra_simps)
    ultimately show ?thesis using Suc by (simp only: write_words.simps nth_Cons_Suc)
  qed
qed

lemma encode_length: "0 < length (encode r) \<and> length (encode r) \<le> 5"
  by (cases r) simp_all

lemma write_words_encode:
  "i < length (encode r) \<Longrightarrow> write_words a (encode r) m (a + 4 * of_nat i) = encode r ! i"
  using write_words_get[of i "encode r" a m] encode_length[of r] by simp

text \<open>What the SSI does for each request.\<close>

fun serve :: "state_t \<Rightarrow> tid \<Rightarrow> request \<Rightarrow> kstate \<Rightarrow> (outcome option \<times> kstate) option" where
  "serve cpu a Geterrno s = ssi_reply cpu a (U (word_of_int (errno (threads s a)))) s"
| "serve cpu a (Create_process st) s =
     do { (t, s) \<leftarrow> create_process_s st a s; ssi_reply cpu a (of_tcb t) s }"
| "serve cpu a (Create_thread st) s =
     do { (t, s) \<leftarrow> create_thread_s st a s; ssi_reply cpu a (of_tcb t) s }"
| "serve cpu a Terminate_process s = map_option (Pair None) (terminate_process_s a s)"
| "serve cpu a Terminate_thread s = map_option (Pair None) (terminate_thread_s a s)"
| "serve cpu a (Setpgmmgr m) s = ssi_setmgr setpgmmgr_s cpu a m s"
| "serve cpu a (Settlbmgr m) s = ssi_setmgr settlbmgr_s cpu a m s"
| "serve cpu a (Setsysmgr m) s = ssi_setmgr setsysmgr_s cpu a m s"
| "serve cpu a Getcputime s = ssi_reply cpu a (U (run_time (threads s a))) s"
| "serve cpu a Waitforclock s = map_option (Pair None) (wait_for_clock_s a s)"
| "serve cpu a (Do_io dev cmd x y) s = Some (do_io_s dev cmd x y a s)"
| "serve cpu a (Get_processid t) s =
     do { t \<leftarrow> as_tcb t; t \<leftarrow> t; ssi_reply cpu a (of_pcb (t_pcb (threads s t))) s }"
| "serve cpu a (Get_parentprocid p) s =
     do { p \<leftarrow> as_pcb p; p \<leftarrow> p; ssi_reply cpu a (of_pcb (p_parent (procs s p))) s }"
| "serve cpu a Get_mythreadid s = ssi_reply cpu a (Tcb a) s"

definition request_at :: "u32 \<Rightarrow> request \<Rightarrow> kstate \<Rightarrow> bool" where
  "request_at a r s \<longleftrightarrow> a \<noteq> 0 \<and> (\<forall>i < length (encode r). mem s (a + 4 * of_nat i) = encode r ! i)"

text \<open>\<open>GET_MYTHREADID\<close> is the exception: the SSI answers with a word that the client did not write.\<close>

lemma ssi_handle_encode:
  assumes r: "request_at a r s" and n: "r \<noteq> Get_mythreadid"
  shows "ssi_handle cpu t (U a) s = serve cpu t r s"
proof -
  have f: "mem s (a + 4 * of_nat i) = encode r ! i" if "i < length (encode r)" for i
    using r that by (simp add: request_at_def)
  have a: "a \<noteq> 0" using r by (simp add: request_at_def)
  have 0: "mem s a = encode r ! 0" using f[of 0] by (cases r) simp_all
  show ?thesis
    using f[of 1] f[of 2] f[of 3] f[of 4] 0 a n
    by (cases r; simp add: ssi_handle_def tag_defs get_errno_s_def getcputime_s_def get_processid_s_def
        get_parentprocid_s_def map_option_case split: Option.bind_split option.split)
qed

lemma ssi_handle_mythreadid:
  assumes "request_at a Get_mythreadid s"
  shows "ssi_handle cpu t (U a) s = ssi_reply cpu t (mem s (a + 4)) s"
  using assms by (simp add: request_at_def ssi_handle_def tag_defs get_mythreadid_s_def)

section \<open>The services return\<close>

text \<open>A request that the service can answer: pointers of the right kind, a living applicant.\<close>

definition readable :: "val \<Rightarrow> bool" where
  "readable st \<longleftrightarrow> (\<exists>a. st = U a \<and> a \<noteq> 0) \<or> (\<exists>t. st = TcbState t)"

definition thread_or_null :: "val \<Rightarrow> bool" where
  "thread_or_null m \<longleftrightarrow> m = NULL \<or> (\<exists>t. m = Tcb t \<and> valid_tid t)"

fun request_ok :: "request \<Rightarrow> tid \<Rightarrow> kstate \<Rightarrow> bool" where
  "request_ok (Create_process st) a s \<longleftrightarrow> readable st"
| "request_ok (Create_thread st) a s \<longleftrightarrow> readable st"
| "request_ok Terminate_process a s \<longleftrightarrow> t_pcb (threads s a) \<noteq> None"
| "request_ok Terminate_thread a s \<longleftrightarrow> t_pcb (threads s a) \<noteq> None"
| "request_ok (Setpgmmgr m) a s \<longleftrightarrow> t_pcb (threads s a) \<noteq> None \<and> thread_or_null m"
| "request_ok (Settlbmgr m) a s \<longleftrightarrow> t_pcb (threads s a) \<noteq> None \<and> thread_or_null m"
| "request_ok (Setsysmgr m) a s \<longleftrightarrow> t_pcb (threads s a) \<noteq> None \<and> thread_or_null m"
| "request_ok Waitforclock a s \<longleftrightarrow> False"
| "request_ok (Get_processid t) a s \<longleftrightarrow> (\<exists>u. t = Tcb u)"
| "request_ok (Get_parentprocid p) a s \<longleftrightarrow> (\<exists>q. p = Pcb q)"
| "request_ok _ a s \<longleftrightarrow> True"

text \<open>The SSI runs in a state that satisfies the invariants.\<close>

definition ssi_running :: "kstate \<Rightarrow> bool" where
  "ssi_running s \<longleftrightarrow> (\<exists>Q. sys_ok Q s) \<and> current_thread s = Some SSI_thread"

lemma ssi_reply_total:
  assumes "ssi_running s" "handler_mode cpu" "valid_tid a"
  shows "\<exists>s'. ssi_reply cpu a v s = Some (None, s') \<and> ssi_running s' \<and> count_error s' = count_error s"
proof -
  obtain Q where "sys_ok Q s" "current_thread s = Some SSI_thread" using assms(1) by (auto simp: ssi_running_def)
  from msgsend_k_total[OF this(1) assms(2) this(2) assms(3), of v] show ?thesis
    by (auto simp: ssi_reply_def ssi_running_def)
qed

lemma read_state_readable: "readable st \<Longrightarrow> \<exists>x. read_state st s = Some x"
  by (auto simp: readable_def)

lemma create_thread_total:
  assumes run: "ssi_running s" and p: "\<And>p. process = Some p \<Longrightarrow> proc_alive s p" and st: "readable st"
  shows "\<exists>r s'. create_thread st process s = Some (r, s') \<and> ssi_running s' \<and> count_error s' = count_error s"
proof -
  obtain Q where ok: "sys_ok Q s" and cur: "current_thread s = Some SSI_thread" using run by (auto simp: ssi_running_def)
  show ?thesis
  proof (cases "process = None \<or> Q Thread_h = []")
    case True
    with create_thread_fails[OF ok True] run show ?thesis by auto
  next
    case False
    then obtain p n ns where p': "process = Some p" and free: "Q Thread_h = n # ns" by (auto simp: neq_Nil_conv)
    obtain x where "read_state st s = Some x" using read_state_readable[OF st] by blast
    from create_thread_correct[OF ok p[OF p'] free this] p' cur show ?thesis
      by (auto simp: ssi_running_def)
  qed
qed

lemma create_process_total:
  assumes run: "ssi_running s" and a: "valid_tid a" and st: "readable st"
  shows "\<exists>r s'. create_process_s st a s = Some (r, s') \<and> ssi_running s' \<and> count_error s' = count_error s"
proof -
  obtain Q where ok: "sys_ok Q s" and cur: "current_thread s = Some SSI_thread" using run by (auto simp: ssi_running_def)
  show ?thesis
  proof (cases "t_pcb (threads s a) = None \<or> Q (P_siblings 0) = []")
    case True
    with create_process_no_slot[OF ok True] run show ?thesis by auto
  next
    case False
    then obtain p n ns where p: "t_pcb (threads s a) = Some p" and free: "Q (P_siblings 0) = n # ns" by (auto simp: neq_Nil_conv)
    then obtain c where c: "n = P_siblings c"
      using member_type[OF sys_ok_kernel[OF ok], of "P_siblings 0" n] member_ok_cases(1)[of "P_siblings 0" n] by auto
    note free' = free[unfolded c]
    show ?thesis
    proof (cases "Q Thread_h")
      case Nil
      with create_process_rolls_back[OF ok a p free' Nil, of st] cur show ?thesis by (auto simp: ssi_running_def)
    next
      case (Cons k ms)
      then obtain i where i: "k = T_next (Thread i)"
        using member_type[OF sys_ok_kernel[OF ok], of Thread_h k] member_ok_cases(2)[of Thread_h k] by auto
      obtain x where "read_state st s = Some x" using read_state_readable[OF st] by blast
      from create_process_correct[OF ok a p free' Cons[unfolded i] this] cur show ?thesis
        by (auto simp: ssi_running_def)
    qed
  qed
qed

lemma create_thread_s_total:
  assumes run: "ssi_running s" and a: "valid_tid a" and st: "readable st"
  shows "\<exists>r s'. create_thread_s st a s = Some (r, s') \<and> ssi_running s' \<and> count_error s' = count_error s"
proof -
  obtain Q where "sys_ok Q s" using run by (auto simp: ssi_running_def)
  with thread_process(2)[OF sys_ok_kernel a] create_thread_total[OF run _ st, of "t_pcb (threads s a)"]
  show ?thesis by (simp add: create_thread_s_def get_processid_s_def)
qed

lemma killed_running: "sys_ok Q s' \<Longrightarrow> killed P T s s' \<Longrightarrow> current_thread s = Some SSI_thread \<Longrightarrow>
  ssi_running s' \<and> count_error s' = count_error s"
  by (auto simp: ssi_running_def killed_def)

lemma terminate_total:
  assumes run: "ssi_running s" and a: "valid_tid a" "t_pcb (threads s a) = Some p"
  shows "\<exists>s'. terminate_process_s a s = Some s' \<and> ssi_running s' \<and> count_error s' = count_error s"
    and "\<exists>s'. terminate_thread_s a s = Some s' \<and> ssi_running s' \<and> count_error s' = count_error s"
proof -
  obtain Q where ok: "sys_ok Q s" and cur: "current_thread s = Some SSI_thread" using run by (auto simp: ssi_running_def)
  from terminate_process_s_correct[OF ok cur a] killed_running[OF _ _ cur]
  show "\<exists>s'. terminate_process_s a s = Some s' \<and> ssi_running s' \<and> count_error s' = count_error s" by blast
  obtain s' Q' where s': "terminate_thread_s a s = Some s'" "sys_ok Q' s'"
    and e: "if threads_of p s = {a} then killed (dying (procs s) p - {0}) (dying (procs s) p) s s'
     else current_thread s' = current_thread s \<and> count_error s' = count_error s"
    using terminate_thread_s_correct[OF ok cur a] by (cases "threads_of p s = {a}") auto
  have "ssi_running s' \<and> count_error s' = count_error s"
  proof (cases "threads_of p s = {a}")
    case True
    with e have "killed (dying (procs s) p - {0}) (dying (procs s) p) s s'" by simp
    with killed_running[OF s'(2) _ cur] show ?thesis by blast
  next
    case False
    with e have "current_thread s' = current_thread s \<and> count_error s' = count_error s" by simp
    with s'(2) cur show ?thesis by (auto simp: ssi_running_def)
  qed
  with s'(1) show "\<exists>s'. terminate_thread_s a s = Some s' \<and> ssi_running s' \<and> count_error s' = count_error s" by blast
qed

lemma ssi_setmgr_total:
  assumes run: "ssi_running s" and cpu: "handler_mode cpu" and a: "valid_tid a" "t_pcb (threads s a) \<noteq> None"
    and m: "thread_or_null m" and f: "f \<in> {setpgmmgr_s, settlbmgr_s, setsysmgr_s}"
  shows "\<exists>s'. ssi_setmgr f cpu a m s = Some (None, s') \<and> ssi_running s' \<and> count_error s' = count_error s"
proof -
  obtain Q where ok: "sys_ok Q s" and cur: "current_thread s = Some SSI_thread" using run by (auto simp: ssi_running_def)
  obtain p where p: "t_pcb (threads s a) = Some p" using a(2) by auto
  obtain t where t: "as_tcb m = Some t" "\<And>u. t = Some u \<Longrightarrow> valid_tid u" using m by (fastforce simp: thread_or_null_def)
  have "\<exists>r sb s' Q'. f t a s = Some (r, sb, s') \<and> sys_ok Q' s' \<and> current_thread s' = Some SSI_thread \<and>
      count_error s' = count_error s"
    using f pgm.set_total[OF ok cur a(1) p t(2)] tlb.set_total[OF ok cur a(1) p t(2)]
      sysm.set_total[OF ok cur a(1) p t(2)] by (auto simp: setmgr_s_defs)
  then obtain r sb s' where s': "f t a s = Some (r, sb, s')" "ssi_running s'" "count_error s' = count_error s"
    by (auto simp: ssi_running_def)
  show ?thesis
    using s' t(1) ssi_reply_total[OF s'(2) cpu a(1), of "of_tcb r"] by (cases sb) (auto simp: ssi_setmgr_def)
qed

lemma do_io_total:
  "ssi_running s \<Longrightarrow> valid_tid a \<Longrightarrow> ssi_running (snd (do_io_s d c x y a s)) \<and> count_error (snd (do_io_s d c x y a s)) = count_error s \<and>
   fst (do_io_s d c x y a s) \<in> {None, Some Panic}"
  using sys_ok_do_io[of _ s a d c x y] do_io_frame[of d c x y a s]
  by (auto simp: ssi_running_def) (auto simp: do_io_s_def Let_def split: if_splits)

text \<open>
  Every well-formed request is served: the service returns to the loop of the SSI or panics on
  purpose, and the invariants and the thread count hold.
\<close>

lemma serve_total:
  assumes run: "ssi_running s" and cpu: "handler_mode cpu" and a: "valid_tid a" and r: "request_ok r a s"
  shows "\<exists>out s'. serve cpu a r s = Some (out, s') \<and> out \<in> {None, Some Panic} \<and> ssi_running s' \<and>
    count_error s' = count_error s"
proof -
  have reply: "\<exists>s2. ssi_reply cpu a v s1 = Some (None, s2) \<and> ssi_running s2 \<and> count_error s2 = count_error s"
    if "ssi_running s1" "count_error s1 = count_error s" for s1 v
    using ssi_reply_total[OF that(1) cpu a] that(2) by metis
  have now: "\<exists>out s2. ssi_reply cpu a v s = Some (out, s2) \<and> (out = None \<or> out = Some Panic) \<and> ssi_running s2 \<and>
      count_error s2 = count_error s" for v
    using reply[OF run refl] by blast
  show ?thesis
  proof (cases r)
    case (Create_process st)
    with r create_process_total[OF run a, of st] obtain t s1 where
      "create_process_s st a s = Some (t, s1)" "ssi_running s1" "count_error s1 = count_error s" by auto
    with reply[of s1 "of_tcb t"] Create_process show ?thesis by auto
  next
    case (Create_thread st)
    with r create_thread_s_total[OF run a, of st] obtain t s1 where
      "create_thread_s st a s = Some (t, s1)" "ssi_running s1" "count_error s1 = count_error s" by auto
    with reply[of s1 "of_tcb t"] Create_thread show ?thesis by auto
  next
    case Terminate_process
    with r terminate_total(1)[OF run a] show ?thesis by auto
  next
    case Terminate_thread
    with r terminate_total(2)[OF run a] show ?thesis by auto
  next
    case (Setpgmmgr m)
    with r ssi_setmgr_total[OF run cpu a, of m setpgmmgr_s] show ?thesis by auto
  next
    case (Settlbmgr m)
    with r ssi_setmgr_total[OF run cpu a, of m settlbmgr_s] show ?thesis by auto
  next
    case (Setsysmgr m)
    with r ssi_setmgr_total[OF run cpu a, of m setsysmgr_s] show ?thesis by auto
  next
    case (Do_io d c x y)
    with do_io_total[OF run a, of d c x y] show ?thesis by (cases "do_io_s d c x y a s") auto
  qed (use r now in auto)
qed

text \<open>One turn of the loop: serve the request, then receive the next one or give up the processor.\<close>

lemma ssi_turn_total:
  assumes run: "ssi_running s" and cpu: "handler_mode cpu" and a: "valid_tid a"
    and req: "mem s msg_at = U p" "request_at p r s" "request_ok r a s" "r \<noteq> Get_mythreadid"
  shows "\<exists>out s'. ssi_turn cpu msg_at a s = Some (out, s') \<and> (\<exists>Q. settled Q s') \<and> count_error s' = count_error s"
proof -
  have h: "ssi_handle cpu a (mem s msg_at) s = serve cpu a r s"
    unfolding req(1) by (rule ssi_handle_encode[OF req(2,4)])
  obtain out s1 where s1: "serve cpu a r s = Some (out, s1)" "out \<in> {None, Some Panic}" "ssi_running s1"
    "count_error s1 = count_error s"
    using serve_total[OF run cpu a req(3)] by blast
  show ?thesis
  proof (cases out)
    case (Some o1)
    with s1 show ?thesis by (auto simp: ssi_turn_def h ssi_running_def intro: settled_running)
  next
    case None
    obtain Q where Q: "sys_ok Q s1" "current_thread s1 = Some SSI_thread" using s1(3) by (auto simp: ssi_running_def)
    let ?s2 = "enter_syscall cpu SYS_RECV NULL (U msg_at) s1"
    obtain o2 s3 Q3 where s3: "recv cpu None (U msg_at) ?s2 = Some (o2, s3)" "settled Q3 s3" "count_error s3 = count_error s1"
      using recv_total[of Q ?s2 SSI_thread None msg_at cpu] Q by auto
    with None s1 show ?thesis
      by (auto simp: ssi_turn_def h msgrecv_k_def enter_syscall_kernel_mode[OF cpu])
  qed
qed

end
