(* ===== verification/Boot.thy ===== *)
theory Boot imports Ssi begin

text \<open>
  Start-up: \<open>main\<close> of \<open>src/src/init.c\<close>, \<open>load_readyq\<close> of \<open>scheduler.c\<close> and the loader of the test
  thread, \<open>p2test_init\<close> of \<open>tests/debug_tests.c\<close>. The theorem at the end: from zeroed memory the
  kernel reaches a state that satisfies every invariant, and dispatches the SSI.
\<close>

section \<open>Definitions\<close>

text \<open>\<open>cpu\<close> is the processor state that \<open>STST\<close> stores.\<close>

definition LOAD_NEW_STATE :: "state_t \<Rightarrow> fn_sym \<Rightarrow> kstate \<Rightarrow> state_t option" where
  "LOAD_NEW_STATE cpu handler s = do {
     top \<leftarrow> ram_top (mem s);
     Some (cpu\<lparr>pc := Fn handler, sp := U top, cpsr := U (STATUS_ALL_INT_DISABLE STATUS_SYS_MODE)\<rparr>)
   }"

definition states_init :: "state_t \<Rightarrow> kstate \<Rightarrow> kstate option" where
  "states_init cpu s = do {
     a \<leftarrow> LOAD_NEW_STATE cpu fn_interrupt_h s;
     let s = s\<lparr>INT_NEWAREA := a\<rparr>;
     a \<leftarrow> LOAD_NEW_STATE cpu fn_tlbtrap_h s;
     let s = s\<lparr>TLB_NEWAREA := a\<rparr>;
     a \<leftarrow> LOAD_NEW_STATE cpu fn_pgmtrap_h s;
     let s = s\<lparr>PGMTRAP_NEWAREA := a\<rparr>;
     a \<leftarrow> LOAD_NEW_STATE cpu fn_syscall_h s;
     Some (s\<lparr>SYSBK_NEWAREA := a\<rparr>)
   }"

definition time_init :: "kstate \<Rightarrow> kstate option" where
  "time_init s = do {
     scale \<leftarrow> as_u32 (mem s BUS_REG_TIME_SCALE);
     Some (s\<lparr>clockPerTimeslice := scale * 5000\<rparr>)
   }"

definition p2test_init :: "state_t \<Rightarrow> pid \<Rightarrow> kstate \<Rightarrow> kstate option" where
  "p2test_init cpu root s = do {
     (thread_test, s) \<leftarrow> thread_alloc (Some root) s;
     t \<leftarrow> thread_test;
     init_and_load cpu t fn_test (STATUS_ALL_INT_DISABLE STATUS_SYS_MODE) s
   }"

definition load_readyq :: "state_t \<Rightarrow> pid \<Rightarrow> kstate \<Rightarrow> kstate option" where
  "load_readyq cpu root s = do {
     (to_load, s) \<leftarrow> ssi_thread_init s;
     s \<leftarrow> init_and_load cpu to_load fn_ssi (STATUS_ALL_INT_DISABLE STATUS_SYS_MODE) s;
     p2test_init cpu root s
   }"

definition main :: "state_t \<Rightarrow> kstate \<Rightarrow> (outcome \<times> kstate) option" where
  "main cpu s = do {
     (root, s) \<leftarrow> proc_init s;
     s \<leftarrow> thread_init s;
     s \<leftarrow> msgq_init s;
     s \<leftarrow> states_init cpu s;
     s \<leftarrow> time_init s;
     s \<leftarrow> load_readyq cpu root s;
     scheduler s
   }"

text \<open>
  The state when \<open>main\<close> is entered: the static sentinels of \<open>LIST_HEAD\<close> point to themselves,
  \<open>clockPerTimeslice\<close> and the counter of \<open>state_init\<close> have their initial values, everything else is
  zero. The memory \<open>m\<close> holds the bus registers.
\<close>

definition static_links :: "node links" where
  "static_links = fold LIST_HEAD [Thread_h, Message_h, Readyq, Blockedq, T_wait4clock]
     \<lparr>lnext = (\<lambda>_. None), lprev = (\<lambda>_. None)\<rparr>"

definition zero_tcb :: tcb_t where
  "zero_tcb = \<lparr>t_pcb = None, t_s = zero_state, t_status = T_STATUS_NONE, run_time = 0, errno = 0, t_wait4sender = None\<rparr>"

definition bss :: "memory \<Rightarrow> kstate" where
  "bss m = \<lparr>lk = static_links, procs = (\<lambda>_. free_pcb), threads = (\<lambda>_. zero_tcb),
     msgs = (\<lambda>_. \<lparr>m_sender = None, m_value = NULL\<rparr>), current_thread = None, thread_count = 0,
     soft_block_count = 0, is_idle = False, state_init_n = 1, SSI = None, soft_blocked_thread = (\<lambda>_. None),
     pseudoclock = 0, timeSliceLeft = 0, clockPerTimeslice = 5000, mem = m,
     SYSBK_OLDAREA = zero_state, PGMTRAP_OLDAREA = zero_state, TLB_OLDAREA = zero_state, INT_OLDAREA = zero_state,
     SYSBK_NEWAREA = zero_state, PGMTRAP_NEWAREA = zero_state, TLB_NEWAREA = zero_state, INT_NEWAREA = zero_state,
     TIMER = 0, STATUS = 0\<rparr>"

section \<open>The lists during start-up\<close>

text \<open>
  The sentinels that exist once \<open>np\<close> process descriptors, \<open>nt\<close> thread descriptors and, when \<open>si\<close>
  holds, the SSI are initialised, and what the free lists hold.
\<close>

fun booted :: "nat \<Rightarrow> nat \<Rightarrow> bool \<Rightarrow> node \<Rightarrow> bool" where
  "booted np nt si (P_threads p) \<longleftrightarrow> p < np"
| "booted np nt si (P_children p) \<longleftrightarrow> p < np"
| "booted np nt si (P_siblings p) \<longleftrightarrow> p = 0 \<and> 0 < np"
| "booted np nt si (T_msgq (Thread i)) \<longleftrightarrow> i < nt"
| "booted np nt si (T_wait4me (Thread i)) \<longleftrightarrow> i < nt"
| "booted np nt si (T_msgq SSI_thread) \<longleftrightarrow> si"
| "booted np nt si (T_wait4me SSI_thread) \<longleftrightarrow> si"
| "booted np nt si (T_next t) \<longleftrightarrow> False"
| "booted np nt si (T_sched t) \<longleftrightarrow> False"
| "booted np nt si (M_next m) \<longleftrightarrow> False"
| "booted np nt si _ \<longleftrightarrow> True"

abbreviation boot_heads :: "nat \<Rightarrow> nat \<Rightarrow> bool \<Rightarrow> node set" where
  "boot_heads np nt si \<equiv> Collect (booted np nt si)"

definition boot_queues :: "nat \<Rightarrow> nat \<Rightarrow> nat \<Rightarrow> queues" where
  "boot_queues np nt nm h =
     (if h = P_siblings 0 then map P_siblings [1..<np]
      else if h = Thread_h then map (\<lambda>i. T_next (Thread i)) [0..<nt]
      else if h = Message_h then rev (map M_next [0..<nm])
      else [])"

lemma boot_heads_all: "boot_heads MAXPROC MAXTHREAD True = heads"
proof -
  have "booted MAXPROC MAXTHREAD True h = is_head h" for h
  proof (cases h)
    case (T_msgq t) then show ?thesis by (cases t) simp_all
  next
    case (T_wait4me t) then show ?thesis by (cases t) simp_all
  qed (simp_all add: MAXPROC_def)
  then show ?thesis by auto
qed

lemma boot_heads_Suc:
  "0 < np \<Longrightarrow> insert (P_children np) (insert (P_threads np) (boot_heads np nt si)) = boot_heads (Suc np) nt si"
  "insert (T_wait4me (Thread nt)) (insert (T_msgq (Thread nt)) (boot_heads np nt si)) = boot_heads np (Suc nt) si"
  "insert (T_wait4me SSI_thread) (insert (T_msgq SSI_thread) (boot_heads np nt False)) = boot_heads np nt True"
proof -
  have "h = P_children np \<or> h = P_threads np \<or> booted np nt si h \<longleftrightarrow> booted (Suc np) nt si h" if "0 < np" for h
    using that by (cases "(np, nt, si, h)" rule: booted.cases) auto
  then show "0 < np \<Longrightarrow> insert (P_children np) (insert (P_threads np) (boot_heads np nt si)) = boot_heads (Suc np) nt si" by auto
  have "h = T_wait4me (Thread nt) \<or> h = T_msgq (Thread nt) \<or> booted np nt si h \<longleftrightarrow> booted np (Suc nt) si h" for h
    by (cases "(np, nt, si, h)" rule: booted.cases) auto
  then show "insert (T_wait4me (Thread nt)) (insert (T_msgq (Thread nt)) (boot_heads np nt si)) = boot_heads np (Suc nt) si" by auto
  have "h = T_wait4me SSI_thread \<or> h = T_msgq SSI_thread \<or> booted np nt False h \<longleftrightarrow> booted np nt True h" for h
    by (cases "(np, nt, si, h)" rule: booted.cases) auto
  then show "insert (T_wait4me SSI_thread) (insert (T_msgq SSI_thread) (boot_heads np nt False)) = boot_heads np nt True" by auto
qed

lemma boot_queues_Suc:
  "0 < np \<Longrightarrow> (boot_queues np nt nm)(P_siblings 0 := boot_queues np nt nm (P_siblings 0) @ [P_siblings np]) = boot_queues (Suc np) nt nm"
  "(boot_queues np nt nm)(Thread_h := boot_queues np nt nm Thread_h @ [T_next (Thread nt)]) = boot_queues np (Suc nt) nm"
  "(boot_queues np nt nm)(Message_h := M_next nm # boot_queues np nt nm Message_h) = boot_queues np nt (Suc nm)"
  by (auto simp: boot_queues_def fun_eq_iff)

lemma boot_queues_simps [simp]:
  "boot_queues np nt nm (P_siblings 0) = map P_siblings [1..<np]"
  "boot_queues np nt nm Thread_h = map (\<lambda>i. T_next (Thread i)) [0..<nt]"
  "boot_queues np nt nm Message_h = rev (map M_next [0..<nm])"
  "boot_queues np nt nm (P_threads p) = []" "boot_queues np nt nm (P_children p) = []"
  "boot_queues np nt nm (T_msgq t) = []" "boot_queues np nt nm (T_wait4me t) = []"
  "boot_queues np nt nm Readyq = []" "boot_queues np nt nm Blockedq = []" "boot_queues np nt nm T_wait4clock = []"
  by (simp_all add: boot_queues_def)

lemma boot_queues_members:
  "n \<in> set (boot_queues np nt nm h) \<Longrightarrow>
   (\<exists>p. n = P_siblings p \<and> 1 \<le> p \<and> p < np) \<or> (\<exists>i. n = T_next (Thread i) \<and> i < nt) \<or> (\<exists>m. n = M_next m \<and> m < nm)"
  by (auto simp: boot_queues_def split: if_splits)

lemma init_head_shape:
  assumes "shape (lk s) H Q" "n \<notin> H" "\<And>h. h \<in> H \<Longrightarrow> n \<notin> set (Q h)" "Q n = []"
  shows "shape (lk (init_head n s)) (insert n H) Q"
proof -
  have "Q(n := []) = Q" using assms(4) by auto
  with init_list_head_shape[OF assms(1), of n] assms(2,3) show ?thesis
    by (simp add: init_head_def unlinked_node_def)
qed

lemma static_links_shape: "shape static_links (boot_heads 0 0 False) (boot_queues 1 0 0)"
proof -
  have B: "boot_queues 1 0 0 = (\<lambda>_. [])" by (auto simp: boot_queues_def fun_eq_iff)
  have grow: "shape (init_list_head n l) (insert n H) (\<lambda>_. [])" if "shape l H (\<lambda>_. [])" "n \<notin> H" for n H and l :: "node links"
  proof -
    have "(\<lambda>_. [])(n := []) = (\<lambda>_. [] :: node list)" by auto
    with init_list_head_shape[OF that(1), of n] that(2) show ?thesis by (simp only: unlinked_node_def) simp
  qed
  have H: "boot_heads 0 0 False = {T_wait4clock, Blockedq, Readyq, Message_h, Thread_h}"
  proof -
    have "booted 0 0 False h \<longleftrightarrow> h \<in> {T_wait4clock, Blockedq, Readyq, Message_h, Thread_h}" for h
      by (cases "(0 :: nat, 0 :: nat, False, h)" rule: booted.cases) auto
    then show ?thesis by auto
  qed
  show ?thesis unfolding B H static_links_def LIST_HEAD_init
    by (simp, intro grow shape_empty) simp_all
qed

section \<open>The three loops\<close>

lemma boot_unlinked:
  "1 \<le> np \<Longrightarrow> unlinked_node (P_siblings np) (boot_heads np nt si) (boot_queues np nt nm)"
  "unlinked_node (T_next (Thread nt)) (boot_heads np nt si) (boot_queues np nt nm)"
  "unlinked_node (M_next nm) (boot_heads np nt si) (boot_queues np nt nm)"
  by (auto simp: unlinked_node_def dest!: boot_queues_members)

lemma proc_init_body_step:
  assumes sh: "shape (lk s) (boot_heads i nt si) (boot_queues i nt nm)" and i: "1 \<le> i"
  shows "\<exists>l. proc_init_body i s = Some (s\<lparr>lk := l, procs := (procs s)(i := free_pcb)\<rparr>) \<and>
    shape l (boot_heads (Suc i) nt si) (boot_queues (Suc i) nt nm)"
proof -
  let ?Q = "boot_queues (Suc i) nt nm"
  obtain l1 where l1: "list_add_tail (P_siblings i) (P_siblings 0) (lk s) = Some l1" "shape l1 (boot_heads i nt si) ?Q"
    using list_add_tail_shape[OF sh _ boot_unlinked(1)[OF i], of "P_siblings 0"] i boot_queues_Suc(1)[of i nt nm] by auto
  let ?s1 = "upd_proc i (\<lambda>p. p\<lparr>p_parent := None\<rparr>) (s\<lparr>lk := l1\<rparr>)"
  let ?s2 = "init_head (P_children i) (init_head (P_threads i) ?s1)"
  have nq: "n \<noteq> P_threads i \<and> n \<noteq> P_children i" if "n \<in> set (?Q h)" for n h
    using boot_queues_members[OF that] by auto
  have "shape (lk (init_head (P_threads i) ?s1)) (insert (P_threads i) (boot_heads i nt si)) ?Q"
    by (rule init_head_shape) (use l1(2) nq in \<open>auto simp: upd_defs\<close>)
  then have "shape (lk ?s2) (insert (P_children i) (insert (P_threads i) (boot_heads i nt si))) ?Q"
    by (rule init_head_shape) (use nq in auto)
  then have sh2: "shape (lk ?s2) (boot_heads (Suc i) nt si) ?Q" using boot_heads_Suc(1) i by simp
  have "proc_init_body i s = Some (clean_mgr i ?s2)"
    using l1(1) by (simp add: proc_init_body_def with_links_def)
  also have "clean_mgr i ?s2 = s\<lparr>lk := lk ?s2, procs := (procs s)(i := free_pcb)\<rparr>"
    by (simp add: clean_mgr_def init_head_def upd_defs free_pcb_eq)
  finally show ?thesis using sh2 by blast
qed

lemma thread_init_body_step:
  assumes sh: "shape (lk s) (boot_heads np i si) (boot_queues np i nm)"
  shows "\<exists>l. thread_init_body i s = Some (s\<lparr>lk := l, threads := (threads s)(Thread i := free_tcb (threads s (Thread i)))\<rparr>) \<and>
    shape l (boot_heads np (Suc i) si) (boot_queues np (Suc i) nm)"
proof -
  let ?Q = "boot_queues np (Suc i) nm"
  obtain l1 where l1: "list_add_tail (T_next (Thread i)) Thread_h (lk s) = Some l1" "shape l1 (boot_heads np i si) ?Q"
    using list_add_tail_shape[OF sh _ boot_unlinked(2), of Thread_h] boot_queues_Suc(2)[of np i nm] by auto
  let ?s1 = "(clean_thread_data (Thread i) s)\<lparr>lk := l1\<rparr>"
  let ?s2 = "init_head (T_wait4me (Thread i)) (init_head (T_msgq (Thread i)) ?s1)"
  have nq: "n \<noteq> T_msgq (Thread i) \<and> n \<noteq> T_wait4me (Thread i)" if "n \<in> set (?Q h)" for n h
    using boot_queues_members[OF that] by auto
  have "shape (lk (init_head (T_msgq (Thread i)) ?s1)) (insert (T_msgq (Thread i)) (boot_heads np i si)) ?Q"
    by (rule init_head_shape) (use l1(2) nq in auto)
  then have "shape (lk ?s2) (insert (T_wait4me (Thread i)) (insert (T_msgq (Thread i)) (boot_heads np i si))) ?Q"
    by (rule init_head_shape) (use nq in auto)
  then have sh2: "shape (lk ?s2) (boot_heads np (Suc i) si) ?Q" using boot_heads_Suc(2) by simp
  have "thread_init_body i s = Some ?s2"
    using l1(1) by (simp add: thread_init_body_def with_links_def clean_thread_data_eq)
  also have "?s2 = s\<lparr>lk := lk ?s2, threads := (threads s)(Thread i := free_tcb (threads s (Thread i)))\<rparr>"
    by (simp add: clean_thread_data_eq init_head_def)
  finally show ?thesis using sh2 by blast
qed

lemma msgq_init_body_step:
  assumes sh: "shape (lk s) (boot_heads np nt si) (boot_queues np nt i)"
  shows "\<exists>l. msgq_init_body i s = Some (s\<lparr>lk := l, msgs := (msgs s)(i := (msgs s i)\<lparr>m_sender := None\<rparr>)\<rparr>) \<and>
    shape l (boot_heads np nt si) (boot_queues np nt (Suc i))"
proof -
  obtain l where "list_add (M_next i) Message_h (lk s) = Some l" "shape l (boot_heads np nt si) (boot_queues np nt (Suc i))"
    using list_add_shape[OF sh _ boot_unlinked(3), of Message_h] boot_queues_Suc(3)[of np nt i] by auto
  then show ?thesis by (intro exI[of _ l]) (simp add: msgq_init_body_def with_links_def upd_defs)
qed

lemma proc_init_bss:
  "\<exists>l. proc_init (bss m) = Some (0, (bss m)\<lparr>lk := l\<rparr>) \<and> shape l (boot_heads MAXPROC 0 False) (boot_queues MAXPROC 0 0)"
proof -
  let ?Q = "boot_queues 1 0 0"
  let ?s0 = "upd_proc 0 (\<lambda>p. p\<lparr>p_parent := None\<rparr>) (bss m)"
  let ?s3 = "init_head (P_siblings 0) (init_head (P_children 0) (init_head (P_threads 0) ?s0))"
  have nq: "n \<noteq> P_threads p \<and> n \<noteq> P_children p \<and> n \<noteq> P_siblings 0" if "n \<in> set (?Q h)" for n h p
    using boot_queues_members[OF that] by auto
  have "shape (lk (init_head (P_threads 0) ?s0)) (insert (P_threads 0) (boot_heads 0 0 False)) ?Q"
    by (rule init_head_shape) (use static_links_shape nq in \<open>auto simp: upd_defs bss_def\<close>)
  then have "shape (lk (init_head (P_children 0) (init_head (P_threads 0) ?s0)))
      (insert (P_children 0) (insert (P_threads 0) (boot_heads 0 0 False))) ?Q"
    by (rule init_head_shape) (use nq in auto)
  then have "shape (lk ?s3) (insert (P_siblings 0) (insert (P_children 0) (insert (P_threads 0) (boot_heads 0 0 False)))) ?Q"
    by (rule init_head_shape) (use nq in auto)
  moreover have "insert (P_siblings 0) (insert (P_children 0) (insert (P_threads 0) (boot_heads 0 0 False))) = boot_heads 1 0 False"
  proof -
    have "h = P_siblings 0 \<or> h = P_children 0 \<or> h = P_threads 0 \<or> booted 0 0 False h \<longleftrightarrow> booted 1 0 False h" for h
      by (cases "(0 :: nat, 0 :: nat, False, h)" rule: booted.cases) auto
    then show ?thesis by auto
  qed
  ultimately have sh: "shape (lk ?s3) (boot_heads 1 0 False) ?Q" by simp
  let ?s4 = "clean_mgr 0 ?s3"
  have s4: "?s4 = (bss m)\<lparr>lk := lk ?s3\<rparr>"
    by (auto simp: clean_mgr_def init_head_def upd_defs bss_def free_pcb_def fun_eq_iff)
  define I where "I k s \<longleftrightarrow> (\<exists>l. s = (bss m)\<lparr>lk := l\<rparr> \<and>
    shape l (boot_heads (1 + k) 0 False) (boot_queues (1 + k) 0 0))" for k s
  have "\<exists>s'. for_each proc_init_body [1..<MAXPROC] ?s4 = Some s' \<and> I (length [1..<MAXPROC]) s'"
  proof (rule for_each_invariant)
    show "I 0 ?s4" unfolding I_def using sh s4 by auto
    fix k s assume k: "k < length [1..<MAXPROC]" and "I k s"
    then obtain l where s: "s = (bss m)\<lparr>lk := l\<rparr>" "shape l (boot_heads (1 + k) 0 False) (boot_queues (1 + k) 0 0)"
      by (auto simp: I_def)
    then have "shape (lk s) (boot_heads (1 + k) 0 False) (boot_queues (1 + k) 0 0)" by simp
    from proc_init_body_step[OF this] obtain l' where
      "proc_init_body (1 + k) s = Some (s\<lparr>lk := l', procs := (procs s)(1 + k := free_pcb)\<rparr>)"
      "shape l' (boot_heads (Suc (1 + k)) 0 False) (boot_queues (Suc (1 + k)) 0 0)" by auto
    moreover have "s\<lparr>lk := l', procs := (procs s)(1 + k := free_pcb)\<rparr> = (bss m)\<lparr>lk := l'\<rparr>"
      by (auto simp: s(1) bss_def fun_eq_iff)
    moreover have "[1..<MAXPROC] ! k = 1 + k" using k by simp
    ultimately show "\<exists>s'. proc_init_body ([1..<MAXPROC] ! k) s = Some s' \<and> I (Suc k) s'"
      by (auto simp: I_def)
  qed
  then obtain l where "for_each proc_init_body [1..<MAXPROC] ?s4 = Some ((bss m)\<lparr>lk := l\<rparr>)"
    "shape l (boot_heads MAXPROC 0 False) (boot_queues MAXPROC 0 0)"
    by (auto simp: I_def MAXPROC_def)
  then show ?thesis by (auto simp: proc_init_def)
qed

text \<open>A loop over a table that only re-initialises zeroed descriptors.\<close>

lemma loop_bss:
  assumes start: "shape l (H 0) (Q 0)"
    and step: "\<And>k l. k < n \<Longrightarrow> shape l (H k) (Q k) \<Longrightarrow>
      \<exists>l'. body k ((bss m)\<lparr>lk := l\<rparr>) = Some ((bss m)\<lparr>lk := l'\<rparr>) \<and> shape l' (H (Suc k)) (Q (Suc k))"
  shows "\<exists>l'. for_each body [0..<n] ((bss m)\<lparr>lk := l\<rparr>) = Some ((bss m)\<lparr>lk := l'\<rparr>) \<and> shape l' (H n) (Q n)"
proof -
  define I where "I k s \<longleftrightarrow> (\<exists>l. s = (bss m)\<lparr>lk := l\<rparr> \<and> shape l (H k) (Q k))" for k s
  have "\<exists>s'. for_each body [0..<n] ((bss m)\<lparr>lk := l\<rparr>) = Some s' \<and> I (length [0..<n]) s'"
  proof (rule for_each_invariant)
    show "I 0 ((bss m)\<lparr>lk := l\<rparr>)" unfolding I_def using start by blast
    show "\<exists>s'. body ([0..<n] ! k) s = Some s' \<and> I (Suc k) s'" if "k < length [0..<n]" "I k s" for k s
      using that step by (fastforce simp: I_def)
  qed
  then show ?thesis by (auto simp: I_def)
qed

lemma free_zero_tcb: "free_tcb zero_tcb = zero_tcb"
  by (simp add: free_tcb_def zero_tcb_def)

lemma thread_init_bss:
  assumes "shape l (boot_heads MAXPROC 0 False) (boot_queues MAXPROC 0 0)"
  shows "\<exists>l'. thread_init ((bss m)\<lparr>lk := l\<rparr>) = Some ((bss m)\<lparr>lk := l'\<rparr>) \<and>
    shape l' (boot_heads MAXPROC MAXTHREAD False) (boot_queues MAXPROC MAXTHREAD 0)"
  unfolding thread_init_def
proof (rule loop_bss[where H = "\<lambda>k. boot_heads MAXPROC k False" and Q = "\<lambda>k. boot_queues MAXPROC k 0", OF assms])
  fix k l assume "shape l (boot_heads MAXPROC k False) (boot_queues MAXPROC k 0)"
  then have "shape (lk ((bss m)\<lparr>lk := l\<rparr>)) (boot_heads MAXPROC k False) (boot_queues MAXPROC k 0)" by simp
  from thread_init_body_step[OF this] obtain l' where
    "thread_init_body k ((bss m)\<lparr>lk := l\<rparr>) = Some ((bss m)\<lparr>lk := l',
       threads := (threads (bss m))(Thread k := free_tcb (threads (bss m) (Thread k)))\<rparr>)"
    "shape l' (boot_heads MAXPROC (Suc k) False) (boot_queues MAXPROC (Suc k) 0)" by auto
  moreover have "(bss m)\<lparr>lk := l', threads := (threads (bss m))(Thread k := free_tcb (threads (bss m) (Thread k)))\<rparr> =
      (bss m)\<lparr>lk := l'\<rparr>" by (auto simp: bss_def free_zero_tcb fun_eq_iff)
  ultimately show "\<exists>l'. thread_init_body k ((bss m)\<lparr>lk := l\<rparr>) = Some ((bss m)\<lparr>lk := l'\<rparr>) \<and>
      shape l' (boot_heads MAXPROC (Suc k) False) (boot_queues MAXPROC (Suc k) 0)" by auto
qed

lemma msgq_init_bss:
  assumes "shape l (boot_heads MAXPROC MAXTHREAD False) (boot_queues MAXPROC MAXTHREAD 0)"
  shows "\<exists>l'. msgq_init ((bss m)\<lparr>lk := l\<rparr>) = Some ((bss m)\<lparr>lk := l'\<rparr>) \<and>
    shape l' (boot_heads MAXPROC MAXTHREAD False) (boot_queues MAXPROC MAXTHREAD MAXMSG)"
  unfolding msgq_init_def
proof (rule loop_bss[where H = "\<lambda>k. boot_heads MAXPROC MAXTHREAD False" and Q = "boot_queues MAXPROC MAXTHREAD", OF assms])
  fix k l assume "shape l (boot_heads MAXPROC MAXTHREAD False) (boot_queues MAXPROC MAXTHREAD k)"
  then have "shape (lk ((bss m)\<lparr>lk := l\<rparr>)) (boot_heads MAXPROC MAXTHREAD False) (boot_queues MAXPROC MAXTHREAD k)" by simp
  from msgq_init_body_step[OF this] obtain l' where
    "msgq_init_body k ((bss m)\<lparr>lk := l\<rparr>) = Some ((bss m)\<lparr>lk := l',
       msgs := (msgs (bss m))(k := (msgs (bss m) k)\<lparr>m_sender := None\<rparr>)\<rparr>)"
    "shape l' (boot_heads MAXPROC MAXTHREAD False) (boot_queues MAXPROC MAXTHREAD (Suc k))" by auto
  moreover have "(bss m)\<lparr>lk := l', msgs := (msgs (bss m))(k := (msgs (bss m) k)\<lparr>m_sender := None\<rparr>)\<rparr> =
      (bss m)\<lparr>lk := l'\<rparr>" by (auto simp: bss_def fun_eq_iff)
  ultimately show "\<exists>l'. msgq_init_body k ((bss m)\<lparr>lk := l\<rparr>) = Some ((bss m)\<lparr>lk := l'\<rparr>) \<and>
      shape l' (boot_heads MAXPROC MAXTHREAD False) (boot_queues MAXPROC MAXTHREAD (Suc k))" by auto
qed

section \<open>The first threads\<close>

text \<open>What the bus registers must hold: plain numbers.\<close>

definition bus_ok :: "memory \<Rightarrow> bool" where
  "bus_ok m \<longleftrightarrow> ram_top m \<noteq> None \<and> as_u32 (m BUS_REG_TIME_SCALE) \<noteq> None"

definition loaded_state :: "state_t \<Rightarrow> fn_sym \<Rightarrow> u32 \<Rightarrow> state_t" where
  "loaded_state cpu target ramtop =
     cpu\<lparr>pc := Fn target, sp := U ramtop, cpsr := U (STATUS_ALL_INT_DISABLE STATUS_SYS_MODE)\<rparr>"

lemma init_and_load_correct:
  assumes ok: "kernel_ok Q s" and t: "valid_tid t" and n: "not_linked (T_sched t) Q" and tp: "ram_top (mem s) = Some ramtop"
  shows "\<exists>l. init_and_load cpu t target (STATUS_ALL_INT_DISABLE STATUS_SYS_MODE) s =
      Some (s\<lparr>lk := l, threads := (threads s)(t := (threads s t)
          \<lparr>t_s := loaded_state cpu target (ramtop - state_init_n s * FRAME_SIZE)\<rparr>),
        state_init_n := state_init_n s + 1, thread_count := thread_count s + 1\<rparr>) \<and>
    kernel_ok (Q(Readyq := Q Readyq @ [T_sched t]))
      (s\<lparr>lk := l, threads := (threads s)(t := (threads s t)
          \<lparr>t_s := loaded_state cpu target (ramtop - state_init_n s * FRAME_SIZE)\<rparr>)\<rparr>)"
proof -
  let ?x = "(threads s t)\<lparr>t_s := loaded_state cpu target (ramtop - state_init_n s * FRAME_SIZE)\<rparr>"
  let ?s1 = "s\<lparr>threads := (threads s)(t := ?x), state_init_n := state_init_n s + 1\<rparr>"
  have "kernel_ok Q (s\<lparr>threads := (threads s)(t := ?x)\<rparr>)" by (rule kernel_ok_thread_upd[OF ok]) simp_all
  then have ok1: "kernel_ok Q ?s1" by simp
  obtain l where l: "thread_enqueue t Readyq ?s1 = Some (?s1\<lparr>lk := l\<rparr>)"
    "kernel_ok (Q(Readyq := Q Readyq @ [T_sched t])) (?s1\<lparr>lk := l\<rparr>)"
    using thread_enqueue_correct[OF ok1 _ t n, of Readyq] by auto
  have "?s1\<lparr>lk := l\<rparr> = s\<lparr>lk := l, threads := (threads s)(t := ?x)\<rparr>\<lparr>state_init_n := state_init_n s + 1\<rparr>" by simp
  with l(2) have "kernel_ok (Q(Readyq := Q Readyq @ [T_sched t])) (s\<lparr>lk := l, threads := (threads s)(t := ?x)\<rparr>)"
    by (simp only: kernel_ok_other)
  moreover have "init_and_load cpu t target (STATUS_ALL_INT_DISABLE STATUS_SYS_MODE) s =
      Some (s\<lparr>lk := l, threads := (threads s)(t := ?x), state_init_n := state_init_n s + 1, thread_count := thread_count s + 1\<rparr>)"
    using l(1) by (simp add: init_and_load_def state_init_def tp upd_defs loaded_state_def)
  ultimately show ?thesis by blast
qed

lemma kernel_ok_fields:
  "kernel_ok Q s \<Longrightarrow> lk s' = lk s \<Longrightarrow> procs s' = procs s \<Longrightarrow> threads s' = threads s \<Longrightarrow> msgs s' = msgs s \<Longrightarrow>
   kernel_ok Q s'"
  by (simp add: kernel_ok_parts)

lemma states_init_eq:
  assumes "ram_top (mem s) = Some r"
  shows "states_init cpu s = Some (s\<lparr>INT_NEWAREA := loaded_state cpu fn_interrupt_h r, TLB_NEWAREA := loaded_state cpu fn_tlbtrap_h r,
    PGMTRAP_NEWAREA := loaded_state cpu fn_pgmtrap_h r, SYSBK_NEWAREA := loaded_state cpu fn_syscall_h r\<rparr>)"
  using assms by (simp add: states_init_def LOAD_NEW_STATE_def loaded_state_def)

text \<open>What the descriptor tables hold after the three loops: nothing is in use.\<close>

definition blank :: "kstate \<Rightarrow> bool" where
  "blank s \<longleftrightarrow> procs s = (\<lambda>_. free_pcb) \<and> threads s = (\<lambda>_. zero_tcb) \<and>
     (\<forall>m. m_sender (msgs s m) = None) \<and> current_thread s = None \<and> thread_count s = 0 \<and> state_init_n s = 1"

definition ssi_tcb :: tcb_t where
  "ssi_tcb = zero_tcb\<lparr>t_status := T_STATUS_READY, t_s := zero_state\<lparr>cpsr := U (STATUS_ALL_INT_DISABLE 0)\<rparr>\<rparr>"

lemma typed_boot: "typed (boot_queues MAXPROC MAXTHREAD MAXMSG)"
  by (auto simp: typed_def boot_queues_def MAXPROC_def)

lemma ssi_thread_init_correct:
  assumes sh: "shape (lk s) (boot_heads MAXPROC MAXTHREAD False) (boot_queues MAXPROC MAXTHREAD MAXMSG)" and b: "blank s"
  shows "\<exists>l. ssi_thread_init s = Some (SSI_thread, s\<lparr>lk := l, threads := (threads s)(SSI_thread := ssi_tcb),
      soft_blocked_thread := (\<lambda>i. if i < 5 then None else soft_blocked_thread s i), SSI := Some SSI_thread\<rparr>) \<and>
    kernel_ok (boot_queues MAXPROC MAXTHREAD MAXMSG) (s\<lparr>lk := l, threads := (threads s)(SSI_thread := ssi_tcb)\<rparr>)"
proof -
  let ?Q = "boot_queues MAXPROC MAXTHREAD MAXMSG"
  let ?s1 = "s\<lparr>threads := (threads s)(SSI_thread := ssi_tcb)\<rparr>"
  let ?s2 = "init_head (T_wait4me SSI_thread) (init_head (T_msgq SSI_thread) ?s1)"
  have nq: "n \<noteq> T_msgq SSI_thread \<and> n \<noteq> T_wait4me SSI_thread" if "n \<in> set (?Q h)" for n h
    using boot_queues_members[OF that] by auto
  have "shape (lk (init_head (T_msgq SSI_thread) ?s1)) (insert (T_msgq SSI_thread) (boot_heads MAXPROC MAXTHREAD False)) ?Q"
    by (rule init_head_shape) (use sh nq in auto)
  then have "shape (lk ?s2) (insert (T_wait4me SSI_thread) (insert (T_msgq SSI_thread) (boot_heads MAXPROC MAXTHREAD False))) ?Q"
    by (rule init_head_shape) (use nq in auto)
  then have sh2: "shape (lk ?s2) heads ?Q" by (simp only: boot_heads_Suc(3) boot_heads_all)
  have s2: "?s2 = s\<lparr>lk := lk ?s2, threads := (threads s)(SSI_thread := ssi_tcb)\<rparr>" by (simp add: init_head_def)
  have cp: "cpsr zero_state = U 0" by (simp add: zero_state_def load_state_def)
  have "ssi_thread_init s = Some (SSI_thread, s\<lparr>threads := (threads s)(SSI_thread := ssi_tcb), lk := lk ?s2,
      soft_blocked_thread := (\<lambda>i. if i < 5 then None else soft_blocked_thread s i), SSI := Some SSI_thread\<rparr>)"
    using b by (simp add: ssi_thread_init_def init_head_def upd_defs blank_def zero_tcb_def ssi_tcb_def cp Let_def cong: if_cong)
  then have "ssi_thread_init s = Some (SSI_thread, s\<lparr>lk := lk ?s2, threads := (threads s)(SSI_thread := ssi_tcb),
      soft_blocked_thread := (\<lambda>i. if i < 5 then None else soft_blocked_thread s i), SSI := Some SSI_thread\<rparr>)" by simp
  moreover have "kernel_ok ?Q (s\<lparr>lk := lk ?s2, threads := (threads s)(SSI_thread := ssi_tcb)\<rparr>)"
  proof (rule kernel_okI)
    have "parent_rel (procs s) = {}" using b by (auto simp: parent_rel_def blank_def free_pcb_def)
    then show "proc_inv ?Q (procs (s\<lparr>lk := lk ?s2, threads := (threads s)(SSI_thread := ssi_tcb)\<rparr>))"
      using b by (simp add: proc_inv_def acyclic_def blank_def free_pcb_def)
    show "thread_inv ?Q (threads (s\<lparr>lk := lk ?s2, threads := (threads s)(SSI_thread := ssi_tcb)\<rparr>))"
      using b by (simp add: thread_inv_def blank_def zero_tcb_def ssi_tcb_def)
    show "msg_inv ?Q (msgs (s\<lparr>lk := lk ?s2, threads := (threads s)(SSI_thread := ssi_tcb)\<rparr>))"
      using b by (simp add: msg_inv_def blank_def)
  qed (use sh2 typed_boot in simp_all)
  ultimately show ?thesis by blast
qed

definition test_tcb :: tcb_t where
  "test_tcb = zero_tcb\<lparr>t_pcb := Some 0, t_status := T_STATUS_READY\<rparr>"

text \<open>The descriptors once the SSI and the test thread are loaded in the ready queue.\<close>

definition first_threads :: "state_t \<Rightarrow> u32 \<Rightarrow> tid \<Rightarrow> tcb_t" where
  "first_threads cpu r =
     (\<lambda>_. zero_tcb)(SSI_thread := ssi_tcb\<lparr>t_s := loaded_state cpu fn_ssi (r - FRAME_SIZE)\<rparr>,
       Thread 0 := test_tcb\<lparr>t_s := loaded_state cpu fn_test (r - 2 * FRAME_SIZE)\<rparr>)"

definition first_queues :: queues where
  "first_queues = (boot_queues MAXPROC MAXTHREAD MAXMSG)
     (Readyq := [T_sched SSI_thread, T_sched (Thread 0)],
      Thread_h := map (\<lambda>i. T_next (Thread i)) [1..<MAXTHREAD], P_threads 0 := [T_next (Thread 0)])"

lemma load_readyq_correct:
  assumes sh: "shape (lk s) (boot_heads MAXPROC MAXTHREAD False) (boot_queues MAXPROC MAXTHREAD MAXMSG)"
    and b: "blank s" and r: "ram_top (mem s) = Some r"
  shows "\<exists>l. load_readyq cpu 0 s = Some (s\<lparr>lk := l, threads := first_threads cpu r,
      soft_blocked_thread := (\<lambda>i. if i < 5 then None else soft_blocked_thread s i), SSI := Some SSI_thread,
      state_init_n := 3, thread_count := 2\<rparr>) \<and>
    kernel_ok first_queues (s\<lparr>lk := l, threads := first_threads cpu r\<rparr>)"
proof -
  let ?Q = "boot_queues MAXPROC MAXTHREAD MAXMSG"
  let ?sb = "\<lambda>i. if i < 5 then None else soft_blocked_thread s i"
  obtain l1 where l1: "ssi_thread_init s = Some (SSI_thread, s\<lparr>lk := l1, threads := (threads s)(SSI_thread := ssi_tcb),
      soft_blocked_thread := ?sb, SSI := Some SSI_thread\<rparr>)"
    "kernel_ok ?Q (s\<lparr>lk := l1, threads := (threads s)(SSI_thread := ssi_tcb)\<rparr>)"
    using ssi_thread_init_correct[OF sh b] by blast
  let ?s1 = "s\<lparr>lk := l1, threads := (threads s)(SSI_thread := ssi_tcb), soft_blocked_thread := ?sb, SSI := Some SSI_thread\<rparr>"
  have ok1: "kernel_ok ?Q ?s1" using l1(2) by simp
  have n1: "not_linked (T_sched t) ?Q" for t
    by (auto simp: unlinked_node_def dest!: boot_queues_members)
  let ?ssi = "ssi_tcb\<lparr>t_s := loaded_state cpu fn_ssi (r - FRAME_SIZE)\<rparr>"
  obtain l2 where l2: "init_and_load cpu SSI_thread fn_ssi (STATUS_ALL_INT_DISABLE STATUS_SYS_MODE) ?s1 =
      Some (?s1\<lparr>lk := l2, threads := (threads ?s1)(SSI_thread := ?ssi),
        state_init_n := state_init_n ?s1 + 1, thread_count := thread_count ?s1 + 1\<rparr>)"
    "kernel_ok (?Q(Readyq := ?Q Readyq @ [T_sched SSI_thread]))
      (?s1\<lparr>lk := l2, threads := (threads ?s1)(SSI_thread := ?ssi)\<rparr>)"
    using init_and_load_correct[OF ok1 _ n1, of SSI_thread r cpu fn_ssi] r b by (auto simp: blank_def)
  let ?Q2 = "?Q(Readyq := [T_sched SSI_thread])"
  let ?s2 = "s\<lparr>lk := l2, threads := (\<lambda>_. zero_tcb)(SSI_thread := ?ssi), soft_blocked_thread := ?sb, SSI := Some SSI_thread,
    state_init_n := 2, thread_count := 1\<rparr>"
  have s2: "?s1\<lparr>lk := l2, threads := (threads ?s1)(SSI_thread := ?ssi),
        state_init_n := state_init_n ?s1 + 1, thread_count := thread_count ?s1 + 1\<rparr> = ?s2"
    using b by (simp add: blank_def)
  have ok2: "kernel_ok ?Q2 ?s2" by (rule kernel_ok_fields[OF l2(2)[unfolded boot_queues_simps append_Nil]]) (use b in \<open>simp_all add: blank_def\<close>)
  have fr: "?Q2 Thread_h = T_next (Thread 0) # map (\<lambda>i. T_next (Thread i)) [1..<MAXTHREAD]"
    by (simp add: MAXTHREAD_def upt_conv_Cons)
  have alive: "proc_alive ?s2 0" by (simp add: proc_alive_def MAXPROC_def)
  let ?Q3 = "?Q2(Thread_h := map (\<lambda>i. T_next (Thread i)) [1..<MAXTHREAD], P_threads 0 := [T_next (Thread 0)])"
  obtain l3 where l3: "thread_alloc (Some 0) ?s2 =
      Some (Some (Thread 0), ?s2\<lparr>lk := l3, threads := (threads ?s2)(Thread 0 := test_tcb)\<rparr>)"
    "kernel_ok ?Q3 (?s2\<lparr>lk := l3, threads := (threads ?s2)(Thread 0 := test_tcb)\<rparr>)"
  proof -
    obtain t l where a: "T_next (Thread 0) = T_next t" "thread_alloc (Some 0) ?s2 = Some (Some t, ?s2\<lparr>lk := l,
        threads := (threads ?s2)(t := (threads ?s2 t)\<lparr>t_pcb := Some 0, t_status := T_STATUS_READY\<rparr>)\<rparr>)"
      "kernel_ok (?Q2(Thread_h := map (\<lambda>i. T_next (Thread i)) [1..<MAXTHREAD], P_threads 0 := ?Q2 (P_threads 0) @ [T_next (Thread 0)]))
        (?s2\<lparr>lk := l, threads := (threads ?s2)(t := (threads ?s2 t)\<lparr>t_pcb := Some 0, t_status := T_STATUS_READY\<rparr>)\<rparr>)"
      using thread_alloc_correct[OF ok2 alive fr] by blast
    from a(1) have t: "t = Thread 0" by simp
    have "(threads ?s2 (Thread 0))\<lparr>t_pcb := Some 0, t_status := T_STATUS_READY\<rparr> = test_tcb"
      by (simp add: test_tcb_def)
    with a(2,3) have "thread_alloc (Some 0) ?s2 =
        Some (Some (Thread 0), ?s2\<lparr>lk := l, threads := (threads ?s2)(Thread 0 := test_tcb)\<rparr>)"
      "kernel_ok ?Q3 (?s2\<lparr>lk := l, threads := (threads ?s2)(Thread 0 := test_tcb)\<rparr>)" unfolding t by simp_all
    then show ?thesis by (rule that)
  qed
  let ?s3 = "?s2\<lparr>lk := l3, threads := (threads ?s2)(Thread 0 := test_tcb)\<rparr>"
  have n3: "not_linked (T_sched (Thread 0)) ?Q3"
    using n1[of "Thread 0"] by (auto simp: unlinked_node_def)
  let ?test = "test_tcb\<lparr>t_s := loaded_state cpu fn_test (r - 2 * FRAME_SIZE)\<rparr>"
  have v0: "valid_tid (Thread 0)" by (simp add: MAXTHREAD_def)
  obtain l4 where l4: "init_and_load cpu (Thread 0) fn_test (STATUS_ALL_INT_DISABLE STATUS_SYS_MODE) ?s3 =
      Some (?s3\<lparr>lk := l4, threads := (threads ?s3)(Thread 0 := ?test),
        state_init_n := state_init_n ?s3 + 1, thread_count := thread_count ?s3 + 1\<rparr>)"
    "kernel_ok (?Q3(Readyq := ?Q3 Readyq @ [T_sched (Thread 0)]))
      (?s3\<lparr>lk := l4, threads := (threads ?s3)(Thread 0 := ?test)\<rparr>)"
    using init_and_load_correct[OF l3(2) v0 n3, of r cpu fn_test] r by auto
  have q: "?Q3(Readyq := ?Q3 Readyq @ [T_sched (Thread 0)]) = first_queues"
    by (auto simp: first_queues_def fun_eq_iff)
  have th: "(threads ?s3)(Thread 0 := ?test) = first_threads cpu r"
    by (auto simp: first_threads_def fun_eq_iff)
  have "load_readyq cpu 0 s = Some (s\<lparr>lk := l4, threads := first_threads cpu r, soft_blocked_thread := ?sb,
      SSI := Some SSI_thread, state_init_n := 3, thread_count := 2\<rparr>)"
    using l1(1) l2(1) l3(1) l4(1) th unfolding s2 by (simp add: load_readyq_def p2test_init_def)
  moreover have "kernel_ok first_queues (s\<lparr>lk := l4, threads := first_threads cpu r\<rparr>)"
    using l4(2) unfolding q th by (rule kernel_ok_fields) simp_all
  ultimately show ?thesis by blast
qed

section \<open>The system starts\<close>

lemma first_queues_members:
  "linked_at first_queues t h \<longleftrightarrow> h = Readyq \<and> (t = SSI_thread \<or> t = Thread 0)"
  by (auto simp: linked_at_def first_queues_def dest!: boot_queues_members split: if_splits)

lemma first_threads_simps [simp]:
  "first_threads cpu r SSI_thread = ssi_tcb\<lparr>t_s := loaded_state cpu fn_ssi (r - FRAME_SIZE)\<rparr>"
  "first_threads cpu r (Thread 0) = test_tcb\<lparr>t_s := loaded_state cpu fn_test (r - 2 * FRAME_SIZE)\<rparr>"
  "0 < i \<Longrightarrow> first_threads cpu r (Thread i) = zero_tcb"
  by (simp_all add: first_threads_def)

lemma first_sched_inv: "sched_inv first_queues None (first_threads cpu r)"
proof -
  have "thread_sched_ok first_queues None (first_threads cpu r t) t" if "valid_tid t" for t
  proof (cases t)
    case SSI_thread
    then show ?thesis by (auto simp: thread_sched_ok_def first_queues_members ssi_tcb_def)
  next
    case (Thread i)
    then show ?thesis
      by (cases "i = 0") (auto simp: thread_sched_ok_def first_queues_members test_tcb_def zero_tcb_def)
  qed
  then show ?thesis by (simp add: sched_inv_def)
qed

lemma first_live: "live_threads s = {SSI_thread, Thread 0}" if "threads s = first_threads cpu r"
proof -
  have "t \<in> live_threads s \<longleftrightarrow> t = SSI_thread \<or> t = Thread 0" for t
  proof (cases t)
    case (Thread i)
    then show ?thesis using that
      by (cases "i = 0") (auto simp: live_threads_def test_tcb_def zero_tcb_def MAXTHREAD_def)
  qed (use that in \<open>auto simp: live_threads_def ssi_tcb_def\<close>)
  then show ?thesis by auto
qed

text \<open>The lists when the SSI has been taken from the ready queue.\<close>

definition started_queues :: queues where
  "started_queues = first_queues(Readyq := [T_sched (Thread 0)])"

text \<open>The state in which \<open>scheduler\<close> is called for the first time, but for the links.\<close>

definition before_first :: "state_t \<Rightarrow> u32 \<Rightarrow> u32 \<Rightarrow> node links \<Rightarrow> kstate \<Rightarrow> kstate" where
  "before_first cpu r scale l s = s\<lparr>lk := l, INT_NEWAREA := loaded_state cpu fn_interrupt_h r,
     TLB_NEWAREA := loaded_state cpu fn_tlbtrap_h r, PGMTRAP_NEWAREA := loaded_state cpu fn_pgmtrap_h r,
     SYSBK_NEWAREA := loaded_state cpu fn_syscall_h r, clockPerTimeslice := scale * 5000,
     threads := first_threads cpu r,
     soft_blocked_thread := (\<lambda>i. if i < 5 then None else soft_blocked_thread s i), SSI := Some SSI_thread,
     state_init_n := 3, thread_count := 2\<rparr>"

lemma main_to_scheduler:
  assumes r: "ram_top m = Some r" and sc: "as_u32 (m BUS_REG_TIME_SCALE) = Some scale"
  shows "\<exists>l. main cpu (bss m) = scheduler (before_first cpu r scale l (bss m)) \<and>
    kernel_ok first_queues (before_first cpu r scale l (bss m))"
proof -
  obtain l1 where l1: "proc_init (bss m) = Some (0, (bss m)\<lparr>lk := l1\<rparr>)"
    "shape l1 (boot_heads MAXPROC 0 False) (boot_queues MAXPROC 0 0)" using proc_init_bss by blast
  obtain l2 where l2: "thread_init ((bss m)\<lparr>lk := l1\<rparr>) = Some ((bss m)\<lparr>lk := l2\<rparr>)"
    "shape l2 (boot_heads MAXPROC MAXTHREAD False) (boot_queues MAXPROC MAXTHREAD 0)" using thread_init_bss[OF l1(2)] by blast
  obtain l3 where l3: "msgq_init ((bss m)\<lparr>lk := l2\<rparr>) = Some ((bss m)\<lparr>lk := l3\<rparr>)"
    "shape l3 (boot_heads MAXPROC MAXTHREAD False) (boot_queues MAXPROC MAXTHREAD MAXMSG)" using msgq_init_bss[OF l2(2)] by blast
  let ?s = "(bss m)\<lparr>lk := l3, INT_NEWAREA := loaded_state cpu fn_interrupt_h r,
     TLB_NEWAREA := loaded_state cpu fn_tlbtrap_h r, PGMTRAP_NEWAREA := loaded_state cpu fn_pgmtrap_h r,
     SYSBK_NEWAREA := loaded_state cpu fn_syscall_h r, clockPerTimeslice := scale * 5000\<rparr>"
  have "mem (bss m) = m" by (simp add: bss_def)
  then have i: "states_init cpu ((bss m)\<lparr>lk := l3\<rparr>) \<bind> time_init = Some ?s"
    using states_init_eq[of "(bss m)\<lparr>lk := l3\<rparr>" r cpu] r sc by (simp add: time_init_def)
  have b: "blank ?s" "ram_top (mem ?s) = Some r" using r by (simp_all add: blank_def bss_def)
  have sh: "shape (lk ?s) (boot_heads MAXPROC MAXTHREAD False) (boot_queues MAXPROC MAXTHREAD MAXMSG)" using l3(2) by simp
  obtain l4 where l4: "load_readyq cpu 0 ?s = Some (?s\<lparr>lk := l4, threads := first_threads cpu r,
      soft_blocked_thread := (\<lambda>i. if i < 5 then None else soft_blocked_thread ?s i), SSI := Some SSI_thread,
      state_init_n := 3, thread_count := 2\<rparr>)" "kernel_ok first_queues (?s\<lparr>lk := l4, threads := first_threads cpu r\<rparr>)"
    using load_readyq_correct[OF sh b, of cpu] by blast
  have e: "?s\<lparr>lk := l4, threads := first_threads cpu r,
      soft_blocked_thread := (\<lambda>i. if i < 5 then None else soft_blocked_thread ?s i), SSI := Some SSI_thread,
      state_init_n := 3, thread_count := 2\<rparr> = before_first cpu r scale l4 (bss m)"
    by (simp add: before_first_def bss_def cong: if_cong)
  have "main cpu (bss m) = scheduler (before_first cpu r scale l4 (bss m))"
    using l1(1) l2(1) l3(1) i l4(1) unfolding e by (simp add: main_def flip: bind_assoc)
  moreover have "kernel_ok first_queues (before_first cpu r scale l4 (bss m))"
    by (rule kernel_ok_fields[OF l4(2)]) (simp_all add: before_first_def)
  ultimately show ?thesis by blast
qed

lemma before_first_ok:
  assumes "kernel_ok first_queues (before_first cpu r scale l (bss m))"
  shows "sys_ok first_queues ((before_first cpu r scale l (bss m))\<lparr>current_thread := None\<rparr>)"
proof (rule sys_okI)
  show "sched_inv first_queues (current_thread ((before_first cpu r scale l (bss m))\<lparr>current_thread := None\<rparr>))
      (threads ((before_first cpu r scale l (bss m))\<lparr>current_thread := None\<rparr>))"
    using first_sched_inv by (simp add: before_first_def)
  have "mailbox first_queues s = (\<lambda>_. [])" for s :: kstate by (simp add: mailbox_fun first_queues_def)
  then show "mail_inv (mailbox first_queues ((before_first cpu r scale l (bss m))\<lparr>current_thread := None\<rparr>))
      (threads ((before_first cpu r scale l (bss m))\<lparr>current_thread := None\<rparr>))" by (simp add: mail_inv_def)
  show "devices_ok (soft_blocked_thread ((before_first cpu r scale l (bss m))\<lparr>current_thread := None\<rparr>))"
    by (simp add: before_first_def bss_def devices_ok_def)
qed (use assms in \<open>simp_all add: before_first_def bss_def mgrs_ok_def free_pcb_def first_queues_def\<close>)

lemma main_correct:
  assumes "bus_ok m"
  shows "\<exists>r s'. main cpu (bss m) = Some (Ldst (loaded_state cpu fn_ssi (r - FRAME_SIZE)), s') \<and> ram_top m = Some r \<and>
    sys_ok started_queues s' \<and> current_thread s' = Some SSI_thread \<and>
    count_error s' = 0 \<and> threads s' = first_threads cpu r \<and> TIMER s' = clockPerTimeslice s' \<and> mem s' = m \<and>
    SYSBK_OLDAREA s' = zero_state \<and> procs s' = (\<lambda>_. free_pcb) \<and> soft_blocked_thread s' = (\<lambda>_. None) \<and>
    INT_NEWAREA s' = loaded_state cpu fn_interrupt_h r \<and> TLB_NEWAREA s' = loaded_state cpu fn_tlbtrap_h r \<and>
    PGMTRAP_NEWAREA s' = loaded_state cpu fn_pgmtrap_h r \<and> SYSBK_NEWAREA s' = loaded_state cpu fn_syscall_h r \<and>
    SSI s' = Some SSI_thread \<and>
    map_option (\<lambda>scale. scale * 5000) (as_u32 (m BUS_REG_TIME_SCALE)) = Some (clockPerTimeslice s')"
proof -
  obtain r scale where r: "ram_top m = Some r" "as_u32 (m BUS_REG_TIME_SCALE) = Some scale"
    using assms by (auto simp: bus_ok_def)
  obtain l where l: "main cpu (bss m) = scheduler (before_first cpu r scale l (bss m))"
    "kernel_ok first_queues (before_first cpu r scale l (bss m))" using main_to_scheduler[OF r] by blast
  let ?s = "before_first cpu r scale l (bss m)"
  have "first_queues Readyq = T_sched SSI_thread # [T_sched (Thread 0)]" by (simp add: first_queues_def)
  from scheduler_dispatch[OF before_first_ok[OF l(2)] _ this] obtain l' where l':
    "scheduler ?s = Some (Ldst (t_s (threads ?s SSI_thread)),
        ?s\<lparr>lk := l', current_thread := Some SSI_thread, TIMER := clockPerTimeslice ?s\<rparr>)"
    "sys_ok (first_queues(Readyq := [T_sched (Thread 0)]))
        (?s\<lparr>lk := l', current_thread := Some SSI_thread, TIMER := clockPerTimeslice ?s\<rparr>)" by (auto simp: before_first_def bss_def)
  have th: "threads ?s = first_threads cpu r" "thread_count ?s = 2" "mem ?s = m"
    "SYSBK_OLDAREA ?s = zero_state" "procs ?s = (\<lambda>_. free_pcb)" "soft_blocked_thread ?s = (\<lambda>_. None)"
    "INT_NEWAREA ?s = loaded_state cpu fn_interrupt_h r" "TLB_NEWAREA ?s = loaded_state cpu fn_tlbtrap_h r"
    "PGMTRAP_NEWAREA ?s = loaded_state cpu fn_pgmtrap_h r" "SYSBK_NEWAREA ?s = loaded_state cpu fn_syscall_h r"
    "SSI ?s = Some SSI_thread" "map_option (\<lambda>scale. scale * 5000) (as_u32 (m BUS_REG_TIME_SCALE)) = Some (clockPerTimeslice ?s)"
    using r(2) by (simp_all add: before_first_def bss_def cong: if_cong)
  have "live_threads ?s = {SSI_thread, Thread 0}" using first_live[OF th(1)] .
  then have "count_error ?s = 0" using th(2) by (simp add: count_error_def)
  then show ?thesis using l' l(1) r(1) th
    by (intro exI[of _ r]
        exI[of _ "?s\<lparr>lk := l', current_thread := Some SSI_thread, TIMER := clockPerTimeslice ?s\<rparr>"] conjI) (simp_all add: started_queues_def)
qed

end
