(* ===== verification/Interrupts.thy ===== *)
theory Interrupts imports Creation begin

text \<open>
  The interrupt handler, \<open>src/src/handlers/interrupts.c\<close>. The file names two variables that are
  declared nowhere: \<open>p\<close>, the address of the interrupting-device bitmap, and \<open>sender\<close>, in an assertion.
  The word \<open>*p\<close> and the value of \<open>sender\<close> are arguments of the definitions that use them.
\<close>

section \<open>Definitions\<close>

definition interval_timer_h :: "state_t \<Rightarrow> kstate \<Rightarrow> (outcome \<times> kstate) option" where
  "interval_timer_h cpu s = do {
     s \<leftarrow> (case current_thread s of
             None \<Rightarrow> Some s
           | Some cur \<Rightarrow> do {
               let s = upd_thread cur (\<lambda>x. x\<lparr>t_s := INT_OLDAREA s\<rparr>) s;
               let s = upd_thread cur (\<lambda>x. x\<lparr>run_time := run_time x + clockPerTimeslice s\<rparr>) s;
               thread_enqueue cur Readyq s });
     s \<leftarrow> update_clock cpu (clockPerTimeslice s) s;
     scheduler s
   }"

definition acknowledge :: "tid option \<Rightarrow> u32 \<Rightarrow> nat \<Rightarrow> kstate \<Rightarrow> (outcome \<times> kstate) option" where
  "acknowledge sender_var command_address requester_index s = do {
     let s = s\<lparr>mem := (mem s)(command_address := U DEV_C_ACK)\<rparr>;
     (case soft_blocked_thread s requester_index of
        None \<Rightarrow> Some (Panic, s)
      | Some t \<Rightarrow> do {
          (rval, s) \<leftarrow> send (Some t) (SSI s) NULL s;
          if rval \<noteq> SEND_SUCCESS then Some (Panic, s)
          else do {
            let s = s\<lparr>soft_blocked_thread := (soft_blocked_thread s)(requester_index := None)\<rparr>;
            if is_idle s then
              if sender_var \<noteq> SSI s then Some (Panic, s)
              else scheduler (s\<lparr>is_idle := False\<rparr>)
            else Some (Ldst (INT_OLDAREA s), s) } })
   }"

text \<open>The first pending bit of the five lines and eight devices; every bit is taken for terminal 0.\<close>

definition io_h :: "tid option \<Rightarrow> u32 \<Rightarrow> kstate \<Rightarrow> (outcome \<times> kstate) option" where
  "io_h sender_var p s =
     (if list_ex (\<lambda>(i, j). drop_bit j p AND 1 = 1) (List.product [0..<5] [0..<8])
      then acknowledge sender_var (TERMINAL_DEV_FIELD 0 TRANSM_COMMAND) TERMINAL_REQUESTER_INDEX s
      else Some (Panic, s))"

definition interrupt_h :: "state_t \<Rightarrow> tid option \<Rightarrow> u32 \<Rightarrow> kstate \<Rightarrow> (outcome \<times> kstate) option" where
  "interrupt_h cpu sender_var p s = do {
     let s = s\<lparr>timeSliceLeft := TIMER s\<rparr>;
     if timeSliceLeft s > 0 \<and> timeSliceLeft s < clockPerTimeslice s
     then io_h sender_var p s
     else interval_timer_h cpu s
   }"

section \<open>The end of a time slice\<close>

definition preempted :: "state_t \<Rightarrow> u32 \<Rightarrow> tcb_t \<Rightarrow> tcb_t" where
  "preempted old t x = x\<lparr>t_s := old, run_time := run_time x + t\<rparr>"

lemma preempted_simps [simp]:
  "t_pcb (preempted old t x) = t_pcb x" "t_status (preempted old t x) = t_status x" "t_s (preempted old t x) = old"
  "t_wait4sender (preempted old t x) = t_wait4sender x" "run_time (preempted old t x) = run_time x + t"
  by (simp_all add: preempted_def)

definition after_slice :: "node links \<Rightarrow> tid \<Rightarrow> kstate \<Rightarrow> kstate" where
  "after_slice l c s =
     s\<lparr>lk := l, threads := (threads s)(c := preempted (INT_OLDAREA s) (clockPerTimeslice s) (threads s c)),
       pseudoclock := clock_after (pseudoclock s) (clockPerTimeslice s)\<rparr>"

text \<open>
  Round robin: the running thread goes to the end of the ready queue with its state saved, and the
  scheduler takes the head.
\<close>

lemma interval_timer_running:
  assumes ok: "sys_ok Q s" and c: "current_thread s = Some c"
  shows "\<exists>l. interval_timer_h cpu s = scheduler (after_slice l c s) \<and>
    sys_ok (Q(Readyq := Q Readyq @ [T_sched c])) ((after_slice l c s)\<lparr>current_thread := None\<rparr>)"
proof -
  note kok = sys_ok_kernel[OF ok] and inv = sys_ok_sched[OF ok]
  have vc: "valid_tid c" and rc: "t_status (threads s c) = T_STATUS_READY" and nl: "not_linked (T_sched c) Q"
    using sys_ok_running[OF ok c] by simp_all
  let ?x = "preempted (INT_OLDAREA s) (clockPerTimeslice s) (threads s c)"
  let ?s1 = "s\<lparr>threads := (threads s)(c := ?x)\<rparr>"
  let ?Q' = "Q(Readyq := Q Readyq @ [T_sched c])"
  have ok1: "kernel_ok Q ?s1" using kernel_ok_thread_upd[OF kok, of ?x c] by simp
  obtain l where l: "thread_enqueue c Readyq ?s1 = Some (?s1\<lparr>lk := l\<rparr>)" "kernel_ok ?Q' (?s1\<lparr>lk := l\<rparr>)"
    using thread_enqueue_correct[OF ok1 _ vc nl, of Readyq] by auto
  have clock: "update_clock cpu (clockPerTimeslice s) (?s1\<lparr>lk := l\<rparr>) =
      Some (?s1\<lparr>lk := l\<rparr>\<lparr>pseudoclock := clock_after (pseudoclock s) (clockPerTimeslice s)\<rparr>)"
    using update_clock_no_waiter[OF l(2), of cpu "clockPerTimeslice s"] sys_ok_clock[OF ok] by simp
  have eq: "?s1\<lparr>lk := l\<rparr>\<lparr>pseudoclock := clock_after (pseudoclock s) (clockPerTimeslice s)\<rparr> = after_slice l c s"
    by (simp add: after_slice_def)
  have run: "interval_timer_h cpu s = scheduler (after_slice l c s)"
    using l(1) clock unfolding eq by (simp add: interval_timer_h_def c upd_defs preempted_def)
  have "kernel_ok ?Q' (?s1\<lparr>lk := l\<rparr>\<lparr>pseudoclock := clock_after (pseudoclock s) (clockPerTimeslice s)\<rparr>)"
    using l(2) by simp
  then have "kernel_ok ?Q' (after_slice l c s)" unfolding eq .
  moreover have "sched_inv ?Q' None (threads (after_slice l c s))"
  proof (rule sched_inv_update[OF inv, of c])
    show "thread_sched_ok ?Q' None (threads (after_slice l c s) c) c"
      using rc by (auto simp: thread_sched_ok_def after_slice_def)
  qed (use c in \<open>auto simp: after_slice_def\<close>)
  moreover have "mailbox ?Q' ((after_slice l c s)\<lparr>current_thread := None\<rparr>) = mailbox Q s"
    by (rule mailbox_frame) (simp_all add: after_slice_def)
  moreover have "mail_inv (mailbox Q s) (threads (after_slice l c s))"
    by (rule mail_inv_update[OF sys_ok_mail[OF ok], of c])
      (use rc mail_inv_senders[OF sys_ok_mail[OF ok] vc] in \<open>auto simp: after_slice_def\<close>)
  ultimately have "sys_ok ?Q' ((after_slice l c s)\<lparr>current_thread := None\<rparr>)"
    using sys_okD[OF ok] sys_ok_busy[OF ok c] by (intro sys_okI) (simp_all add: after_slice_def)
  with run show ?thesis by blast
qed

lemma interval_timer_idle:
  assumes ok: "sys_ok Q s" and c: "current_thread s = None"
  shows "interval_timer_h cpu s =
    scheduler (s\<lparr>pseudoclock := clock_after (pseudoclock s) (clockPerTimeslice s)\<rparr>)"
  using update_clock_no_waiter[OF sys_ok_kernel[OF ok] sys_ok_clock[OF ok], of cpu "clockPerTimeslice s"] c
  by (simp add: interval_timer_h_def)

lemma count_error_after_slice: "count_error (after_slice l c s) = count_error s"
  by (rule count_error_cong) (simp_all add: after_slice_def)

lemma interval_timer_total:
  assumes st: "settled Q s"
  shows "\<exists>out s' Q'. interval_timer_h cpu s = Some (out, s') \<and> settled Q' s' \<and> count_error s' = count_error s \<and> out \<noteq> Ret"
proof (cases "current_thread s")
  note ok = settled_sys_ok[OF st]
  case None
  let ?p = "clock_after (pseudoclock s) (clockPerTimeslice s)"
  have "s\<lparr>pseudoclock := ?p, current_thread := None\<rparr> = s\<lparr>pseudoclock := ?p\<rparr>" using None by simp
  then have "sys_ok Q (s\<lparr>pseudoclock := ?p, current_thread := None\<rparr>)" using ok by (simp only: sys_ok_other)
  from scheduler_total[OF this] st show ?thesis unfolding interval_timer_idle[OF ok None] settled_def[of Q] by auto
next
  note ok = settled_sys_ok[OF st]
  case (Some c)
  from interval_timer_running[OF ok Some, of cpu] obtain l where l:
    "interval_timer_h cpu s = scheduler (after_slice l c s)"
    "sys_ok (Q(Readyq := Q Readyq @ [T_sched c])) ((after_slice l c s)\<lparr>current_thread := None\<rparr>)" by blast
  have "\<not> is_idle (after_slice l c s)" using sys_ok_busy[OF ok Some] by (simp add: after_slice_def)
  with scheduler_total[OF l(2)] show ?thesis unfolding l(1) count_error_after_slice by metis
qed

text \<open>
  The idle flag is set once and cleared only by a device interrupt: a timer interrupt that finds the
  machine still idle runs into the assertion of \<open>empty_readyq_h\<close>.
\<close>

lemma timer_while_idle_panics:
  assumes ok: "sys_ok Q s" and c: "current_thread s = None" and idle: "is_idle s"
    and Q: "Q Readyq = []" and n: "thread_count s \<noteq> 1"
  shows "\<exists>s'. interval_timer_h cpu s = Some (Panic, s')"
proof -
  have "kernel_ok Q (s\<lparr>pseudoclock := clock_after (pseudoclock s) (clockPerTimeslice s)\<rparr>)"
    using sys_ok_kernel[OF ok] by simp
  from scheduler_empty[OF this Q] show ?thesis
    unfolding interval_timer_idle[OF ok c] using idle n by (simp add: empty_readyq_h_def)
qed

section \<open>Device interrupts\<close>

lemma io_h_pending:
  "io_h v p s = (if \<exists>j < 8. bit p j
     then acknowledge v (TERMINAL_DEV_FIELD 0 TRANSM_COMMAND) TERMINAL_REQUESTER_INDEX s else Some (Panic, s))"
proof -
  have bitj: "drop_bit j p AND 1 = 1 \<longleftrightarrow> bit p j" for j
    by (simp add: and_one_eq bit_iff_odd_drop_bit odd_iff_mod_2_eq_one)
  have "list_ex (\<lambda>(i, j). drop_bit j p AND 1 = 1) (List.product [0..<5] [0..<8]) \<longleftrightarrow>
      (\<exists>i :: nat. \<exists>j. i < 5 \<and> j < 8 \<and> drop_bit j p AND 1 = 1)"
    unfolding list_ex_iff by auto
  also have "\<dots> \<longleftrightarrow> (\<exists>j < 8. bit p j)"
    unfolding bitj by (metis zero_less_numeral)
  finally show ?thesis by (simp add: io_h_def)
qed

text \<open>
  The thread that waits for the device gets an empty letter of the SSI; when it is blocked in the
  receive of its request it becomes ready, and the interrupted thread goes on.
\<close>

lemma acknowledge_wakes:
  assumes ok: "sys_ok Q s" and sb: "soft_blocked_thread s i = Some t"
    and w: "wakes (threads s t) SSI_thread" and busy: "\<not> is_idle s"
  shows "\<exists>s' Q'. acknowledge v addr i s = Some (Ldst (INT_OLDAREA s), s') \<and> sys_ok Q' s' \<and>
    current_thread s' = current_thread s \<and> soft_blocked_thread s' = (soft_blocked_thread s)(i := None) \<and>
    threads s' = (threads s)(t := woken (threads s t) (Some SSI_thread)) \<and> T_sched t \<in> set (Q' Readyq) \<and>
    count_error s' = count_error s"
proof -
  have t: "soft_blocked_thread s i = Some t" "valid_tid t" using sb sys_ok_devices[OF ok] by (auto simp: devices_ok_def)
  let ?s0 = "s\<lparr>mem := (mem s)(addr := U DEV_C_ACK)\<rparr>"
  have ok0: "sys_ok Q ?s0" using ok by simp
  have st: "t_status (threads s t) = T_STATUS_W4MSG" using w by (simp add: wakes_def)
  obtain a where a: "a3 (t_s (threads s t)) = U a"
    using sched_inv_waiting[OF sys_ok_sched[OF ok] t(2) st] by blast
  obtain l where l: "send (Some t) (Some SSI_thread) NULL ?s0 =
      Some (SEND_SUCCESS, s\<lparr>lk := l, mem := put_word a NULL (mem ?s0),
        threads := (threads s)(t := woken (threads s t) (Some SSI_thread))\<rparr>)"
    "sys_ok (after_resume Q s t) (s\<lparr>lk := l, mem := put_word a NULL (mem ?s0),
        threads := (threads s)(t := woken (threads s t) (Some SSI_thread))\<rparr>)"
    using send_woken[OF ok0 t(2), of SSI_thread a NULL] w a by auto
  let ?s' = "s\<lparr>lk := l, mem := put_word a NULL (mem ?s0),
        threads := (threads s)(t := woken (threads s t) (Some SSI_thread)),
        soft_blocked_thread := (soft_blocked_thread s)(i := None)\<rparr>"
  have run: "acknowledge v addr i s = Some (Ldst (INT_OLDAREA s), ?s')"
    using l(1) t(1) busy sys_ok_SSI[OF ok] by (simp add: acknowledge_def)
  have "count_error ?s' = count_error s" by (rule count_error_cong) (use st in simp_all)
  moreover have "sys_ok (after_resume Q s t) ?s'"
    using sys_ok_soft_blocked[OF l(2) devices_ok_upd(1)[OF sys_ok_devices[OF ok]], of i] by simp
  ultimately show ?thesis using run
    by (intro exI[of _ ?s'] exI[of _ "after_resume Q s t"]) simp
qed

text \<open>When the machine was idle, it leaves the idle state and schedules the thread it woke up.\<close>

lemma acknowledge_idle:
  assumes ok: "sys_ok Q s" and sb: "soft_blocked_thread s i = Some t"
    and w: "wakes (threads s t) SSI_thread" and idle: "is_idle s" "current_thread s = None" and Q: "Q Readyq = []"
  shows "\<exists>s' Q'. acknowledge (Some SSI_thread) addr i s =
      Some (Ldst ((t_s (threads s t))\<lparr>a1 := Tcb SSI_thread\<rparr>), s') \<and> sys_ok Q' s' \<and>
    current_thread s' = Some t \<and> \<not> is_idle s' \<and> soft_blocked_thread s' = (soft_blocked_thread s)(i := None) \<and>
    TIMER s' = clockPerTimeslice s"
proof -
  have t: "soft_blocked_thread s i = Some t" "valid_tid t" using sb sys_ok_devices[OF ok] by (auto simp: devices_ok_def)
  let ?s0 = "s\<lparr>mem := (mem s)(addr := U DEV_C_ACK)\<rparr>"
  have ok0: "sys_ok Q ?s0" using ok by simp
  have st: "t_status (threads s t) = T_STATUS_W4MSG" using w by (simp add: wakes_def)
  obtain a where a: "a3 (t_s (threads s t)) = U a" and lt: "linked_at Q t (wait_queue (t_wait4sender (threads s t)))"
    using sched_inv_waiting[OF sys_ok_sched[OF ok] t(2) st] by blast
  obtain l where l: "send (Some t) (Some SSI_thread) NULL ?s0 =
      Some (SEND_SUCCESS, s\<lparr>lk := l, mem := put_word a NULL (mem ?s0),
        threads := (threads s)(t := woken (threads s t) (Some SSI_thread))\<rparr>)"
    "sys_ok (after_resume Q s t) (s\<lparr>lk := l, mem := put_word a NULL (mem ?s0),
        threads := (threads s)(t := woken (threads s t) (Some SSI_thread))\<rparr>)"
    using send_woken[OF ok0 t(2), of SSI_thread a NULL] w a by auto
  let ?s3 = "s\<lparr>lk := l, mem := put_word a NULL (mem ?s0),
        threads := (threads s)(t := woken (threads s t) (Some SSI_thread)),
        soft_blocked_thread := (soft_blocked_thread s)(i := None), is_idle := False\<rparr>"
  have run: "acknowledge (Some SSI_thread) addr i s = scheduler ?s3"
    using l(1) t(1) idle(1) sys_ok_SSI[OF ok] by (simp add: acknowledge_def)
  let ?s2 = "s\<lparr>lk := l, mem := put_word a NULL (mem ?s0),
        threads := (threads s)(t := woken (threads s t) (Some SSI_thread))\<rparr>"
  have "sys_ok (after_resume Q s t) (?s2\<lparr>soft_blocked_thread := (soft_blocked_thread s)(i := None), is_idle := False\<rparr>)"
    using sys_ok_not_idle[OF sys_ok_soft_blocked[OF l(2) devices_ok_upd(1)[OF sys_ok_devices[OF ok]], of i]] by simp
  moreover have "?s3 = ?s3\<lparr>current_thread := None\<rparr>" using idle(2) by simp
  ultimately have ok2: "sys_ok (after_resume Q s t) (?s3\<lparr>current_thread := None\<rparr>)" by (metis (no_types))
  have R: "after_resume Q s t Readyq = T_sched t # []" using Q by simp
  from scheduler_dispatch[OF ok2 _ R] show ?thesis unfolding run by auto
qed

text \<open>
  A thread that was terminated while it waited for the device is still in \<open>soft_blocked_thread\<close>: the
  letter cannot be sent and the assertion on \<open>rval\<close> fails.
\<close>

lemma acknowledge_dead_panics:
  assumes "soft_blocked_thread s i = Some t" "t_status (threads s t) = T_STATUS_NONE"
  shows "acknowledge v addr i s = Some (Panic, s\<lparr>mem := (mem s)(addr := U DEV_C_ACK)\<rparr>)"
  using assms send_dead[of "s\<lparr>mem := (mem s)(addr := U DEV_C_ACK)\<rparr>" t]
  by (simp add: acknowledge_def SEND_FAILURE_def SEND_SUCCESS_def)

text \<open>
  Whoever terminates the process of that thread, or a process above it, leaves the thread registered:
  whatever interrupt of a device comes next, before the end of a time slice, stops the machine.
\<close>

lemma registered_dead_panics:
  assumes "soft_blocked_thread s TERMINAL_REQUESTER_INDEX = Some t" "t_status (threads s t) = T_STATUS_NONE"
    and "j < 8" "bit pending j" "0 < now" "now < clockPerTimeslice s"
  shows "\<exists>s'. interrupt_h cpu v pending (s\<lparr>TIMER := now\<rparr>) = Some (Panic, s')"
  using acknowledge_dead_panics[of "s\<lparr>TIMER := now, timeSliceLeft := now\<rparr>" TERMINAL_REQUESTER_INDEX t v] assms
  by (auto simp: interrupt_h_def io_h_pending Let_def)

lemma dead_requester_panics:
  assumes ok: "sys_ok Q s" and cur: "current_thread s = Some SSI_thread"
    and reg: "soft_blocked_thread s TERMINAL_REQUESTER_INDEX = Some t"
    and t: "t_pcb (threads s t) = Some q" "q \<in> dying (procs s) p"
    and a: "valid_tid a" "t_pcb (threads s a) = Some p"
  shows "\<exists>s'. terminate_process_s a s = Some s' \<and> t_status (threads s' t) = T_STATUS_NONE \<and>
    soft_blocked_thread s' TERMINAL_REQUESTER_INDEX = Some t \<and> clockPerTimeslice s' = clockPerTimeslice s \<and>
    (\<forall>cpu v pending now j. 0 < now \<and> now < clockPerTimeslice s \<and> j < 8 \<and> bit pending j \<longrightarrow>
       (\<exists>s''. interrupt_h cpu v pending (s'\<lparr>TIMER := now\<rparr>) = Some (Panic, s'')))"
proof -
  obtain s' where s': "terminate_process_s a s = Some s'" "killed (dying (procs s) p - {0}) (dying (procs s) p) s s'"
    using terminate_process_s_correct[OF ok cur a] by blast
  have "valid_tid t" using reg sys_ok_devices[OF ok] by (auto simp: devices_ok_def)
  then have dead: "t_status (threads s' t) = T_STATUS_NONE" using s'(2) t by (simp add: killed_def victims_def)
  have fr: "soft_blocked_thread s' TERMINAL_REQUESTER_INDEX = Some t" "clockPerTimeslice s' = clockPerTimeslice s"
    using s'(2) reg by (simp_all add: killed_def)
  have "\<exists>s''. interrupt_h cpu v pending (s'\<lparr>TIMER := now\<rparr>) = Some (Panic, s'')"
    if "0 < now \<and> now < clockPerTimeslice s \<and> j < 8 \<and> bit pending j" for cpu v pending now j
    using that registered_dead_panics[OF fr(1) dead, of j pending now cpu v] fr(2) by simp
  then show ?thesis using s'(1) dead fr by blast
qed

text \<open>Whatever the state of the waiting thread, the handler ends in a state that satisfies the invariants.\<close>

lemma acknowledge_total:
  assumes st: "settled Q s"
  shows "\<exists>out s' Q'. acknowledge v addr i s = Some (out, s') \<and> sys_ok Q' s' \<and> (out = Panic \<or> settled Q' s') \<and>
    count_error s' = count_error s \<and> out \<noteq> Ret"
proof (cases "soft_blocked_thread s i")
  case None
  then show ?thesis using st by (auto simp: acknowledge_def settled_def intro!: exI[of _ Q])
next
  case (Some t)
  note ok = settled_sys_ok[OF st]
  let ?s0 = "s\<lparr>mem := (mem s)(addr := U DEV_C_ACK)\<rparr>"
  have t: "valid_tid t" using Some sys_ok_devices[OF ok] by (auto simp: devices_ok_def)
  have ok0: "sys_ok Q ?s0" using ok by simp
  obtain r s1 Q1 where s1: "send (Some t) (Some SSI_thread) NULL ?s0 = Some (r, s1)" "sys_ok Q1 s1" "send_frame ?s0 s1"
    "r \<noteq> SEND_SUCCESS \<longrightarrow> s1 = ?s0"
    using send_total[OF ok0 _ t, of SSI_thread NULL] by auto
  let ?s2 = "s1\<lparr>soft_blocked_thread := (soft_blocked_thread s1)(i := None)\<rparr>"
  have c1: "count_error s1 = count_error s" "is_idle s1 = is_idle s" "current_thread s1 = current_thread s"
    "SSI s1 = Some SSI_thread"
    using s1(3) sys_ok_SSI[OF ok] by (simp_all add: send_frame_def)
  have ok2: "sys_ok Q1 ?s2" using sys_ok_soft_blocked[OF s1(2) devices_ok_upd(1)[OF sys_ok_devices[OF s1(2)]]] .
  consider (failed) "r \<noteq> SEND_SUCCESS" | (busy) "r = SEND_SUCCESS" "\<not> is_idle s"
    | (wrong) "r = SEND_SUCCESS" "is_idle s" "v \<noteq> Some SSI_thread"
    | (idle) "r = SEND_SUCCESS" "is_idle s" "v = Some SSI_thread" by blast
  then show ?thesis
  proof cases
    case failed
    then have "acknowledge v addr i s = Some (Panic, ?s0)"
      using Some s1(1,4) sys_ok_SSI[OF ok] by (simp add: acknowledge_def)
    then show ?thesis using ok0 by auto
  next
    case busy
    then have "acknowledge v addr i s = Some (Ldst (INT_OLDAREA s1), ?s2)"
      using Some s1(1) c1 sys_ok_SSI[OF ok] by (simp add: acknowledge_def)
    moreover have "settled Q1 ?s2" using ok2 busy c1 by (simp add: settled_def)
    ultimately show ?thesis using c1 ok2 by auto
  next
    case wrong
    then have "acknowledge v addr i s = Some (Panic, ?s2)"
      using Some s1(1) c1 sys_ok_SSI[OF ok] by (simp add: acknowledge_def)
    then show ?thesis using ok2 c1 by auto
  next
    case idle
    then have run: "acknowledge v addr i s = scheduler (?s2\<lparr>is_idle := False\<rparr>)"
      using Some s1(1) c1 sys_ok_SSI[OF ok] by (simp add: acknowledge_def)
    have "current_thread s = None" using idle sys_ok_idle[OF ok] by simp
    then have "?s2 = ?s2\<lparr>current_thread := None\<rparr>" using c1 by simp
    then have "sys_ok Q1 (?s2\<lparr>is_idle := False, current_thread := None\<rparr>)"
      using ok2 sys_ok_idle_none(1)[of Q1 False ?s2] by simp
    from scheduler_total[OF this] c1 show ?thesis unfolding run by (auto dest: settled_sys_ok)
  qed
qed

lemma interrupt_h_total:
  assumes "settled Q s"
  shows "\<exists>out s' Q'. interrupt_h cpu v p s = Some (out, s') \<and> sys_ok Q' s' \<and> (out = Panic \<or> settled Q' s') \<and>
    count_error s' = count_error s \<and> out \<noteq> Ret"
proof -
  let ?s = "s\<lparr>timeSliceLeft := TIMER s\<rparr>"
  have st: "settled Q ?s" using assms by (simp add: settled_def)
  have "\<exists>out s' Q'. io_h v p ?s = Some (out, s') \<and> sys_ok Q' s' \<and> (out = Panic \<or> settled Q' s') \<and>
      count_error s' = count_error s \<and> out \<noteq> Ret"
  proof (cases "\<exists>j < 8. bit p j")
    case True
    then show ?thesis using acknowledge_total[OF st] by (simp add: io_h_pending)
  next
    case False
    then show ?thesis using settled_sys_ok[OF st] by (auto simp: io_h_pending)
  qed
  moreover have "\<exists>out s' Q'. interval_timer_h cpu ?s = Some (out, s') \<and> sys_ok Q' s' \<and> (out = Panic \<or> settled Q' s') \<and>
      count_error s' = count_error s \<and> out \<noteq> Ret"
    using interval_timer_total[OF st, of cpu] by (auto dest: settled_sys_ok)
  ultimately show ?thesis by (simp add: interrupt_h_def Let_def)
qed

end
