(* ===== verification/System.thy ===== *)
theory System imports Boot Interrupts begin

text \<open>
  The kernel as a whole: a transition system whose steps are the exceptions that enter the kernel.
  Between two exceptions the running thread may do anything to the memory and to its registers.
  The theorems: every state that is reachable from the boot satisfies the invariants of all components,
  and in such a state every handler returns.
\<close>

section \<open>Definitions\<close>

text \<open>
  \<open>old\<close> is the processor state that the hardware saves, \<open>ram\<close> the memory and \<open>now\<close> the interval timer
  at the exception; \<open>cpu\<close> is the state of the processor in the handler and \<open>frame\<close> the address of
  its stack frame. For an interrupt \<open>pending\<close> is the bitmap of the interrupting devices. \<open>Ssi_turn\<close>
  is one round of the loop of the SSI for the message of \<open>applicant\<close> stored at \<open>msg_at\<close>.
\<close>

datatype event =
    Syscall state_t memory u32 state_t u32
  | Program_trap state_t memory u32 state_t u32
  | Tlb_trap state_t memory u32 state_t u32
  | Interrupt state_t memory u32 state_t "tid option" u32
  | Ssi_turn memory u32 state_t u32 tid

text \<open>What the hardware does before the first instruction of the handler.\<close>

fun arrive :: "event \<Rightarrow> kstate \<Rightarrow> kstate" where
  "arrive (Syscall old ram now cpu frame) s = s\<lparr>mem := ram, TIMER := now, SYSBK_OLDAREA := old\<rparr>"
| "arrive (Program_trap old ram now cpu frame) s = s\<lparr>mem := ram, TIMER := now, PGMTRAP_OLDAREA := old\<rparr>"
| "arrive (Tlb_trap old ram now cpu frame) s = s\<lparr>mem := ram, TIMER := now, TLB_OLDAREA := old\<rparr>"
| "arrive (Interrupt old ram now cpu v pending) s = s\<lparr>mem := ram, TIMER := now, INT_OLDAREA := old\<rparr>"
| "arrive (Ssi_turn ram now cpu msg_at applicant) s = s\<lparr>mem := ram, TIMER := now\<rparr>"

fun handle :: "event \<Rightarrow> kstate \<Rightarrow> (outcome \<times> kstate) option" where
  "handle (Syscall old ram now cpu frame) s = syscall_h cpu frame s"
| "handle (Program_trap old ram now cpu frame) s = pgmtrap_h cpu frame s"
| "handle (Tlb_trap old ram now cpu frame) s = tlbtrap_h cpu frame s"
| "handle (Interrupt old ram now cpu v pending) s = interrupt_h cpu v pending s"
| "handle (Ssi_turn ram now cpu msg_at applicant) s = ssi_turn cpu msg_at applicant s"

definition exec :: "event \<Rightarrow> kstate \<Rightarrow> (outcome \<times> kstate) option" where
  "exec e s = handle e (arrive e s)"

text \<open>
  When an event can happen, and what its data must be: handlers run in kernel mode, system calls
  carry arguments of the right kind, a trap is raised by a thread that belongs to a process, and the
  SSI serves a well-formed request other than \<open>WAIT_FOR_CLOCK\<close> and \<open>GET_MYTHREADID\<close>.
\<close>

fun enabled :: "event \<Rightarrow> kstate \<Rightarrow> bool" where
  "enabled (Syscall old ram now cpu frame) s \<longleftrightarrow>
     handler_mode cpu \<and>
     (\<exists>c. current_thread s = Some c \<and> syscall_args_ok c (arrive (Syscall old ram now cpu frame) s))"
| "enabled (Program_trap old ram now cpu frame) s \<longleftrightarrow>
     handler_mode cpu \<and> (\<exists>w. pc old = U w) \<and>
     (\<exists>c p. current_thread s = Some c \<and> t_pcb (threads s c) = Some p)"
| "enabled (Tlb_trap old ram now cpu frame) s \<longleftrightarrow>
     handler_mode cpu \<and> (\<exists>w. pc old = U w) \<and>
     (\<exists>c p. current_thread s = Some c \<and> t_pcb (threads s c) = Some p)"
| "enabled (Interrupt old ram now cpu v pending) s \<longleftrightarrow> True"
| "enabled (Ssi_turn ram now cpu msg_at applicant) s \<longleftrightarrow>
     handler_mode cpu \<and> current_thread s = Some SSI_thread \<and> valid_tid applicant \<and>
     (\<exists>p r. ram msg_at = U p \<and> r \<noteq> Get_mythreadid \<and>
        request_at p r (arrive (Ssi_turn ram now cpu msg_at applicant) s) \<and>
        request_ok r applicant (arrive (Ssi_turn ram now cpu msg_at applicant) s))"

text \<open>
  Events that \<open>enabled\<close> leaves out because the code checks nothing: their handlers follow a pointer that is
  \<open>NULL\<close> or no thread. A send to \<open>NULL\<close>; a send or receive whose thread is another number; any other
  system call, and any trap, of a thread that belongs to no process (such as the SSI); and the requests of which the
  SSI reads the process of an applicant that has none (any more), or the process or parent of \<open>NULL\<close>.
\<close>

fun needs_process :: "request \<Rightarrow> bool" where
  "needs_process Terminate_process = True"
| "needs_process Terminate_thread = True"
| "needs_process (Setpgmmgr m) = (\<exists>t. m = Tcb t)"
| "needs_process (Settlbmgr m) = (\<exists>t. m = Tcb t)"
| "needs_process (Setsysmgr m) = (\<exists>t. m = Tcb t)"
| "needs_process _ = False"

definition no_process :: "kstate \<Rightarrow> bool" where
  "no_process s \<longleftrightarrow> (\<forall>c. current_thread s = Some c \<longrightarrow> t_pcb (threads s c) = None)"

fun faults :: "event \<Rightarrow> kstate \<Rightarrow> bool" where
  "faults (Syscall old ram now cpu frame) s \<longleftrightarrow>
     a1 old = U SYS_SEND \<and> a2 old = NULL \<and> IS_KERNEL_MODE (s\<lparr>SYSBK_OLDAREA := old\<rparr>) = Some True \<or>
     a1 old \<in> {U SYS_SEND, U SYS_RECV} \<and> as_tcb (a2 old) = None \<or>
     a1 old \<notin> {U SYS_SEND, U SYS_RECV} \<and> no_process s"
| "faults (Program_trap old ram now cpu frame) s \<longleftrightarrow> no_process s"
| "faults (Tlb_trap old ram now cpu frame) s \<longleftrightarrow> no_process s"
| "faults (Interrupt old ram now cpu v pending) s \<longleftrightarrow> False"
| "faults (Ssi_turn ram now cpu msg_at applicant) s \<longleftrightarrow>
     (\<exists>p r. ram msg_at = U p \<and> request_at p r (arrive (Ssi_turn ram now cpu msg_at applicant) s) \<and>
        (t_pcb (threads s applicant) = None \<and> needs_process r \<or> r \<in> {Get_processid NULL, Get_parentprocid NULL}))"

inductive step :: "kstate \<Rightarrow> event \<Rightarrow> outcome \<Rightarrow> kstate \<Rightarrow> bool" where
  exception: "enabled e s \<Longrightarrow> exec e s = Some (out, s') \<Longrightarrow> step s e out s'"

text \<open>The states in which the machine runs or waits: from \<open>main\<close>, as long as nothing halts it.\<close>

inductive reachable :: "kstate \<Rightarrow> bool" where
  boot: "bus_ok m \<Longrightarrow> main cpu (bss m) = Some (out, s) \<Longrightarrow> reachable s"
| step: "reachable s \<Longrightarrow> step s e out s' \<Longrightarrow> out \<noteq> Halt \<Longrightarrow> out \<noteq> Panic \<Longrightarrow> reachable s'"

inductive_simps step_iff: "step s e out s'"
inductive_cases stepE: "step s e out s'"

section \<open>Every handler returns and keeps the invariants\<close>

definition system_ok :: "kstate \<Rightarrow> bool" where
  "system_ok s \<longleftrightarrow> (\<exists>Q. settled Q s) \<and> count_error s = 0"

lemma settled_arrive: "settled Q (arrive e s) = settled Q s" "count_error (arrive e s) = count_error s"
  "threads (arrive e s) = threads s" "procs (arrive e s) = procs s" "current_thread (arrive e s) = current_thread s"
  by (cases e; simp add: settled_def)+

lemma handle_total:
  assumes st: "settled Q s" and en: "enabled e s"
  shows "\<exists>out s' Q'. handle e (arrive e s) = Some (out, s') \<and> (out = Panic \<or> settled Q' s') \<and> count_error s' = count_error s"
proof -
  let ?s = "arrive e s"
  have ok: "sys_ok Q ?s" using settled_sys_ok[of Q ?s] st by (simp add: settled_arrive)
  show ?thesis
  proof (cases e)
    case (Syscall old ram now cpu frame)
    then obtain c where "handler_mode cpu" "current_thread ?s = Some c" "syscall_args_ok c ?s" using en by auto
    from syscall_h_total[OF ok this(2,1,3), of frame] show ?thesis using Syscall by (fastforce simp: settled_arrive)
  next
    case (Program_trap old ram now cpu frame)
    then obtain c p w where "handler_mode cpu" "current_thread ?s = Some c" "t_pcb (threads ?s c) = Some p"
      "pc (PGMTRAP_OLDAREA ?s) = U w" using en by auto
    from pgmtrap_h_total[OF ok this(2,1,3,4), of frame] show ?thesis using Program_trap by (fastforce simp: settled_arrive)
  next
    case (Tlb_trap old ram now cpu frame)
    then obtain c p w where "handler_mode cpu" "current_thread ?s = Some c" "t_pcb (threads ?s c) = Some p"
      "pc (TLB_OLDAREA ?s) = U w" using en by auto
    from tlbtrap_h_total[OF ok this(2,1,3,4), of frame] show ?thesis using Tlb_trap by (fastforce simp: settled_arrive)
  next
    case (Interrupt old ram now cpu v pending)
    have "settled Q ?s" using st by (simp add: settled_arrive)
    from interrupt_h_total[OF this, of cpu v pending] show ?thesis using Interrupt by (fastforce simp: settled_arrive)
  next
    case (Ssi_turn ram now cpu msg_at applicant)
    then obtain p r where h: "handler_mode cpu" "current_thread ?s = Some SSI_thread" "valid_tid applicant"
      "mem ?s msg_at = U p" "r \<noteq> Get_mythreadid" "request_at p r ?s" "request_ok r applicant ?s"
      using en by auto
    have "ssi_running ?s" using ok h(2) by (auto simp: ssi_running_def)
    from ssi_turn_total[OF this h(1,3,4,6,7,5)] show ?thesis using Ssi_turn by (fastforce simp: settled_arrive)
  qed
qed

lemma exec_total:
  assumes "system_ok s" "enabled e s"
  shows "\<exists>out s'. exec e s = Some (out, s') \<and> (out = Panic \<or> system_ok s')"
proof -
  obtain Q where Q: "settled Q s" "count_error s = 0" using assms(1) by (auto simp: system_ok_def)
  obtain out s' Q' where "handle e (arrive e s) = Some (out, s')" "out = Panic \<or> settled Q' s'"
    "count_error s' = count_error s" using handle_total[OF Q(1) assms(2)] by blast
  with Q(2) show ?thesis by (auto simp: exec_def system_ok_def)
qed

text \<open>The events left out do fault.\<close>

lemma pgmtrap_h_no_process: "no_process s \<Longrightarrow> pgmtrap_h cpu frame s = None"
  by (auto simp: pgmtrap_h_def no_process_def split: Option.bind_split)

lemma tlbtrap_h_no_process: "no_process s \<Longrightarrow> tlbtrap_h cpu frame s = None"
  by (auto simp: tlbtrap_h_def no_process_def split: Option.bind_split)

lemma syscall_other_no_process: "no_process s \<Longrightarrow> syscall_other cpu frame n x y z s = None"
  by (auto simp: syscall_other_def no_process_def split: Option.bind_split)

lemma raise_no_process: "no_process s \<Longrightarrow> raise_reserved_instruction cpu frame s = None"
  unfolding raise_reserved_instruction_def Let_def by (rule pgmtrap_h_no_process) (simp add: no_process_def)

lemma syscall_h_faults:
  assumes "faults (Syscall (SYSBK_OLDAREA s) ram now cpu frame) s"
  shows "syscall_h cpu frame s = None"
proof -
  consider "a1 (SYSBK_OLDAREA s) = U SYS_SEND" "a2 (SYSBK_OLDAREA s) = NULL" "IS_KERNEL_MODE s = Some True"
    | "a1 (SYSBK_OLDAREA s) \<in> {U SYS_SEND, U SYS_RECV}" "as_tcb (a2 (SYSBK_OLDAREA s)) = None"
    | "a1 (SYSBK_OLDAREA s) \<notin> {U SYS_SEND, U SYS_RECV}" "no_process s" using assms by auto
  then show ?thesis
  proof cases
    case 1
    then show ?thesis by (simp add: syscall_h_def send_kernel_def send_null sys_defs)
  next
    case 2
    then show ?thesis by (auto simp: syscall_h_def sys_defs)
  next
    case 3
    then show ?thesis by (simp add: syscall_h_def Let_def raise_no_process syscall_other_no_process)
  qed
qed

lemma setmgr_dead:
  "t_pcb (threads s a) = None \<Longrightarrow> setmgr mgr set_mgr (Some m) a s = None"
  by (simp add: setmgr_def)

lemma serve_faults:
  assumes "t_pcb (threads s a) = None \<and> needs_process r \<or> r \<in> {Get_processid NULL, Get_parentprocid NULL}"
  shows "serve cpu a r s = None"
  using assms by (cases r) (auto simp: terminate_process_s_dead terminate_thread_s_def get_processid_s_def ssi_setmgr_def setpgmmgr_s_def
      settlbmgr_s_def setsysmgr_s_def setmgr_dead)

lemma exec_faults:
  assumes "faults e s"
  shows "exec e s = None"
proof (cases e)
  case (Syscall old ram now cpu frame)
  have "faults (Syscall (SYSBK_OLDAREA (arrive e s)) ram now cpu frame) (arrive e s)"
    using assms by (simp add: Syscall no_process_def IS_KERNEL_MODE_def)
  from syscall_h_faults[OF this] show ?thesis by (simp add: Syscall exec_def)
next
  case (Program_trap old ram now cpu frame)
  then show ?thesis using assms pgmtrap_h_no_process[of "arrive e s"] by (simp add: exec_def no_process_def)
next
  case (Tlb_trap old ram now cpu frame)
  then show ?thesis using assms tlbtrap_h_no_process[of "arrive e s"] by (simp add: exec_def no_process_def)
next
  case (Interrupt old ram now cpu v pending)
  then show ?thesis using assms by simp
next
  case (Ssi_turn ram now cpu msg_at applicant)
  then obtain p r where r: "mem (arrive e s) msg_at = U p" "request_at p r (arrive e s)"
    "t_pcb (threads (arrive e s) applicant) = None \<and> needs_process r \<or> r \<in> {Get_processid NULL, Get_parentprocid NULL}"
    using assms by auto
  then have "r \<noteq> Get_mythreadid" by auto
  from ssi_handle_encode[OF r(2) this] serve_faults[OF r(3)] show ?thesis
    using r(1) Ssi_turn by (simp add: exec_def ssi_turn_def)
qed

lemma step_system_ok: "step s e out s' \<Longrightarrow> system_ok s \<Longrightarrow> out \<noteq> Panic \<Longrightarrow> system_ok s'"
  using exec_total[of s e] by (auto elim!: stepE)

lemma boot_system_ok:
  assumes "bus_ok m" "main cpu (bss m) = Some (out, s)"
  shows "system_ok s"
  using main_correct[OF assms(1), of cpu] assms(2) settled_running by (fastforce simp: system_ok_def)

lemma reachable_system_ok: "reachable s \<Longrightarrow> system_ok s"
  by (induction rule: reachable.induct) (auto intro: boot_system_ok step_system_ok)

section \<open>What holds in every reachable state\<close>

lemma reachable_sys_ok:
  assumes "reachable s"
  obtains Q where "sys_ok Q s" "kernel_ok Q s" "\<forall>h. is_head h \<longrightarrow> contents s h = Q h" "settled Q s"
  using reachable_system_ok[OF assms] settled_sys_ok sys_ok_kernel contents_eq by (metis system_ok_def)

text \<open>\<open>thread_count\<close> is the number of threads in the system.\<close>

lemma reachable_thread_count:
  "reachable s \<Longrightarrow> thread_count s = of_nat (card (live_threads s))"
  using reachable_system_ok[of s] by (simp add: system_ok_def count_error_def)

text \<open>No thread is lost: it runs, or it is in exactly one scheduling queue, which its status determines.\<close>

lemma reachable_no_lost_thread:
  assumes "reachable s" "valid_tid t" "t_status (threads s t) \<noteq> T_STATUS_NONE" "current_thread s \<noteq> Some t"
  shows "\<exists>!h. is_sched_head h \<and> T_sched t \<in> set (contents s h)"
proof -
  obtain Q where Q: "sys_ok Q s" "kernel_ok Q s" "\<forall>h. is_head h \<longrightarrow> contents s h = Q h" "settled Q s"
    using reachable_sys_ok[OF assms(1)] .
  have eq: "is_sched_head h \<and> T_sched t \<in> set (contents s h) \<longleftrightarrow> linked_at Q t h" for h
    using Q(3)[rule_format, OF head_kindsI(3), of h] by (auto simp: linked_at_def)
  obtain h where "linked_at Q t h" using sched_inv_linked[OF sys_ok_sched[OF Q(1)] assms(2,3,4)] by blast
  then show ?thesis unfolding eq using linked_at_unique[OF Q(2)] by blast
qed

lemma reachable_running:
  assumes "reachable s" "current_thread s = Some c"
  shows "valid_tid c \<and> t_status (threads s c) = T_STATUS_READY \<and>
    (\<forall>h. is_sched_head h \<longrightarrow> T_sched c \<notin> set (contents s h)) \<and> \<not> is_idle s"
proof -
  obtain Q where Q: "sys_ok Q s" "kernel_ok Q s" "\<forall>h. is_head h \<longrightarrow> contents s h = Q h" "settled Q s"
    using reachable_sys_ok[OF assms(1)] .
  from sys_ok_running[OF Q(1) assms(2)] sys_ok_busy[OF Q(1) assms(2)] show ?thesis
    using Q(3)[rule_format, OF head_kindsI(3)] by (auto simp: linked_at_def)
qed

text \<open>
  No message is lost in a queue: a thread that waits has no letter that it would accept.
\<close>

lemma reachable_no_lost_wakeup:
  assumes "reachable s" "valid_tid t" "t_status (threads s t) = T_STATUS_W4MSG"
  shows "\<forall>l \<in> set (mailbox (contents s) s t). \<not> wanted (Some (t_wait4sender (threads s t))) l"
proof -
  obtain Q where Q: "sys_ok Q s" "kernel_ok Q s" "\<forall>h. is_head h \<longrightarrow> contents s h = Q h" "settled Q s"
    using reachable_sys_ok[OF assms(1)] .
  have "mailbox (contents s) s t = mailbox Q s t" using Q(3) assms(2) by (simp add: mailbox_def)
  then show ?thesis using mail_inv_waiting[OF sys_ok_mail[OF Q(1)] assms(2,3)] by auto
qed

text \<open>The idle kernel has nothing to run.\<close>

lemma reachable_idle:
  assumes "reachable s" "is_idle s"
  shows "contents s Readyq = [] \<and> current_thread s = None"
proof -
  obtain Q where Q: "sys_ok Q s" "kernel_ok Q s" "\<forall>h. is_head h \<longrightarrow> contents s h = Q h" "settled Q s"
    using reachable_sys_ok[OF assms(1)] .
  then show ?thesis using assms(2) sys_ok_idle[OF Q(1)] by (simp add: settled_def)
qed

text \<open>
  No message descriptor leaks: each of them is free or pending for exactly one thread.
\<close>

lemma reachable_messages:
  assumes "reachable s" "m < MAXMSG"
  shows "\<exists>!h. is_msg_head h \<and> M_next m \<in> set (contents s h)"
proof -
  obtain Q where Q: "sys_ok Q s" "kernel_ok Q s" "\<forall>h. is_head h \<longrightarrow> contents s h = Q h" "settled Q s"
    using reachable_sys_ok[OF assms(1)] .
  have eq: "is_msg_head h \<and> M_next m \<in> set (contents s h) \<longleftrightarrow> is_msg_head h \<and> M_next m \<in> set (Q h)" for h
    using Q(3)[rule_format, OF head_kindsI(4), of h] by auto
  have "\<exists>h. is_msg_head h \<and> M_next m \<in> set (Q h)"
  proof (cases "m_sender (msgs s m)")
    case None
    then show ?thesis using msg_inv_free[OF kernel_ok_msgs[OF Q(2)] assms(2)] by (intro exI[of _ Message_h]) simp
  next
    case (Some t)
    then obtain u where "valid_tid u" "M_next m \<in> set (Q (T_msgq u))"
      using msg_inv_used[OF kernel_ok_msgs[OF Q(2)] assms(2)] by blast
    then show ?thesis by (intro exI[of _ "T_msgq u"]) simp
  qed
  then show ?thesis unfolding eq using in_one_list[OF Q(2)] head_kindsI(4) by blast
qed

text \<open>The processes form a tree under the root, and a free process has neither children nor threads.\<close>

lemma reachable_process_tree:
  assumes "reachable s"
  shows "acyclic (parent_rel (procs s)) \<and> p_parent (procs s 0) = None \<and>
    (\<forall>c p. p_parent (procs s c) = Some p \<longrightarrow> p < MAXPROC \<and> P_siblings c \<in> set (contents s (P_children p)) \<and>
       (p = 0 \<or> p_parent (procs s p) \<noteq> None))"
proof -
  obtain Q where Q: "sys_ok Q s" "kernel_ok Q s" "\<forall>h. is_head h \<longrightarrow> contents s h = Q h" "settled Q s"
    using reachable_sys_ok[OF assms(1)] .
  note inv = kernel_ok_procs[OF Q(2)]
  have "p < MAXPROC \<and> P_siblings c \<in> set (contents s (P_children p)) \<and> (p = 0 \<or> p_parent (procs s p) \<noteq> None)"
    if par: "p_parent (procs s c) = Some p" for c p
  proof -
    have p: "p < MAXPROC" "P_siblings c \<in> set (Q (P_children p))" using proc_inv_parent[OF inv par] by simp_all
    have "p_parent (procs s p) \<noteq> None" if "p \<noteq> 0"
      using proc_inv_free[OF inv, of p] that p by (cases "p_parent (procs s p)") auto
    with p Q(3) show ?thesis by auto
  qed
  then show ?thesis using proc_inv_root[OF inv] proc_inv_acyclic[OF inv] by blast
qed

end
