(* ===== verification/Fairness.thy ===== *)
theory Fairness imports System begin

text \<open>
  Sharing the processor: what a sequence of expired time slices does to the running thread and the
  ready queue. Each slice rotates the ring that they form, and when its turn comes again a thread goes
  on with the registers it was interrupted with.
\<close>

section \<open>Definitions\<close>

text \<open>A sequence of exceptions, with the outcome of the last handler.\<close>

fun run_events :: "event list \<Rightarrow> outcome \<Rightarrow> kstate \<Rightarrow> (outcome \<times> kstate) option" where
  "run_events [] out s = Some (out, s)"
| "run_events (e # es) out s = do { (out', s') \<leftarrow> exec e s; run_events es out' s' }"

text \<open>An interrupt that finds the timer expired: it counts down and wraps below zero.\<close>

fun slice_end :: "u32 \<Rightarrow> event \<Rightarrow> bool" where
  "slice_end period (Interrupt old ram now cpu v pending) \<longleftrightarrow> now = 0 \<or> period \<le> now"
| "slice_end period _ \<longleftrightarrow> False"

fun interrupted :: "event \<Rightarrow> state_t" where
  "interrupted (Interrupt old ram now cpu v pending) = old"
| "interrupted _ = zero_state"

text \<open>The running thread and the ready queue.\<close>

definition run_ring :: "kstate \<Rightarrow> tid list" where
  "run_ring s = (case current_thread s of Some c \<Rightarrow> c # tids (contents s Readyq) | None \<Rightarrow> [])"

section \<open>One slice\<close>

lemma run_ring_eq: "sys_ok Q s \<Longrightarrow> current_thread s = Some c \<Longrightarrow> run_ring s = c # tids (Q Readyq)"
  using contents_eq[OF sys_ok_kernel, of Q s Readyq] by (simp add: run_ring_def)

lemma distinct_run_ring:
  assumes ok: "sys_ok Q s" and c: "current_thread s = Some c"
  shows "distinct (run_ring s)"
proof -
  note kok = sys_ok_kernel[OF ok]
  have "distinct (map T_sched (tids (Q Readyq)))"
    using shape_distinct[OF kernel_ok_shape[OF kok], of Readyq] sched_list_tids[OF kok, of Readyq] by simp
  moreover have "c \<notin> set (tids (Q Readyq))" using sys_ok_running[OF ok c] by (auto simp: linked_at_def)
  ultimately show ?thesis by (simp add: run_ring_eq[OF ok c] distinct_map)
qed

lemma interrupt_slice_end:
  "slice_end (clockPerTimeslice s) e \<Longrightarrow> \<exists>cpu. exec e s = interval_timer_h cpu ((arrive e s)\<lparr>timeSliceLeft := TIMER (arrive e s)\<rparr>)"
  by (cases "(clockPerTimeslice s, e)" rule: slice_end.cases)
    (auto simp: exec_def interrupt_h_def Let_def dest: leD)

lemma arrive_slice: "slice_end t e \<Longrightarrow> INT_OLDAREA (arrive e s) = interrupted e \<and> clockPerTimeslice (arrive e s) = clockPerTimeslice s"
  by (cases "(t, e)" rule: slice_end.cases) auto

lemma sys_ok_arrive: "sys_ok Q s \<Longrightarrow> sys_ok Q (arrive e s)"
  by (cases e) simp_all

lemma one_slice:
  assumes ok: "sys_ok Q s" and c: "current_thread s = Some c" and e: "slice_end (clockPerTimeslice s) e"
  shows "\<exists>t s' Q'. exec e s = Some (Ldst (t_s (threads s' t)), s') \<and> sys_ok Q' s' \<and> current_thread s' = Some t \<and>
    run_ring s' = rotate1 (run_ring s) \<and> clockPerTimeslice s' = clockPerTimeslice s \<and>
    threads s' = (threads s)(c := preempted (interrupted e) (clockPerTimeslice s) (threads s c))"
proof -
  let ?s = "(arrive e s)\<lparr>timeSliceLeft := TIMER (arrive e s)\<rparr>"
  have ok1: "sys_ok Q ?s" using sys_ok_arrive[OF ok] by simp
  have c1: "current_thread ?s = Some c" using c by (simp add: settled_arrive)
  obtain cpu where run: "exec e s = interval_timer_h cpu ?s" using interrupt_slice_end[OF e] by blast
  obtain l where l: "interval_timer_h cpu ?s = scheduler (after_slice l c ?s)"
    "sys_ok (Q(Readyq := Q Readyq @ [T_sched c])) ((after_slice l c ?s)\<lparr>current_thread := None\<rparr>)"
    using interval_timer_running[OF ok1 c1] by blast
  have q: "Q Readyq = map T_sched (tids (Q Readyq))" using sched_list_tids[OF sys_ok_kernel[OF ok], of Readyq] by simp
  obtain t ts where t: "tids (Q Readyq) @ [c] = t # ts" by (cases "tids (Q Readyq) @ [c]") auto
  have r: "(Q(Readyq := Q Readyq @ [T_sched c])) Readyq = T_sched t # map T_sched ts"
    using arg_cong[OF t, of "map T_sched"] q by simp
  have busy: "\<not> is_idle (after_slice l c ?s)" using sys_ok_busy[OF ok1 c1] by (simp add: after_slice_def)
  let ?Q' = "Q(Readyq := map T_sched ts)"
  from scheduler_dispatch[OF l(2) busy r] obtain l' where l':
    "scheduler (after_slice l c ?s) = Some (Ldst (t_s (threads (after_slice l c ?s) t)),
      (after_slice l c ?s)\<lparr>lk := l', current_thread := Some t, TIMER := clockPerTimeslice (after_slice l c ?s)\<rparr>)"
    "sys_ok ?Q' ((after_slice l c ?s)\<lparr>lk := l', current_thread := Some t, TIMER := clockPerTimeslice (after_slice l c ?s)\<rparr>)"
    unfolding fun_upd_upd by blast
  let ?s' = "(after_slice l c ?s)\<lparr>lk := l', current_thread := Some t, TIMER := clockPerTimeslice (after_slice l c ?s)\<rparr>"
  have ring: "run_ring ?s' = rotate1 (run_ring s)"
    using run_ring_eq[OF l'(2), of t] run_ring_eq[OF ok c] t by simp
  have th: "threads ?s' = (threads s)(c := preempted (interrupted e) (clockPerTimeslice s) (threads s c))"
    "clockPerTimeslice ?s' = clockPerTimeslice s"
    using arrive_slice[OF e, of s] by (simp_all add: after_slice_def settled_arrive)
  show ?thesis
    using run l(1) l' ring th by (intro exI[of _ t] exI[of _ ?s'] exI[of _ ?Q']) simp
qed

section \<open>Many slices\<close>

text \<open>
  The ring turns by one place for every slice; a thread that is not preempted in the sequence keeps
  its saved state, and the last handler loads the state of the thread that is now at the front.
\<close>

lemma many_slices:
  "sys_ok Q s \<Longrightarrow> current_thread s = Some c \<Longrightarrow> \<forall>e \<in> set es. slice_end (clockPerTimeslice s) e \<Longrightarrow>
   out = Ldst (t_s (threads s c)) \<or> es \<noteq> [] \<Longrightarrow>
   \<exists>t s' Q'. run_events es out s = Some (Ldst (t_s (threads s' t)), s') \<and> sys_ok Q' s' \<and> current_thread s' = Some t \<and>
     run_ring s' = rotate (length es) (run_ring s) \<and>
     (length es \<le> length (run_ring s) \<longrightarrow>
       (\<forall>u. u \<notin> set (take (length es) (run_ring s)) \<longrightarrow> threads s' u = threads s u))"
proof (induction es arbitrary: s Q c out)
  case Nil
  then show ?case by auto
next
  case (Cons e es)
  have e: "slice_end (clockPerTimeslice s) e" using Cons.prems by simp
  obtain t s1 Q1 where s1: "exec e s = Some (Ldst (t_s (threads s1 t)), s1)" "sys_ok Q1 s1" "current_thread s1 = Some t"
    "run_ring s1 = rotate1 (run_ring s)" "clockPerTimeslice s1 = clockPerTimeslice s"
    "threads s1 = (threads s)(c := preempted (interrupted e) (clockPerTimeslice s) (threads s c))"
    using one_slice[OF Cons.prems(1,2) e] by blast
  have es: "\<forall>e \<in> set es. slice_end (clockPerTimeslice s1) e" using Cons.prems s1(5) by simp
  obtain t' s' Q' where s': "run_events es (Ldst (t_s (threads s1 t))) s1 = Some (Ldst (t_s (threads s' t')), s')"
    "sys_ok Q' s'" "current_thread s' = Some t'" "run_ring s' = rotate (length es) (run_ring s1)"
    "length es \<le> length (run_ring s1) \<longrightarrow>
       (\<forall>u. u \<notin> set (take (length es) (run_ring s1)) \<longrightarrow> threads s' u = threads s1 u)"
    using Cons.IH[OF s1(2,3) es, of "Ldst (t_s (threads s1 t))"] by blast
  obtain rs where rs: "run_ring s = c # rs" using run_ring_eq[OF Cons.prems(1,2)] by simp
  have "threads s' u = threads s u" if "length (e # es) \<le> length (run_ring s)" "u \<notin> set (take (length (e # es)) (run_ring s))" for u
    using that s'(5) s1(4,6) rs by auto
  with s1(1,4) s' show ?case
    by (intro exI[of _ t'] exI[of _ s'] exI[of _ Q']) (simp add: rotate_def funpow_swap1)
qed

text \<open>
  After as many slices as there are threads in the ring, the first one runs again, with the state that
  was saved when it was preempted.
\<close>

lemma full_round:
  assumes ok: "sys_ok Q s" and c: "current_thread s = Some c"
    and es: "\<forall>e \<in> set (e # es). slice_end (clockPerTimeslice s) e" and n: "length (e # es) = length (run_ring s)"
  shows "\<exists>s'. run_events (e # es) out s = Some (Ldst (interrupted e), s') \<and> run_ring s' = run_ring s \<and> current_thread s' = Some c"
proof -
  have e: "slice_end (clockPerTimeslice s) e" using es by simp
  obtain t s1 Q1 where s1: "exec e s = Some (Ldst (t_s (threads s1 t)), s1)" "sys_ok Q1 s1" "current_thread s1 = Some t"
    "run_ring s1 = rotate1 (run_ring s)" "clockPerTimeslice s1 = clockPerTimeslice s"
    "threads s1 = (threads s)(c := preempted (interrupted e) (clockPerTimeslice s) (threads s c))"
    using one_slice[OF ok c e] by blast
  obtain rs where rs: "run_ring s = c # rs" using run_ring_eq[OF ok c] by simp
  have len: "length es = length rs" using n rs by simp
  have ring1: "run_ring s1 = rs @ [c]" using s1(4) rs by simp
  have es1: "\<forall>e \<in> set es. slice_end (clockPerTimeslice s1) e" using es s1(5) by simp
  obtain t' s' Q' where s': "run_events es (Ldst (t_s (threads s1 t))) s1 = Some (Ldst (t_s (threads s' t')), s')"
    "sys_ok Q' s'" "current_thread s' = Some t'" "run_ring s' = rotate (length es) (run_ring s1)"
    "\<forall>u. u \<notin> set (take (length es) (run_ring s1)) \<longrightarrow> threads s' u = threads s1 u"
    using many_slices[OF s1(2,3) es1, of "Ldst (t_s (threads s1 t))"] ring1 len by auto
  have "c \<notin> set rs" using distinct_run_ring[OF ok c] rs by simp
  then have "threads s' c = threads s1 c" using s'(5) ring1 len by simp
  moreover have ring': "run_ring s' = c # rs" using s'(4) ring1 len rotate_append[of rs "[c]"] by simp
  moreover have "t' = c" using run_ring_eq[OF s'(2,3)] ring' by simp
  ultimately show ?thesis using s1(1,6) s' rs by auto
qed

end
