(* ===== verification/Ipc.thy ===== *)
theory Ipc imports Fairness begin

text \<open>
  What the kernel promises to the threads: a message machine without pointers, descriptors or links.
  Its state holds who runs, who is ready, what each thread waits for and which letters it has; its
  steps are the system calls, the traps, the end of a time slice and the interrupt of the device. The
  theorem: seen through the abstraction, every such exception of the kernel is one step of the machine.
\<close>

section \<open>The message machine\<close>

datatype phase = Dead | Runnable | Awaits "tid option"

text \<open>The managers of the process of a thread, which get its traps and its other system calls as letters.\<close>

record managers =
  on_trap :: "tid option"
  on_tlb :: "tid option"
  on_call :: "tid option"

record machine =
  k_running :: "tid option"
  k_ready :: "tid list"
  k_phase :: "tid \<Rightarrow> phase"
  k_inbox :: "tid \<Rightarrow> letter list"
  k_room :: nat
  k_saved :: "tid \<Rightarrow> state_t"
  k_mgrs :: "tid \<Rightarrow> managers option"
  k_ram :: memory
  k_threads :: u32
  k_io :: u32
  k_idle :: bool
  k_device :: "tid option"
  k_period :: u32

text \<open>The head of the ready list runs; without one the machine halts, waits for an interrupt or panics.\<close>

definition dispatch :: "machine \<Rightarrow> outcome \<times> machine" where
  "dispatch k =
     (case k_ready k of
        t # ts \<Rightarrow> (Ldst (k_saved k t), k\<lparr>k_running := Some t, k_ready := ts\<rparr>)
      | [] \<Rightarrow>
          let k = k\<lparr>k_running := None\<rparr> in
          if k_threads k = 1 then (Halt, k)
          else if k_io k = 0 \<or> k_idle k then (Panic, k)
          else (Wait, k\<lparr>k_idle := True\<rparr>))"

text \<open>A waiting thread gets the sender as the result of its call, and the payload where it wants it.\<close>

fun address :: "val \<Rightarrow> u32" where
  "address (U a) = a"
| "address _ = 0"

definition wake :: "tid \<Rightarrow> tid option \<Rightarrow> val \<Rightarrow> machine \<Rightarrow> machine" where
  "wake d from v k =
     k\<lparr>k_phase := (k_phase k)(d := Runnable), k_ready := k_ready k @ [d],
       k_ram := put_word (address (a3 (k_saved k d))) v (k_ram k),
       k_saved := (k_saved k)(d := (k_saved k d)\<lparr>a1 := of_tcb from\<rparr>)\<rparr>"

definition put_letter :: "tid \<Rightarrow> tid \<Rightarrow> val \<Rightarrow> machine \<Rightarrow> u32 \<times> machine" where
  "put_letter d from v k =
     (if k_room k = 0 then (SEND_FAILURE, k)
      else (SEND_SUCCESS, k\<lparr>k_inbox := (k_inbox k)(d := k_inbox k d @ [(Some from, v)]), k_room := k_room k - 1\<rparr>))"

definition m_send :: "tid \<Rightarrow> tid \<Rightarrow> val \<Rightarrow> machine \<Rightarrow> u32 \<times> machine" where
  "m_send d from v k =
     (case k_phase k d of
        Dead \<Rightarrow> (SEND_FAILURE, k)
      | Runnable \<Rightarrow> put_letter d from v k
      | Awaits who \<Rightarrow>
          if who = None \<or> who = Some from then (SEND_SUCCESS, wake d (Some from) v k)
          else put_letter d from v k)"

text \<open>The oldest letter that is wanted is taken; without one the caller waits and another thread runs.\<close>

definition m_recv :: "tid \<Rightarrow> tid option \<Rightarrow> u32 \<Rightarrow> state_t \<Rightarrow> machine \<Rightarrow> outcome \<times> machine" where
  "m_recv c who a old k =
     (case find (wanted (Some who)) (k_inbox k c) of
        Some (from, v) \<Rightarrow>
          (Ldst (old\<lparr>a1 := of_tcb from\<rparr>),
           k\<lparr>k_inbox := (k_inbox k)(c := remove_first (wanted (Some who)) (k_inbox k c)), k_room := k_room k + 1,
             k_ram := put_word a v (k_ram k)\<rparr>)
      | None \<Rightarrow> dispatch (k\<lparr>k_phase := (k_phase k)(c := Awaits who), k_saved := (k_saved k)(c := old)\<rparr>))"

definition m_slice_end :: "state_t \<Rightarrow> machine \<Rightarrow> outcome \<times> machine" where
  "m_slice_end old k =
     (case k_running k of
        None \<Rightarrow> dispatch k
      | Some c \<Rightarrow> dispatch (k\<lparr>k_saved := (k_saved k)(c := old), k_ready := k_ready k @ [c]\<rparr>))"

text \<open>
  The device is acknowledged, and the thread that waits for it gets an empty letter of the SSI. \<open>v\<close> is
  the value of the undeclared variable in the assertion of the handler.
\<close>

definition m_device :: "tid option \<Rightarrow> u32 \<Rightarrow> state_t \<Rightarrow> machine \<Rightarrow> outcome \<times> machine" where
  "m_device v pending old k =
     (if \<not> (\<exists>j\<in>{..<8}. bit pending j) then (Panic, k)
      else
        let k = k\<lparr>k_ram := (k_ram k)(TERMINAL_DEV_FIELD 0 TRANSM_COMMAND := U DEV_C_ACK)\<rparr> in
        case k_device k of
          None \<Rightarrow> (Panic, k)
        | Some t \<Rightarrow>
            let (r, k) = m_send t SSI_thread NULL k in
            if r \<noteq> SEND_SUCCESS then (Panic, k)
            else
              let k = k\<lparr>k_device := None\<rparr> in
              if \<not> k_idle k then (Ldst old, k)
              else if v \<noteq> Some SSI_thread then (Panic, k)
              else dispatch (k\<lparr>k_idle := False\<rparr>))"

text \<open>A send or a receive of the running thread \<open>c\<close>.\<close>

definition is_message :: "state_t \<Rightarrow> bool" where
  "is_message old \<longleftrightarrow> handler_mode old \<and> (a1 old = U SYS_SEND \<or> a1 old = U SYS_RECV)"

definition m_message :: "tid \<Rightarrow> state_t \<Rightarrow> machine \<Rightarrow> outcome \<times> machine" where
  "m_message c old k =
     (if a1 old = U SYS_SEND then
        (case as_tcb (a2 old) of
           Some (Some d) \<Rightarrow> (let (r, k) = m_send d c (a3 old) k in (Ldst (old\<lparr>a1 := U r\<rparr>), k))
         | _ \<Rightarrow> (Panic, k))
      else
        (case as_tcb (a2 old) of
           Some who \<Rightarrow> m_recv c who (address (a3 old)) old k
         | None \<Rightarrow> (Panic, k)))"

text \<open>
  What becomes of a thread that traps: it is handed over to its manager, in the state \<open>st\<close>, and nobody
  runs it any more; or, without a manager, it asks the SSI for its termination and waits for the answer,
  which must not be there already.
\<close>

definition m_hand_over :: "tid \<Rightarrow> state_t \<Rightarrow> tid \<Rightarrow> val \<Rightarrow> machine \<Rightarrow> outcome \<times> machine" where
  "m_hand_over c st m v k = dispatch (snd (m_send m c v (k\<lparr>k_saved := (k_saved k)(c := st)\<rparr>)))"

definition m_give_up :: "tid \<Rightarrow> u32 \<Rightarrow> state_t \<Rightarrow> u32 \<Rightarrow> machine \<Rightarrow> outcome \<times> machine" where
  "m_give_up c tag cpu frame k =
     (let k = snd (m_send SSI_thread c (U frame) (k\<lparr>k_ram := (k_ram k)(frame := U tag)\<rparr>));
          r = m_recv c (Some SSI_thread) 0 (cpu\<lparr>a1 := U SYS_RECV, a2 := Tcb SSI_thread, a3 := NULL, a4 := U 0\<rparr>) k in
      if find (wanted (Some (Some SSI_thread))) (k_inbox k c) = None then r else (Panic, snd r))"

text \<open>The instruction that trapped is repeated.\<close>

definition repeated :: "state_t \<Rightarrow> state_t" where
  "repeated old = old\<lparr>pc := (case pc old of U w \<Rightarrow> U (w - 4) | v \<Rightarrow> v)\<rparr>"

definition m_trap :: "tid \<Rightarrow> tid option \<Rightarrow> state_t \<Rightarrow> state_t \<Rightarrow> u32 \<Rightarrow> machine \<Rightarrow> outcome \<times> machine" where
  "m_trap c mgr old cpu frame k =
     (case mgr of Some m \<Rightarrow> m_hand_over c (repeated old) m (TcbState c) k | None \<Rightarrow> m_give_up c 3 cpu frame k)"

text \<open>A send or receive in user mode and the call 0 are traps; the other calls go to their manager.\<close>

definition m_other :: "tid \<Rightarrow> managers \<Rightarrow> state_t \<Rightarrow> state_t \<Rightarrow> u32 \<Rightarrow> machine \<Rightarrow> outcome \<times> machine" where
  "m_other c M old cpu frame k =
     (if a1 old \<in> {U SYS_ERR, U SYS_SEND, U SYS_RECV} then
        m_trap c (on_trap M) (old\<lparr>CP15_Cause := U EXC_RESERVEDINSTR\<rparr>) cpu frame k
      else
        (case on_call M of
           Some m \<Rightarrow> m_hand_over c old m (U frame)
             (k\<lparr>k_ram := (k_ram k)(frame := a1 old, frame + 4 := a2 old, frame + 8 := a3 old, frame + 12 := a4 old)\<rparr>)
         | None \<Rightarrow>
             (case on_trap M of
                Some m \<Rightarrow> m_hand_over c (repeated old) m (TcbState c) k
              | None \<Rightarrow> m_give_up c 4 cpu frame k)))"

text \<open>A step that needs a running thread and its managers.\<close>

definition running :: "(tid \<Rightarrow> outcome \<times> machine) \<Rightarrow> machine \<Rightarrow> outcome \<times> machine" where
  "running f k = (case k_running k of Some c \<Rightarrow> f c | None \<Rightarrow> (Panic, k))"

definition managed :: "tid \<Rightarrow> (managers \<Rightarrow> outcome \<times> machine) \<Rightarrow> machine \<Rightarrow> outcome \<times> machine" where
  "managed c f k = (case k_mgrs k c of Some M \<Rightarrow> f M | None \<Rightarrow> (Panic, k))"

text \<open>One step. The events are those of the kernel; only the services of the SSI are left out.\<close>

fun m_step :: "event \<Rightarrow> machine \<Rightarrow> outcome \<times> machine" where
  "m_step (Syscall old ram now cpu frame) k =
     (let k = k\<lparr>k_ram := ram\<rparr> in
      running (\<lambda>c. if is_message old then m_message c old k else managed c (\<lambda>M. m_other c M old cpu frame k) k) k)"
| "m_step (Program_trap old ram now cpu frame) k =
     (let k = k\<lparr>k_ram := ram\<rparr> in
      running (\<lambda>c. managed c (\<lambda>M. m_trap c (on_trap M) old cpu frame k) k) k)"
| "m_step (Tlb_trap old ram now cpu frame) k =
     (let k = k\<lparr>k_ram := ram\<rparr> in
      running (\<lambda>c. managed c (\<lambda>M. m_trap c (on_tlb M) old cpu frame k) k) k)"
| "m_step (Interrupt old ram now cpu v pending) k =
     (let k = k\<lparr>k_ram := ram\<rparr> in
      if slice_end (k_period k) (Interrupt old ram now cpu v pending) then m_slice_end old k
      else m_device v pending old k)"
| "m_step _ k = (Panic, k)"

text \<open>
  Which events: handlers run in kernel mode; the running thread makes calls with arguments of the right
  kind, and if it has no process only sends and receives in kernel mode; all interrupts.
\<close>

fun call_ok :: "state_t \<Rightarrow> bool" where
  "call_ok old \<longleftrightarrow>
     (\<exists>w. pc old = U w) \<and> (\<exists>w. cpsr old = U w) \<and>
     (a1 old = U SYS_SEND \<longrightarrow> (\<exists>d. a2 old = Tcb d \<and> valid_tid d)) \<and>
     (a1 old = U SYS_RECV \<longrightarrow> (a2 old = NULL \<or> (\<exists>d. a2 old = Tcb d \<and> valid_tid d)) \<and> (\<exists>a. a3 old = U a))"

fun m_enabled :: "event \<Rightarrow> machine \<Rightarrow> bool" where
  "m_enabled (Syscall old ram now cpu frame) k \<longleftrightarrow>
     handler_mode cpu \<and> call_ok old \<and> (\<exists>c. k_running k = Some c \<and> (is_message old \<or> k_mgrs k c \<noteq> None))"
| "m_enabled (Program_trap old ram now cpu frame) k \<longleftrightarrow>
     handler_mode cpu \<and> (\<exists>w. pc old = U w) \<and> (\<exists>c. k_running k = Some c \<and> k_mgrs k c \<noteq> None)"
| "m_enabled (Tlb_trap old ram now cpu frame) k \<longleftrightarrow>
     handler_mode cpu \<and> (\<exists>w. pc old = U w) \<and> (\<exists>c. k_running k = Some c \<and> k_mgrs k c \<noteq> None)"
| "m_enabled (Interrupt old ram now cpu v pending) k \<longleftrightarrow> True"
| "m_enabled _ k \<longleftrightarrow> False"

section \<open>The abstraction\<close>

definition phase_of :: "tcb_t \<Rightarrow> phase" where
  "phase_of x = (case t_status x of T_STATUS_NONE \<Rightarrow> Dead | T_STATUS_READY \<Rightarrow> Runnable | T_STATUS_W4MSG \<Rightarrow> Awaits (t_wait4sender x))"

definition inbox_of :: "queues \<Rightarrow> (mid \<Rightarrow> msg_t) \<Rightarrow> tid \<Rightarrow> letter list" where
  "inbox_of Q ms t = (if valid_tid t then map (letter_of ms) (mids (Q (T_msgq t))) else [])"

definition managers_of :: "(pid \<Rightarrow> pcb_t) \<Rightarrow> pid \<Rightarrow> managers" where
  "managers_of ps p = \<lparr>on_trap = pgm_mgr (ps p), on_tlb = tlb_mgr (ps p), on_call = sys_mgr (ps p)\<rparr>"

definition view :: "queues \<Rightarrow> kstate \<Rightarrow> machine" where
  "view Q s =
     \<lparr>k_running = current_thread s, k_ready = tids (Q Readyq), k_phase = (\<lambda>t. phase_of (threads s t)),
      k_inbox = inbox_of Q (msgs s), k_room = length (Q Message_h),
      k_saved = (\<lambda>t. t_s (threads s t)), k_mgrs = (\<lambda>t. map_option (managers_of (procs s)) (t_pcb (threads s t))), k_ram = mem s, k_threads = thread_count s, k_io = soft_block_count s,
      k_idle = is_idle s, k_device = soft_blocked_thread s TERMINAL_REQUESTER_INDEX, k_period = clockPerTimeslice s\<rparr>"

definition abs_machine :: "kstate \<Rightarrow> machine" where
  "abs_machine s = view (contents s) s"

text \<open>A system call that returns loads the old area again.\<close>

definition effective :: "outcome \<times> kstate \<Rightarrow> outcome" where
  "effective r = (case fst r of Ret \<Rightarrow> Ldst (SYSBK_OLDAREA (snd r)) | out \<Rightarrow> out)"

lemma view_simps [simp]:
  "k_running (view Q s) = current_thread s" "k_ready (view Q s) = tids (Q Readyq)" "k_phase (view Q s) t = phase_of (threads s t)"
  "k_room (view Q s) = length (Q Message_h)" "k_saved (view Q s) t = t_s (threads s t)"
  "k_mgrs (view Q s) t = map_option (managers_of (procs s)) (t_pcb (threads s t))" "k_ram (view Q s) = mem s"
  "k_threads (view Q s) = thread_count s" "k_io (view Q s) = soft_block_count s" "k_idle (view Q s) = is_idle s"
  "k_device (view Q s) = soft_blocked_thread s TERMINAL_REQUESTER_INDEX" "k_period (view Q s) = clockPerTimeslice s"
  "valid_tid t \<Longrightarrow> k_inbox (view Q s) t = mailbox Q s t"
  by (simp_all add: view_def inbox_of_def mailbox_def)

lemma inbox_of_mailbox: "inbox_of Q (msgs s) t = (if valid_tid t then mailbox Q s t else [])"
  by (simp add: inbox_of_def mailbox_def)

lemma inbox_of_sched_upd [simp]: "is_sched_head h \<Longrightarrow> inbox_of (Q(h := x)) ms = inbox_of Q ms"
  by (auto simp: inbox_of_def fun_eq_iff)

lemma abs_machine_eq: "kernel_ok Q s \<Longrightarrow> abs_machine s = view Q s"
  by (auto simp: abs_machine_def view_def contents_eq inbox_of_def fun_eq_iff)

lemma phase_of_iff:
  "phase_of x = Dead \<longleftrightarrow> t_status x = T_STATUS_NONE"
  "phase_of x = Runnable \<longleftrightarrow> t_status x = T_STATUS_READY"
  "phase_of x = Awaits w \<longleftrightarrow> t_status x = T_STATUS_W4MSG \<and> t_wait4sender x = w"
  by (auto simp: phase_of_def split: t_status.splits)

lemma phase_of_woken [simp]: "phase_of (woken x r) = Runnable" and phase_of_blocked [simp]: "phase_of (blocked old w t x) = Awaits w"
  and phase_of_preempted [simp]: "phase_of (preempted old t x) = phase_of x" and phase_of_state [simp]: "phase_of (x\<lparr>t_s := st\<rparr>) = phase_of x"
  by (simp_all add: phase_of_def split: t_status.split)

section \<open>Each operation is an operation of the machine\<close>

lemma scheduler_dispatches:
  assumes ok: "sys_ok Q (s\<lparr>current_thread := None\<rparr>)" and idle: "is_idle s \<Longrightarrow> Q Readyq = []"
  shows "\<exists>out s' Q'. scheduler s = Some (out, s') \<and> kernel_ok Q' s' \<and> out \<noteq> Ret \<and> (out, view Q' s') = dispatch (view Q s)"
proof -
  have kok: "kernel_ok Q s" using sys_ok_kernel[OF ok] by simp
  show ?thesis
  proof (cases "Q Readyq")
    case Nil
    let ?r = "empty_readyq_h (s\<lparr>current_thread := None\<rparr>)"
    have "kernel_ok Q (snd ?r)" using kok by (simp add: empty_readyq_h_def)
    moreover have "(fst ?r, view Q (snd ?r)) = dispatch (view Q s)"
      using Nil by (simp add: empty_readyq_h_def dispatch_def view_def Let_def)
    moreover have "fst ?r \<noteq> Ret" by (simp add: empty_readyq_h_def)
    ultimately show ?thesis
      using scheduler_empty[OF kok Nil] by (intro exI[of _ "fst ?r"] exI[of _ "snd ?r"] exI[of _ Q]) simp
  next
    case (Cons n ns)
    obtain t where n: "n = T_sched t"
      using member_type[OF kok, of Readyq n] member_ok_cases(3)[of Readyq n] Cons by auto
    let ?s' = "\<lambda>l. s\<lparr>lk := l, current_thread := Some t, TIMER := clockPerTimeslice s\<rparr>"
    obtain l where l: "scheduler s = Some (Ldst (t_s (threads s t)), ?s' l)" "sys_ok (Q(Readyq := ns)) (?s' l)"
      using scheduler_dispatch[OF ok _, of t ns] Cons n idle by auto
    have "(Ldst (t_s (threads s t)), view (Q(Readyq := ns)) (?s' l)) = dispatch (view Q s)"
      using Cons n by (simp add: dispatch_def view_def)
    with l sys_ok_kernel[OF l(2)] show ?thesis by blast
  qed
qed

lemma send_refines:
  assumes ok: "sys_ok Q s" and c: "valid_tid c" and d: "valid_tid d"
  shows "\<exists>r s' Q'. send (Some d) (Some c) v s = Some (r, s') \<and> sys_ok Q' s' \<and> send_frame s s' \<and>
    (r \<noteq> SEND_SUCCESS \<longrightarrow> s' = s) \<and> (r, view Q' s') = m_send d c v (view Q s)"
proof -
  note kok = sys_ok_kernel[OF ok]
  obtain r s' Q' where run: "send (Some d) (Some c) v s = Some (r, s')" "send_frame s s'" "r \<noteq> SEND_SUCCESS \<longrightarrow> s' = s"
    using send_total[OF ok c d] by blast
  consider (none) "t_status (threads s d) = T_STATUS_NONE" | (queue) "queues_letter (threads s d) c"
    | (wake) "wakes (threads s d) c"
    using send_cases[of "threads s d" c] by blast
  then have "\<exists>r s' Q'. send (Some d) (Some c) v s = Some (r, s') \<and> sys_ok Q' s' \<and> (r, view Q' s') = m_send d c v (view Q s)"
  proof cases
    case none
    then have "phase_of (threads s d) = Dead" by (simp add: phase_of_iff)
    with send_dead[OF none] ok show ?thesis by (auto simp: m_send_def)
  next
    case queue
    then have m: "m_send d c v (view Q s) = put_letter d c v (view Q s)"
      by (auto simp: m_send_def queues_letter_def phase_of_def split: t_status.splits)
    show ?thesis
    proof (cases "Q Message_h")
      case Nil
      with send_pool_empty[OF kok Nil queue] ok show ?thesis unfolding m by (auto simp: put_letter_def)
    next
      case (Cons n ns)
      then obtain i where "n = M_next i"
        using member_type[OF kok, of Message_h n] member_ok_cases(4)[of Message_h n] by auto
      with Cons have free: "Q Message_h = M_next i # ns" by simp
      let ?Q' = "Q(Message_h := ns, T_msgq d := Q (T_msgq d) @ [M_next i])"
      obtain l where l: "send (Some d) (Some c) v s =
          Some (SEND_SUCCESS, s\<lparr>lk := l, msgs := (msgs s)(i := \<lparr>m_sender = Some c, m_value = v\<rparr>)\<rparr>)"
        "sys_ok ?Q' (s\<lparr>lk := l, msgs := (msgs s)(i := \<lparr>m_sender = Some c, m_value = v\<rparr>)\<rparr>)"
        using send_queued[OF ok c d queue free] by blast
      let ?s' = "s\<lparr>lk := l, msgs := (msgs s)(i := \<lparr>m_sender = Some c, m_value = v\<rparr>)\<rparr>"
      have "mailbox ?Q' ?s' t = (if t = d then mailbox Q s d @ [(Some c, v)] else mailbox Q s t)" if "valid_tid t" for t
        using mailbox_add[OF kok free that d] by simp
      then have "inbox_of ?Q' (msgs ?s') = (inbox_of Q (msgs s))(d := inbox_of Q (msgs s) d @ [(Some c, v)])"
        using d by (simp only: fun_eq_iff inbox_of_mailbox fun_upd_apply) simp
      then have "(SEND_SUCCESS, view ?Q' ?s') = m_send d c v (view Q s)"
        unfolding m using free d by (simp add: put_letter_def view_def)
      with l show ?thesis by blast
    qed
  next
    case wake
    then have st: "t_status (threads s d) = T_STATUS_W4MSG" by (simp add: wakes_def)
    obtain a where a: "a3 (t_s (threads s d)) = U a" using sched_inv_waiting[OF sys_ok_sched[OF ok] d st] by auto
    have q: "is_sched_head (wait_queue (t_wait4sender (threads s d)))" "wait_queue (t_wait4sender (threads s d)) \<noteq> Readyq"
      using sched_inv_waiting[OF sys_ok_sched[OF ok] d st] by (auto simp: linked_at_def wait_queue_def split: option.splits)
    let ?Q' = "after_resume Q s d"
    obtain l where l: "send (Some d) (Some c) v s = Some (SEND_SUCCESS,
        s\<lparr>lk := l, mem := put_word a v (mem s), threads := (threads s)(d := woken (threads s d) (Some c))\<rparr>)"
      "sys_ok ?Q' (s\<lparr>lk := l, mem := put_word a v (mem s), threads := (threads s)(d := woken (threads s d) (Some c))\<rparr>)"
      using send_woken[OF ok d wake a, of v] by blast
    let ?s' = "s\<lparr>lk := l, mem := put_word a v (mem s), threads := (threads s)(d := woken (threads s d) (Some c))\<rparr>"
    have "view ?Q' ?s' = wake d (Some c) v (view Q s)"
      using q a by (auto simp: wake_def view_def fun_eq_iff)
    moreover have "m_send d c v (view Q s) = (SEND_SUCCESS, wake d (Some c) v (view Q s))"
      using wake by (auto simp: m_send_def wakes_def phase_of_def)
    ultimately show ?thesis using l by metis
  qed
  with run show ?thesis by auto
qed

lemma view_before_switch:
  assumes c: "valid_tid c" and e: "\<And>u. sender = Some u \<Longrightarrow> valid_tid u"
  shows "view (Q(wait_queue sender := Q (wait_queue sender) @ [T_sched c])) (before_switch l c sender s) =
    (view Q s)\<lparr>k_phase := (k_phase (view Q s))(c := Awaits sender), k_saved := (k_saved (view Q s))(c := SYSBK_OLDAREA s)\<rparr>"
proof -
  have h: "is_sched_head (wait_queue sender)" "wait_queue sender \<noteq> Readyq" using e by (cases sender; simp)+
  with h show ?thesis by (auto simp: view_def before_switch_def fun_eq_iff)
qed

lemma recv_refines:
  assumes ok: "sys_ok Q s" and c: "current_thread s = Some c" and e: "\<And>u. sender = Some u \<Longrightarrow> valid_tid u"
    and a: "a3 (SYSBK_OLDAREA s) = U a"
  shows "\<exists>out s' Q'. recv cpu sender (U a) s = Some (out, s') \<and> kernel_ok Q' s' \<and>
    (effective (out, s'), view Q' s') = m_recv c sender a (SYSBK_OLDAREA s) (view Q s) \<and>
    (out = Ret \<longleftrightarrow> find (wanted (Some sender)) (k_inbox (view Q s) c) \<noteq> None)"
proof -
  have vc: "valid_tid c" using sys_ok_running[OF ok c] by simp
  show ?thesis
  proof (cases "find (wanted (Some sender)) (mailbox Q s c)")
    case None
    let ?Q' = "Q(wait_queue sender := Q (wait_queue sender) @ [T_sched c])"
    obtain l where l: "recv cpu sender (U a) s = scheduler (before_switch l c sender s)"
      "sys_ok ?Q' ((before_switch l c sender s)\<lparr>current_thread := None\<rparr>)"
      using recv_blocks[OF ok c e a None] by blast
    have "\<not> is_idle (before_switch l c sender s)" using sys_ok_busy[OF ok c] by simp
    then obtain out s' Q'' where "scheduler (before_switch l c sender s) = Some (out, s')" "kernel_ok Q'' s'" "out \<noteq> Ret"
      "(out, view Q'' s') = dispatch (view ?Q' (before_switch l c sender s))"
      using scheduler_dispatches[OF l(2)] by auto
    moreover have "view ?Q' (before_switch l c sender s) = (view Q s)\<lparr>k_phase := (k_phase (view Q s))(c := Awaits sender),
        k_saved := (k_saved (view Q s))(c := SYSBK_OLDAREA s)\<rparr>" by (rule view_before_switch[OF vc e])
    moreover have "effective (out, s') = out" using calculation(3) by (simp add: effective_def split: outcome.splits)
    ultimately show ?thesis
      using None vc unfolding l(1)
      by (intro exI[of _ out] exI[of _ s'] exI[of _ Q'']) (simp add: m_recv_def)
  next
    case (Some y)
    obtain w v where y: "y = (w, v)" by (cases y)
    obtain s1 m where s1: "recv cpu sender (U a) s = Some (Ret, store_return_value (of_tcb w) s1)"
      "kernel_ok (after_take Q c m) s1" "s1 = s\<lparr>lk := lk s1, mem := put_word a v (mem s), msgs := (msgs s)(m := (msgs s m)\<lparr>m_sender := None\<rparr>)\<rparr>"
      "mailbox (after_take Q c m) s1 c = remove_first (wanted (Some sender)) (mailbox Q s c)"
      "\<forall>u. valid_tid u \<longrightarrow> u \<noteq> c \<longrightarrow> mailbox (after_take Q c m) s1 u = mailbox Q s u"
      using msgq_get_found[OF sys_ok_kernel[OF ok] vc Some[unfolded y], of a]
      by (fastforce simp: recv_def c)
    have fr: "threads s1 = threads s" "current_thread s1 = current_thread s" "mem s1 = put_word a v (mem s)"
      "thread_count s1 = thread_count s" "procs s1 = procs s" "soft_block_count s1 = soft_block_count s" "is_idle s1 = is_idle s"
      "soft_blocked_thread s1 = soft_blocked_thread s" "clockPerTimeslice s1 = clockPerTimeslice s"
      "SYSBK_OLDAREA s1 = SYSBK_OLDAREA s" by (subst s1(3), simp)+
    have inbox: "inbox_of (after_take Q c m) (msgs s1) =
        (inbox_of Q (msgs s))(c := remove_first (wanted (Some sender)) (inbox_of Q (msgs s) c))"
      using s1(4,5) vc by (simp only: fun_eq_iff inbox_of_mailbox fun_upd_apply) simp
    let ?s' = "store_return_value (of_tcb w) s1"
    have k: "kernel_ok (after_take Q c m) ?s'" using s1(2) by (simp add: store_return_value_def)
    have "view (after_take Q c m) ?s' = view (after_take Q c m) s1"
      by (simp add: view_def store_return_value_def)
    also have "\<dots> = (view Q s)\<lparr>k_inbox := (k_inbox (view Q s))(c := remove_first (wanted (Some sender)) (k_inbox (view Q s) c)),
        k_room := k_room (view Q s) + 1, k_ram := put_word a v (k_ram (view Q s))\<rparr>"
      using inbox by (simp add: view_def fr)
    finally have "(effective (Ret, ?s'), view (after_take Q c m) ?s') = m_recv c sender a (SYSBK_OLDAREA s) (view Q s)"
      using Some vc y by (simp add: m_recv_def effective_def fr)
    moreover have "find (wanted (Some sender)) (k_inbox (view Q s) c) \<noteq> None" using Some vc by simp
    ultimately show ?thesis using s1(1) k by blast
  qed
qed

text \<open>The running thread leaves the scheduling, and another one is dispatched.\<close>

lemma park_refines:
  assumes ok: "sys_ok Q s" and c: "current_thread s = Some c"
  shows "\<exists>out s' Q'. (do { s \<leftarrow> thread_enqueue c Blockedq s; scheduler s }) = Some (out, s') \<and> kernel_ok Q' s' \<and> out \<noteq> Ret \<and>
    (out, view Q' s') = dispatch (view Q s)"
proof -
  let ?Q = "Q(Blockedq := Q Blockedq @ [T_sched c])"
  obtain l where l: "thread_enqueue c Blockedq s = Some (s\<lparr>lk := l\<rparr>)" "sys_ok ?Q (s\<lparr>lk := l, current_thread := None\<rparr>)"
    using park_running[OF ok c] by auto
  have "view ?Q (s\<lparr>lk := l\<rparr>) = view Q s" by (simp add: view_def)
  with l scheduler_dispatches[of ?Q "s\<lparr>lk := l\<rparr>"] sys_ok_busy[OF ok c] show ?thesis by simp
qed

lemma msgsend_refines:
  assumes ok: "sys_ok Q s" and c: "current_thread s = Some c" and cpu: "handler_mode cpu" and d: "valid_tid d"
  shows "\<exists>r s' Q'. msgsend_k cpu (Tcb d) v s = Some (r, s') \<and> sys_ok Q' s' \<and> current_thread s' = Some c \<and> SSI s' = SSI s \<and>
    view Q' s' = snd (m_send d c v (view Q s))"
proof -
  let ?s = "enter_syscall cpu SYS_SEND (Tcb d) v s"
  have vc: "valid_tid c" using sys_ok_running[OF ok c] by simp
  have ok1: "sys_ok Q ?s" using ok by simp
  have v: "view Q ?s = view Q s" by (simp add: view_def enter_syscall_def)
  obtain r s1 Q1 where s1: "send (Some d) (Some c) v ?s = Some (r, s1)" "sys_ok Q1 s1" "send_frame ?s s1"
    "(r, view Q1 s1) = m_send d c v (view Q s)" using send_refines[OF ok1 vc d, of v] v by auto
  have "view Q1 (store_return_value x s1) = view Q1 s1" for x by (simp add: view_def store_return_value_def)
  then show ?thesis using s1 c by (auto simp: msgsend_k_def enter_syscall_kernel_mode[OF cpu] send_frame_def simp flip: s1(4))
qed

lemma slice_end_refines:
  assumes st: "settled Q s"
  shows "\<exists>out s' Q'. interval_timer_h cpu s = Some (out, s') \<and> kernel_ok Q' s' \<and> out \<noteq> Ret \<and>
    (out, view Q' s') = m_slice_end (INT_OLDAREA s) (view Q s)"
proof (cases "current_thread s")
  note ok = settled_sys_ok[OF st]
  case None
  let ?s1 = "s\<lparr>pseudoclock := clock_after (pseudoclock s) (clockPerTimeslice s)\<rparr>"
  have "?s1\<lparr>current_thread := None\<rparr> = ?s1" using None by simp
  then have "sys_ok Q (?s1\<lparr>current_thread := None\<rparr>)" using ok by (simp only: sys_ok_other)
  from scheduler_dispatches[OF this] obtain out s' Q' where "scheduler ?s1 = Some (out, s')" "kernel_ok Q' s'" "out \<noteq> Ret"
    "(out, view Q' s') = dispatch (view Q ?s1)" using st None by (auto simp: settled_def)
  moreover have "view Q ?s1 = view Q s" by (simp add: view_def)
  ultimately show ?thesis unfolding interval_timer_idle[OF ok None] using None by (auto simp: m_slice_end_def)
next
  note ok = settled_sys_ok[OF st]
  case (Some c)
  let ?Q1 = "Q(Readyq := Q Readyq @ [T_sched c])"
  obtain l where l: "interval_timer_h cpu s = scheduler (after_slice l c s)"
    "sys_ok ?Q1 ((after_slice l c s)\<lparr>current_thread := None\<rparr>)" using interval_timer_running[OF ok Some, of cpu] by blast
  have "\<not> is_idle (after_slice l c s)" using sys_ok_busy[OF ok Some] by (simp add: after_slice_def)
  with scheduler_dispatches[OF l(2)] obtain out s' Q' where "scheduler (after_slice l c s) = Some (out, s')" "kernel_ok Q' s'"
    "out \<noteq> Ret" "(out, view Q' s') = dispatch (view ?Q1 (after_slice l c s))" by auto
  moreover have "view ?Q1 (after_slice l c s) =
      (view Q s)\<lparr>k_saved := (k_saved (view Q s))(c := INT_OLDAREA s), k_ready := k_ready (view Q s) @ [c]\<rparr>"
    by (auto simp: view_def after_slice_def fun_eq_iff)
  ultimately show ?thesis unfolding l(1) using Some by (auto simp: m_slice_end_def)
qed

lemma device_refines:
  assumes st: "settled Q s"
  shows "\<exists>out s' Q'. io_h v p s = Some (out, s') \<and> kernel_ok Q' s' \<and> out \<noteq> Ret \<and>
    (out, view Q' s') = m_device v p (INT_OLDAREA s) (view Q s)"
proof (cases "\<exists>j\<in>{..<8}. bit p j")
  case False
  then show ?thesis using sys_ok_kernel[OF settled_sys_ok[OF st]] by (auto simp: io_h_pending m_device_def)
next
  note ok = settled_sys_ok[OF st]
  let ?addr = "TERMINAL_DEV_FIELD 0 TRANSM_COMMAND"
  let ?s0 = "s\<lparr>mem := (mem s)(?addr := U DEV_C_ACK)\<rparr>"
  case True
  then have io: "io_h v p s = acknowledge v ?addr TERMINAL_REQUESTER_INDEX s" by (auto simp: io_h_pending)
  have v0: "view Q ?s0 = (view Q s)\<lparr>k_ram := (k_ram (view Q s))(?addr := U DEV_C_ACK)\<rparr>" by (simp add: view_def)
  show ?thesis
  proof (cases "soft_blocked_thread s TERMINAL_REQUESTER_INDEX")
    case None
    with True sys_ok_kernel[OF ok] show ?thesis unfolding io
      by (intro exI[of _ Panic] exI[of _ ?s0] exI[of _ Q]) (simp add: acknowledge_def m_device_def v0)
  next
    case (Some t)
    have t: "valid_tid t" using Some sys_ok_devices[OF ok] by (auto simp: devices_ok_def)
    have ok0: "sys_ok Q ?s0" using ok by simp
    obtain r s1 Q1 where s1: "send (Some t) (Some SSI_thread) NULL ?s0 = Some (r, s1)" "sys_ok Q1 s1" "send_frame ?s0 s1"
      "(r, view Q1 s1) = m_send t SSI_thread NULL (view Q ?s0)"
      using send_refines[OF ok0 _ t, of SSI_thread NULL] by auto
    let ?s2 = "s1\<lparr>soft_blocked_thread := (soft_blocked_thread s1)(TERMINAL_REQUESTER_INDEX := None)\<rparr>"
    have fr: "is_idle s1 = is_idle s" "current_thread s1 = current_thread s" "SSI s1 = Some SSI_thread" "INT_OLDAREA s1 = INT_OLDAREA s"
      using s1(3) sys_ok_SSI[OF ok] by (simp_all add: send_frame_def)
    have ok2: "sys_ok Q1 ?s2" using sys_ok_soft_blocked[OF s1(2) devices_ok_upd(1)[OF sys_ok_devices[OF s1(2)]]] .
    have v2: "view Q1 ?s2 = (view Q1 s1)\<lparr>k_device := None\<rparr>" by (simp add: view_def)
    have send: "m_send t SSI_thread NULL ((view Q s)\<lparr>k_ram := (mem s)(?addr := U DEV_C_ACK)\<rparr>) = (r, view Q1 s1)"
      using s1(4) v0 by simp
    have m: "m_device v p (INT_OLDAREA s) (view Q s) =
       (if r \<noteq> SEND_SUCCESS then (Panic, view Q1 s1)
        else if \<not> is_idle s then (Ldst (INT_OLDAREA s), view Q1 ?s2)
        else if v \<noteq> Some SSI_thread then (Panic, view Q1 ?s2)
        else dispatch ((view Q1 ?s2)\<lparr>k_idle := False\<rparr>))"
      using True Some fr(1) v2 by (simp add: m_device_def send Let_def)
    have run: "acknowledge v ?addr TERMINAL_REQUESTER_INDEX s =
       (if r \<noteq> SEND_SUCCESS then Some (Panic, s1)
        else if \<not> is_idle s then Some (Ldst (INT_OLDAREA s), ?s2)
        else if v \<noteq> Some SSI_thread then Some (Panic, ?s2)
        else scheduler (?s2\<lparr>is_idle := False\<rparr>))"
      using Some s1(1) fr sys_ok_SSI[OF ok] by (simp add: acknowledge_def)
    show ?thesis
    proof (cases "r \<noteq> SEND_SUCCESS \<or> \<not> is_idle s \<or> v \<noteq> Some SSI_thread")
      case True
      with sys_ok_kernel[OF s1(2)] sys_ok_kernel[OF ok2] show ?thesis unfolding io m run by auto
    next
      case False
      then have "current_thread s1 = None" using sys_ok_idle[OF ok] fr by simp
      then have eq: "?s2 = ?s2\<lparr>current_thread := None\<rparr>" by simp
      then have "sys_ok Q1 (?s2\<lparr>is_idle := False, current_thread := None\<rparr>)"
        using ok2 sys_ok_idle_none[of Q1 False ?s2] by simp
      from scheduler_dispatches[OF this] obtain out s' Q' where "scheduler (?s2\<lparr>is_idle := False\<rparr>) = Some (out, s')"
        "kernel_ok Q' s'" "out \<noteq> Ret" "(out, view Q' s') = dispatch (view Q1 (?s2\<lparr>is_idle := False\<rparr>))" by auto
      moreover have "view Q1 (?s2\<lparr>is_idle := False\<rparr>) = (view Q1 ?s2)\<lparr>k_idle := False\<rparr>" by (simp add: view_def)
      ultimately show ?thesis using False unfolding io m run by auto
    qed
  qed
qed

section \<open>Each exception is a step\<close>

lemma view_arrive [simp]: "view Q (arrive e s) = (view Q s)\<lparr>k_ram := mem (arrive e s)\<rparr>"
  by (cases e) (simp_all add: view_def)

lemma view_time [simp]: "view Q (s\<lparr>timeSliceLeft := n\<rparr>) = view Q s"
  by (simp add: view_def)

lemma handler_mode_kernel: "handler_mode (SYSBK_OLDAREA s) \<Longrightarrow> IS_KERNEL_MODE s = Some True"
  by (auto simp: handler_mode_def IS_KERNEL_MODE_def)

lemma m_enabled_enabled: "m_enabled e (view Q s) \<Longrightarrow> enabled e s"
  by (cases e) (auto simp: syscall_args_ok_def is_message_def IS_KERNEL_MODE_def handler_mode_def)

lemma effective_eq: "out \<noteq> Ret \<Longrightarrow> effective (out, s) = out"
  by (simp add: effective_def split: outcome.splits)

lemma effective_not_returning: "effective (not_returning r) = (if fst r = Ret then Panic else fst r)"
  by (cases r rule: not_returning.cases) (simp_all add: effective_def)

lemma snd_not_returning: "snd (not_returning r) = snd r"
  by (cases r rule: not_returning.cases) simp_all

text \<open>A request for termination is a send and a receive.\<close>

lemma give_up_refines:
  assumes ok: "sys_ok Q s" and c: "current_thread s = Some c" and cpu: "handler_mode cpu"
  shows "\<exists>r Q'. map_option not_returning (terminate_request tag cpu frame s) = Some r \<and> kernel_ok Q' (snd r) \<and>
    (effective r, view Q' (snd r)) = m_give_up c tag cpu frame (view Q s)"
proof -
  let ?s0 = "s\<lparr>mem := (mem s)(frame := U tag)\<rparr>"
  have v0: "view Q ?s0 = (view Q s)\<lparr>k_ram := (k_ram (view Q s))(frame := U tag)\<rparr>" by (simp add: view_def)
  obtain x s1 Q1 where s1: "msgsend_k cpu (Tcb SSI_thread) (U frame) ?s0 = Some (x, s1)" "sys_ok Q1 s1" "current_thread s1 = Some c"
    "SSI s1 = Some SSI_thread" "view Q1 s1 = snd (m_send SSI_thread c (U frame) (view Q ?s0))"
    using msgsend_refines[of Q ?s0 c cpu SSI_thread "U frame"] ok c cpu sys_ok_SSI[OF ok] by auto
  let ?s2 = "enter_syscall cpu SYS_RECV (Tcb SSI_thread) NULL s1"
  have old: "SYSBK_OLDAREA ?s2 = cpu\<lparr>a1 := U SYS_RECV, a2 := Tcb SSI_thread, a3 := NULL, a4 := U 0\<rparr>" "view Q1 ?s2 = view Q1 s1"
    by (simp_all add: enter_syscall_def view_def)
  obtain out s' Q' where s': "recv cpu (Some SSI_thread) NULL ?s2 = Some (out, s')" "kernel_ok Q' s'"
    "(effective (out, s'), view Q' s') = m_recv c (Some SSI_thread) 0 (SYSBK_OLDAREA ?s2) (view Q1 s1)"
    "out = Ret \<longleftrightarrow> find (wanted (Some (Some SSI_thread))) (k_inbox (view Q1 s1) c) \<noteq> None"
    using recv_refines[of Q1 ?s2 c "Some SSI_thread" 0 cpu] s1 old by auto
  have run: "terminate_request tag cpu frame s = Some (out, s')"
    using s1(1,4) s'(1) sys_ok_SSI[OF ok] old by (simp add: terminate_request_def msgrecv_k_def enter_syscall_kernel_mode[OF cpu])
  have "m_give_up c tag cpu frame (view Q s) = (if out \<noteq> Ret then (effective (out, s'), view Q' s') else (Panic, view Q' s'))"
    unfolding m_give_up_def Let_def v0[symmetric] s1(5)[symmetric] old(1)[symmetric] s'(3)[symmetric] snd_conv
    using s'(4) by (cases "out = Ret") (simp_all del: not_None_eq)
  then show ?thesis unfolding run
    using s'(2) by (intro exI[of _ "not_returning (out, s')"] exI[of _ Q'])
      (simp add: effective_not_returning snd_not_returning effective_eq)
qed

lemma view_state: "view Q (s\<lparr>threads := (threads s)(c := (threads s c)\<lparr>t_s := x\<rparr>)\<rparr>) = (view Q s)\<lparr>k_saved := (k_saved (view Q s))(c := x)\<rparr>"
  by (auto simp: view_def fun_eq_iff)

text \<open>A thread that traps.\<close>

lemma trap_refines:
  assumes ok: "sys_ok Q s" and c: "current_thread s = Some c" and cpu: "handler_mode cpu" and pc: "pc old = U w"
    and m: "\<And>m. mgr = Some m \<Longrightarrow> valid_tid m"
  shows "\<exists>r Q'. trap_h cpu frame mgr old s = Some r \<and> kernel_ok Q' (snd r) \<and>
    (effective r, view Q' (snd r)) = m_trap c mgr old cpu frame (view Q s)"
proof (cases mgr)
  case None
  with give_up_refines[OF ok c cpu] show ?thesis by (simp add: trap_h_def m_trap_def)
next
  case (Some m)
  let ?st = "old\<lparr>pc := U (w - 4)\<rparr>"
  let ?s1 = "s\<lparr>threads := (threads s)(c := (threads s c)\<lparr>t_s := ?st\<rparr>)\<rparr>"
  have st: "repeated old = ?st" using pc by (simp add: repeated_def)
  obtain x s2 Q2 where s2: "msgsend_k cpu (Tcb m) (TcbState c) ?s1 = Some (x, s2)" "sys_ok Q2 s2" "current_thread s2 = Some c"
    "view Q2 s2 = snd (m_send m c (TcbState c) (view Q ?s1))"
    using msgsend_refines[where c = c and d = m and v = "TcbState c", OF sys_ok_upd_state[OF ok c, of ?st] _ cpu] c m[OF Some] by auto
  obtain out s' Q' where s': "(do { s \<leftarrow> thread_enqueue c Blockedq s2; scheduler s }) = Some (out, s')" "kernel_ok Q' s'" "out \<noteq> Ret"
    "(out, view Q' s') = dispatch (view Q2 s2)" using park_refines[OF s2(2,3)] by blast
  have "trap_h cpu frame mgr old s = Some (out, s')" using s2(1) s'(1) c pc Some by (simp add: trap_h_def upd_defs)
  moreover have "(effective (out, s'), view Q' s') = m_trap c mgr old cpu frame (view Q s)"
    using s'(3,4) Some by (simp add: effective_eq m_trap_def m_hand_over_def st s2(4) view_state)
  ultimately show ?thesis using s'(2) by auto
qed

lemma pgmtrap_refines:
  assumes ok: "sys_ok Q s" and c: "current_thread s = Some c" and cpu: "handler_mode cpu" and pc: "pc (PGMTRAP_OLDAREA s) = U w"
    and p: "t_pcb (threads s c) = Some p"
  shows "\<exists>r Q'. pgmtrap_h cpu frame s = Some r \<and> kernel_ok Q' (snd r) \<and>
    (effective r, view Q' (snd r)) = m_trap c (pgm_mgr (procs s p)) (PGMTRAP_OLDAREA s) cpu frame (view Q s)"
  using trap_refines[OF ok c cpu pc, of "pgm_mgr (procs s p)" frame] mgrs_okD(1)[OF sys_ok_mgrs[OF ok], of p] c p
  by (simp add: pgmtrap_h_def)

lemma tlbtrap_refines:
  assumes ok: "sys_ok Q s" and c: "current_thread s = Some c" and cpu: "handler_mode cpu" and pc: "pc (TLB_OLDAREA s) = U w"
    and p: "t_pcb (threads s c) = Some p"
  shows "\<exists>r Q'. tlbtrap_h cpu frame s = Some r \<and> kernel_ok Q' (snd r) \<and>
    (effective r, view Q' (snd r)) = m_trap c (tlb_mgr (procs s p)) (TLB_OLDAREA s) cpu frame (view Q s)"
  using trap_refines[OF ok c cpu pc, of "tlb_mgr (procs s p)" frame] mgrs_okD(2)[OF sys_ok_mgrs[OF ok], of p] c p
  by (simp add: tlbtrap_h_def)

lemma other_refines:
  assumes ok: "sys_ok Q s" and c: "current_thread s = Some c" and cpu: "handler_mode cpu" and pc: "pc (SYSBK_OLDAREA s) = U w"
    and p: "t_pcb (threads s c) = Some p" and a1: "a1 (SYSBK_OLDAREA s) \<notin> {U SYS_ERR, U SYS_SEND, U SYS_RECV}"
  shows "\<exists>r Q'. syscall_other cpu frame (a1 (SYSBK_OLDAREA s)) (a2 (SYSBK_OLDAREA s)) (a3 (SYSBK_OLDAREA s)) (a4 (SYSBK_OLDAREA s)) s = Some r \<and>
    kernel_ok Q' (snd r) \<and>
    (effective r, view Q' (snd r)) = m_other c (managers_of (procs s) p) (SYSBK_OLDAREA s) cpu frame (view Q s)"
proof -
  let ?old = "SYSBK_OLDAREA s"
  have vc: "valid_tid c" using sys_ok_running[OF ok c] by simp
  have park: "\<exists>r Q'. (do { (_, s) \<leftarrow> send (Some m) (Some c) v s1; s \<leftarrow> thread_enqueue c Blockedq s; scheduler s }) = Some r \<and>
      kernel_ok Q' (snd r) \<and> (effective r, view Q' (snd r)) = dispatch (snd (m_send m c v (view Q s1)))"
    if ok1: "sys_ok Q s1" and c1: "current_thread s1 = Some c" and m: "valid_tid m" for m v s1
  proof -
    obtain x s2 Q2 where s2: "send (Some m) (Some c) v s1 = Some (x, s2)" "sys_ok Q2 s2" "send_frame s1 s2"
      "(x, view Q2 s2) = m_send m c v (view Q s1)" using send_refines[OF ok1 vc m, of v] by blast
    have c2: "current_thread s2 = Some c" using s2(3) c1 by (simp add: send_frame_def)
    show ?thesis using s2(1) park_refines[OF s2(2) c2] by (auto simp: effective_eq simp flip: s2(4))
  qed
  show ?thesis
  proof (cases "sys_mgr (procs s p)")
    case (Some m)
    let ?ram = "(mem s)(frame := a1 ?old, frame + 4 := a2 ?old, frame + 8 := a3 ?old, frame + 12 := a4 ?old)"
    let ?s1 = "s\<lparr>threads := (threads s)(c := (threads s c)\<lparr>t_s := ?old\<rparr>), mem := ?ram\<rparr>"
    have v: "view Q ?s1 = (view Q s)\<lparr>k_ram := ?ram, k_saved := (k_saved (view Q s))(c := ?old)\<rparr>"
      by (auto simp: view_def fun_eq_iff)
    have "sys_ok Q ?s1" using sys_ok_upd_state[OF ok c] by simp
    from park[OF this _ mgrs_okD(3)[OF sys_ok_mgrs[OF ok] Some], of "U frame"] c p Some a1 show ?thesis
      by (simp add: syscall_other_def upd_defs m_other_def m_hand_over_def managers_of_def v del: fun_upd_apply)
  next
    case none: None
    show ?thesis
    proof (cases "pgm_mgr (procs s p)")
      case (Some m)
      let ?s1 = "s\<lparr>threads := (threads s)(c := (threads s c)\<lparr>t_s := ?old\<lparr>pc := U (w - 4)\<rparr>\<rparr>)\<rparr>"
      from park[OF sys_ok_upd_state[OF ok c] _ mgrs_okD(1)[OF sys_ok_mgrs[OF ok] Some], of "?old\<lparr>pc := U (w - 4)\<rparr>" "TcbState c"]
        c p pc none Some a1 show ?thesis
        by (simp add: syscall_other_def upd_defs m_other_def m_hand_over_def managers_of_def view_state repeated_def)
    next
      case None
      with none give_up_refines[OF ok c cpu, of 4 frame] c p a1 show ?thesis
        by (simp add: syscall_other_def m_other_def managers_of_def)
    qed
  qed
qed

text \<open>Sends and receives.\<close>

lemma message_refines:
  assumes ok: "sys_ok Q s" and c: "current_thread s = Some c" and old: "is_message (SYSBK_OLDAREA s)" "call_ok (SYSBK_OLDAREA s)"
  shows "\<exists>r Q'. syscall_h cpu frame s = Some r \<and> kernel_ok Q' (snd r) \<and>
    (effective r, view Q' (snd r)) = m_message c (SYSBK_OLDAREA s) (view Q s)"
proof -
  let ?old = "SYSBK_OLDAREA s"
  have vc: "valid_tid c" using sys_ok_running[OF ok c] by simp
  have ker: "IS_KERNEL_MODE s = Some True" using old(1) by (auto simp: is_message_def intro: handler_mode_kernel)
  consider (send) d where "a1 ?old = U SYS_SEND" "a2 ?old = Tcb d" "valid_tid d"
    | (recv) a who where "a1 ?old = U SYS_RECV" "as_tcb (a2 ?old) = Some who" "a3 ?old = U a" "\<forall>u. who = Some u \<longrightarrow> valid_tid u"
  proof -
    have "a1 ?old = U SYS_SEND \<and> (\<exists>d. a2 ?old = Tcb d \<and> valid_tid d) \<or>
      a1 ?old = U SYS_RECV \<and> (\<exists>who a. as_tcb (a2 ?old) = Some who \<and> a3 ?old = U a \<and> (\<forall>u. who = Some u \<longrightarrow> valid_tid u))"
      using old by (fastforce simp: is_message_def)
    then show ?thesis using that by blast
  qed
  then show ?thesis
  proof cases
    case send
    obtain r s1 Q1 where s1: "send (Some d) (Some c) (a3 ?old) s = Some (r, s1)" "sys_ok Q1 s1" "send_frame s s1"
      "(r, view Q1 s1) = m_send d c (a3 ?old) (view Q s)"
      using send_refines[OF ok vc send(3), of "a3 ?old"] by auto
    let ?s' = "store_return_value (U r) s1"
    have "syscall_h cpu frame s = Some (Ret, ?s')"
      using send s1(1) ker c by (simp add: syscall_h_def send_kernel_def sys_defs Let_def)
    moreover have "kernel_ok Q1 ?s'" using sys_ok_kernel[OF s1(2)] by (simp add: store_return_value_def)
    moreover have "SYSBK_OLDAREA s1 = ?old" using s1(3) by (simp add: send_frame_def)
    then have "(effective (Ret, ?s'), view Q1 ?s') = m_message c ?old (view Q s)"
      using send s1(4)[symmetric] by (simp add: effective_def store_return_value_def view_def m_message_def)
    ultimately show ?thesis by (intro exI[of _ "(Ret, ?s')"] exI[of _ Q1]) simp
  next
    case recv
    have "syscall_h cpu frame s = recv cpu who (U a) s"
      using recv ker by (simp add: syscall_h_def recv_kernel_def sys_defs Let_def)
    moreover have "m_message c ?old (view Q s) = m_recv c who a ?old (view Q s)"
      using recv by (simp add: sys_defs m_message_def)
    ultimately show ?thesis using recv_refines[OF ok c _ recv(3), of who cpu] recv(4) by auto
  qed
qed

text \<open>The other system calls, and sends and receives in user mode.\<close>

lemma no_message_refines:
  assumes ok: "sys_ok Q s" and c: "current_thread s = Some c" and cpu: "handler_mode cpu" and p: "t_pcb (threads s c) = Some p"
    and old: "\<not> is_message (SYSBK_OLDAREA s)" "call_ok (SYSBK_OLDAREA s)"
  shows "\<exists>r Q'. syscall_h cpu frame s = Some r \<and> kernel_ok Q' (snd r) \<and>
    (effective r, view Q' (snd r)) = m_other c (managers_of (procs s) p) (SYSBK_OLDAREA s) cpu frame (view Q s)"
proof -
  let ?old = "SYSBK_OLDAREA s"
  obtain w x where pc: "pc ?old = U w" and cp: "cpsr ?old = U x" using old(2) by auto
  show ?thesis
  proof (cases "a1 ?old \<in> {U SYS_ERR, U SYS_SEND, U SYS_RECV}")
    case True
    let ?trap = "?old\<lparr>CP15_Cause := U EXC_RESERVEDINSTR\<rparr>"
    let ?s1 = "s\<lparr>PGMTRAP_OLDAREA := ?trap\<rparr>"
    have v: "view Q ?s1 = view Q s" by (simp add: view_def)
    have "a1 ?old = U SYS_ERR \<or> IS_KERNEL_MODE s = Some False"
      using True old(1) cp by (auto simp: is_message_def IS_KERNEL_MODE_def handler_mode_def)
    then have "syscall_h cpu frame s = pgmtrap_h cpu frame ?s1"
      using True old(2)
      by (auto simp: syscall_h_def raise_reserved_instruction_def send_kernel_def recv_kernel_def sys_defs Let_def)
    moreover have "m_other c (managers_of (procs s) p) ?old cpu frame (view Q s) = m_trap c (pgm_mgr (procs s p)) ?trap cpu frame (view Q s)"
      using True by (simp add: m_other_def managers_of_def)
    ultimately show ?thesis using pgmtrap_refines[of Q ?s1 c cpu w p frame] ok c cpu pc p v by simp
  next
    case False
    then have "syscall_h cpu frame s = syscall_other cpu frame (a1 ?old) (a2 ?old) (a3 ?old) (a4 ?old) s"
      by (simp add: syscall_h_def Let_def)
    with other_refines[OF ok c cpu pc p False] show ?thesis by simp
  qed
qed

lemma call_refines:
  assumes ok: "sys_ok Q s" and en: "m_enabled e (view Q s)" and e: "\<And>old ram now cpu v p. e \<noteq> Interrupt old ram now cpu v p"
  shows "\<exists>r Q'. exec e s = Some r \<and> kernel_ok Q' (snd r) \<and> (effective r, view Q' (snd r)) = m_step e (view Q s)"
proof -
  let ?s = "arrive e s"
  have ok1: "sys_ok Q ?s" by (rule sys_ok_arrive[OF ok])
  show ?thesis
  proof (cases e)
    case (Syscall old ram now cpu frame)
    then obtain c where c: "current_thread s = Some c" "is_message old \<or> (\<exists>p. t_pcb (threads s c) = Some p)" and cpu: "handler_mode cpu"
      and old: "call_ok old" using en by (auto simp del: call_ok.simps)
    have x: "exec e s = syscall_h cpu frame ?s" "SYSBK_OLDAREA ?s = old" "current_thread ?s = Some c" "threads ?s = threads s" "procs ?s = procs s"
      "view Q ?s = (view Q s)\<lparr>k_ram := ram\<rparr>" using Syscall c by (simp_all add: exec_def view_def)
    show ?thesis
    proof (cases "is_message old")
      case True
      with message_refines[OF ok1 x(3), of cpu frame] old x c Syscall show ?thesis by (simp add: running_def)
    next
      case False
      then obtain p where p: "t_pcb (threads s c) = Some p" using c(2) by blast
      with no_message_refines[OF ok1 x(3) cpu, of p frame] False old x c Syscall show ?thesis
        by (simp add: running_def managed_def)
    qed
  next
    case (Program_trap old ram now cpu frame)
    then obtain c p w where c: "current_thread s = Some c" "t_pcb (threads s c) = Some p" "handler_mode cpu" "pc old = U w" using en by auto
    then have x: "exec e s = pgmtrap_h cpu frame ?s" "current_thread ?s = Some c" "pc (PGMTRAP_OLDAREA ?s) = U w" "t_pcb (threads ?s c) = Some p"
      "PGMTRAP_OLDAREA ?s = old" "procs ?s = procs s" "view Q ?s = (view Q s)\<lparr>k_ram := ram\<rparr>" using Program_trap by (simp_all add: exec_def view_def)
    show ?thesis
      using pgmtrap_refines[OF ok1 x(2) c(3) x(3,4), of frame] x c Program_trap by (simp add: running_def managed_def managers_of_def)
  next
    case (Tlb_trap old ram now cpu frame)
    then obtain c p w where c: "current_thread s = Some c" "t_pcb (threads s c) = Some p" "handler_mode cpu" "pc old = U w" using en by auto
    then have x: "exec e s = tlbtrap_h cpu frame ?s" "current_thread ?s = Some c" "pc (TLB_OLDAREA ?s) = U w" "t_pcb (threads ?s c) = Some p"
      "TLB_OLDAREA ?s = old" "procs ?s = procs s" "view Q ?s = (view Q s)\<lparr>k_ram := ram\<rparr>" using Tlb_trap by (simp_all add: exec_def view_def)
    show ?thesis
      using tlbtrap_refines[OF ok1 x(2) c(3) x(3,4), of frame] x c Tlb_trap by (simp add: running_def managed_def managers_of_def)
  qed (use en e in simp_all)
qed

lemma interrupt_refines:
  assumes st: "settled Q s" and e: "e = Interrupt old ram now cpu v p"
  shows "\<exists>out s' Q'. exec e s = Some (out, s') \<and> kernel_ok Q' s' \<and> (effective (out, s'), view Q' s') = m_step e (view Q s)"
proof -
  let ?s = "(arrive e s)\<lparr>timeSliceLeft := TIMER (arrive e s)\<rparr>"
  have "settled Q (arrive e s)" using st by (simp add: settled_arrive)
  then have st1: "settled Q ?s" by (simp add: settled_def)
  have old: "INT_OLDAREA ?s = old" "view Q ?s = (view Q s)\<lparr>k_ram := ram\<rparr>"
    using e by (simp_all add: view_def)
  have eff: "out \<noteq> Ret \<Longrightarrow> effective (out, s') = out" for out s' by (simp add: effective_def split: outcome.splits)
  show ?thesis
  proof (cases "slice_end (clockPerTimeslice s) e")
    case True
    then have "exec e s = interval_timer_h cpu ?s" using e by (auto simp: exec_def interrupt_h_def Let_def dest: leD)
    moreover have "m_step e (view Q s) = m_slice_end old ((view Q s)\<lparr>k_ram := ram\<rparr>)" using True e by simp
    moreover note slice_end_refines[OF st1, of cpu]
    ultimately show ?thesis using eff unfolding old by metis
  next
    case False
    then have "exec e s = io_h v p ?s" using e by (auto simp: exec_def interrupt_h_def Let_def word_gt_0 not_le)
    moreover have "m_step e (view Q s) = m_device v p old ((view Q s)\<lparr>k_ram := ram\<rparr>)" using False e by simp
    moreover note device_refines[OF st1, of v p]
    ultimately show ?thesis using eff unfolding old by metis
  qed
qed

lemma exec_refines:
  assumes ok: "system_ok s" and en: "m_enabled e (abs_machine s)"
  shows "\<exists>out s'. exec e s = Some (out, s') \<and> m_step e (abs_machine s) = (effective (out, s'), abs_machine s') \<and>
    (out = Panic \<or> system_ok s')"
proof -
  obtain Q where st: "settled Q s" using ok by (auto simp: system_ok_def)
  note sys = settled_sys_ok[OF st]
  have a: "abs_machine s = view Q s" by (rule abs_machine_eq[OF sys_ok_kernel[OF sys]])
  have en': "m_enabled e (view Q s)" using en a by simp
  obtain out s' where run: "exec e s = Some (out, s')" "out = Panic \<or> system_ok s'"
    using exec_total[OF ok m_enabled_enabled[OF en']] by blast
  have "\<exists>out s' Q'. exec e s = Some (out, s') \<and> kernel_ok Q' s' \<and> (effective (out, s'), view Q' s') = m_step e (view Q s)"
  proof (cases "\<exists>old ram now cpu v p. e = Interrupt old ram now cpu v p")
    case True
    then show ?thesis using interrupt_refines[OF st] by blast
  next
    case False
    then show ?thesis using call_refines[OF sys en'] by fastforce
  qed
  then show ?thesis using run a abs_machine_eq by auto
qed

section \<open>Runs\<close>

text \<open>
  A sequence of exceptions, until the machine halts or panics, with the processor state that each
  handler loads.
\<close>

definition stopped :: "outcome \<Rightarrow> bool" where
  "stopped out \<longleftrightarrow> out = Halt \<or> out = Panic"

fun k_run :: "event list \<Rightarrow> kstate \<Rightarrow> (outcome list \<times> kstate) option" where
  "k_run [] s = Some ([], s)"
| "k_run (e # es) s = do {
     (out, s') \<leftarrow> exec e s;
     if stopped out then Some ([out], s')
     else do { (outs, s'') \<leftarrow> k_run es s'; Some (effective (out, s') # outs, s'') } }"

fun m_run :: "event list \<Rightarrow> machine \<Rightarrow> outcome list \<times> machine" where
  "m_run [] k = ([], k)"
| "m_run (e # es) k =
     (let (out, k') = m_step e k in
      if stopped out then ([out], k') else let (outs, k'') = m_run es k' in (out # outs, k''))"

fun m_allowed :: "event list \<Rightarrow> machine \<Rightarrow> bool" where
  "m_allowed [] k \<longleftrightarrow> True"
| "m_allowed (e # es) k \<longleftrightarrow> m_enabled e k \<and> (let (out, k') = m_step e k in stopped out \<or> m_allowed es k')"

lemma stopped_effective [simp]: "stopped (effective (out, s)) = stopped out"
  by (simp add: effective_def stopped_def split: outcome.split)

lemma effective_stopped: "stopped out \<Longrightarrow> effective (out, s) = out"
  by (auto simp: effective_def stopped_def)

lemma run_refines:
  "system_ok s \<Longrightarrow> m_allowed es (abs_machine s) \<Longrightarrow>
   \<exists>outs s'. k_run es s = Some (outs, s') \<and> m_run es (abs_machine s) = (outs, abs_machine s')"
proof (induction es arbitrary: s)
  case (Cons e es)
  obtain out s1 where s1: "exec e s = Some (out, s1)" "m_step e (abs_machine s) = (effective (out, s1), abs_machine s1)"
    "out = Panic \<or> system_ok s1" using exec_refines[of s e] Cons.prems by auto
  show ?case
  proof (cases "stopped out")
    case True
    with s1 show ?thesis by (simp add: effective_stopped)
  next
    case False
    then have "system_ok s1" using s1(3) by (auto simp: stopped_def)
    moreover have "m_allowed es (abs_machine s1)" using s1(2) Cons.prems(2) False by simp
    ultimately obtain outs s' where
      "k_run es s1 = Some (outs, s')" "m_run es (abs_machine s1) = (outs, abs_machine s')" using Cons.IH by blast
    with False s1 show ?thesis by simp
  qed
qed simp

end
