(* ===== verification/Channels.thy ===== *)
theory Channels imports Ipc begin

text \<open>
  Messages between two threads form a channel: whatever happens between, what the receiver gets of one
  sender is what this sender sent, in the same order, and what is not yet received is pending. Shown on
  the message machine, and carried over to runs of the kernel by the refinement.
\<close>

section \<open>Definitions\<close>

text \<open>
  The letter that a step tries to send: of the running thread, of the SSI for the device, or about a
  thread that traps, to its manager or, with the request \<open>frame\<close>, to the SSI.
\<close>

definition complaint :: "tid \<Rightarrow> tid option \<Rightarrow> u32 \<Rightarrow> tid \<times> tid \<times> val" where
  "complaint c mgr frame = (case mgr of Some m \<Rightarrow> (c, m, TcbState c) | None \<Rightarrow> (c, SSI_thread, U frame))"

fun sending :: "event \<Rightarrow> machine \<Rightarrow> (tid \<times> tid \<times> val) option" where
  "sending (Syscall old ram now cpu frame) k =
     (case k_running k of
        Some c \<Rightarrow>
          if is_message old then
            (case as_tcb (a2 old) of Some (Some d) \<Rightarrow> if a1 old = U SYS_SEND then Some (c, d, a3 old) else None | _ \<Rightarrow> None)
          else map_option (\<lambda>M.
            if a1 old \<in> {U SYS_ERR, U SYS_SEND, U SYS_RECV} \<or> on_call M = None then complaint c (on_trap M) frame
            else (c, the (on_call M), U frame)) (k_mgrs k c)
      | None \<Rightarrow> None)"
| "sending (Program_trap old ram now cpu frame) k =
     (case k_running k of Some c \<Rightarrow> map_option (\<lambda>M. complaint c (on_trap M) frame) (k_mgrs k c) | None \<Rightarrow> None)"
| "sending (Tlb_trap old ram now cpu frame) k =
     (case k_running k of Some c \<Rightarrow> map_option (\<lambda>M. complaint c (on_tlb M) frame) (k_mgrs k c) | None \<Rightarrow> None)"
| "sending (Interrupt old ram now cpu v pending) k =
     (if slice_end (k_period k) (Interrupt old ram now cpu v pending) \<or> \<not> (\<exists>j\<in>{..<8}. bit pending j) then None
      else map_option (\<lambda>d. (SSI_thread, d, NULL)) (k_device k))"
| "sending _ k = None"

definition posted :: "event \<Rightarrow> machine \<Rightarrow> (tid \<times> tid \<times> val) option" where
  "posted e k =
     (case sending e k of
        Some (c, d, v) \<Rightarrow> if fst (m_send d c v k) = SEND_SUCCESS then Some (c, d, v) else None
      | None \<Rightarrow> None)"

text \<open>Who receives in a step, and from whom: the caller of a receive, or a thread that gives up.\<close>

definition gives_up :: "managers \<Rightarrow> state_t option \<Rightarrow> tid option \<Rightarrow> bool" where
  "gives_up M call mgr \<longleftrightarrow>
     mgr = None \<and> (case call of Some old \<Rightarrow> a1 old \<in> {U SYS_ERR, U SYS_SEND, U SYS_RECV} \<or> on_call M = None | None \<Rightarrow> True)"

fun asking :: "event \<Rightarrow> machine \<Rightarrow> (tid \<times> tid option) option" where
  "asking (Syscall old ram now cpu frame) k =
     (case k_running k of
        Some c \<Rightarrow>
          if is_message old then (if a1 old = U SYS_SEND then None else map_option (\<lambda>who. (c, who)) (as_tcb (a2 old)))
          else (case k_mgrs k c of Some M \<Rightarrow> if gives_up M (Some old) (on_trap M) then Some (c, Some SSI_thread) else None | None \<Rightarrow> None)
      | None \<Rightarrow> None)"
| "asking (Program_trap old ram now cpu frame) k =
     (case k_running k of
        Some c \<Rightarrow> (case k_mgrs k c of Some M \<Rightarrow> if gives_up M None (on_trap M) then Some (c, Some SSI_thread) else None | None \<Rightarrow> None)
      | None \<Rightarrow> None)"
| "asking (Tlb_trap old ram now cpu frame) k =
     (case k_running k of
        Some c \<Rightarrow> (case k_mgrs k c of Some M \<Rightarrow> if gives_up M None (on_tlb M) then Some (c, Some SSI_thread) else None | None \<Rightarrow> None)
      | None \<Rightarrow> None)"
| "asking _ k = None"

text \<open>The letters that are received in a step: one that wakes a waiting thread, and one that is fetched.\<close>

definition waking :: "event \<Rightarrow> machine \<Rightarrow> (tid option \<times> tid \<times> val) option" where
  "waking e k =
     (case posted e k of
        Some (c, d, v) \<Rightarrow>
          (case k_phase k d of
             Awaits who \<Rightarrow> if who = None \<or> who = Some c then Some (Some c, d, v) else None
           | _ \<Rightarrow> None)
      | None \<Rightarrow> None)"

definition after_send :: "event \<Rightarrow> machine \<Rightarrow> machine" where
  "after_send e k = (case sending e k of Some (c, d, v) \<Rightarrow> snd (m_send d c v k) | None \<Rightarrow> k)"

definition fetched :: "event \<Rightarrow> machine \<Rightarrow> (tid option \<times> tid \<times> val) option" where
  "fetched e k =
     (case asking e k of
        Some (c, who) \<Rightarrow> map_option (\<lambda>(w, v). (w, c, v)) (find (wanted (Some who)) (k_inbox (after_send e k) c))
      | None \<Rightarrow> None)"

text \<open>All that \<open>c\<close> sends to \<open>d\<close>, and all that \<open>d\<close> receives of \<open>c\<close>, in a run; and what is pending.\<close>

definition part :: "'a \<Rightarrow> tid \<Rightarrow> ('a \<times> tid \<times> val) option \<Rightarrow> val list" where
  "part c d x = (case x of Some (c', d', v) \<Rightarrow> if c' = c \<and> d' = d then [v] else [] | None \<Rightarrow> [])"

fun sent_along :: "tid \<Rightarrow> tid \<Rightarrow> event list \<Rightarrow> machine \<Rightarrow> val list" where
  "sent_along c d [] k = []"
| "sent_along c d (e # es) k =
     part c d (posted e k) @ (let (out, k') = m_step e k in if stopped out then [] else sent_along c d es k')"

fun received_along :: "tid \<Rightarrow> tid \<Rightarrow> event list \<Rightarrow> machine \<Rightarrow> val list" where
  "received_along c d [] k = []"
| "received_along c d (e # es) k =
     part (Some c) d (waking e k) @ part (Some c) d (fetched e k) @
       (let (out, k') = m_step e k in if stopped out then [] else received_along c d es k')"

definition pending :: "tid \<Rightarrow> tid \<Rightarrow> machine \<Rightarrow> val list" where
  "pending c d k = map snd (filter (\<lambda>l. fst l = Some c) (k_inbox k d))"

section \<open>A waiting thread has no letter that it wants\<close>

text \<open>Only the phases, the letters and the room matter here.\<close>

definition mail :: "machine \<Rightarrow> (tid \<Rightarrow> phase) \<times> (tid \<Rightarrow> letter list) \<times> nat" where
  "mail k = (k_phase k, k_inbox k, k_room k)"

lemma mail_upd [simp]:
  "mail (k\<lparr>k_ram := m\<rparr>) = mail k" "mail (k\<lparr>k_device := t\<rparr>) = mail k" "mail (k\<lparr>k_idle := b\<rparr>) = mail k"
  "mail (k\<lparr>k_saved := f\<rparr>) = mail k" "mail (k\<lparr>k_ready := ts\<rparr>) = mail k" "mail (k\<lparr>k_running := t\<rparr>) = mail k"
  "mail (snd (dispatch k)) = mail k"
  by (simp_all add: mail_def dispatch_def Let_def split: list.split)

lemma mail_send:
  assumes "mail k = mail k'"
  shows "fst (m_send d c v k) = fst (m_send d c v k')" "mail (snd (m_send d c v k)) = mail (snd (m_send d c v k'))"
  using assms by (simp_all add: mail_def m_send_def put_letter_def wake_def split: phase.split)

definition waits_rightly :: "machine \<Rightarrow> bool" where
  "waits_rightly k \<longleftrightarrow> (\<forall>d who. k_phase k d = Awaits who \<longrightarrow> (\<forall>l \<in> set (k_inbox k d). \<not> wanted (Some who) l))"

lemma mail_cong: "mail k = mail k' \<Longrightarrow> waits_rightly k = waits_rightly k'" "mail k = mail k' \<Longrightarrow> pending c d k = pending c d k'"
  by (simp_all add: mail_def waits_rightly_def pending_def)

lemma waits_rightly_upd [simp]:
  "waits_rightly (k\<lparr>k_ram := m\<rparr>) = waits_rightly k" "waits_rightly (k\<lparr>k_device := t\<rparr>) = waits_rightly k"
  "waits_rightly (k\<lparr>k_idle := b\<rparr>) = waits_rightly k" "waits_rightly (snd (dispatch k)) = waits_rightly k"
  "waits_rightly (k\<lparr>k_saved := f, k_ready := ts\<rparr>) = waits_rightly k"
  by (rule mail_cong(1); simp)+

lemma dispatch_keeps [simp]:
  "k_phase (snd (dispatch k)) = k_phase k" "k_inbox (snd (dispatch k)) = k_inbox k"
  by (simp_all add: dispatch_def Let_def split: list.splits)

text \<open>What a send does to the inboxes.\<close>

lemma m_send_cases:
  obtains (fail) "m_send d c v k = (SEND_FAILURE, k)"
  | (wake) who where "m_send d c v k = (SEND_SUCCESS, wake d (Some c) v k)" "k_phase k d = Awaits who" "who = None \<or> who = Some c"
  | (queue) "m_send d c v k = (SEND_SUCCESS, k\<lparr>k_inbox := (k_inbox k)(d := k_inbox k d @ [(Some c, v)]), k_room := k_room k - 1\<rparr>)"
      "\<And>who. k_phase k d = Awaits who \<Longrightarrow> who \<noteq> None \<and> who \<noteq> Some c"
proof (cases "k_phase k d = Dead")
  case True
  then show thesis by (intro fail) (simp add: m_send_def)
next
  case False
  show thesis
  proof (cases "\<exists>who. k_phase k d = Awaits who \<and> (who = None \<or> who = Some c)")
    case True
    then show thesis by (auto simp: m_send_def intro: wake)
  next
    case False
    with \<open>k_phase k d \<noteq> Dead\<close> have m: "m_send d c v k = put_letter d c v k"
      by (auto simp: m_send_def split: phase.split)
    show thesis
    proof (cases "k_room k = 0")
      case True
      then show thesis by (intro fail) (simp add: m put_letter_def)
    next
      case room: False
      with False show thesis by (intro queue) (auto simp: m put_letter_def)
    qed
  qed
qed

lemma waits_rightly_send: "waits_rightly k \<Longrightarrow> waits_rightly (snd (m_send d c v k))"
  by (rule m_send_cases[of d c v k])
    (auto simp: waits_rightly_def wake_def wanted_def split: if_splits)

lemma send_failure_neq [simp]: "SEND_FAILURE \<noteq> SEND_SUCCESS"
  by (simp add: SEND_FAILURE_def SEND_SUCCESS_def)

text \<open>The letter that is sent in a step.\<close>

lemma pending_send:
  assumes k: "waits_rightly k"
  shows "pending c e k @ part c e (posted ev k) = part (Some c) e (waking ev k) @ pending c e (after_send ev k)"
proof (cases "sending ev k")
  case None
  then show ?thesis by (simp add: posted_def waking_def after_send_def part_def)
next
  case (Some x)
  obtain u d v where x: "x = (u, d, v)" by (cases x)
  note defs = posted_def waking_def after_send_def part_def
  show ?thesis
  proof (rule m_send_cases[of d u v k])
    assume "m_send d u v k = (SEND_FAILURE, k)"
    then show ?thesis using Some x by (simp add: defs)
  next
    fix who assume w: "m_send d u v k = (SEND_SUCCESS, wake d (Some u) v k)" "k_phase k d = Awaits who" "who = None \<or> who = Some u"
    have "\<forall>l \<in> set (k_inbox k d). \<not> wanted (Some who) l" using k w(2) by (simp add: waits_rightly_def)
    then have "pending u d k = []" using w(3) by (auto simp: pending_def wanted_def filter_empty_conv)
    with w show ?thesis using Some x by (auto simp: defs pending_def wake_def)
  next
    assume w: "m_send d u v k = (SEND_SUCCESS, k\<lparr>k_inbox := (k_inbox k)(d := k_inbox k d @ [(Some u, v)]), k_room := k_room k - 1\<rparr>)"
      "\<And>who. k_phase k d = Awaits who \<Longrightarrow> who \<noteq> None \<and> who \<noteq> Some u"
    then show ?thesis using Some x by (auto simp: defs pending_def split: phase.split)
  qed
qed

lemma waits_rightly_after_send: "waits_rightly k \<Longrightarrow> waits_rightly (after_send ev k)"
  by (auto simp: after_send_def waits_rightly_send split: option.split)

section \<open>One step\<close>

lemma filter_fetch:
  "find (wanted (Some who)) xs = Some (w, v) \<Longrightarrow>
   filter (\<lambda>l. fst l = Some c) xs = (if w = Some c then [(w, v)] else []) @
     filter (\<lambda>l. fst l = Some c) (remove_first (wanted (Some who)) xs)"
proof (induction xs)
  case (Cons l xs)
  show ?case
  proof (cases "wanted (Some who) l")
    case False
    then have f: "find (wanted (Some who)) xs = Some (w, v)" using Cons.prems by simp
    have "w \<noteq> Some c \<or> fst l \<noteq> Some c" using False find_SomeD[OF f] by (auto simp: wanted_def)
    then show ?thesis using Cons.IH[OF f] False by auto
  qed (use Cons.prems in auto)
qed simp

lemma pending_fetch:
  assumes "find (wanted (Some who)) (k_inbox k d) = Some (w, v)"
  shows "pending c e k = part (Some c) e (Some (w, d, v)) @
    pending c e (k\<lparr>k_inbox := (k_inbox k)(d := remove_first (wanted (Some who)) (k_inbox k d)), k_room := n, k_ram := m\<rparr>)"
  using filter_fetch[OF assms, of c] by (auto simp: pending_def part_def)

lemma waits_rightly_recv: "waits_rightly k \<Longrightarrow> waits_rightly (snd (m_recv c who a old k))"
proof (cases "find (wanted (Some who)) (k_inbox k c)")
  case None
  assume "waits_rightly k"
  have "\<forall>l \<in> set (k_inbox k c). \<not> wanted (Some who) l" using None unfolding find_None_iff by blast
  with \<open>waits_rightly k\<close> None show ?thesis by (auto simp: m_recv_def waits_rightly_def)
next
  case (Some l)
  obtain w v where l: "l = (w, v)" by (cases l)
  assume "waits_rightly k"
  with Some l set_remove_first[of "wanted (Some who)" "k_inbox k c"] show ?thesis
    by (auto simp: m_recv_def waits_rightly_def)
qed

lemma pending_recv:
  "pending c e k = part (Some c) e (map_option (\<lambda>(w, v). (w, d, v)) (find (wanted (Some who)) (k_inbox k d))) @
    pending c e (snd (m_recv d who a old k))"
proof (cases "find (wanted (Some who)) (k_inbox k d)")
  case (Some l)
  obtain w v where "l = (w, v)" by (cases l)
  with Some pending_fetch[where n = "k_room k + 1" and m = "put_word a v (k_ram k)" and c = c and e = e, of who k d w v] show ?thesis
    by (simp add: m_recv_def)
qed (simp add: m_recv_def part_def pending_def)

text \<open>As far as the mail goes, a step is a send, if it sends, and then a receive, if it asks.\<close>

lemma give_up_mail:
  assumes "mail k = mail k0"
  shows "\<exists>k1 a old. mail k1 = mail (snd (m_send SSI_thread c (U frame) k0)) \<and>
    snd (m_give_up c tag cpu frame k) = snd (m_recv c (Some SSI_thread) a old k1)"
proof -
  let ?k1 = "snd (m_send SSI_thread c (U frame) (k\<lparr>k_ram := (k_ram k)(frame := U tag)\<rparr>))"
  have "mail ?k1 = mail (snd (m_send SSI_thread c (U frame) k0))" by (rule mail_send(2)) (simp add: assms)
  then show ?thesis
    by (intro exI[of _ ?k1] exI[of _ 0] exI[of _ "cpu\<lparr>a1 := U SYS_RECV, a2 := Tcb SSI_thread, a3 := NULL, a4 := U 0\<rparr>"])
      (simp add: m_give_up_def Let_def)
qed

lemma hand_over_mail: "mail k = mail k0 \<Longrightarrow> mail (snd (m_hand_over c st m v k)) = mail (snd (m_send m c v k0))"
  unfolding m_hand_over_def by (simp add: mail_send(2)[of "k\<lparr>k_saved := (k_saved k)(c := st)\<rparr>" k0])

definition mail_step :: "machine \<Rightarrow> (tid \<times> tid option) option \<Rightarrow> machine \<Rightarrow> bool" where
  "mail_step k1 ask k' \<longleftrightarrow>
     (case ask of
        None \<Rightarrow> mail k' = mail k1
      | Some (c, who) \<Rightarrow> \<exists>k2 a old. mail k2 = mail k1 \<and> k' = snd (m_recv c who a old k2))"

lemma trap_mail:
  assumes "mail k = mail k0"
  shows "mail_step (case complaint c mgr frame of (c, d, v) \<Rightarrow> snd (m_send d c v k0))
    (if mgr = None then Some (c, Some SSI_thread) else None) (snd (m_trap c mgr old cpu frame k))"
  using give_up_mail[OF assms, of c frame 3 cpu] hand_over_mail[OF assms]
  by (auto simp: m_trap_def complaint_def mail_step_def split: option.split)

lemma other_mail:
  assumes "mail k = mail k0"
  shows "mail_step
    (case (if a1 old \<in> {U SYS_ERR, U SYS_SEND, U SYS_RECV} \<or> on_call M = None then complaint c (on_trap M) frame
       else (c, the (on_call M), U frame)) of (c, d, v) \<Rightarrow> snd (m_send d c v k0))
    (if gives_up M (Some old) (on_trap M) then Some (c, Some SSI_thread) else None) (snd (m_other c M old cpu frame k))"
proof (cases "a1 old \<in> {U SYS_ERR, U SYS_SEND, U SYS_RECV}")
  case True
  with trap_mail[OF assms, of c "on_trap M" frame "old\<lparr>CP15_Cause := U EXC_RESERVEDINSTR\<rparr>" cpu] show ?thesis
    by (simp add: m_other_def gives_up_def)
next
  case False
  show ?thesis
  proof (cases "on_call M")
    case (Some m)
    let ?k = "k\<lparr>k_ram := (k_ram k)(frame := a1 old, frame + 4 := a2 old, frame + 8 := a3 old, frame + 12 := a4 old)\<rparr>"
    have "mail ?k = mail k0" using assms by simp
    from hand_over_mail[OF this] False Some show ?thesis by (simp add: m_other_def gives_up_def mail_step_def)
  next
    case None
    with False give_up_mail[OF assms, of c frame 4 cpu] hand_over_mail[OF assms] show ?thesis
      by (auto simp: m_other_def gives_up_def mail_step_def complaint_def split: option.split)
  qed
qed

lemma message_mail:
  assumes "mail k = mail k0"
  shows "mail_step
    (case (case as_tcb (a2 old) of Some (Some d) \<Rightarrow> if a1 old = U SYS_SEND then Some (c, d, a3 old) else None | _ \<Rightarrow> None) of
       Some (c, d, v) \<Rightarrow> snd (m_send d c v k0) | None \<Rightarrow> k0)
    (if a1 old = U SYS_SEND then None else map_option (\<lambda>who. (c, who)) (as_tcb (a2 old))) (snd (m_message c old k))"
  using mail_send(2)[OF assms] assms
  by (auto simp: m_message_def mail_step_def case_prod_beta split: option.split)

lemma device_mail:
  assumes io: "\<exists>j\<in>{..<8}. bit p j" and k: "mail k = mail k0"
  shows "mail (snd (m_device v p old k)) = (case k_device k of Some d \<Rightarrow> mail (snd (m_send d SSI_thread NULL k0)) | None \<Rightarrow> mail k0)"
proof (cases "k_device k")
  case (Some d)
  let ?k1 = "k\<lparr>k_ram := (k_ram k)(TERMINAL_DEV_FIELD 0 TRANSM_COMMAND := U DEV_C_ACK)\<rparr>"
  have "mail ?k1 = mail k0" using k by simp
  from mail_send(2)[OF this, of d SSI_thread NULL] io Some show ?thesis
    by (cases "m_send d SSI_thread NULL ?k1") (simp add: m_device_def Let_def)
qed (use io k in \<open>simp add: m_device_def Let_def\<close>)

lemma slice_mail: "mail (snd (m_slice_end old k)) = mail k"
  by (simp add: m_slice_end_def split: option.split)

lemma step_mail:
  assumes "m_enabled ev k"
  shows "mail_step (after_send ev k) (asking ev k) (snd (m_step ev k))"
proof (cases ev)
  case (Syscall old ram now cpu frame)
  then obtain c where c: "k_running k = Some c" "is_message old \<or> k_mgrs k c \<noteq> None" using assms by auto
  have k: "mail (k\<lparr>k_ram := ram\<rparr>) = mail k" by simp
  show ?thesis
  proof (cases "is_message old")
    case True
    with message_mail[OF k, of old c] c Syscall show ?thesis by (simp add: after_send_def running_def)
  next
    case False
    then obtain M where "k_mgrs k c = Some M" using c by blast
    with False other_mail[OF k, of old M c frame cpu] c Syscall show ?thesis by (simp add: after_send_def running_def managed_def)
  qed
next
  case (Program_trap old ram now cpu frame)
  then obtain c M where "k_running k = Some c" "k_mgrs k c = Some M" using assms by auto
  with trap_mail[of "k\<lparr>k_ram := ram\<rparr>" k c "on_trap M" frame old cpu] Program_trap show ?thesis
    by (simp add: after_send_def running_def managed_def gives_up_def)
next
  case (Tlb_trap old ram now cpu frame)
  then obtain c M where "k_running k = Some c" "k_mgrs k c = Some M" using assms by auto
  with trap_mail[of "k\<lparr>k_ram := ram\<rparr>" k c "on_tlb M" frame old cpu] Tlb_trap show ?thesis
    by (simp add: after_send_def running_def managed_def gives_up_def)
next
  case (Interrupt old ram now cpu v p)
  let ?k = "k\<lparr>k_ram := ram\<rparr>"
  consider "slice_end (k_period k) ev" | "\<not> slice_end (k_period k) ev" "\<not> (\<exists>j\<in>{..<8}. bit p j)"
    | "\<not> slice_end (k_period k) ev" "\<exists>j\<in>{..<8}. bit p j" by blast
  then show ?thesis
  proof cases
    case 1
    with slice_mail[of old ?k] Interrupt show ?thesis by (simp add: after_send_def mail_step_def)
  next
    case 2
    then show ?thesis using Interrupt by (simp add: after_send_def mail_step_def m_device_def)
  next
    case 3
    with device_mail[OF 3(2), of ?k k v old] Interrupt show ?thesis
      by (cases "k_device k") (simp_all add: after_send_def mail_step_def)
  qed
qed (use assms in simp)

lemma one_step:
  assumes k: "waits_rightly k" and en: "m_enabled ev k"
  shows "waits_rightly (snd (m_step ev k))"
    and "pending c e k @ part c e (posted ev k) =
      part (Some c) e (waking ev k) @ part (Some c) e (fetched ev k) @ pending c e (snd (m_step ev k))"
proof -
  have k1: "waits_rightly (after_send ev k)" by (rule waits_rightly_after_send[OF k])
  have "waits_rightly (snd (m_step ev k)) \<and>
    pending c e (after_send ev k) = part (Some c) e (fetched ev k) @ pending c e (snd (m_step ev k))"
  proof (cases "asking ev k")
    case None
    with step_mail[OF en] have m: "mail (snd (m_step ev k)) = mail (after_send ev k)" by (simp add: mail_step_def)
    have f: "fetched ev k = None" using None by (simp add: fetched_def)
    show ?thesis unfolding f mail_cong(1)[OF m] mail_cong(2)[OF m] using k1 by (simp add: part_def)
  next
    case (Some x)
    obtain d who where x: "x = (d, who)" by (cases x)
    obtain k2 a old where k2: "mail k2 = mail (after_send ev k)" "snd (m_step ev k) = snd (m_recv d who a old k2)"
      using step_mail[OF en] Some x by (auto simp: mail_step_def)
    have i: "k_inbox k2 = k_inbox (after_send ev k)" using k2(1) by (simp add: mail_def)
    have f: "fetched ev k = map_option (\<lambda>(w, v). (w, d, v)) (find (wanted (Some who)) (k_inbox k2 d))"
      using Some x by (simp add: fetched_def i)
    have "waits_rightly k2" unfolding mail_cong(1)[OF k2(1)] by (rule k1)
    then have "waits_rightly (snd (m_step ev k))" unfolding k2(2) by (rule waits_rightly_recv)
    moreover have "pending c e (after_send ev k) = part (Some c) e (fetched ev k) @ pending c e (snd (m_step ev k))"
      unfolding f k2(2) mail_cong(2)[OF k2(1), symmetric] by (rule pending_recv)
    ultimately show ?thesis ..
  qed
  then show "waits_rightly (snd (m_step ev k))"
    "pending c e k @ part c e (posted ev k) =
      part (Some c) e (waking ev k) @ part (Some c) e (fetched ev k) @ pending c e (snd (m_step ev k))"
    using pending_send[OF k, of c e ev] by simp_all
qed

section \<open>Runs\<close>

lemma run_is_fifo:
  "waits_rightly k \<Longrightarrow> m_allowed es k \<Longrightarrow>
   pending c d k @ sent_along c d es k = received_along c d es k @ pending c d (snd (m_run es k))"
proof (induction es arbitrary: k)
  case (Cons e es)
  obtain out k' where s: "m_step e k = (out, k')" by (cases "m_step e k")
  have one: "waits_rightly k'" "pending c d k @ part c d (posted e k) =
      part (Some c) d (waking e k) @ part (Some c) d (fetched e k) @ pending c d k'"
    using one_step[of k e] Cons.prems s by auto
  show ?case
  proof (cases "stopped out")
    case False
    then have "m_allowed es k'" using Cons.prems(2) s by simp
    from Cons.IH[OF one(1) this]
    have "pending c d k @ part c d (posted e k) @ sent_along c d es k' =
        (part (Some c) d (waking e k) @ part (Some c) d (fetched e k) @ received_along c d es k') @ pending c d (snd (m_run es k'))"
      using one(2) by (metis append_assoc)
    with False s show ?thesis by (simp add: case_prod_beta)
  qed (use s one(2) in simp)
qed simp

lemma system_waits_rightly:
  assumes "system_ok s"
  shows "waits_rightly (abs_machine s)"
proof -
  obtain Q where "settled Q s" using assms by (auto simp: system_ok_def)
  note ok = settled_sys_ok[OF this]
  have "\<not> wanted (Some who) l" if "phase_of (threads s d) = Awaits who" "l \<in> set (inbox_of Q (msgs s) d)" for d who l
    using that mail_inv_waiting[OF sys_ok_mail[OF ok], of d] by (auto simp: phase_of_iff inbox_of_mailbox split: if_splits)
  then show ?thesis
    unfolding waits_rightly_def abs_machine_eq[OF sys_ok_kernel[OF ok]] by (simp add: view_def)
qed

text \<open>The same for the kernel.\<close>

lemma kernel_channels:
  assumes ok: "system_ok s" and en: "m_allowed es (abs_machine s)" and run: "k_run es s = Some (outs, s')"
  shows "pending c d (abs_machine s) @ sent_along c d es (abs_machine s) =
    received_along c d es (abs_machine s) @ pending c d (abs_machine s')"
  using run_refines[OF ok en] run run_is_fifo[OF system_waits_rightly[OF ok] en, of c d] by auto

end
