(* ===== verification/Programs.thy ===== *)
theory Programs imports Channels begin

text \<open>
  Programs on the message machine. A program tells at each control point which calls it may make and
  where it goes on with the result of the call; between two calls it computes on its own memory. A
  thread that blocks in a call goes on when it is dispatched again, with the register \<open>a1\<close> that is loaded.
\<close>

section \<open>Definitions\<close>

datatype call = Send tid val | Recv "tid option" u32

fun call_of :: "state_t \<Rightarrow> call option" where
  "call_of old =
     (if \<not> is_message old then None
      else if a1 old = U SYS_SEND then
        (case as_tcb (a2 old) of Some (Some d) \<Rightarrow> Some (Send d (a3 old)) | _ \<Rightarrow> None)
      else (case as_tcb (a2 old) of Some who \<Rightarrow> Some (Recv who (address (a3 old))) | None \<Rightarrow> None))"

type_synonym 'l program = "tid \<Rightarrow> 'l \<Rightarrow> call \<Rightarrow> (val \<Rightarrow> 'l) option"

text \<open>Where a thread is: at a control point, or in a call that it made there.\<close>

datatype 'l point = At 'l | Calling 'l call

fun enter :: "event \<Rightarrow> tid option \<Rightarrow> (tid \<Rightarrow> 'l point) \<Rightarrow> tid \<Rightarrow> 'l point" where
  "enter (Syscall old ram now cpu frame) (Some c) loc =
     (case (loc c, call_of old) of (At l, Some x) \<Rightarrow> loc(c := Calling l x) | _ \<Rightarrow> loc)"
| "enter _ _ loc = loc"

fun leave :: "'l program \<Rightarrow> outcome \<Rightarrow> tid option \<Rightarrow> (tid \<Rightarrow> 'l point) \<Rightarrow> tid \<Rightarrow> 'l point" where
  "leave P (Ldst st) (Some t) loc =
     (case loc t of
        Calling l x \<Rightarrow> (case P t l x of Some f \<Rightarrow> loc(t := At (f (a1 st))) | None \<Rightarrow> loc)
      | At l \<Rightarrow> loc)"
| "leave P _ _ loc = loc"

definition p_step :: "'l program \<Rightarrow> event \<Rightarrow> (tid \<Rightarrow> 'l point) \<times> machine \<Rightarrow> outcome \<times> (tid \<Rightarrow> 'l point) \<times> machine" where
  "p_step P e = (\<lambda>(loc, k).
     let (out, k') = m_step e k in (out, leave P out (k_running k') (enter e (k_running k) loc), k'))"

text \<open>
  An event is allowed when the machine has it and, for a call, the running thread makes it. Programs
  make no other calls than sends and receives, and do not trap.
\<close>

fun makes :: "'l program \<Rightarrow> event \<Rightarrow> (tid \<Rightarrow> 'l point) \<Rightarrow> tid option \<Rightarrow> bool" where
  "makes P (Syscall old ram now cpu frame) loc (Some c) \<longleftrightarrow>
     (case (loc c, call_of old) of (At l, Some x) \<Rightarrow> P c l x \<noteq> None | _ \<Rightarrow> False)"
| "makes P (Interrupt old ram now cpu v p) loc _ \<longleftrightarrow> True"
| "makes P _ loc _ \<longleftrightarrow> False"

definition p_enabled :: "'l program \<Rightarrow> event \<Rightarrow> (tid \<Rightarrow> 'l point) \<times> machine \<Rightarrow> bool" where
  "p_enabled P e = (\<lambda>(loc, k). m_enabled e k \<and> makes P e loc (k_running k))"

fun p_run :: "'l program \<Rightarrow> event list \<Rightarrow> (tid \<Rightarrow> 'l point) \<times> machine \<Rightarrow> (tid \<Rightarrow> 'l point) \<times> machine" where
  "p_run P [] x = x"
| "p_run P (e # es) x = (let (out, x') = p_step P e x in if stopped out then x' else p_run P es x')"

fun p_allowed :: "'l program \<Rightarrow> event list \<Rightarrow> (tid \<Rightarrow> 'l point) \<times> machine \<Rightarrow> bool" where
  "p_allowed P [] x \<longleftrightarrow> True"
| "p_allowed P (e # es) x \<longleftrightarrow>
     p_enabled P e x \<and> (let (out, x') = p_step P e x in stopped out \<or> p_allowed P es x')"

lemma p_step_machine: "p_step P e (loc, k) = (fst (m_step e k), fst (snd (p_step P e (loc, k))), snd (m_step e k))"
  by (simp add: p_step_def case_prod_beta)

lemma p_run_machine: "snd (p_run P es (loc, k)) = snd (m_run es k)"
proof (induction es arbitrary: loc k)
  case (Cons e es)
  then show ?case by (subst p_run.simps, subst p_step_machine) (simp add: case_prod_beta)
qed simp

lemma p_allowed_machine: "p_allowed P es (loc, k) \<Longrightarrow> m_allowed es k"
proof (induction es arbitrary: loc k)
  case (Cons e es)
  then show ?case
    by (subst (asm) p_allowed.simps, subst (asm) p_step_machine) (auto simp: p_enabled_def case_prod_beta)
qed simp

text \<open>What holds of each step of a run of the machine; for instance, that the sends have good results.\<close>

fun along :: "(event \<Rightarrow> machine \<Rightarrow> bool) \<Rightarrow> event list \<Rightarrow> machine \<Rightarrow> bool" where
  "along G [] k \<longleftrightarrow> True"
| "along G (e # es) k \<longleftrightarrow> G e k \<and> (let (out, k') = m_step e k in stopped out \<or> along G es k')"

definition sends_ok :: "(u32 \<Rightarrow> bool) \<Rightarrow> event \<Rightarrow> machine \<Rightarrow> bool" where
  "sends_ok ok e k \<longleftrightarrow> (case sending e k of Some (c, d, v) \<Rightarrow> ok (fst (m_send d c v k)) | None \<Rightarrow> True)"

lemma along_trivial [simp]: "along (sends_ok (\<lambda>_. True)) es k"
  by (induction es arbitrary: k) (auto simp: sends_ok_def split: option.split)

text \<open>An invariant of the steps holds at the end of every run.\<close>

lemma p_run_invariant:
  assumes step: "\<And>e x. I x \<Longrightarrow> p_enabled P e x \<Longrightarrow> G e (snd x) \<Longrightarrow> I (snd (p_step P e x))"
  shows "I x \<Longrightarrow> p_allowed P es x \<Longrightarrow> along G es (snd x) \<Longrightarrow> I (p_run P es x)"
proof (induction es arbitrary: x)
  case (Cons e es)
  obtain loc k where x: "x = (loc, k)" by (cases x)
  obtain out x' where s: "p_step P e x = (out, x')" by (cases "p_step P e x")
  have m: "m_step e (snd x) = (out, snd x')" using p_step_machine[of P e loc k] s x by (metis fst_conv prod.collapse snd_conv)
  have i: "I x'" using s step[of x e] Cons.prems by simp
  show ?case
  proof (cases "stopped out")
    case False
    with Cons.IH[OF i] s m Cons.prems(2,3) show ?thesis by simp
  qed (use s i in simp)
qed simp

text \<open>The kernel runs the programs: its states are the states of the machine.\<close>

lemma kernel_runs_programs:
  assumes "system_ok s" "p_allowed P es (loc, abs_machine s)"
  shows "\<exists>outs s'. k_run es s = Some (outs, s') \<and> abs_machine s' = snd (p_run P es (loc, abs_machine s))"
proof -
  obtain outs s' where "k_run es s = Some (outs, s')" "m_run es (abs_machine s) = (outs, abs_machine s')"
    using run_refines[OF assms(1) p_allowed_machine[OF assms(2)]] by blast
  with p_run_machine[of P es loc "abs_machine s"] show ?thesis by (intro exI[of _ outs] exI[of _ s']) simp
qed

section \<open>What the steps do to the threads\<close>

text \<open>
  A step is one of five: a send, a receive that finds a letter, a receive that blocks, the end of a slice
  or an interrupt of a device; the last three may dispatch a thread, which returns from its call.
\<close>

definition p_dispatch :: "'l program \<Rightarrow> (tid \<Rightarrow> 'l point) \<times> machine \<Rightarrow> (tid \<Rightarrow> 'l point) \<times> machine" where
  "p_dispatch P = (\<lambda>(loc, k). (leave P (fst (dispatch k)) (k_running (snd (dispatch k))) loc, snd (dispatch k)))"

lemma m_send_fields [simp]:
  "k_running (snd (m_send d c v k)) = k_running k" "k_idle (snd (m_send d c v k)) = k_idle k"
  "k_device (snd (m_send d c v k)) = k_device k"
  by (simp_all add: m_send_def put_letter_def wake_def split: phase.split)

lemma p_step_send:
  assumes "k_running k = Some c" "loc c = At l" "is_message old" "a1 old = U SYS_SEND" "a2 old = Tcb d" "P c l (Send d (a3 old)) = Some f"
    and "m_send d c (a3 old) (k\<lparr>k_ram := ram\<rparr>) = (r, k')"
  shows "snd (p_step P (Syscall old ram now cpu frame) (loc, k)) = (loc(c := At (f (U r))), k')"
  using assms m_send_fields(1)[of d c "a3 old" "k\<lparr>k_ram := ram\<rparr>"] by (simp add: p_step_def running_def m_message_def)

lemma p_step_fetch:
  assumes "k_running k = Some c" "loc c = At l" "is_message old" "a1 old \<noteq> U SYS_SEND" "as_tcb (a2 old) = Some who"
    and "P c l (Recv who (address (a3 old))) = Some f" "find (wanted (Some who)) (k_inbox k c) = Some (w, v)"
  shows "snd (p_step P (Syscall old ram now cpu frame) (loc, k)) =
    (loc(c := At (f (of_tcb w))),
     k\<lparr>k_inbox := (k_inbox k)(c := remove_first (wanted (Some who)) (k_inbox k c)), k_room := k_room k + 1,
       k_ram := put_word (address (a3 old)) v ram\<rparr>)"
  using assms by (simp add: p_step_def m_recv_def running_def m_message_def)

lemma p_step_block:
  assumes "k_running k = Some c" "loc c = At l" "is_message old" "a1 old \<noteq> U SYS_SEND" "as_tcb (a2 old) = Some who"
    and "find (wanted (Some who)) (k_inbox k c) = None"
  shows "snd (p_step P (Syscall old ram now cpu frame) (loc, k)) =
    p_dispatch P (loc(c := Calling l (Recv who (address (a3 old)))),
      k\<lparr>k_ram := ram, k_phase := (k_phase k)(c := Awaits who), k_saved := (k_saved k)(c := old)\<rparr>)"
  using assms by (simp add: p_step_def m_recv_def p_dispatch_def case_prod_beta running_def m_message_def)

section \<open>What holds between the threads and the machine\<close>

text \<open>
  A thread that waits is in a receive; a thread that has been woken has the sender in its saved \<open>a1\<close>;
  the running thread is at a control point; the ready threads are distinct and do not wait; letters have
  senders.
\<close>

definition coupled :: "'l program \<Rightarrow> (tid \<Rightarrow> 'l point) \<times> machine \<Rightarrow> bool" where
  "coupled P = (\<lambda>(loc, k). waits_rightly k \<and>
     (\<forall>t who. k_phase k t = Awaits who \<longrightarrow> (\<exists>l a. loc t = Calling l (Recv who a))) \<and>
     (\<forall>t l x. loc t = Calling l x \<longrightarrow> P t l x \<noteq> None \<and>
        (\<exists>who a. x = Recv who a \<and>
           (k_phase k t \<noteq> Awaits who \<longrightarrow> (\<exists>c. a1 (k_saved k t) = Tcb c \<and> (who = None \<or> who = Some c))))) \<and>
     (\<forall>t who. t \<in> set (k_ready k) \<or> k_running k = Some t \<longrightarrow> k_phase k t \<noteq> Awaits who) \<and>
     (\<forall>t. k_running k = Some t \<longrightarrow> t \<notin> set (k_ready k) \<and> (\<exists>l. loc t = At l)) \<and> distinct (k_ready k) \<and>
     (\<forall>d. \<forall>l \<in> set (k_inbox k d). fst l \<noteq> None))"

lemma coupledD:
  assumes "coupled P (loc, k)"
  shows coupled_waits: "waits_rightly k"
    and coupled_awaits: "k_phase k t = Awaits who \<Longrightarrow> \<exists>l a. loc t = Calling l (Recv who a)"
    and coupled_calling: "loc t = Calling l x \<Longrightarrow> P t l x \<noteq> None"
    and coupled_recv: "loc t = Calling l x \<Longrightarrow> \<exists>who a. x = Recv who a"
    and coupled_woken: "loc t = Calling l (Recv who a) \<Longrightarrow> k_phase k t \<noteq> Awaits who \<Longrightarrow>
      \<exists>c. a1 (k_saved k t) = Tcb c \<and> (who = None \<or> who = Some c)"
    and coupled_ready: "t \<in> set (k_ready k) \<or> k_running k = Some t \<Longrightarrow> k_phase k t \<noteq> Awaits who"
    and coupled_running: "k_running k = Some t \<Longrightarrow> \<exists>l. loc t = At l"
    and coupled_distinct: "k_running k = Some t \<Longrightarrow> t \<notin> set (k_ready k)" "distinct (k_ready k)"
    and coupled_senders: "l' \<in> set (k_inbox k d) \<Longrightarrow> fst l' \<noteq> None"
  using assms by (fastforce simp: coupled_def)+

lemma coupledI:
  assumes "waits_rightly k" "\<And>t who. k_phase k t = Awaits who \<Longrightarrow> \<exists>l a. loc t = Calling l (Recv who a)"
    and "\<And>t l x. loc t = Calling l x \<Longrightarrow> P t l x \<noteq> None"
    and "\<And>t l x. loc t = Calling l x \<Longrightarrow> \<exists>who a. x = Recv who a"
    and "\<And>t l who a. loc t = Calling l (Recv who a) \<Longrightarrow> k_phase k t \<noteq> Awaits who \<Longrightarrow>
      \<exists>c. a1 (k_saved k t) = Tcb c \<and> (who = None \<or> who = Some c)"
    and "\<And>t who. t \<in> set (k_ready k) \<Longrightarrow> k_phase k t \<noteq> Awaits who" "\<And>t who. k_running k = Some t \<Longrightarrow> k_phase k t \<noteq> Awaits who"
    and "\<And>t. k_running k = Some t \<Longrightarrow> \<exists>l. loc t = At l" "\<And>t. k_running k = Some t \<Longrightarrow> t \<notin> set (k_ready k)"
      "distinct (k_ready k)" "\<And>d l. l \<in> set (k_inbox k d) \<Longrightarrow> fst l \<noteq> None"
  shows "coupled P (loc, k)"
  unfolding coupled_def using assms by auto fastforce+

lemma coupled_upd [simp]:
  "coupled P (loc, k\<lparr>k_ram := m\<rparr>) = coupled P (loc, k)" "coupled P (loc, k\<lparr>k_device := t\<rparr>) = coupled P (loc, k)"
  "coupled P (loc, k\<lparr>k_idle := b\<rparr>) = coupled P (loc, k)"
  by (simp_all add: coupled_def)

text \<open>The dispatch forgets who was running.\<close>

lemma dispatch_running: "dispatch (k\<lparr>k_running := t\<rparr>) = dispatch k"
  by (simp add: dispatch_def Let_def split: list.split)

lemma p_dispatch_running: "p_dispatch P (loc, k\<lparr>k_running := t\<rparr>) = p_dispatch P (loc, k)"
  by (simp add: p_dispatch_def dispatch_running)

text \<open>A dispatched thread that was in a call returns with the register \<open>a1\<close> that the sender left.\<close>

lemma p_dispatch_cases:
  assumes "coupled P (loc, k\<lparr>k_running := None\<rparr>)"
  obtains (idle) k' where "p_dispatch P (loc, k) = (loc, k')" "k_ready k = []" "k_running k' = None" "k_ready k' = []"
      "k_phase k' = k_phase k" "k_inbox k' = k_inbox k" "k_saved k' = k_saved k" "k_device k' = k_device k"
  | (going) t ts l where "k_ready k = t # ts" "loc t = At l" "p_dispatch P (loc, k) = (loc, k\<lparr>k_running := Some t, k_ready := ts\<rparr>)"
  | (returns) t ts l who a f c where "k_ready k = t # ts" "loc t = Calling l (Recv who a)" "P t l (Recv who a) = Some f"
      "\<And>w. k_phase k t \<noteq> Awaits w" "a1 (k_saved k t) = Tcb c" "who = None \<or> who = Some c"
      "p_dispatch P (loc, k) = (loc(t := At (f (Tcb c))), k\<lparr>k_running := Some t, k_ready := ts\<rparr>)"
proof (cases "k_ready k")
  case Nil
  then show thesis
    by (intro idle[of "snd (dispatch k)"]) (simp_all add: p_dispatch_def dispatch_def Let_def)
next
  case (Cons t ts)
  let ?k' = "k\<lparr>k_running := Some t, k_ready := ts\<rparr>"
  have d: "dispatch k = (Ldst (k_saved k t), ?k')" using Cons by (simp add: dispatch_def)
  have ph: "k_phase k t \<noteq> Awaits w" for w using coupled_ready[OF assms, of t w] Cons by simp
  show thesis
  proof (cases "loc t")
    case (At l)
    with Cons d show thesis by (intro going[of t ts l]) (simp_all add: p_dispatch_def)
  next
    case (Calling l x)
    obtain who a where x: "x = Recv who a" using coupled_recv[OF assms Calling] by blast
    obtain f where f: "P t l x = Some f" using coupled_calling[OF assms Calling] by blast
    obtain c where c: "a1 (k_saved k t) = Tcb c" "who = None \<or> who = Some c"
      using coupled_woken[OF assms Calling[unfolded x]] ph by auto
    show thesis
      using Cons Calling x f c d ph by (intro returns[of t ts l who a f c]) (simp_all add: p_dispatch_def)
  qed
qed

lemma coupled_dispatch:
  assumes ok: "coupled P (loc, k\<lparr>k_running := None\<rparr>)"
  shows "coupled P (p_dispatch P (loc, k))"
proof (rule p_dispatch_cases[OF ok])
  fix k' assume "p_dispatch P (loc, k) = (loc, k')" "k_ready k = []" "k_running k' = None" "k_ready k' = []"
    "k_phase k' = k_phase k" "k_inbox k' = k_inbox k" "k_saved k' = k_saved k"
  with ok show ?thesis by (simp add: coupled_def waits_rightly_def)
next
  fix t ts l assume "k_ready k = t # ts" "loc t = At l" "p_dispatch P (loc, k) = (loc, k\<lparr>k_running := Some t, k_ready := ts\<rparr>)"
  with ok show ?thesis by (simp add: coupled_def waits_rightly_def)
next
  fix t ts l who a f c
  assume "k_ready k = t # ts" "loc t = Calling l (Recv who a)" "\<And>w. k_phase k t \<noteq> Awaits w"
    "p_dispatch P (loc, k) = (loc(t := At (f (Tcb c))), k\<lparr>k_running := Some t, k_ready := ts\<rparr>)"
  with ok show ?thesis by (auto simp: coupled_def waits_rightly_def)
qed

lemma coupled_send:
  assumes ok: "coupled P (loc, k)" and run: "m_send d c v k = (r, k')"
  shows "coupled P (loc, k')"
proof (rule m_send_cases[of d c v k])
  assume "m_send d c v k = (SEND_FAILURE, k)"
  with ok run show ?thesis by simp
next
  fix who assume w: "m_send d c v k = (SEND_SUCCESS, wake d (Some c) v k)" "k_phase k d = Awaits who" "who = None \<or> who = Some c"
  obtain l a where l: "loc d = Calling l (Recv who a)" using coupled_awaits[OF ok w(2)] by blast
  have d: "k_running k \<noteq> Some d" "d \<notin> set (k_ready k)" using coupled_ready[OF ok, of d who] w(2) by auto
  have k': "k' = wake d (Some c) v k" using w(1) run by simp
  have "waits_rightly k'" using waits_rightly_send[OF coupled_waits[OF ok], of d c v] run by simp
  then show ?thesis
  proof (rule coupledI)
    show "\<exists>l a. loc t = Calling l (Recv who a)" if "k_phase k' t = Awaits who" for t who
      using that coupled_awaits[OF ok, of t who] by (simp add: k' wake_def split: if_splits)
    show "\<exists>c. a1 (k_saved k' t) = Tcb c \<and> (who' = None \<or> who' = Some c)"
      if "loc t = Calling l' (Recv who' a')" "k_phase k' t \<noteq> Awaits who'" for t l' who' a'
      using that l w(3) coupled_woken[OF ok that(1)] by (auto simp: k' wake_def split: if_splits)
  qed (use coupledD[OF ok] d in \<open>auto simp: k' wake_def\<close>)
next
  assume "m_send d c v k = (SEND_SUCCESS, k\<lparr>k_inbox := (k_inbox k)(d := k_inbox k d @ [(Some c, v)]), k_room := k_room k - 1\<rparr>)"
  then have k': "k' = k\<lparr>k_inbox := (k_inbox k)(d := k_inbox k d @ [(Some c, v)]), k_room := k_room k - 1\<rparr>" using run by simp
  have "waits_rightly k'" using waits_rightly_send[OF coupled_waits[OF ok], of d c v] run by simp
  then show ?thesis
    by (rule coupledI) (use coupledD[OF ok] in \<open>auto simp: k' split: if_splits\<close>)
qed

text \<open>A thread at a control point goes on to another one.\<close>

lemma coupled_at: "coupled P (loc, k) \<Longrightarrow> loc c = At l \<Longrightarrow> coupled P (loc(c := At l'), k)"
proof -
  assume ok: "coupled P (loc, k)" and l: "loc c = At l"
  have c: "k_phase k c \<noteq> Awaits who" for who using coupled_awaits[OF ok, of c who] l by auto
  show ?thesis
  proof (rule coupledI[OF coupled_waits[OF ok]])
    show "\<exists>l'' a. (loc(c := At l')) t = Calling l'' (Recv who a)" if "k_phase k t = Awaits who" for t who
      using coupled_awaits[OF ok that] that c by auto
  qed (use coupledD[OF ok] in \<open>auto split: if_splits\<close>)
qed

lemma coupled_fetch:
  assumes ok: "coupled P (loc, k)" and l: "loc c = At l"
  shows "coupled P (loc, k\<lparr>k_inbox := (k_inbox k)(c := remove_first p (k_inbox k c)), k_room := n, k_ram := m\<rparr>)"
proof -
  have "waits_rightly (k\<lparr>k_inbox := (k_inbox k)(c := remove_first p (k_inbox k c)), k_room := n, k_ram := m\<rparr>)"
    using coupled_waits[OF ok] set_remove_first[of p "k_inbox k c"] by (auto simp: waits_rightly_def)
  then show ?thesis
    by (rule coupledI) (use coupledD[OF ok] set_remove_first[of p "k_inbox k c"] in \<open>auto split: if_splits\<close>)
qed

lemma coupled_block:
  assumes ok: "coupled P (loc, k)" and c: "k_running k = Some c" "loc c = At l" "P c l (Recv who a) \<noteq> None"
    and none: "find (wanted (Some who)) (k_inbox k c) = None"
  shows "coupled P (loc(c := Calling l (Recv who a)),
    k\<lparr>k_ram := m, k_phase := (k_phase k)(c := Awaits who), k_saved := (k_saved k)(c := old), k_running := None\<rparr>)"
proof -
  have "waits_rightly (k\<lparr>k_ram := m, k_phase := (k_phase k)(c := Awaits who), k_saved := (k_saved k)(c := old), k_running := None\<rparr>)"
    using coupled_waits[OF ok] none unfolding find_None_iff by (auto simp: waits_rightly_def)
  then show ?thesis
    by (rule coupledI) (use coupledD[OF ok] c in \<open>auto split: if_splits\<close>)
qed

text \<open>A state of the kernel in which the threads that wait are in their calls, and the others are not.\<close>

lemma coupled_start:
  assumes ok: "system_ok s"
    and loc: "\<And>t. (case k_phase (abs_machine s) t of
        Awaits who \<Rightarrow> \<exists>l a. loc t = Calling l (Recv who a) \<and> P t l (Recv who a) \<noteq> None
      | _ \<Rightarrow> \<exists>l. loc t = At l)"
  shows "coupled P (loc, abs_machine s)"
proof -
  obtain Q where "settled Q s" using ok by (auto simp: system_ok_def)
  note sys = settled_sys_ok[OF this]
  note kok = sys_ok_kernel[OF sys]
  note a = abs_machine_eq[OF kok]
  have "distinct (map T_sched (tids (Q Readyq)))"
    using shape_distinct[OF kernel_ok_shape[OF kok], of Readyq] sched_list_tids[OF kok, of Readyq] by simp
  then have d: "distinct (tids (Q Readyq))" by (simp add: distinct_map)
  have ready: "t_status (threads s t) = T_STATUS_READY" if "t \<in> set (tids (Q Readyq))" for t
  proof -
    have m: "T_sched t \<in> set (Q Readyq)" using that by simp
    then have "valid_tid t" "linked_at Q t Readyq" using member_type[OF kok, of Readyq "T_sched t"] by (auto simp: linked_at_def)
    with sched_inv_in_readyq[OF kok sys_ok_sched[OF sys]] show ?thesis by blast
  qed
  have run: "t_status (threads s t) = T_STATUS_READY \<and> t \<notin> set (tids (Q Readyq))" if "current_thread s = Some t" for t
    using sys_ok_running[OF sys that] by (auto simp: linked_at_def)
  have at: "\<exists>l. loc t = At l" if "t_status (threads s t) = T_STATUS_READY" for t
    using loc[of t] that by (simp add: a phase_of_def)
  show ?thesis
  proof (rule coupledI)
    show "\<exists>l a. loc t = Calling l (Recv who a)" if "k_phase (abs_machine s) t = Awaits who" for t who
      using loc[of t] that by auto
    show "P t l x \<noteq> None" "\<exists>who a. x = Recv who a" if "loc t = Calling l x" for t l x
      using loc[of t] that by (auto split: phase.splits)
    show "\<exists>c. a1 (k_saved (abs_machine s) t) = Tcb c \<and> (who = None \<or> who = Some c)"
      if "loc t = Calling l (Recv who a)" "k_phase (abs_machine s) t \<noteq> Awaits who" for t l who a
      using loc[of t] that by (auto split: phase.splits)
    show "k_phase (abs_machine s) t \<noteq> Awaits who" if "t \<in> set (k_ready (abs_machine s))" for t who
      using ready[of t] that by (simp add: a phase_of_iff)
    show "fst l \<noteq> None" if "l \<in> set (k_inbox (abs_machine s) t)" for t l
      using that mail_inv_senders[OF sys_ok_mail[OF sys], of t l] by (auto simp: a view_def inbox_of_mailbox split: if_splits)
  qed (use system_waits_rightly[OF ok] run at d in \<open>simp_all add: a phase_of_iff\<close>)
qed

section \<open>Protocols\<close>

text \<open>
  A protocol is a program with an invariant \<open>I\<close> of the control points, the phases, the inboxes and the
  saved states, that every step of a thread and every letter of a device keeps. \<open>D\<close> are the threads that
  may wait for the device, and \<open>ok\<close> are the results of sends that the protocol copes with.
\<close>

locale protocol =
  fixes P :: "'l program" and D :: "tid \<Rightarrow> bool" and ok :: "u32 \<Rightarrow> bool"
    and I :: "(tid \<Rightarrow> 'l point) \<Rightarrow> (tid \<Rightarrow> phase) \<Rightarrow> (tid \<Rightarrow> letter list) \<Rightarrow> (tid \<Rightarrow> state_t) \<Rightarrow> bool"
  assumes send: "\<And>loc k c l d v f r k'. coupled P (loc, k) \<Longrightarrow> I loc (k_phase k) (k_inbox k) (k_saved k) \<Longrightarrow> loc c = At l \<Longrightarrow>
      P c l (Send d v) = Some f \<Longrightarrow> m_send d c v k = (r, k') \<Longrightarrow> ok r \<Longrightarrow>
      I (loc(c := At (f (U r)))) (k_phase k') (k_inbox k') (k_saved k')"
    and device: "\<And>loc k d r k'. coupled P (loc, k) \<Longrightarrow> I loc (k_phase k) (k_inbox k) (k_saved k) \<Longrightarrow> D d \<Longrightarrow>
      m_send d SSI_thread NULL k = (r, k') \<Longrightarrow> I loc (k_phase k') (k_inbox k') (k_saved k')"
    and fetch: "\<And>loc k c l who a f w v. coupled P (loc, k) \<Longrightarrow> I loc (k_phase k) (k_inbox k) (k_saved k) \<Longrightarrow> loc c = At l \<Longrightarrow>
      P c l (Recv who a) = Some f \<Longrightarrow> find (wanted (Some who)) (k_inbox k c) = Some (w, v) \<Longrightarrow>
      I (loc(c := At (f (of_tcb w)))) (k_phase k) ((k_inbox k)(c := remove_first (wanted (Some who)) (k_inbox k c))) (k_saved k)"
    and block: "\<And>loc k c l who a old. coupled P (loc, k) \<Longrightarrow> I loc (k_phase k) (k_inbox k) (k_saved k) \<Longrightarrow> loc c = At l \<Longrightarrow>
      P c l (Recv who a) \<noteq> None \<Longrightarrow> find (wanted (Some who)) (k_inbox k c) = None \<Longrightarrow>
      I (loc(c := Calling l (Recv who a))) ((k_phase k)(c := Awaits who)) (k_inbox k) ((k_saved k)(c := old))"
    and return: "\<And>loc k t l who a f c. coupled P (loc, k) \<Longrightarrow> I loc (k_phase k) (k_inbox k) (k_saved k) \<Longrightarrow>
      loc t = Calling l (Recv who a) \<Longrightarrow> P t l (Recv who a) = Some f \<Longrightarrow> (\<And>w. k_phase k t \<noteq> Awaits w) \<Longrightarrow>
      a1 (k_saved k t) = Tcb c \<Longrightarrow> I (loc(t := At (f (Tcb c)))) (k_phase k) (k_inbox k) (k_saved k)"
    and preempt: "\<And>loc ph ib sv c l old. I loc ph ib sv \<Longrightarrow> loc c = At l \<Longrightarrow> I loc ph ib (sv(c := old))"
begin

definition holds :: "(tid \<Rightarrow> 'l point) \<times> machine \<Rightarrow> bool" where
  "holds = (\<lambda>(loc, k). coupled P (loc, k) \<and> (\<forall>d. k_device k = Some d \<longrightarrow> D d) \<and> I loc (k_phase k) (k_inbox k) (k_saved k))"

lemma dispatch_holds:
  assumes hl: "holds (loc, k\<lparr>k_running := None\<rparr>)"
  shows "holds (p_dispatch P (loc, k))"
proof -
  have c: "coupled P (loc, k\<lparr>k_running := None\<rparr>)" and i: "I loc (k_phase k) (k_inbox k) (k_saved k)"
    and d: "\<forall>d. k_device k = Some d \<longrightarrow> D d" using hl by (simp_all add: holds_def)
  show ?thesis
  proof (rule p_dispatch_cases[OF c])
    fix k' assume "p_dispatch P (loc, k) = (loc, k')" "k_phase k' = k_phase k" "k_inbox k' = k_inbox k" "k_saved k' = k_saved k"
      "k_device k' = k_device k"
    then show ?thesis using coupled_dispatch[OF c] i d by (simp add: holds_def)
  next
    fix t ts l assume "p_dispatch P (loc, k) = (loc, k\<lparr>k_running := Some t, k_ready := ts\<rparr>)"
    then show ?thesis using coupled_dispatch[OF c] i d by (simp add: holds_def)
  next
    fix t ts l who a f c'
    assume b: "loc t = Calling l (Recv who a)" "P t l (Recv who a) = Some f" "\<And>w. k_phase k t \<noteq> Awaits w" "a1 (k_saved k t) = Tcb c'"
      "p_dispatch P (loc, k) = (loc(t := At (f (Tcb c'))), k\<lparr>k_running := Some t, k_ready := ts\<rparr>)"
    have "I (loc(t := At (f (Tcb c')))) (k_phase k) (k_inbox k) (k_saved k)"
      using return[OF c _ b(1,2), of c'] i b(3,4) by simp
    then show ?thesis using coupled_dispatch[OF c] b(5) d by (simp add: holds_def)
  qed
qed

lemma syscall_holds:
  assumes hl: "holds (loc, k)" and en: "p_enabled P (Syscall old ram now cpu frame) (loc, k)"
    and good: "sends_ok ok (Syscall old ram now cpu frame) k"
  shows "holds (snd (p_step P (Syscall old ram now cpu frame) (loc, k)))"
proof -
  let ?k = "k\<lparr>k_ram := ram\<rparr>"
  have co: "coupled P (loc, ?k)" and i: "I loc (k_phase ?k) (k_inbox ?k) (k_saved ?k)"
    and d: "\<forall>d. k_device k = Some d \<longrightarrow> D d" using hl by (simp_all add: holds_def)
  obtain c where c: "k_running k = Some c" using en by (auto simp: p_enabled_def)
  obtain l x where l: "loc c = At l" "call_of old = Some x" "P c l x \<noteq> None"
    using en c by (auto simp: p_enabled_def simp del: call_of.simps split: point.splits option.splits)
  then have im: "is_message old" by (simp split: if_splits)
  show ?thesis
  proof (cases "a1 old = U SYS_SEND")
    case True
    then obtain d' where d': "a2 old = Tcb d'" using en by (auto simp: p_enabled_def sys_defs)
    with True l im obtain f where f: "P c l (Send d' (a3 old)) = Some f" by auto
    obtain r k' where m: "m_send d' c (a3 old) ?k = (r, k')" by (cases "m_send d' c (a3 old) ?k")
    have r: "ok r" using good c True d' im mail_send(1)[of ?k k d' c "a3 old"] m by (simp add: sends_ok_def)
    have "coupled P (loc(c := At (f (U r))), k')" by (rule coupled_at[OF coupled_send[OF co m] l(1)])
    moreover have "I (loc(c := At (f (U r)))) (k_phase k') (k_inbox k') (k_saved k')" by (rule send[OF co i l(1) f m r])
    moreover have "k_device k' = k_device k" using m_send_fields(3)[of d' c "a3 old" ?k] m by simp
    ultimately show ?thesis
      unfolding p_step_send[where k = k and ram = ram and loc = loc and c = c and l = l and P = P and f = f, OF c l(1) im True d' f m]
      using d by (simp add: holds_def)
  next
    case False
    obtain who where who: "as_tcb (a2 old) = Some who" using l(2) False im by (auto split: option.splits)
    let ?a = "address (a3 old)"
    obtain f where f: "P c l (Recv who ?a) = Some f" using l(2,3) False who im by auto
    show ?thesis
    proof (cases "find (wanted (Some who)) (k_inbox k c)")
      case (Some y)
      obtain w v where y: "find (wanted (Some who)) (k_inbox k c) = Some (w, v)" using Some by (cases y) simp
      have "I (loc(c := At (f (of_tcb w)))) (k_phase k)
          ((k_inbox k)(c := remove_first (wanted (Some who)) (k_inbox k c))) (k_saved k)"
        using fetch[OF co i l(1) f] y by simp
      moreover have co': "coupled P (loc, k)" using hl by (simp add: holds_def)
      have "coupled P (loc(c := At (f (of_tcb w))), k\<lparr>k_inbox := (k_inbox k)(c := remove_first (wanted (Some who)) (k_inbox k c)),
          k_room := k_room k + 1, k_ram := put_word ?a v ram\<rparr>)"
        by (rule coupled_at[where l = l, OF coupled_fetch[where l = l, OF co' l(1)] l(1)])
      ultimately show ?thesis
        unfolding p_step_fetch[where loc = loc and c = c and P = P and l = l and f = f, OF c l(1) im False who f y]
        using d by (simp add: holds_def)
    next
      case None
      have co': "coupled P (loc, k)" using hl by (simp add: holds_def)
      have "P c l (Recv who ?a) \<noteq> None" using f by simp
      with block[OF co i l(1)] None coupled_block[OF co' c l(1) _ None] d show ?thesis
        unfolding p_step_block[where loc = loc and c = c and l = l, OF c l(1) im False who None] by (intro dispatch_holds) (simp add: holds_def)
    qed
  qed
qed

lemma slice_holds:
  assumes hl: "holds (loc, k)"
  shows "holds (p_dispatch P (loc,
    (case k_running k of None \<Rightarrow> k | Some c \<Rightarrow> k\<lparr>k_saved := (k_saved k)(c := old), k_ready := k_ready k @ [c]\<rparr>)))"
proof (cases "k_running k")
  case None
  with hl have "holds (loc, k\<lparr>k_running := None\<rparr>)" by (simp add: holds_def coupled_def waits_rightly_def)
  from dispatch_holds[OF this] None show ?thesis by simp
next
  case (Some c)
  have co: "coupled P (loc, k)" using hl by (simp add: holds_def)
  obtain l where l: "loc c = At l" using coupled_running[OF co Some] by blast
  let ?k = "k\<lparr>k_saved := (k_saved k)(c := old), k_ready := k_ready k @ [c]\<rparr>"
  have "coupled P (loc, ?k\<lparr>k_running := None\<rparr>)"
  proof (rule coupledI)
    show "\<exists>c'. a1 (k_saved (?k\<lparr>k_running := None\<rparr>) t) = Tcb c' \<and> (who = None \<or> who = Some c')"
      if "loc t = Calling l' (Recv who a)" "k_phase (?k\<lparr>k_running := None\<rparr>) t \<noteq> Awaits who" for t l' who a
      using that coupled_woken[OF co that(1)] l by (auto split: if_splits)
    show "waits_rightly (?k\<lparr>k_running := None\<rparr>)" using coupled_waits[OF co] by (simp add: waits_rightly_def)
  qed (use coupledD[OF co] Some in \<open>auto simp: waits_rightly_def\<close>)
  moreover have "I loc (k_phase k) (k_inbox k) ((k_saved k)(c := old))" using preempt[of loc] hl l by (simp add: holds_def)
  ultimately have "holds (loc, ?k\<lparr>k_running := None\<rparr>)" using hl by (simp add: holds_def)
  from dispatch_holds[OF this] Some show ?thesis by simp
qed

lemma holds_upd:
  "holds (loc, k) \<Longrightarrow> holds (loc, k\<lparr>k_running := None\<rparr>)" "holds (loc, k) \<Longrightarrow> holds (loc, k\<lparr>k_device := None\<rparr>)"
  "holds (loc, k\<lparr>k_ram := m\<rparr>) = holds (loc, k)" "holds (loc, k\<lparr>k_idle := b\<rparr>) = holds (loc, k)"
  by (simp_all add: holds_def coupled_def waits_rightly_def)

lemma leave_running: "holds (loc, k) \<Longrightarrow> leave P out (k_running k) loc = loc"
  by (cases "(P, out, k_running k, loc)" rule: leave.cases) (auto simp: holds_def dest: coupled_running split: point.split)

lemma device_holds:
  assumes hl: "holds (loc, k)"
  shows "holds (leave P (fst (m_device v p old k)) (k_running (snd (m_device v p old k))) loc, snd (m_device v p old k))"
proof -
  let ?k1 = "k\<lparr>k_ram := (k_ram k)(TERMINAL_DEV_FIELD 0 TRANSM_COMMAND := U DEV_C_ACK)\<rparr>"
  have ok1: "holds (loc, ?k1)" using hl by (simp add: holds_upd)
  show ?thesis
  proof (cases "(\<exists>j\<in>{..<8}. bit p j) \<and> k_device k \<noteq> None")
    case False
    then have "m_device v p old k = (Panic, k) \<or> m_device v p old k = (Panic, ?k1)" by (auto simp: m_device_def)
    with hl ok1 show ?thesis by auto
  next
    case True
    then obtain t where t: "k_device k = Some t" and io: "\<exists>j\<in>{..<8}. bit p j" by blast
    obtain r k2 where s: "m_send t SSI_thread NULL ?k1 = (r, k2)" by (cases "m_send t SSI_thread NULL ?k1")
    have f: "k_device k2 = k_device k" using m_send_fields[of t SSI_thread NULL ?k1] s by simp
    have "coupled P (loc, k2)" "I loc (k_phase k2) (k_inbox k2) (k_saved k2)"
      using coupled_send[OF _ s, of P loc] device[OF _ _ _ s, of loc] ok1 t by (simp_all add: holds_def)
    then have ok2: "holds (loc, k2)" using hl f by (simp add: holds_def)
    let ?k3 = "k2\<lparr>k_device := None\<rparr>"
    have ok3: "holds (loc, ?k3)" by (rule holds_upd(2)[OF ok2])
    have run: "m_device v p old k =
       (if r \<noteq> SEND_SUCCESS then (Panic, k2)
        else if \<not> k_idle k2 then (Ldst old, ?k3)
        else if v \<noteq> Some SSI_thread then (Panic, ?k3)
        else dispatch (?k3\<lparr>k_idle := False\<rparr>))"
      using t io s by (simp add: m_device_def)
    have "holds (p_dispatch P (loc, ?k3\<lparr>k_idle := False\<rparr>))"
      using ok3 by (intro dispatch_holds holds_upd(1)) (simp add: holds_upd(4))
    with ok2 ok3 leave_running[OF ok3, of "Ldst old"] show ?thesis unfolding run by (auto simp: p_dispatch_def)
  qed
qed

lemma step_holds:
  assumes hl: "holds x" and en: "p_enabled P e x" and good: "sends_ok ok e (snd x)"
  shows "holds (snd (p_step P e x))"
proof -
  obtain loc k where x: "x = (loc, k)" by (cases x)
  show ?thesis
  proof (cases e)
    case (Syscall old ram now cpu frame)
    then show ?thesis using syscall_holds hl en good x by simp
  next
    case (Interrupt old ram now cpu v p)
    let ?k = "k\<lparr>k_ram := ram\<rparr>"
    have hl': "holds (loc, ?k)" using hl x by (simp add: holds_upd)
    show ?thesis
    proof (cases "slice_end (k_period k) e")
      case True
      then have "snd (p_step P e x) = p_dispatch P (loc,
          (case k_running ?k of None \<Rightarrow> ?k | Some c \<Rightarrow> ?k\<lparr>k_saved := (k_saved ?k)(c := old), k_ready := k_ready ?k @ [c]\<rparr>))"
        using Interrupt x by (simp add: p_step_def p_dispatch_def m_slice_end_def case_prod_beta split: option.split)
      then show ?thesis using slice_holds[OF hl'] by simp
    next
      case False
      then have "snd (p_step P e x) =
          (leave P (fst (m_device v p old ?k)) (k_running (snd (m_device v p old ?k))) loc, snd (m_device v p old ?k))"
        using Interrupt x by (simp add: p_step_def case_prod_beta)
      then show ?thesis using device_holds[OF hl'] by simp
    qed
  qed (use en x in \<open>simp_all add: p_enabled_def\<close>)
qed

lemma run_holds: "holds x \<Longrightarrow> p_allowed P es x \<Longrightarrow> along (sends_ok ok) es (snd x) \<Longrightarrow> holds (p_run P es x)"
  by (rule p_run_invariant[where I = holds and G = "sends_ok ok", OF step_holds])

text \<open>The same for the kernel that runs the program.\<close>

lemma kernel_holds:
  assumes "system_ok s" "holds (loc, abs_machine s)" "p_allowed P es (loc, abs_machine s)" "along (sends_ok ok) es (abs_machine s)"
  shows "\<exists>outs s' loc'. k_run es s = Some (outs, s') \<and> p_run P es (loc, abs_machine s) = (loc', abs_machine s') \<and>
    holds (loc', abs_machine s')"
  using kernel_runs_programs[OF assms(1,3)] run_holds[OF assms(2,3)] assms(4) by (metis prod.collapse snd_conv)

end

end
