(* ===== verification/Lock.thy ===== *)
theory Lock imports Programs begin

text \<open>
  The critical sections of the test program \<open>tests/p2test.c\<close>: a thread, \<open>cs_thread\<close>, grants the section
  to one client at a time; a client asks with \<open>CSIN\<close> and releases with \<open>CSOUT\<close>. The theorem: whatever
  else the clients send and receive, and however slices and devices interleave them, at most one of
  them is in the section, also when sends fail because the pool of messages is exhausted.
\<close>

section \<open>The programs\<close>

text \<open>
  The control points: the three calls of the loop of \<open>cs_thread\<close>, with its variable \<open>sender\<close>; and for a
  client the code outside, the receive in \<open>CSIN\<close> and the section. The result of a send is not used.
\<close>

datatype p2_point = Cs_recv | Cs_send "tid option" | Cs_release "tid option" | Outside | Csin_recv | Inside

definition sender_of :: "val \<Rightarrow> tid option" where
  "sender_of v = (case as_tcb v of Some t \<Rightarrow> t | None \<Rightarrow> None)"

fun cs_thread :: "p2_point \<Rightarrow> call \<Rightarrow> (val \<Rightarrow> p2_point) option" where
  "cs_thread Cs_recv (Recv who a) = (if who = None \<and> a = 0 then Some (\<lambda>v. Cs_send (sender_of v)) else None)"
| "cs_thread (Cs_send sender) (Send d v) = (if sender = Some d \<and> v = NULL then Some (\<lambda>_. Cs_release sender) else None)"
| "cs_thread (Cs_release sender) (Recv who a) =
     (if sender \<noteq> None \<and> who = sender \<and> a = 0 then Some (\<lambda>_. Cs_recv) else None)"
| "cs_thread _ _ = None"

text \<open>
  \<open>CSIN\<close> is a send to \<open>csid\<close> and a receive from it, \<open>CSOUT\<close> a send to it. Outside, a client may call
  anything that is not a send to \<open>csid\<close>; inside it only computes.
\<close>

fun client :: "tid \<Rightarrow> p2_point \<Rightarrow> call \<Rightarrow> (val \<Rightarrow> p2_point) option" where
  "client csid Outside (Send d v) =
     (if d \<noteq> csid then Some (\<lambda>_. Outside) else if v = NULL then Some (\<lambda>_. Csin_recv) else None)"
| "client csid Outside (Recv who a) = Some (\<lambda>_. Outside)"
| "client csid Csin_recv (Recv who a) = (if who = Some csid \<and> a = 0 then Some (\<lambda>_. Inside) else None)"
| "client csid Inside (Send d v) = (if d = csid \<and> v = NULL then Some (\<lambda>_. Outside) else None)"
| "client csid _ _ = None"

definition p2_program :: "tid \<Rightarrow> p2_point program" where
  "p2_program csid t = (if t = csid then cs_thread else client csid)"

section \<open>The state of the lock\<close>

text \<open>
  What the server is doing: it is free, it has chosen a client that it has still to tell, or a client
  holds the section, as far as the server knows. A thread that has been woken counts as returned.
\<close>

datatype zone = Free | Chosen tid | Held tid | Broken

fun zone_of :: "p2_point point \<Rightarrow> phase \<Rightarrow> val \<Rightarrow> zone" where
  "zone_of (At Cs_recv) p v = Free"
| "zone_of (At (Cs_send (Some c))) p v = Chosen c"
| "zone_of (At (Cs_release (Some c))) p v = Held c"
| "zone_of (Calling Cs_recv x) p v = (if p = Awaits None then Free else (case v of Tcb c \<Rightarrow> Chosen c | _ \<Rightarrow> Broken))"
| "zone_of (Calling (Cs_release (Some c)) x) p v = (if p = Awaits (Some c) then Held c else Free)"
| "zone_of _ p v = Broken"

datatype mode = Out | Want | In | Lost

fun mode_of :: "tid \<Rightarrow> p2_point point \<Rightarrow> phase \<Rightarrow> mode" where
  "mode_of z (At Outside) p = Out"
| "mode_of z (At Csin_recv) p = Want"
| "mode_of z (At Inside) p = In"
| "mode_of z (Calling Outside x) p = Out"
| "mode_of z (Calling Csin_recv x) p = (if p = Awaits (Some z) then Want else In)"
| "mode_of z _ p = Lost"

text \<open>How many letters of \<open>c\<close> are pending for \<open>d\<close>.\<close>

definition letters :: "(tid \<Rightarrow> letter list) \<Rightarrow> tid \<Rightarrow> tid \<Rightarrow> nat" where
  "letters ib c d = length (filter (\<lambda>l. fst l = Some c) (ib d))"

text \<open>
  A client with \<open>n\<close> letters to the server and \<open>g\<close> letters from it: one that the server does not deal
  with, and one that has been granted the section. The last may have released it already, and may even
  have asked again: then both letters are pending. If sends are not \<open>reliable\<close>, letters may be missing.
\<close>

definition quiet :: "bool \<Rightarrow> mode \<Rightarrow> nat \<Rightarrow> nat \<Rightarrow> bool" where
  "quiet reliable m n g \<longleftrightarrow> g = 0 \<and> (m = Out \<and> n = 0 \<or> m = Want \<and> (n = 1 \<or> n = 0 \<and> \<not> reliable))"

definition granted :: "bool \<Rightarrow> mode \<Rightarrow> nat \<Rightarrow> nat \<Rightarrow> bool" where
  "granted reliable m n g \<longleftrightarrow>
     m = Want \<and> (n = 0 \<and> g = 1 \<or> n = 2 \<and> g = 0 \<or> n \<le> 1 \<and> g = 0 \<and> \<not> reliable) \<or>
     m = In \<and> n = 0 \<and> g = 0 \<or>
     m = Out \<and> (n = 1 \<or> n = 0 \<and> \<not> reliable) \<and> g = 0"

definition client_ok :: "bool \<Rightarrow> zone \<Rightarrow> tid \<Rightarrow> mode \<Rightarrow> nat \<Rightarrow> nat \<Rightarrow> bool" where
  "client_ok reliable zn c m n g \<longleftrightarrow>
     (case zn of
        Free \<Rightarrow> quiet reliable m n g
      | Chosen d \<Rightarrow> if c = d then m = Want \<and> n = 0 \<and> g = 0 else quiet reliable m n g
      | Held d \<Rightarrow> if c = d then granted reliable m n g else quiet reliable m n g
      | Broken \<Rightarrow> False)"

definition lock_inv :: "bool \<Rightarrow> tid \<Rightarrow> (tid \<Rightarrow> p2_point point) \<Rightarrow> (tid \<Rightarrow> phase) \<Rightarrow> (tid \<Rightarrow> letter list) \<Rightarrow> (tid \<Rightarrow> state_t) \<Rightarrow> bool" where
  "lock_inv reliable z loc ph ib sv \<longleftrightarrow>
     (let zn = zone_of (loc z) (ph z) (a1 (sv z)) in
      zn \<noteq> Broken \<and> zn \<noteq> Chosen z \<and> zn \<noteq> Held z \<and> letters ib z z = 0 \<and>
      (\<forall>c. c \<noteq> z \<longrightarrow> client_ok reliable zn c (mode_of z (loc c) (ph c)) (letters ib c z) (letters ib z c)))"

lemma client_ok_In: "client_ok reliable zn c In n g \<Longrightarrow> zn = Held c"
  by (cases zn) (auto simp: client_ok_def quiet_def split: if_splits)

lemma client_ok_other:
  "client_ok reliable zn c m n g \<Longrightarrow> c \<noteq> u \<Longrightarrow> zn' = zn \<or> {zn, zn'} \<subseteq> {Free, Chosen u, Held u} \<Longrightarrow> client_ok reliable zn' c m n g"
  by (cases "zn' = zn") (simp, auto simp: client_ok_def)

lemma lock_client:
  "lock_inv reliable z loc ph ib sv \<Longrightarrow> c \<noteq> z \<Longrightarrow>
   client_ok reliable (zone_of (loc z) (ph z) (a1 (sv z))) c (mode_of z (loc c) (ph c)) (letters ib c z) (letters ib z c)"
  by (simp add: lock_inv_def Let_def)

text \<open>At most one client is in the section.\<close>

lemma lock_exclusive:
  assumes "lock_inv reliable z loc ph ib sv" "c \<noteq> z" "d \<noteq> z" "mode_of z (loc c) (ph c) = In" "mode_of z (loc d) (ph d) = In"
  shows "c = d"
  using client_ok_In lock_client[OF assms(1,2)] lock_client[OF assms(1,3)] assms(4,5) by (metis zone.inject(2))

section \<open>The invariant is kept\<close>

text \<open>Where the parts of the invariant change.\<close>

lemma lock_inv_frame:
  assumes "lock_inv reliable z loc ph ib sv"
    and "zone_of (loc' z) (ph' z) (a1 (sv' z)) = zone_of (loc z) (ph z) (a1 (sv z))"
    and "letters ib' z z = letters ib z z"
    and "\<And>c. c \<noteq> z \<Longrightarrow> mode_of z (loc' c) (ph' c) = mode_of z (loc c) (ph c) \<and> letters ib' c z = letters ib c z \<and>
      letters ib' z c = letters ib z c"
  shows "lock_inv reliable z loc' ph' ib' sv'"
  using assms by (simp add: lock_inv_def)

lemma lock_inv_change:
  assumes "lock_inv reliable z loc ph ib sv" and "u \<noteq> z"
    and "letters ib' z z = 0"
    and zn: "zone_of (loc z) (ph z) (a1 (sv z)) = zn" "zone_of (loc' z) (ph' z) (a1 (sv' z)) = zn'"
      "zn' \<noteq> Broken" "zn' \<noteq> Chosen z" "zn' \<noteq> Held z" "zn' = zn \<or> {zn, zn'} \<subseteq> {Free, Chosen u, Held u}"
    and "client_ok reliable zn' u (mode_of z (loc' u) (ph' u)) (letters ib' u z) (letters ib' z u)"
    and "\<And>c. c \<noteq> z \<Longrightarrow> c \<noteq> u \<Longrightarrow> mode_of z (loc' c) (ph' c) = mode_of z (loc c) (ph c) \<and> letters ib' c z = letters ib c z \<and>
      letters ib' z c = letters ib z c"
  shows "lock_inv reliable z loc' ph' ib' sv'"
  unfolding lock_inv_def Let_def zn
proof (intro conjI allI impI)
  show "client_ok reliable zn' c (mode_of z (loc' c) (ph' c)) (letters ib' c z) (letters ib' z c)" if "c \<noteq> z" for c
  proof (cases "c = u")
    case False
    have "client_ok reliable zn c (mode_of z (loc c) (ph c)) (letters ib c z) (letters ib z c)"
      using lock_client[OF assms(1) that] zn(1) by simp
    from client_ok_other[OF this False zn(6)] assms(11)[OF that False] show ?thesis by simp
  qed (use assms(10) in simp)
qed (use assms in simp_all)

text \<open>The calls that the programs make.\<close>

lemma p2_send_cases:
  assumes "p2_program z c l (Send d v) = Some f"
  obtains (grant) "c = z" "l = Cs_send (Some d)" "f = (\<lambda>_. Cs_release (Some d))"
  | (other) "c \<noteq> z" "l = Outside" "d \<noteq> z" "f = (\<lambda>_. Outside)"
  | (ask) "c \<noteq> z" "l = Outside" "d = z" "f = (\<lambda>_. Csin_recv)"
  | (release) "c \<noteq> z" "l = Inside" "d = z" "f = (\<lambda>_. Outside)"
  using assms by (cases l) (auto simp: p2_program_def split: if_splits)

lemma p2_recv_cases:
  assumes "p2_program z c l (Recv who a) = Some f"
  obtains (serve) "c = z" "l = Cs_recv" "who = None" "f = (\<lambda>v. Cs_send (sender_of v))"
  | (released) u where "c = z" "l = Cs_release (Some u)" "who = Some u" "f = (\<lambda>_. Cs_recv)"
  | (other) "c \<noteq> z" "l = Outside" "f = (\<lambda>_. Outside)"
  | (enter) "c \<noteq> z" "l = Csin_recv" "who = Some z" "f = (\<lambda>_. Inside)"
  using assms by (cases l) (auto simp: p2_program_def split: if_splits)

lemma sender_of_tcb [simp]: "sender_of (of_tcb t) = t" "sender_of (Tcb u) = Some u"
  by (simp_all add: sender_of_def)

lemma letters_append [simp]:
  "letters (ib(d := ib d @ [(Some u, v)])) c e = letters ib c e + (if c = u \<and> e = d then 1 else 0)"
  by (auto simp: letters_def)

lemma letters_fetch:
  assumes "find (wanted (Some who)) (ib d) = Some (w, v)"
  shows "letters ib c e = letters (ib(d := remove_first (wanted (Some who)) (ib d))) c e + (if w = Some c \<and> e = d then 1 else 0)"
  using filter_fetch[OF assms, of c] by (auto simp: letters_def)

lemma no_letters:
  assumes "waits_rightly k" "k_phase k d = Awaits who" "who = None \<or> who = Some c"
  shows "letters (k_inbox k) c d = 0"
proof -
  have "\<forall>l \<in> set (k_inbox k d). \<not> wanted (Some who) l" using assms(1,2) by (simp add: waits_rightly_def)
  then show ?thesis using assms(3) by (auto simp: letters_def wanted_def filter_empty_conv)
qed

text \<open>A return from a call, the end of a slice and a receive that blocks change no zone and no mode.\<close>

lemma lock_return:
  assumes inv: "lock_inv reliable z loc ph ib sv" and l: "loc t = Calling l (Recv who a)" "p2_program z t l (Recv who a) = Some f"
    and ph: "\<And>w. ph t \<noteq> Awaits w" and c: "a1 (sv t) = Tcb c"
  shows "lock_inv reliable z (loc(t := At (f (Tcb c)))) ph ib sv"
  using l(2) by (cases rule: p2_recv_cases) (use l ph c in \<open>auto intro!: lock_inv_frame[OF inv]\<close>)

lemma lock_preempt: "lock_inv reliable z loc ph ib sv \<Longrightarrow> loc c = At l \<Longrightarrow> lock_inv reliable z loc ph ib (sv(c := old))"
proof (rule lock_inv_frame)
  show "zone_of (loc z) (ph z) (a1 ((sv(c := old)) z)) = zone_of (loc z) (ph z) (a1 (sv z))" if "loc c = At l"
    using that by (cases "(loc z, ph z, a1 (sv z))" rule: zone_of.cases) auto
qed simp_all

lemma lock_block:
  assumes inv: "lock_inv reliable z loc ph ib sv" and l: "loc c = At l" "p2_program z c l (Recv who a) \<noteq> None"
  shows "lock_inv reliable z (loc(c := Calling l (Recv who a))) (ph(c := Awaits who)) ib (sv(c := old))"
proof -
  obtain f where "p2_program z c l (Recv who a) = Some f" using l(2) by blast
  then show ?thesis by (cases rule: p2_recv_cases) (use l in \<open>auto intro!: lock_inv_frame[OF inv]\<close>)
qed

lemma client_ok_Out: "client_ok reliable zn c Out n g \<Longrightarrow> g = 0 \<and> zn \<noteq> Chosen c \<and> (zn \<noteq> Held c \<longrightarrow> n = 0)"
  by (cases zn) (auto simp: client_ok_def quiet_def granted_def split: if_splits)

lemma client_ok_Want: "client_ok reliable zn c Want n g \<Longrightarrow> 0 < g \<Longrightarrow> zn = Held c \<and> n = 0 \<and> g = 1"
  by (cases zn) (auto simp: client_ok_def quiet_def granted_def split: if_splits)

text \<open>A receive that finds a letter.\<close>

lemma lock_fetch:
  assumes inv: "lock_inv reliable z loc ph ib sv" and l: "loc c = At l" "p2_program z c l (Recv who a) = Some f"
    and y: "find (wanted (Some who)) (ib c) = Some (w, v)" and w: "w \<noteq> None"
  shows "lock_inv reliable z (loc(c := At (f (of_tcb w)))) ph (ib(c := remove_first (wanted (Some who)) (ib c))) sv"
proof -
  let ?ib = "ib(c := remove_first (wanted (Some who)) (ib c))"
  have n: "letters ib x e = letters ?ib x e + (if w = Some x \<and> e = c then 1 else 0)" for x e
    using y by (rule letters_fetch)
  note ok = lock_client[OF inv]
  have zz: "letters ?ib z z = 0" using n[of z z] inv by (simp add: lock_inv_def Let_def)
  have z0: "letters ib z z = 0" using inv by (simp add: lock_inv_def Let_def)
  from l(2) show ?thesis
  proof (cases rule: p2_recv_cases)
    case serve
    obtain u where u: "w = Some u" using w by blast
    then have uz: "u \<noteq> z" using n[of z z] z0 serve by auto
    have zn: "zone_of (loc z) (ph z) (a1 (sv z)) = Free" using serve l by simp
    have q: "quiet reliable (mode_of z (loc u) (ph u)) (letters ib u z) (letters ib z u)" using ok[OF uz] zn by (simp add: client_ok_def)
    have "letters ib u z = letters ?ib u z + 1" "letters ?ib z u = letters ib z u" using n u uz serve by simp_all
    with q have "client_ok reliable (Chosen u) u (mode_of z (loc u) (ph u)) (letters ?ib u z) (letters ?ib z u)"
      by (auto simp: client_ok_def quiet_def)
    then show ?thesis
      using serve u uz zn zz n by (intro lock_inv_change[OF inv uz _ zn, of _ _ _ _ "Chosen u"]) auto
  next
    case (released u)
    have w: "w = Some u" using find_SomeD[OF y] released by (auto simp: wanted_def)
    have zn: "zone_of (loc z) (ph z) (a1 (sv z)) = Held u" using released l by simp
    have uz: "u \<noteq> z" using inv zn by (auto simp: lock_inv_def Let_def)
    have q: "granted reliable (mode_of z (loc u) (ph u)) (letters ib u z) (letters ib z u)" using ok[OF uz] zn by (simp add: client_ok_def)
    have "letters ib u z = letters ?ib u z + 1" "letters ?ib z u = letters ib z u" using n w uz released by simp_all
    with q have "client_ok reliable Free u (mode_of z (loc u) (ph u)) (letters ?ib u z) (letters ?ib z u)"
      by (auto simp: client_ok_def quiet_def granted_def)
    then show ?thesis
      using released w uz zn zz n by (intro lock_inv_change[OF inv uz _ zn, of _ _ _ _ Free]) auto
  next
    case other
    have "letters ib z c = 0" using client_ok_Out[of reliable _ c] ok[OF other(1)] l other by fastforce
    then have "w \<noteq> Some z" using n[of z c] by auto
    then show ?thesis using other l n by (intro lock_inv_frame[OF inv]) auto
  next
    case enter
    have w: "w = Some z" using find_SomeD[OF y] enter by (auto simp: wanted_def)
    have g: "letters ib z c = letters ?ib z c + 1" "letters ?ib c z = letters ib c z" using n w enter by simp_all
    have m: "mode_of z (loc c) (ph c) = Want" using l enter by simp
    have h: "zone_of (loc z) (ph z) (a1 (sv z)) = Held c" "letters ib c z = 0" "letters ib z c = 1"
      using client_ok_Want[OF ok[OF enter(1), unfolded m]] g by simp_all
    then have "client_ok reliable (Held c) c In (letters ?ib c z) (letters ?ib z c)" using g by (simp add: client_ok_def granted_def)
    then show ?thesis
      using enter h(1) zz n by (intro lock_inv_change[OF inv enter(1) _ h(1), of _ _ _ _ "Held c"]) auto
  qed
qed

text \<open>A letter that the lock does not see: neither from the server nor to it.\<close>

lemma lock_letter:
  assumes co: "coupled (p2_program z) (loc, k)" and inv: "lock_inv reliable z loc (k_phase k) (k_inbox k) (k_saved k)"
    and uz: "u \<noteq> z" "d \<noteq> z" and run: "m_send d u v k = (r, k')"
  shows "lock_inv reliable z loc (k_phase k') (k_inbox k') (k_saved k')"
proof (rule m_send_cases[of d u v k])
  assume "m_send d u v k = (SEND_FAILURE, k)"
  with inv run show ?thesis by simp
next
  fix who assume w: "m_send d u v k = (SEND_SUCCESS, wake d (Some u) v k)" "k_phase k d = Awaits who" "who = None \<or> who = Some u"
  obtain l a where l: "loc d = Calling l (Recv who a)" using coupled_awaits[OF co w(2)] by blast
  then obtain f where "p2_program z d l (Recv who a) = Some f" using coupled_calling[OF co l] by blast
  then have "l = Outside" using uz w(3) by (cases rule: p2_recv_cases) auto
  with l w(1) run uz show ?thesis by (intro lock_inv_frame[OF inv]) (auto simp: wake_def)
next
  assume "m_send d u v k = (SEND_SUCCESS, k\<lparr>k_inbox := (k_inbox k)(d := k_inbox k d @ [(Some u, v)]), k_room := k_room k - 1\<rparr>)"
  then have "k' = k\<lparr>k_inbox := (k_inbox k)(d := k_inbox k d @ [(Some u, v)]), k_room := k_room k - 1\<rparr>" using run by simp
  with uz show ?thesis by (intro lock_inv_frame[OF inv]) auto
qed

text \<open>The grant: the server tells the chosen client.\<close>

lemma lock_grant:
  assumes co: "coupled (p2_program z) (loc, k)" and inv: "lock_inv reliable z loc (k_phase k) (k_inbox k) (k_saved k)"
    and l: "loc z = At (Cs_send (Some d))" and run: "m_send d z v k = (r, k')" and good: "reliable \<Longrightarrow> r = SEND_SUCCESS"
  shows "lock_inv reliable z (loc(z := At (Cs_release (Some d)))) (k_phase k') (k_inbox k') (k_saved k')"
proof -
  have zn: "zone_of (loc z) (k_phase k z) (a1 (k_saved k z)) = Chosen d" using l by simp
  then have dz: "d \<noteq> z" using inv by (auto simp: lock_inv_def Let_def)
  have zz: "letters (k_inbox k) z z = 0" using inv by (simp add: lock_inv_def Let_def)
  have c: "mode_of z (loc d) (k_phase k d) = Want" "letters (k_inbox k) d z = 0" "letters (k_inbox k) z d = 0"
    using lock_client[OF inv dz] zn by (simp_all add: client_ok_def)
  show ?thesis
  proof (rule m_send_cases[of d z v k])
    assume "m_send d z v k = (SEND_FAILURE, k)"
    then have "k' = k" "\<not> reliable" using run good by auto
    with c dz zz show ?thesis
      by (intro lock_inv_change[OF inv dz _ zn, of _ _ _ _ "Held d"]) (auto simp: client_ok_def granted_def)
  next
    fix who assume w: "m_send d z v k = (SEND_SUCCESS, wake d (Some z) v k)" "k_phase k d = Awaits who"
    have k': "k' = wake d (Some z) v k" using w(1) run by simp
    obtain l' a where "loc d = Calling l' (Recv who a)" using coupled_awaits[OF co w(2)] by blast
    with c(1) have "l' = Csin_recv" by (cases l') (auto split: if_splits)
    with \<open>loc d = Calling l' (Recv who a)\<close> c dz zz show ?thesis unfolding k'
      by (intro lock_inv_change[OF inv dz _ zn, of _ _ _ _ "Held d"]) (auto simp: client_ok_def granted_def wake_def)
  next
    assume "m_send d z v k = (SEND_SUCCESS, k\<lparr>k_inbox := (k_inbox k)(d := k_inbox k d @ [(Some z, v)]), k_room := k_room k - 1\<rparr>)"
    then have "k' = k\<lparr>k_inbox := (k_inbox k)(d := k_inbox k d @ [(Some z, v)]), k_room := k_room k - 1\<rparr>" using run by simp
    with c dz zz show ?thesis
      by (intro lock_inv_change[OF inv dz _ zn, of _ _ _ _ "Held d"]) (auto simp: client_ok_def granted_def)
  qed
qed

text \<open>A letter of a client to the server, to ask or to release.\<close>

lemma client_ok_next:
  assumes "client_ok reliable zn c m n g" "(m, m') \<in> {(Out, Want), (In, Out)}"
  shows "\<not> reliable \<Longrightarrow> client_ok reliable zn c m' n g" "client_ok reliable zn c m' (Suc n) g" "zn = Free \<Longrightarrow> client_ok reliable (Chosen c) c m' 0 g"
    "zn = Held c \<Longrightarrow> n = 0 \<Longrightarrow> client_ok reliable Free c m' 0 g"
  using assms by (cases zn; auto simp: client_ok_def quiet_def granted_def split: if_splits)+

lemma lock_request:
  assumes co: "coupled (p2_program z) (loc, k)" and inv: "lock_inv reliable z loc (k_phase k) (k_inbox k) (k_saved k)"
    and cz: "c \<noteq> z" and l: "loc c = At l" "(mode_of z (At l) (k_phase k c), m') \<in> {(Out, Want), (In, Out)}"
      "\<And>p. mode_of z (At l') p = m'" and run: "m_send z c v k = (r, k')"
    and good: "reliable \<Longrightarrow> r = SEND_SUCCESS"
  shows "lock_inv reliable z (loc(c := At l')) (k_phase k') (k_inbox k') (k_saved k')"
proof -
  let ?zn = "zone_of (loc z) (k_phase k z) (a1 (k_saved k z))"
  have zz: "letters (k_inbox k) z z = 0" and znz: "?zn \<noteq> Broken" "?zn \<noteq> Chosen z" "?zn \<noteq> Held z"
    using inv by (simp_all add: lock_inv_def Let_def)
  have ok: "client_ok reliable ?zn c (mode_of z (At l) (k_phase k c)) (letters (k_inbox k) c z) (letters (k_inbox k) z c)"
    using lock_client[OF inv cz] l(1) by simp
  note nxt = client_ok_next[OF ok l(2)]
  show ?thesis
  proof (rule m_send_cases[of z c v k])
    assume "m_send z c v k = (SEND_FAILURE, k)"
    then have "k' = k" "\<not> reliable" using run good by auto
    with nxt(1) cz zz znz l(3) show ?thesis
      by (intro lock_inv_change[OF inv cz _ refl, of _ _ _ _ ?zn]) auto
  next
    fix who assume w: "m_send z c v k = (SEND_SUCCESS, wake z (Some c) v k)" "k_phase k z = Awaits who" "who = None \<or> who = Some c"
    have k': "k' = wake z (Some c) v k" using w(1) run by simp
    have n: "letters (k_inbox k) c z = 0" by (rule no_letters[OF coupled_waits[OF co] w(2,3)])
    obtain l'' a where l'': "loc z = Calling l'' (Recv who a)" using coupled_awaits[OF co w(2)] by blast
    then obtain f where "p2_program z z l'' (Recv who a) = Some f" using coupled_calling[OF co l''] by blast
    then show ?thesis
    proof (cases rule: p2_recv_cases)
      case serve
      then have zn: "?zn = Free" using l'' w(2) by simp
      show ?thesis unfolding k'
        by (intro lock_inv_change[OF inv cz _ zn, of _ _ _ _ "Chosen c"])
          (use nxt(3)[OF zn] serve l'' cz zz l(3) n in \<open>auto simp: wake_def\<close>)
    next
      case (released u)
      then have zn: "?zn = Held c" using l'' w(2,3) by simp
      show ?thesis unfolding k'
        by (intro lock_inv_change[OF inv cz _ zn, of _ _ _ _ Free])
          (use nxt(4)[OF zn n] released w(3) l'' cz zz l(3) n in \<open>auto simp: wake_def\<close>)
    qed simp_all
  next
    assume "m_send z c v k = (SEND_SUCCESS, k\<lparr>k_inbox := (k_inbox k)(z := k_inbox k z @ [(Some c, v)]), k_room := k_room k - 1\<rparr>)"
    then have "k' = k\<lparr>k_inbox := (k_inbox k)(z := k_inbox k z @ [(Some c, v)]), k_room := k_room k - 1\<rparr>" using run by simp
    with nxt(2) cz zz znz l(3) show ?thesis
      by (intro lock_inv_change[OF inv cz _ refl, of _ _ _ _ ?zn]) auto
  qed
qed

lemma lock_send:
  assumes co: "coupled (p2_program z) (loc, k)" and inv: "lock_inv reliable z loc (k_phase k) (k_inbox k) (k_saved k)"
    and l: "loc c = At l" "p2_program z c l (Send d v) = Some f" and run: "m_send d c v k = (r, k')"
    and good: "reliable \<Longrightarrow> r = SEND_SUCCESS"
  shows "lock_inv reliable z (loc(c := At (f (U r)))) (k_phase k') (k_inbox k') (k_saved k')"
  using l(2)
proof (cases rule: p2_send_cases)
  case grant
  then show ?thesis using lock_grant[OF co inv _ run[unfolded grant(1)] good] l(1) by simp
next
  case other
  have "lock_inv reliable z loc (k_phase k') (k_inbox k') (k_saved k')" by (rule lock_letter[OF co inv other(1,3) run])
  then show ?thesis by (rule lock_inv_frame) (use other l in auto)
next
  case ask
  with lock_request[OF co inv ask(1) l(1) _ _ run[unfolded ask(3)] good, of Want] show ?thesis by simp
next
  case release
  with lock_request[OF co inv release(1) l(1) _ _ run[unfolded release(3)] good, of Out] show ?thesis by simp
qed

interpretation lock: protocol "p2_program (Thread i)" "\<lambda>d. d \<noteq> Thread i" "\<lambda>r. reliable \<longrightarrow> r = SEND_SUCCESS"
  "lock_inv reliable (Thread i)" for i reliable
proof unfold_locales
  fix loc k c l d v f r k'
  assume "coupled (p2_program (Thread i)) (loc, k)" "lock_inv reliable (Thread i) loc (k_phase k) (k_inbox k) (k_saved k)" "loc c = At l"
    "p2_program (Thread i) c l (Send d v) = Some f" "m_send d c v k = (r, k')" "reliable \<longrightarrow> r = SEND_SUCCESS"
  then show "lock_inv reliable (Thread i) (loc(c := At (f (U r)))) (k_phase k') (k_inbox k') (k_saved k')"
    by (intro lock_send) simp_all
next
  fix loc k d r k'
  assume c: "coupled (p2_program (Thread i)) (loc, k)" and i: "lock_inv reliable (Thread i) loc (k_phase k) (k_inbox k) (k_saved k)"
    and d: "d \<noteq> Thread i" and run: "m_send d SSI_thread NULL k = (r, k')"
  have u: "SSI_thread \<noteq> Thread i" by simp
  show "lock_inv reliable (Thread i) loc (k_phase k') (k_inbox k') (k_saved k')" by (rule lock_letter[OF c i u d run])
next
  fix loc k c l who a f w v
  assume c: "coupled (p2_program (Thread i)) (loc, k)" and i: "lock_inv reliable (Thread i) loc (k_phase k) (k_inbox k) (k_saved k)"
    and l: "loc c = At l" "p2_program (Thread i) c l (Recv who a) = Some f" "find (wanted (Some who)) (k_inbox k c) = Some (w, v)"
  have "w \<noteq> None" using coupled_senders[OF c, of "(w, v)" c] find_SomeD[OF l(3)] by simp
  with i l show "lock_inv reliable (Thread i) (loc(c := At (f (of_tcb w)))) (k_phase k)
      ((k_inbox k)(c := remove_first (wanted (Some who)) (k_inbox k c))) (k_saved k)"
    by (intro lock_fetch[where loc = loc and l = l and f = f])
next
  fix loc k c l who a old
  assume "lock_inv reliable (Thread i) loc (k_phase k) (k_inbox k) (k_saved k)" "loc c = At l" "p2_program (Thread i) c l (Recv who a) \<noteq> None"
  then show "lock_inv reliable (Thread i) (loc(c := Calling l (Recv who a))) ((k_phase k)(c := Awaits who)) (k_inbox k) ((k_saved k)(c := old))"
    by (rule lock_block)
next
  fix loc k t l who a f c
  assume "lock_inv reliable (Thread i) loc (k_phase k) (k_inbox k) (k_saved k)" "loc t = Calling l (Recv who a)"
    "p2_program (Thread i) t l (Recv who a) = Some f" "\<And>w. k_phase k t \<noteq> Awaits w" "a1 (k_saved k t) = Tcb c"
  then show "lock_inv reliable (Thread i) (loc(t := At (f (Tcb c)))) (k_phase k) (k_inbox k) (k_saved k)"
    by (rule lock_return[where loc = loc and l = l and f = f])
next
  fix loc ph ib sv c l old
  assume "lock_inv reliable (Thread i) loc ph ib sv" "loc c = At l"
  then show "lock_inv reliable (Thread i) loc ph ib (sv(c := old))" by (rule lock_preempt)
qed

section \<open>The kernel runs the programs\<close>

text \<open>
  The start: the server is about to receive for the first time, the clients are outside, in a receive if
  they wait, and no letter from or to the server is pending.
\<close>

definition lock_start :: "tid \<Rightarrow> (tid \<Rightarrow> p2_point point) \<Rightarrow> machine \<Rightarrow> bool" where
  "lock_start z loc k \<longleftrightarrow>
     loc z = At Cs_recv \<and> (\<forall>who. k_phase k z \<noteq> Awaits who) \<and> k_device k \<noteq> Some z \<and>
     (\<forall>t. t \<noteq> z \<longrightarrow> (case k_phase k t of Awaits who \<Rightarrow> \<exists>a. loc t = Calling Outside (Recv who a) | _ \<Rightarrow> loc t = At Outside)) \<and>
     (\<forall>t. letters (k_inbox k) t z = 0 \<and> letters (k_inbox k) z t = 0)"

definition in_section :: "tid \<Rightarrow> (tid \<Rightarrow> p2_point point) \<Rightarrow> machine \<Rightarrow> tid \<Rightarrow> bool" where
  "in_section z loc k c \<longleftrightarrow> c \<noteq> z \<and> mode_of z (loc c) (k_phase k c) = In"

lemma lock_start_holds:
  assumes ok: "system_ok s" and st: "lock_start (Thread i) loc (abs_machine s)"
  shows "lock.holds i reliable (loc, abs_machine s)"
proof -
  let ?k = "abs_machine s"
  have out: "mode_of (Thread i) (loc t) (k_phase ?k t) = Out" if "t \<noteq> Thread i" for t
  proof -
    have "case k_phase ?k t of Awaits who \<Rightarrow> \<exists>a. loc t = Calling Outside (Recv who a) | _ \<Rightarrow> loc t = At Outside"
      using st that by (auto simp: lock_start_def)
    then show ?thesis by (cases "k_phase ?k t") auto
  qed
  have "coupled (p2_program (Thread i)) (loc, ?k)"
  proof (rule coupled_start[OF ok])
    fix t
    show "case k_phase ?k t of Awaits who \<Rightarrow> \<exists>l a. loc t = Calling l (Recv who a) \<and> p2_program (Thread i) t l (Recv who a) \<noteq> None
      | _ \<Rightarrow> \<exists>l. loc t = At l"
    proof (cases "t = Thread i")
      case True
      with st show ?thesis by (auto simp: lock_start_def split: phase.split)
    next
      case False
      then have "case k_phase ?k t of Awaits who \<Rightarrow> \<exists>a. loc t = Calling Outside (Recv who a) | _ \<Rightarrow> loc t = At Outside"
        using st by (auto simp: lock_start_def)
      with False show ?thesis by (cases "k_phase ?k t") (auto simp: p2_program_def)
    qed
  qed
  moreover have "lock_inv reliable (Thread i) loc (k_phase ?k) (k_inbox ?k) (k_saved ?k)"
    using st out by (simp add: lock_inv_def lock_start_def client_ok_def quiet_def)
  moreover have "k_device ?k \<noteq> Some (Thread i)" using st by (simp add: lock_start_def)
  ultimately show ?thesis by (auto simp: lock.holds_def)
qed

lemma kernel_lock_holds:
  assumes ok: "system_ok s" and st: "lock_start (Thread i) loc (abs_machine s)"
    and en: "p_allowed (p2_program (Thread i)) es (loc, abs_machine s)"
    and good: "reliable \<Longrightarrow> along (sends_ok (\<lambda>r. r = SEND_SUCCESS)) es (abs_machine s)"
  shows "\<exists>outs s' loc'. k_run es s = Some (outs, s') \<and> p_run (p2_program (Thread i)) es (loc, abs_machine s) = (loc', abs_machine s') \<and>
    coupled (p2_program (Thread i)) (loc', abs_machine s') \<and>
    lock_inv reliable (Thread i) loc' (k_phase (abs_machine s')) (k_inbox (abs_machine s')) (k_saved (abs_machine s'))"
proof -
  have "along (sends_ok (\<lambda>r. reliable \<longrightarrow> r = SEND_SUCCESS)) es (abs_machine s)" using good by (cases reliable) simp_all
  from lock.kernel_holds[OF ok lock_start_holds[OF ok st] en this] show ?thesis by (fastforce simp: lock.holds_def)
qed

lemma kernel_lock:
  assumes ok: "system_ok s" and st: "lock_start (Thread i) loc (abs_machine s)"
    and en: "p_allowed (p2_program (Thread i)) es (loc, abs_machine s)"
  shows "\<exists>outs s' loc'. k_run es s = Some (outs, s') \<and> p_run (p2_program (Thread i)) es (loc, abs_machine s) = (loc', abs_machine s') \<and>
    (\<forall>c d. in_section (Thread i) loc' (abs_machine s') c \<and> in_section (Thread i) loc' (abs_machine s') d \<longrightarrow> c = d)"
proof -
  obtain outs s' loc' where run: "k_run es s = Some (outs, s')" "p_run (p2_program (Thread i)) es (loc, abs_machine s) = (loc', abs_machine s')"
    "lock_inv False (Thread i) loc' (k_phase (abs_machine s')) (k_inbox (abs_machine s')) (k_saved (abs_machine s'))"
    using kernel_lock_holds[OF ok st en, of False] by blast
  with lock_exclusive[OF run(3)] show ?thesis by (auto simp: in_section_def)
qed

section \<open>Nobody waits in vain\<close>

text \<open>
  Who can move the lock on: the server, and the client that holds the section and has not released it. When no send has failed and
  a client waits in \<open>CSIN\<close>, one of them does not wait.
\<close>

definition waits_to_enter :: "tid \<Rightarrow> (tid \<Rightarrow> p2_point point) \<Rightarrow> machine \<Rightarrow> tid \<Rightarrow> bool" where
  "waits_to_enter z loc k c \<longleftrightarrow> c \<noteq> z \<and> (\<exists>x. loc c = Calling Csin_recv x) \<and> k_phase k c = Awaits (Some z)"

definition in_charge :: "tid \<Rightarrow> (tid \<Rightarrow> p2_point point) \<Rightarrow> machine \<Rightarrow> tid \<Rightarrow> bool" where
  "in_charge z loc k u \<longleftrightarrow>
     u = z \<or> zone_of (loc z) (k_phase k z) (a1 (k_saved k z)) = Held u \<and> mode_of z (loc u) (k_phase k u) \<noteq> Out"

lemma lock_goes_on:
  assumes co: "coupled (p2_program z) (loc, k)" and inv: "lock_inv True z loc (k_phase k) (k_inbox k) (k_saved k)"
    and c: "waits_to_enter z loc k c"
  shows "\<exists>u. in_charge z loc k u \<and> u \<noteq> c \<and> (\<forall>who. k_phase k u \<noteq> Awaits who)"
proof (cases "\<exists>who. k_phase k z = Awaits who")
  case False
  with c show ?thesis by (auto simp: in_charge_def waits_to_enter_def)
next
  case True
  let ?zn = "zone_of (loc z) (k_phase k z) (a1 (k_saved k z))"
  have cz: "c \<noteq> z" and m: "mode_of z (loc c) (k_phase k c) = Want" using c by (auto simp: waits_to_enter_def)
  have ok: "client_ok True ?zn d (mode_of z (loc d) (k_phase k d)) (letters (k_inbox k) d z) (letters (k_inbox k) z d)"
    if "d \<noteq> z" for d using lock_client[OF inv that] .
  have g: "letters (k_inbox k) z d = 0" if "k_phase k d = Awaits (Some z)" for d
    by (rule no_letters[OF coupled_waits[OF co] that]) simp
  obtain who where who: "k_phase k z = Awaits who" using True by blast
  obtain l a where l: "loc z = Calling l (Recv who a)" using coupled_awaits[OF co who] by blast
  then obtain f where "p2_program z z l (Recv who a) = Some f" using coupled_calling[OF co l] by blast
  then show ?thesis
  proof (cases rule: p2_recv_cases)
    case serve
    then have "?zn = Free" using l who by simp
    moreover have "letters (k_inbox k) c z = 0" using no_letters[OF coupled_waits[OF co] who, of c] serve by simp
    ultimately have False using ok[OF cz] m by (simp add: client_ok_def quiet_def)
    then show ?thesis ..
  next
    case (released u)
    then have zn: "?zn = Held u" using l who by simp
    have uz: "u \<noteq> z" using inv zn by (auto simp: lock_inv_def Let_def)
    have n: "letters (k_inbox k) u z = 0" using no_letters[OF coupled_waits[OF co] who, of u] released by simp
    have gr: "granted True (mode_of z (loc u) (k_phase k u)) (letters (k_inbox k) u z) (letters (k_inbox k) z u)"
      using ok[OF uz] zn by (simp add: client_ok_def)
    have w: "k_phase k u \<noteq> Awaits w" for w
    proof
      assume u: "k_phase k u = Awaits w"
      obtain l' a' where l': "loc u = Calling l' (Recv w a')" using coupled_awaits[OF co u] by blast
      then obtain f' where "p2_program z u l' (Recv w a') = Some f'" using coupled_calling[OF co l'] by blast
      then show False
      proof (cases rule: p2_recv_cases)
        case enter
        with gr n g[of u] u l' show False by (simp add: granted_def)
      qed (use uz gr n l' in \<open>simp_all add: granted_def\<close>)
    qed
    moreover have "u \<noteq> c" using w[of "Some z"] c by (auto simp: waits_to_enter_def)
    moreover have "mode_of z (loc u) (k_phase k u) \<noteq> Out" using gr n by (auto simp: granted_def)
    ultimately show ?thesis using zn by (auto simp: in_charge_def)
  qed (use cz in simp_all)
qed

end
