(* ===== verification/Requests.thy ===== *)
theory Requests imports Ssi begin

text \<open>
  A request from end to end: the stub of \<open>nucleus.h\<close> sends it, the client blocks, the SSI takes it,
  serves it and replies, and the client goes on with the reply in its variable. The handlers of
  \<open>Syscall\<close> and the loop of \<open>Ssi\<close> are composed in the order in which they run.
\<close>

section \<open>Definitions\<close>

text \<open>The SSI waits at \<open>msg_at\<close> for anybody; the client runs and nobody else is ready.\<close>

definition serving :: "u32 \<Rightarrow> tid \<Rightarrow> queues \<Rightarrow> kstate \<Rightarrow> bool" where
  "serving msg_at client Q s \<longleftrightarrow>
     sys_ok Q s \<and> current_thread s = Some client \<and> client \<noteq> SSI_thread \<and> Q Readyq = [] \<and>
     t_status (threads s SSI_thread) = T_STATUS_W4MSG \<and> t_wait4sender (threads s SSI_thread) = None \<and>
     a3 (t_s (threads s SSI_thread)) = U msg_at \<and>
     find (wanted (Some (Some SSI_thread))) (mailbox Q s client) = None"

text \<open>What the client learns from the requests that only ask; \<open>ms\<close> is what is left of its slice.\<close>

fun answer :: "request \<Rightarrow> tid \<Rightarrow> u32 \<Rightarrow> kstate \<Rightarrow> val option" where
  "answer Geterrno c ms s = Some (U (word_of_int (errno (threads s c))))"
| "answer Getcputime c ms s = Some (U (run_time (threads s c) + ms))"
| "answer (Get_processid (Tcb t)) c ms s = Some (of_pcb (t_pcb (threads s t)))"
| "answer (Get_parentprocid (Pcb p)) c ms s = Some (of_pcb (p_parent (procs s p)))"
| "answer _ c ms s = None"

text \<open>The three steps in the order of the exceptions, up to the return to the client.\<close>

definition request_reply ::
  "request \<Rightarrow> u32 \<Rightarrow> u32 \<Rightarrow> u32 \<Rightarrow> state_t \<Rightarrow> state_t \<Rightarrow> u32 \<Rightarrow> state_t \<Rightarrow> kstate \<Rightarrow> (outcome \<times> kstate) option" where
  "request_reply r req_at retval_at msg_at cpu hcpu hframe scpu s = do {
     (_, s) \<leftarrow> stub_send r req_at cpu hcpu hframe s;
     (out, s) \<leftarrow> stub_recv r retval_at cpu hcpu hframe s;
     (case out of
        Ldst st \<Rightarrow> do {
          applicant \<leftarrow> as_tcb (a1 st);
          applicant \<leftarrow> applicant;
          ssi_turn scpu msg_at applicant s }
      | _ \<Rightarrow> Some (out, s))
   }"

section \<open>Giving up the processor\<close>

text \<open>A receive that finds nothing hands the processor to the head of the ready queue.\<close>

lemma recv_switches:
  assumes ok: "sys_ok Q s" and c: "current_thread s = Some c" and e: "\<And>u. sender = Some u \<Longrightarrow> valid_tid u"
    and a: "a3 (SYSBK_OLDAREA s) = U a" and f: "find (wanted (Some sender)) (mailbox Q s c) = None"
    and r: "Q Readyq = T_sched t # ns"
  shows "t \<noteq> c \<and> (\<exists>s'. recv cpu sender p s = Some (Ldst (t_s (threads s t)), s') \<and>
    sys_ok (Q(wait_queue sender := Q (wait_queue sender) @ [T_sched c], Readyq := ns)) s' \<and>
    current_thread s' = Some t \<and> mem s' = mem s \<and> procs s' = procs s \<and> SSI s' = SSI s \<and> msgs s' = msgs s \<and>
    threads s' = (threads s)(c := blocked (SYSBK_OLDAREA s) sender (TIMER s) (threads s c)))"
proof -
  have nl: "\<not> linked_at Q c Readyq" using sys_ok_running[OF ok c] by blast
  then have t: "t \<noteq> c" using r by (auto simp: linked_at_def)
  obtain l where l: "recv cpu sender p s = scheduler (before_switch l c sender s)"
    "sys_ok (Q(wait_queue sender := Q (wait_queue sender) @ [T_sched c])) ((before_switch l c sender s)\<lparr>current_thread := None\<rparr>)"
    using recv_blocks[OF ok c e a f, of cpu p] by auto
  have busy: "\<not> is_idle (before_switch l c sender s)" using sys_ok_busy[OF ok c] by simp
  have r': "(Q(wait_queue sender := Q (wait_queue sender) @ [T_sched c])) Readyq = T_sched t # ns"
    using r by (cases sender) simp_all
  from scheduler_dispatch[OF l(2) busy r'] obtain l' where l':
    "scheduler (before_switch l c sender s) = Some (Ldst (t_s (threads (before_switch l c sender s) t)),
      (before_switch l c sender s)\<lparr>lk := l', current_thread := Some t, TIMER := clockPerTimeslice (before_switch l c sender s)\<rparr>)"
    "sys_ok (Q(wait_queue sender := Q (wait_queue sender) @ [T_sched c], Readyq := ns))
      ((before_switch l c sender s)\<lparr>lk := l', current_thread := Some t, TIMER := clockPerTimeslice (before_switch l c sender s)\<rparr>)"
    by blast
  show ?thesis unfolding l(1) l'(1)
    using t l'(2) by (intro conjI exI[of _ "(before_switch l c sender s)\<lparr>lk := l', current_thread := Some t,
      TIMER := clockPerTimeslice (before_switch l c sender s)\<rparr>"]) simp_all
qed

section \<open>The steps\<close>

lemma servingD:
  assumes "serving msg_at c Q s"
  shows "sys_ok Q s" "current_thread s = Some c" "c \<noteq> SSI_thread" "Q Readyq = []"
    "a3 (t_s (threads s SSI_thread)) = U msg_at"
    "find (wanted (Some (Some SSI_thread))) (mailbox Q s c) = None" "SSI s = Some SSI_thread" "valid_tid c"
    "wakes (threads s SSI_thread) c" "mailbox Q s SSI_thread = []"
proof -
  show ok: "sys_ok Q s" and cur: "current_thread s = Some c" and "c \<noteq> SSI_thread" "Q Readyq = []"
    "a3 (t_s (threads s SSI_thread)) = U msg_at"
    "find (wanted (Some (Some SSI_thread))) (mailbox Q s c) = None" "wakes (threads s SSI_thread) c"
    using assms by (simp_all add: serving_def wakes_def)
  show "SSI s = Some SSI_thread" using sys_ok_SSI[OF ok] .
  show "valid_tid c" using sys_ok_running[OF ok cur] by simp
  have "l \<notin> set (mailbox Q s SSI_thread)" for l
    using mail_inv_waiting[OF sys_ok_mail[OF ok], of SSI_thread l] assms by (auto simp: serving_def)
  then show "mailbox Q s SSI_thread = []" by (cases "mailbox Q s SSI_thread") auto
qed

lemma stub_send_wakes_ssi:
  assumes sv: "serving msg_at c Q s" and cpu: "handler_mode cpu"
  shows "\<exists>s'. stub_send r req_at cpu hcpu hframe s = Some (Ret, s') \<and>
    sys_ok (Q(Blockedq := remove1 (T_sched SSI_thread) (Q Blockedq), Readyq := [T_sched SSI_thread])) s' \<and>
    current_thread s' = Some c \<and> TIMER s' = TIMER s \<and> procs s' = procs s \<and> msgs s' = msgs s \<and>
    mem s' = put_word msg_at (U req_at) (write_words req_at (encode r) (mem s)) \<and>
    threads s' = (threads s)(SSI_thread := woken (threads s SSI_thread) (Some c))"
proof -
  note D = servingD[OF sv]
  let ?s0 = "enter_syscall cpu SYS_SEND (Tcb SSI_thread) (U req_at) (s\<lparr>mem := write_words req_at (encode r) (mem s)\<rparr>)"
  have ok: "sys_ok Q ?s0" using D(1) by simp
  have d: "t_wait4sender (threads s SSI_thread) = None" using sv by (simp add: serving_def)
  obtain l where l: "send (Some SSI_thread) (Some c) (U req_at) ?s0 =
      Some (SEND_SUCCESS, ?s0\<lparr>lk := l, mem := put_word msg_at (U req_at) (mem ?s0),
        threads := (threads ?s0)(SSI_thread := woken (threads ?s0 SSI_thread) (Some c))\<rparr>)"
    "sys_ok (after_resume Q ?s0 SSI_thread) (?s0\<lparr>lk := l, mem := put_word msg_at (U req_at) (mem ?s0),
        threads := (threads ?s0)(SSI_thread := woken (threads ?s0 SSI_thread) (Some c))\<rparr>)"
    using send_woken[OF ok _ , of SSI_thread c msg_at "U req_at"] D by auto
  have km: "IS_KERNEL_MODE ?s0 = Some True" by (rule enter_syscall_kernel_mode[OF cpu])
  have regs: "a1 (SYSBK_OLDAREA ?s0) = U SYS_SEND" "a2 (SYSBK_OLDAREA ?s0) = Tcb SSI_thread"
     "a3 (SYSBK_OLDAREA ?s0) = U req_at" by (simp_all add: enter_syscall_def)
  let ?s1 = "?s0\<lparr>lk := l, mem := put_word msg_at (U req_at) (mem ?s0),
        threads := (threads ?s0)(SSI_thread := woken (threads ?s0 SSI_thread) (Some c))\<rparr>"
  have "stub_send r req_at cpu hcpu hframe s = send_kernel hcpu hframe (Some SSI_thread) (U req_at) ?s0"
    using D(7) regs by (simp add: stub_send_def syscall_h_def sys_defs)
  also have "\<dots> = Some (Ret, store_return_value (U SEND_SUCCESS) ?s1)"
    using l(1) D(2) by (simp add: send_kernel_def km)
  finally have run: "stub_send r req_at cpu hcpu hframe s = Some (Ret, store_return_value (U SEND_SUCCESS) ?s1)" .
  have Q: "after_resume Q ?s0 SSI_thread = Q(Blockedq := remove1 (T_sched SSI_thread) (Q Blockedq), Readyq := [T_sched SSI_thread])"
    using D(4) d by simp
  have t: "TIMER ?s0 = TIMER s" by (simp add: enter_syscall_def)
  show ?thesis unfolding run
    using l(2)[unfolded Q] D(2) t
    by (intro exI[of _ "store_return_value (U SEND_SUCCESS) ?s1"]) (simp add: store_return_value_def)
qed

lemma stub_recv_switches:
  assumes ok: "sys_ok Q s" and cpu: "handler_mode cpu" and c: "current_thread s = Some c"
    and f: "find (wanted (Some (Some SSI_thread))) (mailbox Q s c) = None" and r: "Q Readyq = T_sched t # ns"
    and w: "wants_reply r"
  shows "t \<noteq> c \<and> (\<exists>s'. stub_recv r retval_at cpu hcpu hframe s = Some (Ldst (t_s (threads s t)), s') \<and>
    sys_ok (Q(T_wait4me SSI_thread := Q (T_wait4me SSI_thread) @ [T_sched c], Readyq := ns)) s' \<and>
    current_thread s' = Some t \<and> mem s' = mem s \<and> procs s' = procs s \<and> SSI s' = SSI s \<and> msgs s' = msgs s \<and>
    threads s' = (threads s)(c := blocked (cpu\<lparr>a1 := U SYS_RECV, a2 := Tcb SSI_thread, a3 := U retval_at, a4 := U 0\<rparr>)
      (Some SSI_thread) (TIMER s) (threads s c)))"
proof -
  let ?s0 = "enter_syscall cpu SYS_RECV (Tcb SSI_thread) (U retval_at) s"
  have old: "SYSBK_OLDAREA ?s0 = cpu\<lparr>a1 := U SYS_RECV, a2 := Tcb SSI_thread, a3 := U retval_at, a4 := U 0\<rparr>"
    "TIMER ?s0 = TIMER s" by (simp_all add: enter_syscall_def)
  have mb: "mailbox Q ?s0 = mailbox Q s" by (rule mailbox_frame) simp_all
  have km: "IS_KERNEL_MODE ?s0 = Some True" by (rule enter_syscall_kernel_mode[OF cpu])
  have run: "stub_recv r retval_at cpu hcpu hframe s = recv hcpu (Some SSI_thread) (U retval_at) ?s0"
    using sys_ok_SSI[OF ok] w by (simp add: stub_recv_def syscall_h_def sys_defs recv_kernel_def km[unfolded sys_defs] old[unfolded sys_defs])
  have ok0: "sys_ok Q ?s0" using ok by simp
  have c0: "current_thread ?s0 = Some c" using c by simp
  have f0: "find (wanted (Some (Some SSI_thread))) (mailbox Q ?s0 c) = None" using f mb by simp
  have a0: "a3 (SYSBK_OLDAREA ?s0) = U retval_at" by simp
  from recv_switches[OF ok0 c0 _ a0 f0 r, of hcpu "U retval_at"] show ?thesis
    unfolding run by (auto simp: old)
qed

text \<open>The SSI replies to the client that waits for it, and blocks again.\<close>

lemma ssi_replies_and_switches:
  assumes ok: "sys_ok Q s" and cpu: "handler_mode cpu" and c: "current_thread s = Some SSI_thread"
    and w: "valid_tid t" "t_status (threads s t) = T_STATUS_W4MSG" "t_wait4sender (threads s t) = Some SSI_thread"
      "a3 (t_s (threads s t)) = U retval_at"
    and r: "Q Readyq = []" and mb: "mailbox Q s SSI_thread = []"
    and h: "ssi_handle cpu t (mem s msg_at) s = ssi_reply cpu t v s"
  shows "\<exists>s' Q'. ssi_turn cpu msg_at t s = Some (Ldst ((t_s (threads s t))\<lparr>a1 := Tcb SSI_thread\<rparr>), s') \<and>
    serving msg_at t Q' s' \<and> mem s' = put_word retval_at v (mem s) \<and> procs s' = procs s \<and>
    threads s' t = woken (threads s t) (Some SSI_thread)"
proof -
  have t: "t \<noteq> SSI_thread" using sys_ok_running[OF ok c] w(2) by auto
  let ?s0 = "enter_syscall cpu SYS_SEND (Tcb t) v s"
  have ok0: "sys_ok Q ?s0" using ok by simp
  have wk: "wakes (threads ?s0 t) SSI_thread" "a3 (t_s (threads ?s0 t)) = U retval_at" using w by (simp_all add: wakes_def)
  define Q1 where "Q1 = Q(T_wait4me SSI_thread := remove1 (T_sched t) (Q (T_wait4me SSI_thread)), Readyq := [T_sched t])"
  have Q1: "after_resume Q ?s0 t = Q1" using w(3) r by (simp add: Q1_def)
  obtain l where l: "send (Some t) (Some SSI_thread) v ?s0 = Some (SEND_SUCCESS, ?s0\<lparr>lk := l, mem := put_word retval_at v (mem ?s0),
        threads := (threads ?s0)(t := woken (threads ?s0 t) (Some SSI_thread))\<rparr>)"
    "sys_ok Q1 (?s0\<lparr>lk := l, mem := put_word retval_at v (mem ?s0),
        threads := (threads ?s0)(t := woken (threads ?s0 t) (Some SSI_thread))\<rparr>)"
    using send_woken[OF ok0 w(1) wk, of v] unfolding Q1 by blast
  define s1 where "s1 = store_return_value (U SEND_SUCCESS) (?s0\<lparr>lk := l, mem := put_word retval_at v (mem ?s0),
        threads := (threads ?s0)(t := woken (threads ?s0 t) (Some SSI_thread))\<rparr>)"
  have reply: "ssi_reply cpu t v s = Some (None, s1)"
    using l(1) c by (simp add: ssi_reply_def msgsend_k_def enter_syscall_kernel_mode[OF cpu] s1_def)
  have t1: "threads s1 = (threads s)(t := woken (threads s t) (Some SSI_thread))" by (simp add: s1_def)
  let ?s2 = "enter_syscall cpu SYS_RECV NULL (U msg_at) s1"
  have ok2: "sys_ok Q1 ?s2" using l(2) by (simp add: s1_def)
  have f2: "current_thread ?s2 = Some SSI_thread" "a3 (SYSBK_OLDAREA ?s2) = U msg_at"
    "threads ?s2 = (threads s)(t := woken (threads s t) (Some SSI_thread))" "mem ?s2 = put_word retval_at v (mem s)"
    "procs ?s2 = procs s" "msgs ?s2 = msgs s"
    using c by (simp_all add: s1_def)
  have mb2: "mailbox Q1 ?s2 = mailbox Q s" by (rule mailbox_frame) (simp_all add: Q1_def s1_def)
  have none: "find (wanted (Some None)) (mailbox Q1 ?s2 SSI_thread) = None" using mb mb2 by simp
  have r1: "Q1 Readyq = T_sched t # []" by (simp add: Q1_def)
  obtain s' where s': "recv cpu None (U msg_at) ?s2 = Some (Ldst (t_s (threads ?s2 t)), s')"
    "sys_ok (Q1(Blockedq := Q1 Blockedq @ [T_sched SSI_thread], Readyq := [])) s'"
    "current_thread s' = Some t" "mem s' = mem ?s2" "procs s' = procs ?s2" "msgs s' = msgs ?s2"
    "threads s' = (threads ?s2)(SSI_thread := blocked (SYSBK_OLDAREA ?s2) None (TIMER ?s2) (threads ?s2 SSI_thread))"
    using recv_switches[OF ok2 f2(1) _ f2(2) none r1, of cpu "U msg_at"] by auto
  let ?Q' = "Q1(Blockedq := Q1 Blockedq @ [T_sched SSI_thread], Readyq := [])"
  have mb': "mailbox ?Q' s' = mailbox Q s" by (rule mailbox_frame) (simp_all add: Q1_def s'(6) s1_def)
  have nf: "find (wanted (Some (Some SSI_thread))) (mailbox Q s t) = None"
    using mail_inv_waiting[OF sys_ok_mail[OF ok] w(1,2)] w(3) by (auto simp: find_None_iff)
  have turn: "ssi_turn cpu msg_at t s = Some (Ldst ((t_s (threads s t))\<lparr>a1 := Tcb SSI_thread\<rparr>), s')"
    using s'(1) by (simp add: ssi_turn_def h reply msgrecv_k_def enter_syscall_kernel_mode[OF cpu] t1)
  have "serving msg_at t ?Q' s'"
    using s'(2,3) t f2(2) nf mb' by (simp add: serving_def s'(7))
  with turn s'(4,5,7) f2 t show ?thesis by (intro exI[of _ s'] exI[of _ ?Q']) simp
qed

section \<open>The client gets the answer\<close>

lemma answer_wants_reply: "answer r c ms s = Some v \<Longrightarrow> wants_reply r \<and> r \<noteq> Get_mythreadid"
  by (cases "(r, c, ms, s)" rule: answer.cases) auto

lemma answer_served:
  assumes "answer r c (TIMER s) s = Some v" "procs s' = procs s"
    and "\<And>t. t_pcb (threads s' t) = t_pcb (threads s t)" "errno (threads s' c) = errno (threads s c)"
    and "run_time (threads s' c) = run_time (threads s c) + TIMER s"
  shows "serve cpu c r s' = ssi_reply cpu c v s'"
  using assms by (cases "(r, c, TIMER s, s)" rule: answer.cases) auto

lemma request_is_answered_lemma:
  assumes sv: "serving msg_at c Q s" and cpu: "handler_mode cpu" "handler_mode scpu"
    and v: "answer r c (TIMER s) s = Some v"
    and a: "req_at \<noteq> 0" "msg_at \<noteq> 0" "\<And>i. i < length (encode r) \<Longrightarrow> req_at + 4 * of_nat i \<noteq> msg_at"
  shows "\<exists>s' Q'. request_reply r req_at retval_at msg_at cpu hcpu hframe scpu s =
      Some (Ldst (cpu\<lparr>a1 := Tcb SSI_thread, a2 := Tcb SSI_thread, a3 := U retval_at, a4 := U 0\<rparr>), s') \<and>
    serving msg_at c Q' s' \<and> procs s' = procs s \<and>
    mem s' = put_word retval_at v ((write_words req_at (encode r) (mem s))(msg_at := U req_at))"
proof -
  note D = servingD[OF sv]
  have w: "wants_reply r" "r \<noteq> Get_mythreadid" using answer_wants_reply[OF v] by simp_all
  define Q1 where "Q1 = Q(Blockedq := remove1 (T_sched SSI_thread) (Q Blockedq), Readyq := [T_sched SSI_thread])"
  obtain s1 where s1: "stub_send r req_at cpu hcpu hframe s = Some (Ret, s1)" "sys_ok Q1 s1"
    "current_thread s1 = Some c" "TIMER s1 = TIMER s" "procs s1 = procs s" "msgs s1 = msgs s"
    "mem s1 = (write_words req_at (encode r) (mem s))(msg_at := U req_at)"
    "threads s1 = (threads s)(SSI_thread := woken (threads s SSI_thread) (Some c))"
    using stub_send_wakes_ssi[OF sv cpu(1), of r req_at hcpu hframe] a(2) by (auto simp: Q1_def put_word_def)
  have mb1: "mailbox Q1 s1 = mailbox Q s" by (rule mailbox_frame) (simp_all add: Q1_def s1(6))
  have f1: "find (wanted (Some (Some SSI_thread))) (mailbox Q1 s1 c) = None" using D(6) mb1 by simp
  have r1: "Q1 Readyq = T_sched SSI_thread # []" by (simp add: Q1_def)
  let ?old = "cpu\<lparr>a1 := U SYS_RECV, a2 := Tcb SSI_thread, a3 := U retval_at, a4 := U 0\<rparr>"
  define Q2 where "Q2 = Q1(T_wait4me SSI_thread := Q1 (T_wait4me SSI_thread) @ [T_sched c], Readyq := [])"
  obtain s2 where s2: "stub_recv r retval_at cpu hcpu hframe s1 = Some (Ldst (t_s (threads s1 SSI_thread)), s2)"
    "sys_ok Q2 s2" "current_thread s2 = Some SSI_thread" "mem s2 = mem s1" "procs s2 = procs s" "msgs s2 = msgs s"
    "threads s2 = (threads s1)(c := blocked ?old (Some SSI_thread) (TIMER s) (threads s1 c))"
    using stub_recv_switches[OF s1(2) cpu(1) s1(3) f1 r1 w(1), of retval_at hcpu hframe] s1(4,5,6) by (auto simp: Q2_def)
  have mb2: "mailbox Q2 s2 = mailbox Q s" by (rule mailbox_frame) (simp_all add: Q1_def Q2_def s2(6))
  have "request_at req_at r s2"
    using a write_words_encode[of _ r req_at "mem s"] by (simp add: request_at_def s2(4) s1(7))
  from ssi_handle_encode[OF this w(2)]
  have "ssi_handle scpu c (mem s2 msg_at) s2 = serve scpu c r s2" by (simp add: s2(4) s1(7))
  also have "\<dots> = ssi_reply scpu c v s2"
    by (rule answer_served[OF v s2(5)]) (use D(3) in \<open>simp_all add: s2(7) s1(8) blocked_def woken_def\<close>)
  finally have h: "ssi_handle scpu c (mem s2 msg_at) s2 = ssi_reply scpu c v s2" .
  have x: "threads s2 c = blocked ?old (Some SSI_thread) (TIMER s) (threads s c)" using D(3) by (simp add: s2(7) s1(8))
  have r2: "Q2 Readyq = []" by (simp add: Q2_def)
  have m2: "mailbox Q2 s2 SSI_thread = []" using D(10) mb2 by simp
  obtain s' Q' where s': "ssi_turn scpu msg_at c s2 = Some (Ldst (?old\<lparr>a1 := Tcb SSI_thread\<rparr>), s')"
    "serving msg_at c Q' s'" "mem s' = put_word retval_at v (mem s2)" "procs s' = procs s2"
    using ssi_replies_and_switches[OF s2(2) cpu(2) s2(3) D(8), of retval_at msg_at v] x r2 m2 h by auto
  have "a1 (t_s (threads s1 SSI_thread)) = Tcb c" by (simp add: s1(8))
  then have "request_reply r req_at retval_at msg_at cpu hcpu hframe scpu s = Some (Ldst (?old\<lparr>a1 := Tcb SSI_thread\<rparr>), s')"
    using s1(1) s2(1) s'(1) by (simp add: request_reply_def)
  with s'(2-4) s2(4,5) s1(7) show ?thesis by auto
qed

end
