(* ===== verification/Examples.thy ===== *)
theory Examples imports System Requests begin

text \<open>
  Concrete runs of the model, from zeroed memory: the state in which the SSI runs for the first time,
  the one in which it waits for requests and the test thread runs, and one with a pending message.
\<close>

definition demo_mem :: memory where
  "demo_mem = (\<lambda>_. NULL)(BUS_REG_RAM_BASE := U 0x8000, BUS_REG_RAM_SIZE := U 0x100000, BUS_REG_TIME_SCALE := U 1)"

definition demo_start :: kstate where
  "demo_start = snd (the (main zero_state (bss demo_mem)))"

definition kernel_cpu :: state_t where
  "kernel_cpu = zero_state\<lparr>cpsr := U STATUS_SYS_MODE\<rparr>"

text \<open>The SSI asks for a message of anybody.\<close>

definition wait_anybody :: event where
  "wait_anybody = Syscall (zero_state\<lparr>a1 := U SYS_RECV, a3 := U 0x9000, pc := U 0x8000, cpsr := U STATUS_SYS_MODE\<rparr>)
     demo_mem 5000 kernel_cpu 0x7000"

definition demo_client :: kstate where
  "demo_client = snd (the (exec wait_anybody demo_start))"

text \<open>The test thread sends a letter to the SSI, which is ready and not waiting.\<close>

definition demo_mail :: kstate where
  "demo_mail = snd (the (send (Some SSI_thread) (Some (Thread 0)) (U 7) demo_start))"

lemma demo_mem_ok: "bus_ok demo_mem" "ram_top demo_mem = Some 0x108000"
  by (simp_all add: demo_mem_def bus_ok_def ram_top_def BUS_REG_RAM_BASE_def BUS_REG_RAM_SIZE_def BUS_REG_TIME_SCALE_def)

lemma demo_start_facts:
  "main zero_state (bss demo_mem) = Some (Ldst (loaded_state zero_state fn_ssi (0x108000 - FRAME_SIZE)), demo_start)"
  "sys_ok started_queues demo_start" "current_thread demo_start = Some SSI_thread"
  "count_error demo_start = 0" "threads demo_start = first_threads zero_state 0x108000" "mem demo_start = demo_mem"
  "SYSBK_OLDAREA demo_start = zero_state" "procs demo_start = (\<lambda>_. free_pcb)" "soft_blocked_thread demo_start = (\<lambda>_. None)"
  "map_option (\<lambda>scale. scale * 5000) (as_u32 (demo_mem BUS_REG_TIME_SCALE)) = Some (clockPerTimeslice demo_start)"
  using main_correct[OF demo_mem_ok(1), of zero_state] unfolding demo_mem_ok(2) demo_start_def by auto

lemmas demo_start_ok = demo_start_facts(2)
lemmas demo_start_kernel = sys_ok_kernel[OF demo_start_ok]

lemma started_queues_simps [simp]:
  "started_queues Readyq = [T_sched (Thread 0)]" "started_queues Blockedq = []" "started_queues T_wait4clock = []"
  "started_queues (T_msgq t) = []" "started_queues (T_wait4me t) = []" "started_queues (P_children p) = []"
  "started_queues (P_threads p) = (if p = 0 then [T_next (Thread 0)] else [])"
  "started_queues Thread_h = T_next (Thread 1) # map (\<lambda>i. T_next (Thread i)) [2..<MAXTHREAD]"
  "started_queues (P_siblings 0) = P_siblings 1 # map P_siblings [2..<MAXPROC]"
  "started_queues Message_h = M_next 39 # rev (map M_next [0..<39])"
proof -
  have "[0..<40] = [0..<39] @ [39]" by (simp add: upt_rec)
  then show "started_queues Message_h = M_next 39 # rev (map M_next [0..<39])"
    by (simp add: started_queues_def first_queues_def MAXMSG_def)
qed (simp_all add: started_queues_def first_queues_def MAXTHREAD_def MAXPROC_def upt_conv_Cons numeral_2_eq_2)

lemma demo_start_reachable: "reachable demo_start"
  using reachable.boot[OF demo_mem_ok(1) demo_start_facts(1)] .

text \<open>The SSI blocks, and the test thread runs.\<close>

definition client_queues :: queues where
  "client_queues = started_queues(Blockedq := [T_sched SSI_thread], Readyq := [])"

lemma demo_client_facts:
  "\<exists>st. exec wait_anybody demo_start = Some (Ldst st, demo_client)" "sys_ok client_queues demo_client"
  "current_thread demo_client = Some (Thread 0)"
  "threads demo_client (Thread 0) = test_tcb\<lparr>t_s := loaded_state zero_state fn_test (0x108000 - 2 * FRAME_SIZE)\<rparr>"
  "t_status (threads demo_client SSI_thread) = T_STATUS_W4MSG" "t_wait4sender (threads demo_client SSI_thread) = None"
  "a3 (t_s (threads demo_client SSI_thread)) = U 0x9000" "thread_count demo_client = thread_count demo_start"
proof -
  let ?old = "zero_state\<lparr>a1 := U SYS_RECV, a3 := U 0x9000, pc := U 0x8000, cpsr := U STATUS_SYS_MODE\<rparr>"
  let ?s = "demo_start\<lparr>mem := demo_mem, TIMER := 5000, SYSBK_OLDAREA := ?old\<rparr>"
  have ok: "sys_ok started_queues ?s" using demo_start_ok by simp
  have c: "current_thread ?s = Some SSI_thread" using demo_start_facts(3) by simp
  have km: "IS_KERNEL_MODE ?s = Some True"
    by (simp add: IS_KERNEL_MODE_def STATUS_SYS_MODE_def)
  have a2: "a2 zero_state = U 0" by (simp add: zero_state_def load_state_def)
  have a: "a3 (SYSBK_OLDAREA ?s) = U 0x9000" by simp
  have none: "find (wanted (Some None)) (mailbox started_queues ?s SSI_thread) = None"
    by (simp add: mailbox_def)
  have e: "exec wait_anybody demo_start = recv kernel_cpu None (U 0x9000) ?s"
    by (simp add: exec_def wait_anybody_def syscall_h_def recv_kernel_def km[unfolded SYS_RECV_def] a2 SYS_ERR_def SYS_SEND_def SYS_RECV_def Let_def)
  obtain l where l: "recv kernel_cpu None (U 0x9000) ?s = scheduler (before_switch l SSI_thread None ?s)"
    "sys_ok (started_queues(Blockedq := [T_sched SSI_thread])) ((before_switch l SSI_thread None ?s)\<lparr>current_thread := None\<rparr>)"
    using recv_blocks[OF ok c _ a none, of kernel_cpu "U 0x9000"] by auto
  have busy: "\<not> is_idle (before_switch l SSI_thread None ?s)" using sys_ok_busy[OF ok c] by simp
  have R: "(started_queues(Blockedq := [T_sched SSI_thread])) Readyq = T_sched (Thread 0) # []" by simp
  obtain l' where l': "scheduler (before_switch l SSI_thread None ?s) =
      Some (Ldst (t_s (threads (before_switch l SSI_thread None ?s) (Thread 0))),
        (before_switch l SSI_thread None ?s)\<lparr>lk := l', current_thread := Some (Thread 0),
          TIMER := clockPerTimeslice (before_switch l SSI_thread None ?s)\<rparr>)"
    "sys_ok ((started_queues(Blockedq := [T_sched SSI_thread]))(Readyq := []))
      ((before_switch l SSI_thread None ?s)\<lparr>lk := l', current_thread := Some (Thread 0),
          TIMER := clockPerTimeslice (before_switch l SSI_thread None ?s)\<rparr>)"
    using scheduler_dispatch[OF l(2) busy R] by blast
  have d: "demo_client = (before_switch l SSI_thread None ?s)\<lparr>lk := l', current_thread := Some (Thread 0),
          TIMER := clockPerTimeslice (before_switch l SSI_thread None ?s)\<rparr>"
    using e l(1) l'(1) by (simp add: demo_client_def)
  show "\<exists>st. exec wait_anybody demo_start = Some (Ldst st, demo_client)" using e l(1) l'(1) d by simp
  show "sys_ok client_queues demo_client" using l'(2) unfolding d client_queues_def .
  show "current_thread demo_client = Some (Thread 0)" unfolding d by simp
  show "threads demo_client (Thread 0) = test_tcb\<lparr>t_s := loaded_state zero_state fn_test (0x108000 - 2 * FRAME_SIZE)\<rparr>"
    "t_status (threads demo_client SSI_thread) = T_STATUS_W4MSG" "t_wait4sender (threads demo_client SSI_thread) = None"
    "a3 (t_s (threads demo_client SSI_thread)) = U 0x9000" "thread_count demo_client = thread_count demo_start"
    unfolding d using demo_start_facts(5) by (simp_all add: blocked_def before_switch_def)
qed

lemmas demo_client_ok = demo_client_facts(2)
lemmas demo_client_kernel = sys_ok_kernel[OF demo_client_ok]

lemma client_queues_simps [simp]:
  "client_queues Readyq = []" "client_queues Blockedq = [T_sched SSI_thread]" "client_queues T_wait4clock = []"
  "client_queues (T_msgq t) = []" "client_queues (T_wait4me t) = []"
  by (simp_all add: client_queues_def)

lemma wait_anybody_enabled: "enabled wait_anybody demo_start"
  using demo_start_facts(3)
  by (auto simp: wait_anybody_def handler_mode_def kernel_cpu_def syscall_args_ok_def IS_KERNEL_MODE_def zero_state_def
      load_state_def STATUS_SYS_MODE_def SYS_SEND_def SYS_RECV_def Let_def)

lemma demo_client_reachable: "reachable demo_client"
proof -
  obtain st where "exec wait_anybody demo_start = Some (Ldst st, demo_client)" using demo_client_facts(1) by blast
  from reachable.step[OF demo_start_reachable step.exception[OF wait_anybody_enabled this]] show ?thesis by simp
qed

text \<open>A pending message.\<close>

definition mail_queues :: queues where
  "mail_queues = started_queues(Message_h := rev (map M_next [0..<39]), T_msgq SSI_thread := [M_next 39])"

lemma demo_mail_facts:
  "send (Some SSI_thread) (Some (Thread 0)) (U 7) demo_start = Some (SEND_SUCCESS, demo_mail)"
  "sys_ok mail_queues demo_mail" "current_thread demo_mail = Some SSI_thread"
  "mailbox mail_queues demo_mail SSI_thread = [(Some (Thread 0), U 7)]" "threads demo_mail = threads demo_start"
proof -
  have q: "queues_letter (threads demo_start SSI_thread) (Thread 0)"
    by (simp add: queues_letter_def demo_start_facts(5) ssi_tcb_def)
  have v: "valid_tid (Thread 0)" "valid_tid SSI_thread" by (simp_all add: MAXTHREAD_def)
  obtain l where l: "send (Some SSI_thread) (Some (Thread 0)) (U 7) demo_start =
      Some (SEND_SUCCESS, demo_start\<lparr>lk := l, msgs := (msgs demo_start)(39 := \<lparr>m_sender = Some (Thread 0), m_value = U 7\<rparr>)\<rparr>)"
    "sys_ok (started_queues(Message_h := rev (map M_next [0..<39]), T_msgq SSI_thread := started_queues (T_msgq SSI_thread) @ [M_next 39]))
      (demo_start\<lparr>lk := l, msgs := (msgs demo_start)(39 := \<lparr>m_sender = Some (Thread 0), m_value = U 7\<rparr>)\<rparr>)"
    using send_queued[OF demo_start_ok v q, of 39 "rev (map M_next [0..<39])" "U 7"] by auto
  have d: "demo_mail = demo_start\<lparr>lk := l, msgs := (msgs demo_start)(39 := \<lparr>m_sender = Some (Thread 0), m_value = U 7\<rparr>)\<rparr>"
    using l(1) by (simp add: demo_mail_def)
  show "send (Some SSI_thread) (Some (Thread 0)) (U 7) demo_start = Some (SEND_SUCCESS, demo_mail)" using l(1) d by simp
  show "sys_ok mail_queues demo_mail" using l(2) unfolding d mail_queues_def by simp
  show "current_thread demo_mail = Some SSI_thread" "threads demo_mail = threads demo_start"
    unfolding d using demo_start_facts(3) by simp_all
  show "mailbox mail_queues demo_mail SSI_thread = [(Some (Thread 0), U 7)]"
    unfolding d by (simp add: mailbox_def mail_queues_def letter_of_def)
qed

lemmas demo_mail_ok = demo_mail_facts(2)

section \<open>The idle kernel\<close>

text \<open>The test thread blocks too, while a device is awaited: nobody is left to run.\<close>

definition awaiting_device :: kstate where
  "awaiting_device = demo_client\<lparr>soft_block_count := 1, SYSBK_OLDAREA := zero_state\<rparr>"

definition demo_idle :: kstate where
  "demo_idle = snd (the (recv kernel_cpu None (U 0x9000) awaiting_device))"

definition idle_queues :: queues where
  "idle_queues = client_queues(Blockedq := [T_sched SSI_thread, T_sched (Thread 0)])"

lemma zero_state_regs [simp]: "a1 zero_state = U 0" "a2 zero_state = U 0" "a3 zero_state = U 0" "pc zero_state = U 0"
  by (simp_all add: zero_state_def load_state_def)

lemma demo_client_live: "thread_count demo_client = 2"
  using demo_start_facts(4) demo_client_facts(8) first_live[OF demo_start_facts(5)] by (simp add: count_error_def)

lemma demo_idle_facts:
  "recv kernel_cpu None (U 0x9000) awaiting_device = Some (Wait, demo_idle)" "sys_ok idle_queues demo_idle"
  "current_thread demo_idle = None" "is_idle demo_idle" "thread_count demo_idle = 2"
  "t_status (threads demo_idle SSI_thread) = T_STATUS_W4MSG" "t_wait4sender (threads demo_idle SSI_thread) = None"
proof -
  have ok: "sys_ok client_queues awaiting_device" using demo_client_ok by (simp add: awaiting_device_def)
  have c: "current_thread awaiting_device = Some (Thread 0)" using demo_client_facts(3) by (simp add: awaiting_device_def)
  have a: "a3 (SYSBK_OLDAREA awaiting_device) = U 0" by (simp add: awaiting_device_def)
  have none: "find (wanted (Some None)) (mailbox client_queues awaiting_device (Thread 0)) = None"
    by (simp add: mailbox_def)
  obtain l where l: "recv kernel_cpu None (U 0x9000) awaiting_device = scheduler (before_switch l (Thread 0) None awaiting_device)"
    "sys_ok idle_queues ((before_switch l (Thread 0) None awaiting_device)\<lparr>current_thread := None\<rparr>)"
    using recv_blocks[OF ok c _ a none, of kernel_cpu "U 0x9000"] by (auto simp: idle_queues_def)
  let ?s = "before_switch l (Thread 0) None awaiting_device"
  have busy: "\<not> is_idle awaiting_device" using sys_ok_busy[OF ok c] .
  have k: "kernel_ok idle_queues ?s" using sys_ok_kernel[OF l(2)] by simp
  have e: "idle_queues Readyq = []" by (simp add: idle_queues_def)
  have f: "thread_count ?s = 2" "soft_block_count ?s = 1" "\<not> is_idle ?s"
    using demo_client_live busy by (simp_all add: before_switch_def awaiting_device_def)
  let ?t = "?s\<lparr>current_thread := None, is_idle := True, TIMER := clockPerTimeslice ?s, STATUS := STATUS_ALL_INT_ENABLE (STATUS ?s)\<rparr>"
  have run: "scheduler ?s = Some (Wait, ?t)"
    using scheduler_empty[OF k e] f by (simp add: empty_readyq_h_def)
  have d: "demo_idle = ?t" using l(1) run by (simp add: demo_idle_def)
  show "recv kernel_cpu None (U 0x9000) awaiting_device = Some (Wait, demo_idle)" using l(1) run d by simp
  show "sys_ok idle_queues demo_idle" using l(2) unfolding d by (simp add: sys_ok_idle_none)
  show "current_thread demo_idle = None" "is_idle demo_idle" "thread_count demo_idle = 2"
    unfolding d using f(1) by simp_all
  show "t_status (threads demo_idle SSI_thread) = T_STATUS_W4MSG" "t_wait4sender (threads demo_idle SSI_thread) = None"
    unfolding d using demo_client_facts by (simp_all add: awaiting_device_def)
qed

section \<open>A thread that was allocated and never scheduled\<close>

lemma shape_outside:
  assumes "shape l H Q" "unlinked_node n H Q"
  shows "shape (l\<lparr>lnext := (lnext l)(n := x), lprev := (lprev l)(n := y)\<rparr>) H Q"
proof -
  have "ring (l\<lparr>lnext := (lnext l)(n := x), lprev := (lprev l)(n := y)\<rparr>) h (Q h)" if "h \<in> H" for h
    by (rule ring_frame[OF shape_ring[OF assms(1) that]]) (use assms(2) that in \<open>auto simp: unlinked_node_def\<close>)
  with assms(1) show ?thesis unfolding shape_def by blast
qed

definition fresh_queues :: queues where
  "fresh_queues = started_queues(Thread_h := map (\<lambda>i. T_next (Thread i)) [2..<MAXTHREAD],
     P_threads 0 := [T_next (Thread 0), T_next (Thread 1)])"

text \<open>The links of the second thread are still zero, as the loader left them.\<close>

lemma demo_fresh:
  "\<exists>s. kernel_ok fresh_queues s \<and> t_pcb (threads s (Thread 1)) = Some 0 \<and>
    lnext (lk s) (T_sched (Thread 1)) = None \<and> lprev (lk s) (T_sched (Thread 1)) = None"
proof -
  have alive: "proc_alive demo_start 0" by (simp add: proc_alive_def)
  have free: "started_queues Thread_h = T_next (Thread 1) # map (\<lambda>i. T_next (Thread i)) [2..<MAXTHREAD]" by simp
  obtain t l where t: "T_next (Thread 1) = T_next t"
    "kernel_ok (started_queues(Thread_h := map (\<lambda>i. T_next (Thread i)) [2..<MAXTHREAD],
        P_threads 0 := started_queues (P_threads 0) @ [T_next (Thread 1)]))
      (demo_start\<lparr>lk := l, threads := (threads demo_start)(t := (threads demo_start t)\<lparr>t_pcb := Some 0, t_status := T_STATUS_READY\<rparr>)\<rparr>)"
    using thread_alloc_correct[OF demo_start_kernel alive free] by blast
  define s where "s = demo_start\<lparr>lk := l, threads := (threads demo_start)(t := (threads demo_start t)\<lparr>t_pcb := Some 0, t_status := T_STATUS_READY\<rparr>)\<rparr>"
  have "t = Thread 1" using t(1) by simp
  then have s: "t_pcb (threads s (Thread 1)) = Some 0" by (simp add: s_def)
  have ok: "kernel_ok fresh_queues s" using t(2) unfolding s_def fresh_queues_def by simp
  have "not_linked (T_sched (Thread 1)) started_queues"
    unfolding not_linked_iff[OF kernel_ok_typed[OF demo_start_kernel]]
    by (auto simp: started_queues_def linked_at_def first_queues_def dest!: boot_queues_members split: if_splits)
  then have n: "not_linked (T_sched (Thread 1)) fresh_queues"
    by (auto simp: unlinked_node_def fresh_queues_def)
  let ?l = "(lk s)\<lparr>lnext := (lnext (lk s))(T_sched (Thread 1) := None), lprev := (lprev (lk s))(T_sched (Thread 1) := None)\<rparr>"
  have "kernel_ok fresh_queues (s\<lparr>lk := ?l\<rparr>)"
    using kernel_okD[OF ok] shape_outside[OF kernel_ok_shape[OF ok] n] by (intro kernel_okI) simp_all
  with s show ?thesis by (intro exI[of _ "s\<lparr>lk := ?l\<rparr>"]) simp
qed

lemma fresh_queues_simps [simp]: "fresh_queues (T_msgq t) = []" "fresh_queues (T_wait4me t) = []"
  by (simp_all add: fresh_queues_def)

section \<open>A thread that waits for the SSI\<close>

text \<open>The test thread asks the SSI for a reply that does not come.\<close>

lemma demo_waiting: "\<exists>s Q. sys_ok Q s \<and> t_status (threads s (Thread 0)) = T_STATUS_W4MSG \<and>
  t_wait4sender (threads s (Thread 0)) = Some SSI_thread"
proof -
  let ?s = "demo_client\<lparr>SYSBK_OLDAREA := zero_state\<rparr>"
  have ok: "sys_ok client_queues ?s" using demo_client_ok by simp
  have c: "current_thread ?s = Some (Thread 0)" using demo_client_facts(3) by simp
  have none: "find (wanted (Some (Some SSI_thread))) (mailbox client_queues ?s (Thread 0)) = None" by (simp add: mailbox_def)
  let ?Q = "client_queues(T_wait4me SSI_thread := client_queues (T_wait4me SSI_thread) @ [T_sched (Thread 0)])"
  from recv_blocks[OF ok c _ _ none, of 0 kernel_cpu NULL] obtain s where s: "sys_ok ?Q s" by auto
  from waiting_list_iff[OF this, of "Thread 0" SSI_thread] have
    "t_status (threads s (Thread 0)) = T_STATUS_W4MSG \<and> t_wait4sender (threads s (Thread 0)) = Some SSI_thread" by (simp add: MAXTHREAD_def)
  with s show ?thesis by blast
qed

section \<open>A full thread table\<close>

text \<open>Threads of the root process are created until no descriptor is left.\<close>

lemma fill_thread_table:
  "sys_ok Q s \<Longrightarrow> \<exists>s' Q'. sys_ok Q' s' \<and> Q' Thread_h = [] \<and> Q' (P_siblings 0) = Q (P_siblings 0) \<and>
    (\<forall>t. t_status (threads s t) \<noteq> T_STATUS_NONE \<longrightarrow> threads s' t = threads s t)"
proof (induction "Q Thread_h" arbitrary: Q s)
  case Nil
  then show ?case by (intro exI[of _ s] exI[of _ Q]) simp
next
  case (Cons n ns)
  have alive: "proc_alive s 0" by (simp add: proc_alive_def)
  have st: "read_state (U 0x9000) s = Some (load_state (mem s) 0x9000)" by simp
  obtain t s1 Q1 where s1: "sys_ok Q1 s1" "t_status (threads s t) = T_STATUS_NONE"
    "threads s1 = (threads s)(t := new_tcb 0 (load_state (mem s) 0x9000) (threads s t))"
    "Q1 = Q(Thread_h := ns, P_threads 0 := Q (P_threads 0) @ [n], Readyq := Q Readyq @ [T_sched t])"
    using create_thread_correct[OF Cons(3) alive Cons(2)[symmetric] st] by blast
  have "ns = Q1 Thread_h" using s1(4) by simp
  from Cons(1)[OF this s1(1)] obtain s' Q' where "sys_ok Q' s'" "Q' Thread_h = []" "Q' (P_siblings 0) = Q1 (P_siblings 0)"
    "\<forall>t. t_status (threads s1 t) \<noteq> T_STATUS_NONE \<longrightarrow> threads s' t = threads s1 t" by blast
  moreover have "Q1 (P_siblings 0) = Q (P_siblings 0)" using s1(4) by simp
  moreover have "threads s1 u = threads s u \<and> t_status (threads s1 u) \<noteq> T_STATUS_NONE"
    if "t_status (threads s u) \<noteq> T_STATUS_NONE" for u
    using that s1(2,3) by auto
  ultimately show ?case by (intro exI[of _ s'] exI[of _ Q']) metis
qed

lemma demo_full:
  "\<exists>s Q. sys_ok Q s \<and> Q Thread_h = [] \<and> Q (P_siblings 0) = P_siblings 1 # map P_siblings [2..<MAXPROC] \<and>
    t_pcb (threads s (Thread 0)) = Some 0"
proof -
  have "t_status (threads demo_start (Thread 0)) \<noteq> T_STATUS_NONE" "t_pcb (threads demo_start (Thread 0)) = Some 0"
    by (simp_all add: demo_start_facts(5) test_tcb_def)
  with fill_thread_table[OF demo_start_ok] show ?thesis by (metis started_queues_simps(9))
qed

section \<open>A client and its server\<close>

lemma kernel_cpu_mode: "handler_mode kernel_cpu"
  by (simp add: handler_mode_def kernel_cpu_def STATUS_SYS_MODE_def)

lemma demo_client_serving: "serving 0x9000 (Thread 0) client_queues demo_client"
  using demo_client_facts by (simp add: serving_def mailbox_def)

text \<open>What is left in the tables after the start.\<close>

lemma demo_start_unused:
  "procs_unused demo_start = 19" "threads_unused demo_start = 29" "letters_left demo_start = 40"
  by (simp_all add: procs_unused_def threads_unused_def letters_left_def contents_eq[OF demo_start_kernel] MAXPROC_def MAXTHREAD_def)

end
