(* ===== verification/Runs.thy ===== *)
theory Runs imports Channels Examples begin

text \<open>
  Concrete runs of the message machine: the SSI waits for anybody, and the test thread sends it two
  letters, of which the first one wakes it and the second one is queued, or the test thread traps.
\<close>

definition letter_to_SSI :: "u32 \<Rightarrow> event" where
  "letter_to_SSI w = Syscall (zero_state\<lparr>a1 := U SYS_SEND, a2 := Tcb SSI_thread, a3 := U w, pc := U 0x8000, cpsr := U STATUS_SYS_MODE\<rparr>)
     demo_mem 5000 kernel_cpu 0x7000"

definition two_letters :: "event list" where
  "two_letters = [wait_anybody, letter_to_SSI 7, letter_to_SSI 8]"

lemma demo_machine:
  "k_running (abs_machine demo_start) = Some SSI_thread" "k_ready (abs_machine demo_start) = [Thread 0]"
  "k_phase (abs_machine demo_start) SSI_thread = Runnable" "k_inbox (abs_machine demo_start) SSI_thread = []"
  "k_room (abs_machine demo_start) = 40"
  unfolding abs_machine_eq[OF demo_start_kernel]
  by (simp_all add: demo_start_facts mailbox_def phase_of_def ssi_tcb_def)

lemma kernel_calls [simp]:
  "handler_mode (zero_state\<lparr>a1 := x, a2 := y, a3 := z, pc := w, cpsr := U STATUS_SYS_MODE\<rparr>)"
  "handler_mode (zero_state\<lparr>a1 := x, a3 := z, pc := w, cpsr := U STATUS_SYS_MODE\<rparr>)"
  by (simp_all add: handler_mode_def STATUS_SYS_MODE_def)

text \<open>After the first step the SSI waits and the test thread runs; a letter then wakes the SSI.\<close>

lemma wait_step:
  assumes "k_running k = Some SSI_thread" "k_ready k = [Thread 0]" "k_inbox k SSI_thread = []"
  shows "\<exists>st k'. m_step wait_anybody k = (Ldst st, k') \<and> k_running k' = Some (Thread 0) \<and> k_ready k' = [] \<and>
    k_phase k' SSI_thread = Awaits None \<and> k_inbox k' = k_inbox k \<and> k_room k' = k_room k \<and> k_mgrs k' = k_mgrs k"
  using assms by (simp add: wait_anybody_def is_message_def running_def m_message_def m_recv_def dispatch_def sys_defs)

lemma wake_step:
  assumes "k_running k = Some (Thread 0)" "k_phase k SSI_thread = Awaits None"
  shows "\<exists>st k'. m_step (letter_to_SSI w) k = (Ldst st, k') \<and> k_running k' = Some (Thread 0) \<and> k_ready k' = k_ready k @ [SSI_thread] \<and>
    k_phase k' SSI_thread = Runnable \<and> k_inbox k' = k_inbox k \<and> k_room k' = k_room k"
  using assms by (simp add: letter_to_SSI_def is_message_def running_def m_message_def m_send_def wake_def)

lemma queue_step:
  assumes "k_running k = Some (Thread 0)" "k_phase k SSI_thread = Runnable" "k_room k = 40"
  shows "\<exists>st k'. m_step (letter_to_SSI w) k = (Ldst st, k') \<and> k_running k' = Some (Thread 0) \<and> k_ready k' = k_ready k \<and>
    k_inbox k' SSI_thread = k_inbox k SSI_thread @ [(Some (Thread 0), U w)]"
  using assms by (simp add: letter_to_SSI_def is_message_def running_def m_message_def m_send_def put_letter_def)

lemma letter_enabled: "k_running k = Some (Thread 0) \<Longrightarrow> m_enabled (letter_to_SSI w) k"
  by (simp add: letter_to_SSI_def kernel_cpu_mode is_message_def)

lemma wait_enabled: "k_running k = Some SSI_thread \<Longrightarrow> m_enabled wait_anybody k"
  by (simp add: wait_anybody_def kernel_cpu_mode is_message_def sys_defs)

lemma posted_letter:
  assumes "k_running k = Some (Thread 0)" "k_phase k SSI_thread = Awaits None \<or> (k_phase k SSI_thread = Runnable \<and> k_room k = 40)"
  shows "posted (letter_to_SSI w) k = Some (Thread 0, SSI_thread, U w)"
  using assms by (auto simp: posted_def letter_to_SSI_def is_message_def m_send_def put_letter_def)

lemma posted_wait: "posted wait_anybody k = None"
  by (simp add: posted_def wait_anybody_def is_message_def sys_defs split: option.split)

lemma two_letters_run:
  "m_allowed two_letters (abs_machine demo_start) \<and>
   sent_along (Thread 0) SSI_thread two_letters (abs_machine demo_start) = [U 7, U 8] \<and>
   (\<exists>outs k. m_run two_letters (abs_machine demo_start) = (outs, k) \<and> k_running k = Some (Thread 0) \<and> k_ready k = [SSI_thread] \<and>
     k_inbox k SSI_thread = [(Some (Thread 0), U 8)])"
proof -
  let ?k0 = "abs_machine demo_start"
  obtain st1 k1 where k1: "m_step wait_anybody ?k0 = (Ldst st1, k1)" "k_running k1 = Some (Thread 0)" "k_ready k1 = []"
    "k_phase k1 SSI_thread = Awaits None" "k_inbox k1 = k_inbox ?k0" "k_room k1 = k_room ?k0"
    using wait_step[OF demo_machine(1,2,4)] by blast
  obtain st2 k2 where k2: "m_step (letter_to_SSI 7) k1 = (Ldst st2, k2)" "k_running k2 = Some (Thread 0)" "k_ready k2 = k_ready k1 @ [SSI_thread]"
    "k_phase k2 SSI_thread = Runnable" "k_inbox k2 = k_inbox k1" "k_room k2 = k_room k1"
    using wake_step[OF k1(2,4)] by blast
  have room: "k_room k2 = 40" using k1 k2 demo_machine by simp
  obtain st3 k3 where k3: "m_step (letter_to_SSI 8) k2 = (Ldst st3, k3)" "k_running k3 = Some (Thread 0)" "k_ready k3 = k_ready k2"
    "k_inbox k3 SSI_thread = k_inbox k2 SSI_thread @ [(Some (Thread 0), U 8)]"
    using queue_step[OF k2(2,4) room] by blast
  have "posted (letter_to_SSI 7) k1 = Some (Thread 0, SSI_thread, U 7)" "posted (letter_to_SSI 8) k2 = Some (Thread 0, SSI_thread, U 8)"
    using posted_letter k1 k2 room by simp_all
  then show ?thesis
    using k1 k2 k3 demo_machine letter_enabled[OF k1(2)] letter_enabled[OF k2(2)] wait_enabled[OF demo_machine(1)]
    by (simp add: two_letters_def stopped_def posted_wait part_def)
qed

lemmas two_letters_allowed = conjunct1[OF two_letters_run]
lemmas two_letters_sent = conjunct1[OF conjunct2[OF two_letters_run]]
lemma two_letters_pending: "pending (Thread 0) SSI_thread (abs_machine demo_start) = []"
  by (simp add: pending_def demo_machine)

text \<open>The test thread traps: it has no manager, so it asks the SSI for its termination and waits.\<close>

definition trap_of_test :: event where
  "trap_of_test = Program_trap (zero_state\<lparr>pc := U 0x8000\<rparr>) demo_mem 5000 kernel_cpu 0x7000"

definition one_trap :: "event list" where
  "one_trap = [wait_anybody, trap_of_test]"

lemma trap_step:
  assumes "k_running k = Some (Thread 0)" "k_ready k = []" "k_mgrs k (Thread 0) = Some \<lparr>on_trap = None, on_tlb = t, on_call = u\<rparr>"
    and "k_phase k SSI_thread = Awaits None" "k_inbox k (Thread 0) = []"
  shows "\<exists>st k'. m_step trap_of_test k = (Ldst st, k') \<and> k_running k' = Some SSI_thread \<and> k_phase k' (Thread 0) = Awaits (Some SSI_thread)"
  using assms
  by (simp add: trap_of_test_def running_def managed_def m_trap_def m_give_up_def m_send_def wake_def m_recv_def dispatch_def)

lemma demo_mgrs: "k_mgrs (abs_machine demo_start) (Thread 0) = Some \<lparr>on_trap = None, on_tlb = None, on_call = None\<rparr>"
  "k_inbox (abs_machine demo_start) (Thread 0) = []"
  unfolding abs_machine_eq[OF demo_start_kernel]
  by (simp_all add: demo_start_facts test_tcb_def managers_of_def free_pcb_def view_def inbox_of_def)

lemma one_trap_run:
  "m_allowed one_trap (abs_machine demo_start) \<and>
   (\<exists>outs k. m_run one_trap (abs_machine demo_start) = (outs, k) \<and> k_running k = Some SSI_thread \<and>
     k_phase k (Thread 0) = Awaits (Some SSI_thread))"
proof -
  let ?k0 = "abs_machine demo_start"
  obtain st1 k1 where k1: "m_step wait_anybody ?k0 = (Ldst st1, k1)" "k_running k1 = Some (Thread 0)" "k_ready k1 = []"
    "k_phase k1 SSI_thread = Awaits None" "k_inbox k1 = k_inbox ?k0" "k_mgrs k1 = k_mgrs ?k0"
    using wait_step[OF demo_machine(1,2,4)] by blast
  obtain st2 k2 where k2: "m_step trap_of_test k1 = (Ldst st2, k2)" "k_running k2 = Some SSI_thread"
    "k_phase k2 (Thread 0) = Awaits (Some SSI_thread)"
    using trap_step[OF k1(2,3) _ k1(4)] k1(5,6) demo_mgrs by auto
  have "m_enabled trap_of_test k1" using k1(2,6) demo_mgrs by (simp add: trap_of_test_def kernel_cpu_mode)
  then show ?thesis
    using k1 k2 wait_enabled[OF demo_machine(1)] by (simp add: one_trap_def stopped_def)
qed

end
