(* ===== verification/Handover.thy ===== *)
theory Handover imports Runs begin

text \<open>
  What becomes of a thread that is handed over to its manager. The comment of \<open>handlers/trap.c\<close> expects the
  manager to put it back in the ready queue; no call, trap or interrupt does: the thread is parked, and
  whatever the manager and the others send it stays in its inbox.
\<close>

definition parked :: "tid \<Rightarrow> machine \<Rightarrow> bool" where
  "parked c k \<longleftrightarrow> k_phase k c = Runnable \<and> c \<notin> set (k_ready k) \<and> k_running k \<noteq> Some c"

lemma parked_upd [simp]:
  "parked c (k\<lparr>k_ram := m\<rparr>) = parked c k" "parked c (k\<lparr>k_saved := f\<rparr>) = parked c k" "parked c (k\<lparr>k_device := t\<rparr>) = parked c k"
  "parked c (k\<lparr>k_idle := b\<rparr>) = parked c k" "parked c (k\<lparr>k_inbox := i, k_room := n\<rparr>) = parked c k"
  by (simp_all add: parked_def)

lemma dispatch_parks: "k_phase k c = Runnable \<Longrightarrow> c \<notin> set (k_ready k) \<Longrightarrow> parked c (snd (dispatch k))"
  by (auto simp: parked_def dispatch_def Let_def split: list.split)

lemma parked_dispatch: "parked c k \<Longrightarrow> parked c (snd (dispatch k))"
  by (rule dispatch_parks) (simp_all add: parked_def)

lemma send_keeps_ready:
  "k_phase k c = Runnable \<Longrightarrow> c \<notin> set (k_ready k) \<Longrightarrow>
   k_phase (snd (m_send d u v k)) c = Runnable \<and> c \<notin> set (k_ready (snd (m_send d u v k)))"
  by (rule m_send_cases[of d u v k]) (auto simp: wake_def)

lemma send_keeps_running: "k_running (snd (m_send d u v k)) = k_running k"
  by (simp add: m_send_def put_letter_def wake_def split: phase.split)

lemma parked_send: "parked c k \<Longrightarrow> parked c (snd (m_send d u v k))"
  using send_keeps_ready[of k c d u v] by (simp add: parked_def send_keeps_running)

lemma parked_recv: "parked c k \<Longrightarrow> u \<noteq> c \<Longrightarrow> parked c (snd (m_recv u who a old k))"
  by (auto simp: m_recv_def parked_def[of c k] split: option.split intro: dispatch_parks)

lemma parked_hand_over: "parked c k \<Longrightarrow> parked c (snd (m_hand_over u st m v k))"
  unfolding m_hand_over_def by (intro parked_dispatch parked_send) simp

lemma parked_give_up: "parked c k \<Longrightarrow> u \<noteq> c \<Longrightarrow> parked c (snd (m_give_up u tag cpu frame k))"
  unfolding m_give_up_def Let_def by (auto intro!: parked_recv parked_send)

lemma parked_trap: "parked c k \<Longrightarrow> u \<noteq> c \<Longrightarrow> parked c (snd (m_trap u mgr old cpu frame k))"
  unfolding m_trap_def by (auto intro: parked_hand_over parked_give_up split: option.split)

lemma parked_other: "parked c k \<Longrightarrow> u \<noteq> c \<Longrightarrow> parked c (snd (m_other u M old cpu frame k))"
  unfolding m_other_def by (auto intro: parked_trap parked_hand_over parked_give_up split: option.split)

lemma parked_message: "parked c k \<Longrightarrow> u \<noteq> c \<Longrightarrow> parked c (snd (m_message u old k))"
  unfolding m_message_def by (auto intro: parked_send parked_recv simp: case_prod_beta split: option.split)

lemma parked_device: "parked c k \<Longrightarrow> parked c (snd (m_device v p old k))"
  unfolding m_device_def Let_def by (auto intro!: parked_dispatch parked_send simp: case_prod_beta split: option.split)

lemma parked_slice: "parked c k \<Longrightarrow> parked c (snd (m_slice_end old k))"
  by (auto simp: m_slice_end_def parked_def[of c k] split: option.split intro: dispatch_parks)

lemma parked_running: "parked c k \<Longrightarrow> (\<And>u. u \<noteq> c \<Longrightarrow> parked c (snd (f u))) \<Longrightarrow> parked c (snd (running f k))"
  by (cases "k_running k") (auto simp: running_def parked_def)

lemma parked_managed: "parked c k \<Longrightarrow> (\<And>M. parked c (snd (f M))) \<Longrightarrow> parked c (snd (managed u f k))"
  by (cases "k_mgrs k u") (auto simp: managed_def)

lemma parked_step:
  assumes "parked c k"
  shows "parked c (snd (m_step e k))"
proof -
  have k: "parked c (k\<lparr>k_ram := m\<rparr>)" for m using assms by simp
  note steps = parked_message[OF k] parked_other[OF k] parked_trap[OF k]
  show ?thesis
  proof (cases e)
    case (Syscall old ram now cpu frame)
    then show ?thesis using steps by (auto simp: Let_def intro!: parked_running parked_managed k)
  next
    case (Program_trap old ram now cpu frame)
    then show ?thesis using steps by (auto simp: Let_def intro!: parked_running parked_managed k)
  next
    case (Tlb_trap old ram now cpu frame)
    then show ?thesis using steps by (auto simp: Let_def intro!: parked_running parked_managed k)
  next
    case (Interrupt old ram now cpu v p)
    then show ?thesis using parked_slice[OF k] parked_device[OF k] by (simp add: Let_def)
  qed (use assms in simp)
qed

lemma parked_run: "parked c k \<Longrightarrow> parked c (snd (m_run es k))"
proof (induction es arbitrary: k)
  case (Cons e es)
  obtain out k' where s: "m_step e k = (out, k')" by (cases "m_step e k")
  have "parked c k'" using parked_step[OF Cons.prems, of e] s by simp
  with Cons.IH[of k'] s show ?case by (simp add: case_prod_beta)
qed simp

text \<open>A trap for which there is a manager parks the thread, also when the letter to the manager is lost.\<close>

lemma hand_over_parks:
  assumes "k_phase k c = Runnable" "c \<notin> set (k_ready k)"
  shows "parked c (snd (m_hand_over c st m v k))"
  unfolding m_hand_over_def using send_keeps_ready[of "k\<lparr>k_saved := (k_saved k)(c := st)\<rparr>" c m c v] assms
  by (intro dispatch_parks) simp_all

text \<open>In the kernel the running thread is ready and in no queue.\<close>

lemma system_running:
  assumes "system_ok s" "current_thread s = Some c"
  shows "k_phase (abs_machine s) c = Runnable" "c \<notin> set (k_ready (abs_machine s))"
proof -
  obtain Q where "settled Q s" using assms(1) by (auto simp: system_ok_def)
  note ok = settled_sys_ok[OF this]
  have c: "t_status (threads s c) = T_STATUS_READY" "not_linked (T_sched c) Q" using sys_ok_running[OF ok assms(2)] by simp_all
  show "k_phase (abs_machine s) c = Runnable" "c \<notin> set (k_ready (abs_machine s))"
    unfolding abs_machine_eq[OF sys_ok_kernel[OF ok]] using c
    using not_linkedD[OF c(2), of Readyq] by (simp_all add: phase_of_iff)
qed

text \<open>The traps that are handed over: with a manager for program traps, for the TLB or for calls.\<close>

fun handed_over :: "event \<Rightarrow> managers \<Rightarrow> bool" where
  "handed_over (Program_trap old ram now cpu frame) M \<longleftrightarrow> on_trap M \<noteq> None"
| "handed_over (Tlb_trap old ram now cpu frame) M \<longleftrightarrow> on_tlb M \<noteq> None"
| "handed_over (Syscall old ram now cpu frame) M \<longleftrightarrow>
     \<not> is_message old \<and>
     (on_trap M \<noteq> None \<or> on_call M \<noteq> None \<and> a1 old \<notin> {U SYS_ERR, U SYS_SEND, U SYS_RECV})"
| "handed_over _ M \<longleftrightarrow> False"

lemma handed_over_parks:
  assumes k: "k_running k = Some c" "k_mgrs k c = Some M" "k_phase k c = Runnable" "c \<notin> set (k_ready k)" and e: "handed_over e M"
  shows "parked c (snd (m_step e k))"
  using k e hand_over_parks[of _ c]
  by (cases e) (auto simp: Let_def running_def managed_def m_trap_def m_other_def split: option.split)

lemma kernel_handed_over:
  assumes ok: "system_ok s" and c: "current_thread s = Some c" "t_pcb (threads s c) = Some p" "handed_over e (managers_of (procs s) p)"
    and en: "m_allowed (e # es) (abs_machine s)"
  shows "\<exists>outs s'. k_run (e # es) s = Some (outs, s') \<and> t_status (threads s' c) = T_STATUS_READY \<and> current_thread s' \<noteq> Some c"
proof -
  have k: "k_running (abs_machine s) = Some c" "k_mgrs (abs_machine s) c = Some (managers_of (procs s) p)"
    using c by (simp_all add: abs_machine_def)
  obtain outs s' where run: "k_run (e # es) s = Some (outs, s')" "m_run (e # es) (abs_machine s) = (outs, abs_machine s')"
    using run_refines[OF ok en] by blast
  have p: "parked c (snd (m_step e (abs_machine s)))"
    by (rule handed_over_parks[OF k system_running[OF ok c(1)] c(3)])
  have "parked c (snd (m_run (e # es) (abs_machine s)))"
    using parked_run[OF p, of es] p by (simp add: case_prod_beta)
  then have "parked c (abs_machine s')" using run(2) by simp
  then show ?thesis using run(1) by (simp add: parked_def abs_machine_def phase_of_iff)
qed

section \<open>A concrete run\<close>

text \<open>The SSI manages the traps of the test process; the test thread traps, and the SSI sends it a letter.\<close>

definition demo_managed :: kstate where
  "demo_managed = demo_client\<lparr>procs := (procs demo_client)(0 := (procs demo_client 0)\<lparr>pgm_mgr := Some SSI_thread\<rparr>)\<rparr>"

definition letter_to_test :: event where
  "letter_to_test = Syscall (zero_state\<lparr>a1 := U SYS_SEND, a2 := Tcb (Thread 0), a3 := U 9, pc := U 0x8000, cpsr := U STATUS_SYS_MODE\<rparr>)
     demo_mem 5000 kernel_cpu 0x7000"

lemma demo_managed_sys_ok: "sys_ok client_queues demo_managed"
  unfolding demo_managed_def
proof (rule sys_ok_set_mgr[OF demo_client_ok])
  show "mgrs_ok ((procs demo_client)(0 := (procs demo_client 0)\<lparr>pgm_mgr := Some SSI_thread\<rparr>))"
    by (rule pgm.mgrs_ok_set[OF sys_ok_mgrs[OF demo_client_ok]]) simp
qed simp

lemma demo_managed_ok: "system_ok demo_managed"
proof -
  have "settled client_queues demo_managed" using demo_managed_sys_ok by (simp add: settled_def)
  moreover have "count_error demo_managed = count_error demo_client"
    unfolding demo_managed_def by (rule count_error_cong) simp_all
  moreover have "count_error demo_client = 0"
    using reachable_system_ok[OF demo_client_reachable] by (auto simp: system_ok_def)
  ultimately show ?thesis by (auto simp: system_ok_def)
qed

lemma demo_managed_facts:
  "current_thread demo_managed = Some (Thread 0)" "t_pcb (threads demo_managed (Thread 0)) = Some 0"
  "pgm_mgr (procs demo_managed 0) = Some SSI_thread" "threads demo_managed = threads demo_client"
  by (simp_all add: demo_managed_def demo_client_facts test_tcb_def)

lemma demo_managed_machine:
  "k_running (abs_machine demo_managed) = Some (Thread 0)" "k_ready (abs_machine demo_managed) = []"
  "k_phase (abs_machine demo_managed) SSI_thread = Awaits None"
  "k_mgrs (abs_machine demo_managed) (Thread 0) = Some (managers_of (procs demo_managed) 0)"
  unfolding abs_machine_eq[OF sys_ok_kernel[OF demo_managed_sys_ok]]
  by (simp_all add: demo_managed_facts demo_client_facts phase_of_iff test_tcb_def)

lemma managed_trap_allowed: "m_allowed [trap_of_test, letter_to_test] (abs_machine demo_managed)"
proof -
  let ?k = "abs_machine demo_managed"
  have m: "on_trap (managers_of (procs demo_managed) 0) = Some SSI_thread" by (simp add: managers_of_def demo_managed_facts)
  have "m_enabled trap_of_test ?k" using demo_managed_machine by (simp add: trap_of_test_def kernel_cpu_mode)
  moreover obtain st k1 where k1: "m_step trap_of_test ?k = (Ldst st, k1)" "k_running k1 = Some SSI_thread"
    using demo_managed_machine m
    by (simp add: trap_of_test_def running_def managed_def m_trap_def m_hand_over_def m_send_def wake_def dispatch_def)
  moreover have "m_enabled letter_to_test k1"
    using k1(2) by (simp add: letter_to_test_def kernel_cpu_mode is_message_def MAXTHREAD_def)
  ultimately show ?thesis by (simp add: case_prod_beta)
qed

lemma trap_is_handed_over: "handed_over trap_of_test (managers_of (procs demo_managed) 0)"
  by (simp add: trap_of_test_def managers_of_def demo_managed_facts)

end
