(* ===== verification/Progress.thy ===== *)
theory Progress imports Lock Handover begin

text \<open>
  The threads that a program needs next really run: in a run without traps a thread that does not wait is
  running or in the ready queue, and dead threads stay where they are. With it the critical sections are
  free of deadlock.
\<close>

section \<open>Threads that do not wait are scheduled\<close>

definition scheduled :: "machine \<Rightarrow> bool" where
  "scheduled k \<longleftrightarrow> (\<forall>t. k_phase k t = Runnable \<longrightarrow> t \<in> set (k_ready k) \<or> k_running k = Some t)"

text \<open>The same for the threads of a set: a thread outside may be marked ready and be nowhere.\<close>

definition scheduled_in :: "tid set \<Rightarrow> machine \<Rightarrow> bool" where
  "scheduled_in A k \<longleftrightarrow> (\<forall>t \<in> A. k_phase k t = Runnable \<longrightarrow> t \<in> set (k_ready k) \<or> k_running k = Some t)"

lemma scheduled_everywhere: "scheduled k = scheduled_in UNIV k"
  by (simp add: scheduled_def scheduled_in_def)

lemma scheduled_upd [simp]:
  "scheduled_in A (k\<lparr>k_ram := m\<rparr>) = scheduled_in A k" "scheduled_in A (k\<lparr>k_saved := f\<rparr>) = scheduled_in A k"
  "scheduled_in A (k\<lparr>k_device := t\<rparr>) = scheduled_in A k" "scheduled_in A (k\<lparr>k_idle := b\<rparr>) = scheduled_in A k"
  "scheduled_in A (k\<lparr>k_inbox := i, k_room := n\<rparr>) = scheduled_in A k"
  by (simp_all add: scheduled_in_def)

lemma scheduled_dispatch: "(\<And>t. t \<in> A \<Longrightarrow> k_phase k t = Runnable \<Longrightarrow> t \<in> set (k_ready k)) \<Longrightarrow> scheduled_in A (snd (dispatch k))"
  by (fastforce simp: scheduled_in_def dispatch_def Let_def split: list.split)

lemma scheduled_send: "scheduled_in A k \<Longrightarrow> scheduled_in A (snd (m_send d u v k))"
  by (rule m_send_cases[of d u v k]) (auto simp: scheduled_in_def wake_def split: if_splits)

lemma scheduled_recv: "scheduled_in A k \<Longrightarrow> k_running k = Some u \<Longrightarrow> scheduled_in A (snd (m_recv u who a old k))"
  by (auto simp: m_recv_def scheduled_in_def[of A k] split: option.split if_splits intro!: scheduled_dispatch)

lemma scheduled_message: "scheduled_in A k \<Longrightarrow> k_running k = Some u \<Longrightarrow> scheduled_in A (snd (m_message u old k))"
  unfolding m_message_def by (auto intro: scheduled_send scheduled_recv simp: case_prod_beta split: option.split)

lemma scheduled_slice: "scheduled_in A k \<Longrightarrow> scheduled_in A (snd (m_slice_end old k))"
  by (auto simp: m_slice_end_def scheduled_in_def[of A k] split: option.split intro!: scheduled_dispatch)

lemma scheduled_device:
  assumes k: "scheduled_in A k" and idle: "k_idle k \<Longrightarrow> k_running k = None"
  shows "scheduled_in A (snd (m_device v p old k))"
proof -
  let ?k1 = "k\<lparr>k_ram := (k_ram k)(TERMINAL_DEV_FIELD 0 TRANSM_COMMAND := U DEV_C_ACK)\<rparr>"
  have "scheduled_in A (snd (m_send d SSI_thread NULL ?k1))" for d using k by (intro scheduled_send) simp
  moreover have "scheduled_in A (snd (dispatch (snd (m_send d SSI_thread NULL ?k1)\<lparr>k_device := None, k_idle := False\<rparr>)))"
    if "k_idle k" for d
    using calculation[of d] idle[OF that] by (intro scheduled_dispatch) (auto simp: scheduled_in_def send_keeps_running)
  ultimately show ?thesis
    using k by (auto simp: m_device_def Let_def case_prod_beta split: option.split)
qed

text \<open>A step of a program: no trap, and an idle kernel runs nobody.\<close>

lemma scheduled_step:
  assumes k: "scheduled_in A k" and idle: "k_idle k \<Longrightarrow> k_running k = None" and en: "p_enabled P e (loc, k)"
  shows "scheduled_in A (snd (m_step e k))"
proof (cases e)
  case (Syscall old ram now cpu frame)
  then obtain c where c: "k_running k = Some c" using en by (auto simp: p_enabled_def)
  have "is_message old" using en Syscall c by (auto simp: p_enabled_def split: point.splits option.splits if_splits)
  with Syscall c scheduled_message[of A "k\<lparr>k_ram := ram\<rparr>" c old] k show ?thesis by (simp add: running_def)
next
  case (Interrupt old ram now cpu v p)
  with scheduled_slice[of A "k\<lparr>k_ram := ram\<rparr>" old] scheduled_device[of A "k\<lparr>k_ram := ram\<rparr>" v p old] k idle show ?thesis
    by (simp add: Let_def)
qed (use en in \<open>simp_all add: p_enabled_def\<close>)

section \<open>Dead threads stay where they are\<close>

lemma send_dead_phase: "k_phase (snd (m_send d u v k)) t = Dead \<Longrightarrow> k_phase k t = Dead"
  by (rule m_send_cases[of d u v k]) (auto simp: wake_def split: if_splits)

lemma step_dead_phase:
  assumes en: "p_enabled P e (loc, k)" and t: "k_phase (snd (m_step e k)) t = Dead"
  shows "k_phase k t = Dead"
proof (cases e)
  case (Syscall old ram now cpu frame)
  then obtain c where c: "k_running k = Some c" using en by (auto simp: p_enabled_def)
  have "is_message old" using en Syscall c by (auto simp: p_enabled_def split: point.splits option.splits if_splits)
  with Syscall c t send_dead_phase[of _ c _ "k\<lparr>k_ram := ram\<rparr>" t] show ?thesis
    by (auto simp: Let_def running_def m_message_def m_recv_def case_prod_beta split: option.splits if_splits)
next
  case (Interrupt old ram now cpu v p)
  let ?k1 = "k\<lparr>k_ram := ram(TERMINAL_DEV_FIELD 0 TRANSM_COMMAND := U DEV_C_ACK)\<rparr>"
  show ?thesis
    using Interrupt t send_dead_phase[of _ SSI_thread NULL ?k1 t]
    by (auto simp: Let_def m_slice_end_def m_device_def case_prod_beta split: option.splits if_splits)
qed (use en in \<open>simp_all add: p_enabled_def\<close>)

text \<open>Only threads that run move.\<close>

lemma enter_others: "k_running k \<noteq> Some t \<Longrightarrow> enter e (k_running k) loc t = loc t"
  by (cases "(e, k_running k, loc)" rule: enter.cases) (auto split: point.split option.split)

lemma leave_others: "out = Panic \<or> r \<noteq> Some t \<Longrightarrow> leave P out r loc t = loc t"
  by (cases "(P, out, r, loc)" rule: leave.cases) (auto split: point.split option.split)

definition dead_still :: "(tid \<Rightarrow> 'l point) \<Rightarrow> machine \<Rightarrow> (tid \<Rightarrow> 'l point) \<Rightarrow> machine \<Rightarrow> bool" where
  "dead_still loc0 k0 loc k \<longleftrightarrow> (\<forall>t. k_phase k t = Dead \<longrightarrow> loc t = loc0 t \<and> k_phase k0 t = Dead)"

lemma dead_still_step:
  assumes d: "dead_still loc0 k0 loc (abs_machine s)" and ok: "system_ok s" and en: "p_enabled P e (loc, abs_machine s)"
    and step: "m_step e (abs_machine s) = (out, abs_machine s')" "out = Panic \<or> system_ok s'"
  shows "dead_still loc0 k0 (fst (snd (p_step P e (loc, abs_machine s)))) (abs_machine s')"
  unfolding dead_still_def
proof (intro allI impI)
  fix t assume t: "k_phase (abs_machine s') t = Dead"
  have t0: "k_phase (abs_machine s) t = Dead" using step_dead_phase[OF en] t step(1) by simp
  have "k_running (abs_machine s) \<noteq> Some t"
    using system_running(1)[OF ok, of t] t0 by (auto simp: abs_machine_def)
  moreover have "out = Panic \<or> k_running (abs_machine s') \<noteq> Some t"
    using system_running(1)[of s' t] step(2) t by (auto simp: abs_machine_def)
  ultimately have "fst (snd (p_step P e (loc, abs_machine s))) t = loc t"
    using enter_others[of "abs_machine s" t e loc] leave_others[of out "k_running (abs_machine s')" t P] step(1)
    by (simp add: p_step_def)
  then show "fst (snd (p_step P e (loc, abs_machine s))) t = loc0 t \<and> k_phase k0 t = Dead"
    using d t0 by (simp add: dead_still_def)
qed

lemma system_idle: "system_ok s \<Longrightarrow> k_idle (abs_machine s) \<Longrightarrow> k_running (abs_machine s) = None"
proof -
  assume "system_ok s" "k_idle (abs_machine s)"
  then obtain Q where "settled Q s" by (auto simp: system_ok_def)
  from sys_ok_idle[OF settled_sys_ok[OF this]] \<open>k_idle (abs_machine s)\<close> show ?thesis by (simp add: abs_machine_def)
qed

text \<open>Both hold at the end of a run of the kernel.\<close>

lemma run_schedules:
  assumes "system_ok s" "scheduled_in A (abs_machine s)" "dead_still loc0 k0 loc (abs_machine s)" "p_allowed P es (loc, abs_machine s)"
    and "p_run P es (loc, abs_machine s) = (loc', k')"
  shows "scheduled_in A k' \<and> dead_still loc0 k0 loc' k'"
  using assms
proof (induction es arbitrary: s loc)
  case (Cons e es)
  let ?k = "abs_machine s"
  have en: "p_enabled P e (loc, ?k)" using Cons.prems(4) by simp
  then have "m_enabled e ?k" by (simp add: p_enabled_def)
  from exec_refines[OF Cons.prems(1) this] obtain out s1 where
    s1: "m_step e ?k = (out, abs_machine s1)" "out = Panic \<or> system_ok s1"
    by (metis effective_stopped stopped_def)
  obtain loc1 where p: "p_step P e (loc, ?k) = (out, loc1, abs_machine s1)"
    using p_step_machine[of P e loc ?k] s1(1) by simp
  have sch: "scheduled_in A (abs_machine s1)"
    using scheduled_step[OF Cons.prems(2) system_idle[OF Cons.prems(1)] en] s1(1) by simp
  have dead: "dead_still loc0 k0 loc1 (abs_machine s1)"
    using dead_still_step[OF Cons.prems(3,1) en s1] p by simp
  show ?case
  proof (cases "stopped out")
    case True
    then show ?thesis using Cons.prems(5) p sch dead by simp
  next
    case False
    then have "system_ok s1" using s1(2) by (auto simp: stopped_def)
    then show ?thesis
      using Cons.IH[OF _ sch dead] Cons.prems(4,5) p False by simp
  qed
qed simp

section \<open>The critical sections are free of deadlock\<close>

text \<open>
  When a client waits in \<open>CSIN\<close>, the server or the client that holds the section is running or in the
  ready queue: there round robin will reach it.
\<close>

lemma kernel_lock_goes_on:
  assumes ok: "system_ok s" and st: "lock_start (Thread i) loc (abs_machine s)"
    and run: "scheduled (abs_machine s)" "k_phase (abs_machine s) (Thread i) = Runnable"
    and en: "p_allowed (p2_program (Thread i)) es (loc, abs_machine s)"
    and good: "along (sends_ok (\<lambda>r. r = SEND_SUCCESS)) es (abs_machine s)"
  shows "\<exists>outs s' loc'. k_run es s = Some (outs, s') \<and> p_run (p2_program (Thread i)) es (loc, abs_machine s) = (loc', abs_machine s') \<and>
    (\<forall>c. waits_to_enter (Thread i) loc' (abs_machine s') c \<longrightarrow>
       (\<exists>u. in_charge (Thread i) loc' (abs_machine s') u \<and> u \<noteq> c \<and>
         (u \<in> set (k_ready (abs_machine s')) \<or> k_running (abs_machine s') = Some u)))"
proof -
  let ?z = "Thread i"
  obtain outs s' loc' where r: "k_run es s = Some (outs, s')" "p_run (p2_program ?z) es (loc, abs_machine s) = (loc', abs_machine s')"
    "coupled (p2_program ?z) (loc', abs_machine s')"
    "lock_inv True ?z loc' (k_phase (abs_machine s')) (k_inbox (abs_machine s')) (k_saved (abs_machine s'))"
    using kernel_lock_holds[OF ok st en good] by blast
  let ?k = "abs_machine s'"
  have "dead_still loc (abs_machine s) loc (abs_machine s)" by (simp add: dead_still_def)
  have "scheduled_in UNIV (abs_machine s)" using run(1) by (simp add: scheduled_everywhere)
  from run_schedules[OF ok this \<open>dead_still _ _ _ _\<close> en r(2)] have sch: "scheduled_in UNIV ?k" "dead_still loc (abs_machine s) loc' ?k" by simp_all
  have live: "k_phase ?k u \<noteq> Dead" if u: "in_charge ?z loc' ?k u" for u
  proof
    assume "k_phase ?k u = Dead"
    then have d: "loc' u = loc u" "k_phase (abs_machine s) u = Dead" using sch(2) by (simp_all add: dead_still_def)
    then have "u \<noteq> ?z" using run(2) by auto
    have "loc u = At Outside" using st d(2) \<open>u \<noteq> ?z\<close> by (auto simp: lock_start_def split: phase.splits dest: spec[of _ u])
    with u d(1) \<open>u \<noteq> ?z\<close> show False by (simp add: in_charge_def)
  qed
  have "\<exists>u. in_charge ?z loc' ?k u \<and> u \<noteq> c \<and> (u \<in> set (k_ready ?k) \<or> k_running ?k = Some u)" if c: "waits_to_enter ?z loc' ?k c" for c
  proof -
    obtain u where u: "in_charge ?z loc' ?k u" "u \<noteq> c" "\<forall>who. k_phase ?k u \<noteq> Awaits who"
      using lock_goes_on[OF r(3,4) c] by blast
    then have "k_phase ?k u = Runnable" using live[OF u(1)] by (cases "k_phase ?k u") auto
    with u sch(1) show ?thesis by (auto simp: scheduled_in_def)
  qed
  with r(1,2) show ?thesis by blast
qed

end
