(* ===== verification/Triangle.thy ===== *)
theory Triangle imports Progress begin

text \<open>
  The test \<open>triangle_init\<close> of \<open>tests/debug_tests.c\<close>: each of three threads sends a letter to the next one
  and receives the letter of the previous one. The theorems: a thread that has received reports the right
  sender, whatever else happens in the system, and as long as messages can be sent the test goes on until
  all three have received.
\<close>

section \<open>The programs\<close>

text \<open>
  The control points: the two calls of \<open>t1\<close>, \<open>t2\<close> and \<open>t3\<close>, the report, with the result of the receive,
  and the two calls of the stub \<open>terminate_thread\<close>. The other threads are \<open>Elsewhere\<close> and may make any call.
\<close>

datatype tri_point = Sends | Receives | Reports "tid option" | Ends | After | Elsewhere

fun tri_body :: "tid \<Rightarrow> u32 \<Rightarrow> tid \<Rightarrow> tri_point \<Rightarrow> call \<Rightarrow> (val \<Rightarrow> tri_point) option" where
  "tri_body to n from Sends (Send d v) = (if d = to \<and> v = U n then Some (\<lambda>_. Receives) else None)"
| "tri_body to n from Receives (Recv who a) = (if who = Some from \<and> a \<noteq> 0 then Some (\<lambda>v. Reports (sender_of v)) else None)"
| "tri_body to n from (Reports r) (Send d v) = (if d = SSI_thread then Some (\<lambda>_. Ends) else None)"
| "tri_body to n from Ends (Recv who a) = (if who = Some SSI_thread \<and> a = 0 then Some (\<lambda>_. After) else None)"
| "tri_body to n from _ _ = None"

text \<open>The globals \<open>first\<close>, \<open>second\<close> and \<open>third\<close> are parameters; they do not change while the threads run.\<close>

definition t1 :: "tid \<Rightarrow> tid \<Rightarrow> tid \<Rightarrow> tri_point \<Rightarrow> call \<Rightarrow> (val \<Rightarrow> tri_point) option" where
  "t1 first second third = tri_body second 1 third"

definition t2 :: "tid \<Rightarrow> tid \<Rightarrow> tid \<Rightarrow> tri_point \<Rightarrow> call \<Rightarrow> (val \<Rightarrow> tri_point) option" where
  "t2 first second third = tri_body third 2 first"

definition t3 :: "tid \<Rightarrow> tid \<Rightarrow> tid \<Rightarrow> tri_point \<Rightarrow> call \<Rightarrow> (val \<Rightarrow> tri_point) option" where
  "t3 first second third = tri_body first 3 second"

definition triangle :: "tid \<Rightarrow> tid \<Rightarrow> tid \<Rightarrow> tri_point program" where
  "triangle first second third t =
     (if t = first then t1 first second third
      else if t = second then t2 first second third
      else if t = third then t3 first second third
      else (\<lambda>l x. if l = Elsewhere then Some (\<lambda>_. Elsewhere) else None))"

section \<open>The state of the test\<close>

definition prev :: "tid \<Rightarrow> tid \<Rightarrow> tid \<Rightarrow> tid \<Rightarrow> tid" where
  "prev a b c t = (if t = a then c else if t = b then a else b)"

definition number :: "tid \<Rightarrow> tid \<Rightarrow> tid \<Rightarrow> u32" where
  "number a b t = (if t = a then 1 else if t = b then 2 else 3)"

abbreviation ids :: "tid \<Rightarrow> tid \<Rightarrow> tid \<Rightarrow> bool" where
  "ids a b c \<equiv> distinct [a, b, c, SSI_thread]"

definition corners :: "tid \<Rightarrow> tid \<Rightarrow> tid \<Rightarrow> tid set" where
  "corners a b c = {a, b, c}"

lemma prev_corner: "ids a b c \<Longrightarrow> t \<in> corners a b c \<Longrightarrow> prev a b c t \<in> corners a b c \<and> prev a b c t \<noteq> t \<and> prev a b c t \<noteq> SSI_thread"
  by (auto simp: prev_def corners_def)

lemma prev_inj: "ids a b c \<Longrightarrow> t \<in> corners a b c \<Longrightarrow> u \<in> corners a b c \<Longrightarrow> prev a b c t = prev a b c u \<Longrightarrow> t = u"
  by (auto simp: prev_def corners_def split: if_splits)

lemma ssi_no_corner: "ids a b c \<Longrightarrow> SSI_thread \<notin> corners a b c"
  by (auto simp: corners_def)

text \<open>Where a thread is, seen from the thread \<open>u\<close> that it receives from; one that was woken has received.\<close>

datatype stage = Starts | Waits | Received | Wrong

fun stage_of :: "tid \<Rightarrow> tri_point point \<Rightarrow> phase \<Rightarrow> val \<Rightarrow> stage" where
  "stage_of u (At Sends) p v = Starts"
| "stage_of u (At Receives) p v = Waits"
| "stage_of u (At (Reports r)) p v = (if r = Some u then Received else Wrong)"
| "stage_of u (At Ends) p v = Received"
| "stage_of u (At After) p v = Received"
| "stage_of u (Calling Receives x) p v = (if p = Awaits (Some u) then Waits else if v = Tcb u then Received else Wrong)"
| "stage_of u (Calling Ends x) p v = Received"
| "stage_of u _ p v = Wrong"

definition stage_in :: "tid \<Rightarrow> tid \<Rightarrow> tid \<Rightarrow> (tid \<Rightarrow> tri_point point) \<Rightarrow> (tid \<Rightarrow> phase) \<Rightarrow> (tid \<Rightarrow> state_t) \<Rightarrow> tid \<Rightarrow> stage" where
  "stage_in a b c loc ph sv t = stage_of (prev a b c t) (loc t) (ph t) (a1 (sv t))"

definition mail_of :: "(tid \<Rightarrow> letter list) \<Rightarrow> tid \<Rightarrow> tid \<Rightarrow> val list" where
  "mail_of ib u t = map snd (filter (\<lambda>l. fst l = Some u) (ib t))"

text \<open>The letter of the previous thread is pending from its send to the receive.\<close>

definition tri_ok :: "stage \<Rightarrow> stage \<Rightarrow> u32 \<Rightarrow> val list \<Rightarrow> bool" where
  "tri_ok st su n m \<longleftrightarrow> st \<noteq> Wrong \<and> (st = Received \<longrightarrow> su \<noteq> Starts) \<and> m = (if su = Starts \<or> st = Received then [] else [U n])"

definition tri_inv :: "tid \<Rightarrow> tid \<Rightarrow> tid \<Rightarrow> (tid \<Rightarrow> tri_point point) \<Rightarrow> (tid \<Rightarrow> phase) \<Rightarrow> (tid \<Rightarrow> letter list) \<Rightarrow>
    (tid \<Rightarrow> state_t) \<Rightarrow> bool" where
  "tri_inv a b c loc ph ib sv \<longleftrightarrow> ids a b c \<and>
     (\<forall>t \<in> corners a b c. tri_ok (stage_in a b c loc ph sv t) (stage_in a b c loc ph sv (prev a b c t)) (number a b (prev a b c t))
        (mail_of ib (prev a b c t) t))"

lemma tri_invD:
  assumes "tri_inv a b c loc ph ib sv"
  shows tri_ids: "ids a b c"
    and tri_thread: "t \<in> corners a b c \<Longrightarrow> tri_ok (stage_in a b c loc ph sv t) (stage_in a b c loc ph sv (prev a b c t))
      (number a b (prev a b c t)) (mail_of ib (prev a b c t) t)"
  using assms by (simp_all add: tri_inv_def)

text \<open>What the invariant looks at, and a change that one thread sees as receiver.\<close>

lemma tri_ok_cong:
  "(st' = Wrong \<longleftrightarrow> st = Wrong) \<Longrightarrow> (st' = Received \<longleftrightarrow> st = Received) \<Longrightarrow> (su' = Starts \<longleftrightarrow> su = Starts) \<Longrightarrow>
   tri_ok st' su' n m = tri_ok st su n m"
  by (simp add: tri_ok_def)

lemma tri_inv_update:
  assumes inv: "tri_inv a b c loc ph ib sv"
    and st: "\<And>u. stage_in a b c loc ph sv u = st u" "\<And>u. stage_in a b c loc' ph' sv' u = st' u"
    and own: "tri_ok (st' d) (st' (prev a b c d)) (number a b (prev a b c d)) (mail_of ib' (prev a b c d) d)"
    and receives: "\<And>u. u \<in> corners a b c \<Longrightarrow> u \<noteq> d \<Longrightarrow> (st' u = Wrong \<longleftrightarrow> st u = Wrong) \<and> (st' u = Received \<longleftrightarrow> st u = Received) \<and>
      mail_of ib' (prev a b c u) u = mail_of ib (prev a b c u) u"
    and sends: "\<And>u. u \<in> corners a b c \<Longrightarrow> u \<noteq> prev a b c d \<Longrightarrow> st' u = Starts \<longleftrightarrow> st u = Starts"
    and d: "d \<in> corners a b c"
  shows "tri_inv a b c loc' ph' ib' sv'"
  unfolding tri_inv_def st
proof (intro conjI ballI)
  note ids = tri_ids[OF inv]
  show "ids a b c" by (rule ids)
  fix u assume u: "u \<in> corners a b c"
  show "tri_ok (st' u) (st' (prev a b c u)) (number a b (prev a b c u)) (mail_of ib' (prev a b c u) u)"
  proof (cases "u = d")
    case False
    have p: "prev a b c u \<in> corners a b c" using prev_corner[OF ids u] by simp
    have "prev a b c u \<noteq> prev a b c d" using prev_inj[OF ids u d] False by blast
    from sends[OF p this] receives[OF u False] tri_thread[OF inv u] show ?thesis
      unfolding st by (simp add: tri_ok_def)
  qed (use own in simp)
qed

lemma tri_inv_frame:
  assumes inv: "tri_inv a b c loc ph ib sv"
    and same: "\<And>t. t \<in> corners a b c \<Longrightarrow> stage_in a b c loc' ph' sv' t = stage_in a b c loc ph sv t"
      "\<And>t. t \<in> corners a b c \<Longrightarrow> mail_of ib' (prev a b c t) t = mail_of ib (prev a b c t) t"
  shows "tri_inv a b c loc' ph' ib' sv'"
  unfolding tri_inv_def
proof (intro conjI ballI)
  note ids = tri_ids[OF inv]
  show "ids a b c" by (rule ids)
  fix t assume t: "t \<in> corners a b c"
  have p: "prev a b c t \<in> corners a b c" using prev_corner[OF ids t] by simp
  show "tri_ok (stage_in a b c loc' ph' sv' t) (stage_in a b c loc' ph' sv' (prev a b c t))
      (number a b (prev a b c t)) (mail_of ib' (prev a b c t) t)"
    unfolding same[OF t] same(1)[OF p] by (rule tri_thread[OF inv t])
qed

section \<open>The invariant is kept\<close>

lemma tri_send_cases:
  assumes "ids a b c" "triangle a b c t l (Send d v) = Some f"
  obtains (letter) "t \<in> corners a b c" "l = Sends" "d \<in> corners a b c" "prev a b c d = t" "v = U (number a b t)" "f = (\<lambda>_. Receives)"
  | (ends) r where "t \<in> corners a b c" "l = Reports r" "d = SSI_thread" "f = (\<lambda>_. Ends)"
  | (other) "t \<notin> corners a b c" "f = (\<lambda>_. Elsewhere)"
  using assms by (cases l) (auto simp: corners_def triangle_def t1_def t2_def t3_def prev_def number_def split: if_splits)

lemma tri_recv_cases:
  assumes "ids a b c" "triangle a b c t l (Recv who x) = Some f"
  obtains (letter) "t \<in> corners a b c" "l = Receives" "who = Some (prev a b c t)" "f = (\<lambda>v. Reports (sender_of v))"
  | (ends) "t \<in> corners a b c" "l = Ends" "who = Some SSI_thread" "f = (\<lambda>_. After)"
  | (other) "t \<notin> corners a b c" "f = (\<lambda>_. Elsewhere)"
  using assms by (cases l) (auto simp: corners_def triangle_def t1_def t2_def t3_def prev_def number_def split: if_splits)

lemma mail_of_append [simp]:
  "mail_of (ib(d := ib d @ [(Some u, v)])) x t = mail_of ib x t @ (if t = d \<and> x = u then [v] else [])"
  by (simp add: mail_of_def)

lemma mail_of_fetch:
  assumes "find (wanted (Some who)) (ib d) = Some (w, v)"
  shows "mail_of ib u t = (if t = d \<and> w = Some u then [v] else []) @ mail_of (ib(d := remove_first (wanted (Some who)) (ib d))) u t"
  using filter_fetch[OF assms, of u] by (auto simp: mail_of_def)

text \<open>A letter that the test does not see.\<close>

lemma tri_letter:
  assumes co: "coupled (triangle a b c) (loc, k)" and inv: "tri_inv a b c loc (k_phase k) (k_inbox k) (k_saved k)"
    and other: "\<not> (d \<in> corners a b c \<and> prev a b c d = u)" and run: "m_send d u v k = (r, k')"
  shows "tri_inv a b c loc (k_phase k') (k_inbox k') (k_saved k')"
proof (rule m_send_cases[of d u v k])
  assume "m_send d u v k = (SEND_FAILURE, k)"
  with inv run show ?thesis by simp
next
  fix who assume w: "m_send d u v k = (SEND_SUCCESS, wake d (Some u) v k)" "k_phase k d = Awaits who" "who = None \<or> who = Some u"
  have k': "k' = wake d (Some u) v k" using w(1) run by simp
  obtain l x where l: "loc d = Calling l (Recv who x)" using coupled_awaits[OF co w(2)] by blast
  then obtain f where f: "triangle a b c d l (Recv who x) = Some f" using coupled_calling[OF co l] by blast
  show ?thesis
  proof (rule tri_inv_frame[OF inv])
    fix t assume "t \<in> corners a b c"
    with other w(3) l show "stage_in a b c loc (k_phase k') (k_saved k') t = stage_in a b c loc (k_phase k) (k_saved k) t"
      by (cases rule: tri_recv_cases[OF tri_ids[OF inv] f]) (auto simp: k' wake_def stage_in_def)
    show "mail_of (k_inbox k') (prev a b c t) t = mail_of (k_inbox k) (prev a b c t) t" by (simp add: k' wake_def)
  qed
next
  assume "m_send d u v k = (SEND_SUCCESS, k\<lparr>k_inbox := (k_inbox k)(d := k_inbox k d @ [(Some u, v)]), k_room := k_room k - 1\<rparr>)"
  with run have "k' = k\<lparr>k_inbox := (k_inbox k)(d := k_inbox k d @ [(Some u, v)]), k_room := k_room k - 1\<rparr>" by simp
  with other show ?thesis by (intro tri_inv_frame[OF inv]) auto
qed

text \<open>The letter of a thread of the triangle to the next one.\<close>

lemma tri_pass:
  assumes co: "coupled (triangle a b c) (loc, k)" and inv: "tri_inv a b c loc (k_phase k) (k_inbox k) (k_saved k)"
    and t: "t \<in> corners a b c" "loc t = At Sends" "d \<in> corners a b c" "prev a b c d = t"
    and run: "m_send d t (U (number a b t)) k = (SEND_SUCCESS, k')"
  shows "tri_inv a b c (loc(t := At Receives)) (k_phase k') (k_inbox k') (k_saved k')"
proof -
  let ?v = "U (number a b t)" and ?st = "stage_in a b c loc (k_phase k) (k_saved k)"
  note ids = tri_ids[OF inv]
  have td: "t \<noteq> d" using prev_corner[OF ids t(3)] t(4) by simp
  have p: "prev a b c u = t \<Longrightarrow> u \<in> corners a b c \<Longrightarrow> u = d" for u using prev_inj[OF ids _ t(3)] t(4) by simp
  have st: "?st t = Starts" using t by (simp add: stage_in_def)
  with tri_thread[OF inv t(3)] t(4) have d: "?st d \<noteq> Wrong" "?st d \<noteq> Received" "mail_of (k_inbox k) t d = []"
    by (simp_all add: tri_ok_def)
  show ?thesis
  proof (rule m_send_cases[of d t ?v k])
    fix who assume w: "m_send d t ?v k = (SEND_SUCCESS, wake d (Some t) ?v k)" "k_phase k d = Awaits who" "who = None \<or> who = Some t"
    have k': "k' = wake d (Some t) ?v k" using w(1) run by simp
    obtain l x where l: "loc d = Calling l (Recv who x)" using coupled_awaits[OF co w(2)] by blast
    then obtain f where f: "triangle a b c d l (Recv who x) = Some f" using coupled_calling[OF co l] by blast
    have lr: "l = Receives"
      by (cases rule: tri_recv_cases[OF ids f]) (use d(2) l t(3) in \<open>auto simp: stage_in_def\<close>)
    have st': "stage_in a b c (loc(t := At Receives)) (k_phase k') (k_saved k') u =
        (if u = t then Waits else if u = d then Received else ?st u)" for u
      using l lr t(4) td by (simp add: stage_in_def k' wake_def)
    have mail: "mail_of (k_inbox k') x u = mail_of (k_inbox k) x u" for x u by (simp add: k' wake_def)
    have "?st d = Waits" using l lr d by (auto simp: stage_in_def split: if_splits)
    with d st td t(4) show ?thesis
      by (intro tri_inv_update[OF inv refl st' _ _ _ t(3)]) (auto simp: mail tri_ok_def)
  next
    assume "m_send d t ?v k = (SEND_SUCCESS, k\<lparr>k_inbox := (k_inbox k)(d := k_inbox k d @ [(Some t, ?v)]), k_room := k_room k - 1\<rparr>)"
    with run have k': "k' = k\<lparr>k_inbox := (k_inbox k)(d := k_inbox k d @ [(Some t, ?v)]), k_room := k_room k - 1\<rparr>" by simp
    have st': "stage_in a b c (loc(t := At Receives)) (k_phase k') (k_saved k') u = (if u = t then Waits else ?st u)" for u
      by (simp add: stage_in_def k')
    from d st td t(4) show ?thesis
      by (intro tri_inv_update[OF inv refl st' _ _ _ t(3)]) (auto simp: k' tri_ok_def)
  qed (use run send_failure_neq in \<open>auto dest: sym\<close>)
qed

lemma tri_send:
  assumes co: "coupled (triangle a b c) (loc, k)" and inv: "tri_inv a b c loc (k_phase k) (k_inbox k) (k_saved k)"
    and l: "loc t = At l" "triangle a b c t l (Send d v) = Some f" and run: "m_send d t v k = (SEND_SUCCESS, k')"
  shows "tri_inv a b c (loc(t := At (f r))) (k_phase k') (k_inbox k') (k_saved k')"
using tri_ids[OF inv] l(2)
proof (cases rule: tri_send_cases)
  case letter
  with tri_pass[OF co inv letter(1) _ letter(3,4)] l(1) run show ?thesis by simp
next
  case (ends r')
  have "tri_inv a b c loc (k_phase k') (k_inbox k') (k_saved k')"
    by (rule tri_letter[OF co inv _ run]) (use ends ssi_no_corner[OF tri_ids[OF inv]] in simp)
  moreover have "r' = Some (prev a b c t)"
    using tri_thread[OF inv ends(1)] l(1) ends(2) by (simp add: tri_ok_def stage_in_def split: if_splits)
  ultimately show ?thesis using ends l(1) by (elim tri_inv_frame) (auto simp: stage_in_def)
next
  case other
  then have "tri_inv a b c loc (k_phase k') (k_inbox k') (k_saved k')"
    using prev_corner[OF tri_ids[OF inv]] by (intro tri_letter[OF co inv _ run]) auto
  then show ?thesis by (rule tri_inv_frame) (use other in \<open>auto simp: stage_in_def\<close>)
qed

text \<open>A receive that finds a letter.\<close>

lemma tri_fetch:
  assumes inv: "tri_inv a b c loc ph ib sv" and l: "loc t = At l" "triangle a b c t l (Recv who x) = Some f"
    and y: "find (wanted (Some who)) (ib t) = Some (w, v)"
  shows "tri_inv a b c (loc(t := At (f (of_tcb w)))) ph (ib(t := remove_first (wanted (Some who)) (ib t))) sv"
proof -
  let ?ib = "ib(t := remove_first (wanted (Some who)) (ib t))"
  note ids = tri_ids[OF inv]
  have n: "mail_of ib u s = (if s = t \<and> w = Some u then [v] else []) @ mail_of ?ib u s" for u s using y by (rule mail_of_fetch)
  show ?thesis using ids l(2)
  proof (cases rule: tri_recv_cases)
    case letter
    let ?p = "prev a b c t"
    have w: "w = Some ?p" using find_SomeD[OF y] letter(3) by (auto simp: wanted_def)
    have st: "stage_in a b c (loc(t := At (f (of_tcb w)))) ph sv u = (if u = t then Received else stage_in a b c loc ph sv u)" for u
      using w letter(4) by (simp add: stage_in_def)
    have t: "stage_in a b c loc ph sv t = Waits" using l(1) letter(2) by (simp add: stage_in_def)
    have "mail_of ib ?p t = v # mail_of ?ib ?p t" using n[of ?p t] w by simp
    with tri_thread[OF inv letter(1)] t have "stage_in a b c loc ph sv ?p \<noteq> Starts" "mail_of ?ib ?p t = []"
      by (auto simp: tri_ok_def split: if_splits)
    with t n prev_corner[OF ids letter(1)] show ?thesis
      by (intro tri_inv_update[OF inv refl st _ _ _ letter(1)]) (auto simp: tri_ok_def)
  next
    case ends
    have w: "w = Some SSI_thread" using find_SomeD[OF y] ends(3) by (auto simp: wanted_def)
    then have "mail_of ?ib (prev a b c u) u = mail_of ib (prev a b c u) u" if "u \<in> corners a b c" for u
      using n[of "prev a b c u" u] prev_corner[OF ids that] by auto
    then show ?thesis using ends l(1) by (intro tri_inv_frame[OF inv]) (auto simp: stage_in_def)
  next
    case other
    then have "mail_of ?ib (prev a b c u) u = mail_of ib (prev a b c u) u" if "u \<in> corners a b c" for u
      using n[of "prev a b c u" u] that by auto
    with other show ?thesis by (intro tri_inv_frame[OF inv]) (auto simp: stage_in_def)
  qed
qed

text \<open>A receive that blocks, a return from it, and the end of a slice change no stage.\<close>

lemma tri_block:
  assumes inv: "tri_inv a b c loc ph ib sv" and l: "loc t = At l" "triangle a b c t l (Recv who x) \<noteq> None"
  shows "tri_inv a b c (loc(t := Calling l (Recv who x))) (ph(t := Awaits who)) ib (sv(t := old))"
proof -
  obtain f where f: "triangle a b c t l (Recv who x) = Some f" using l(2) by blast
  show ?thesis
    by (cases rule: tri_recv_cases[OF tri_ids[OF inv] f]) (use l(1) in \<open>auto intro!: tri_inv_frame[OF inv] simp: stage_in_def\<close>)
qed

lemma tri_return:
  assumes inv: "tri_inv a b c loc ph ib sv" and l: "loc t = Calling l (Recv who x)" "triangle a b c t l (Recv who x) = Some f"
    and ph: "\<And>w. ph t \<noteq> Awaits w" and u: "a1 (sv t) = Tcb u"
  shows "tri_inv a b c (loc(t := At (f (Tcb u)))) ph ib sv"
using tri_ids[OF inv] l(2)
proof (cases rule: tri_recv_cases)
  case letter
  then have "u = prev a b c t"
    using tri_thread[OF inv letter(1)] l(1) ph u by (auto simp: tri_ok_def stage_in_def split: if_splits)
  then show ?thesis using letter l(1) ph u by (intro tri_inv_frame[OF inv]) (auto simp: stage_in_def)
qed (use l(1) in \<open>auto intro!: tri_inv_frame[OF inv] simp: stage_in_def\<close>)

lemma tri_preempt: "tri_inv a b c loc ph ib sv \<Longrightarrow> loc t = At l \<Longrightarrow> tri_inv a b c loc ph ib (sv(t := old))"
proof (rule tri_inv_frame)
  show "stage_in a b c loc ph (sv(t := old)) u = stage_in a b c loc ph sv u" if "loc t = At l" for u
    using that by (cases "(prev a b c u, loc u, ph u, a1 (sv u))" rule: stage_of.cases) (auto simp: stage_in_def)
qed simp_all

interpretation triangle: protocol "triangle a b c" "\<lambda>_. True" "\<lambda>r. r = SEND_SUCCESS" "tri_inv a b c" for a b c
proof unfold_locales
  fix loc k t l d v f r k'
  assume "coupled (triangle a b c) (loc, k)" "tri_inv a b c loc (k_phase k) (k_inbox k) (k_saved k)" "loc t = At l"
    "triangle a b c t l (Send d v) = Some f" "m_send d t v k = (r, k')" "r = SEND_SUCCESS"
  then show "tri_inv a b c (loc(t := At (f (U r)))) (k_phase k') (k_inbox k') (k_saved k')"
    by (intro tri_send[where loc = loc and k = k and l = l and d = d and v = v and f = f]) simp_all
next
  fix loc k d r k'
  assume c: "coupled (triangle a b c) (loc, k)" and i: "tri_inv a b c loc (k_phase k) (k_inbox k) (k_saved k)"
    and run: "m_send d SSI_thread NULL k = (r, k')"
  show "tri_inv a b c loc (k_phase k') (k_inbox k') (k_saved k')"
    by (rule tri_letter[OF c i _ run]) (use prev_corner[OF tri_ids[OF i]] in blast)
qed (rule tri_fetch tri_block tri_return tri_preempt; assumption)+

section \<open>The kernel runs the test\<close>

text \<open>
  The start: the three threads are about to send, none of them is pending for another, and the other
  threads are anywhere.
\<close>

definition tri_start :: "tid \<Rightarrow> tid \<Rightarrow> tid \<Rightarrow> (tid \<Rightarrow> tri_point point) \<Rightarrow> machine \<Rightarrow> bool" where
  "tri_start a b c loc k \<longleftrightarrow> ids a b c \<and>
     (\<forall>t \<in> corners a b c. loc t = At Sends \<and> k_phase k t = Runnable \<and> (\<forall>l \<in> set (k_inbox k t). fst l \<notin> Some ` corners a b c)) \<and>
     (\<forall>t. t \<notin> corners a b c \<longrightarrow>
        (case k_phase k t of Awaits who \<Rightarrow> \<exists>x. loc t = Calling Elsewhere (Recv who x) | _ \<Rightarrow> loc t = At Elsewhere))"

lemma tri_start_holds:
  assumes ok: "system_ok s" and st: "tri_start a b c loc (abs_machine s)"
  shows "triangle.holds a b c (loc, abs_machine s)"
proof -
  let ?k = "abs_machine s"
  have ids: "ids a b c" using st by (simp add: tri_start_def)
  have corner: "loc t = At Sends" "k_phase ?k t = Runnable" "\<forall>l \<in> set (k_inbox ?k t). fst l \<notin> Some ` corners a b c"
    if "t \<in> corners a b c" for t using st that by (auto simp: tri_start_def)
  have "coupled (triangle a b c) (loc, ?k)"
  proof (rule coupled_start[OF ok])
    fix t
    show "case k_phase ?k t of Awaits who \<Rightarrow> \<exists>l x. loc t = Calling l (Recv who x) \<and> triangle a b c t l (Recv who x) \<noteq> None
      | _ \<Rightarrow> \<exists>l. loc t = At l"
    proof (cases "t \<in> corners a b c")
      case False
      then have "case k_phase ?k t of Awaits who \<Rightarrow> \<exists>x. loc t = Calling Elsewhere (Recv who x) | _ \<Rightarrow> loc t = At Elsewhere"
        using st by (auto simp: tri_start_def)
      with False show ?thesis by (cases "k_phase ?k t") (auto simp: corners_def triangle_def)
    qed (use corner in simp)
  qed
  moreover have "tri_inv a b c loc (k_phase ?k) (k_inbox ?k) (k_saved ?k)"
    unfolding tri_inv_def
  proof (intro conjI ballI)
    fix t assume t: "t \<in> corners a b c"
    have p: "prev a b c t \<in> corners a b c" using prev_corner[OF ids t] by simp
    have "mail_of (k_inbox ?k) (prev a b c t) t = []"
      using corner(3)[OF t] p by (auto simp: mail_of_def filter_empty_conv)
    then show "tri_ok (stage_in a b c loc (k_phase ?k) (k_saved ?k) t) (stage_in a b c loc (k_phase ?k) (k_saved ?k) (prev a b c t))
      (number a b (prev a b c t)) (mail_of (k_inbox ?k) (prev a b c t) t)"
      using corner(1)[OF t] corner(1)[OF p] by (simp add: tri_ok_def stage_in_def)
  qed (rule ids)
  ultimately show ?thesis by (simp add: triangle.holds_def)
qed

text \<open>What a thread reports; and whether its letter has arrived, which it also has when it was just woken.\<close>

definition reports :: "(tid \<Rightarrow> tri_point point) \<Rightarrow> tid \<Rightarrow> tid option \<Rightarrow> bool" where
  "reports loc t r \<longleftrightarrow> loc t = At (Reports r)"

definition has_received :: "tid \<Rightarrow> tid \<Rightarrow> tid \<Rightarrow> (tid \<Rightarrow> tri_point point) \<Rightarrow> machine \<Rightarrow> tid \<Rightarrow> bool" where
  "has_received a b c loc k t \<longleftrightarrow> stage_in a b c loc (k_phase k) (k_saved k) t = Received"

lemma tri_reports:
  assumes inv: "tri_inv a b c loc ph ib sv" and t: "t \<in> corners a b c" "reports loc t r"
  shows "r = Some (prev a b c t)"
  using tri_thread[OF inv t(1)] t(2) by (simp add: reports_def stage_in_def tri_ok_def split: if_splits)

text \<open>A thread that waits for its letter waits for one that has not called yet.\<close>

lemma tri_goes_on:
  assumes co: "coupled (triangle a b c) (loc, k)" and inv: "tri_inv a b c loc (k_phase k) (k_inbox k) (k_saved k)"
    and t: "t \<in> corners a b c" "\<not> has_received a b c loc k t"
  shows "\<exists>u \<in> corners a b c. \<not> has_received a b c loc k u \<and> (\<forall>who. k_phase k u \<noteq> Awaits who)"
proof (cases "\<exists>who. k_phase k t = Awaits who")
  case True
  let ?p = "prev a b c t"
  obtain who where who: "k_phase k t = Awaits who" using True by blast
  obtain l x where l: "loc t = Calling l (Recv who x)" using coupled_awaits[OF co who] by blast
  then obtain f where "triangle a b c t l (Recv who x) = Some f" using coupled_calling[OF co l] by blast
  with tri_ids[OF inv] have "l = Receives \<and> who = Some ?p"
    by (cases rule: tri_recv_cases) (use t l in \<open>auto simp: has_received_def stage_in_def\<close>)
  with l who have w: "stage_in a b c loc (k_phase k) (k_saved k) t = Waits" "k_phase k t = Awaits (Some ?p)" by (simp_all add: stage_in_def)
  have "\<forall>l \<in> set (k_inbox k t). \<not> wanted (Some (Some ?p)) l" using coupled_waits[OF co] w(2) by (simp add: waits_rightly_def)
  then have "mail_of (k_inbox k) ?p t = []" by (auto simp: mail_of_def wanted_def filter_empty_conv)
  with tri_thread[OF inv t(1)] w(1) have p: "stage_in a b c loc (k_phase k) (k_saved k) ?p = Starts" by (simp add: tri_ok_def split: if_splits)
  then have "loc ?p = At Sends"
    by (cases "(prev a b c ?p, loc ?p, k_phase k ?p, a1 (k_saved k ?p))" rule: stage_of.cases) (auto simp: stage_in_def split: if_splits)
  then have "k_phase k ?p \<noteq> Awaits who" for who using coupled_awaits[OF co, of ?p who] by auto
  with p prev_corner[OF tri_ids[OF inv] t(1)] show ?thesis by (intro bexI[of _ ?p]) (simp_all add: has_received_def)
qed (use t in blast)

lemma kernel_triangle:
  assumes ok: "system_ok s" and st: "tri_start a b c loc (abs_machine s)" and run: "scheduled_in (corners a b c) (abs_machine s)"
    and en: "p_allowed (triangle a b c) es (loc, abs_machine s)"
    and good: "along (sends_ok (\<lambda>r. r = SEND_SUCCESS)) es (abs_machine s)"
  shows "\<exists>outs s' loc'. k_run es s = Some (outs, s') \<and> p_run (triangle a b c) es (loc, abs_machine s) = (loc', abs_machine s') \<and>
    (\<forall>t \<in> corners a b c. \<forall>r. reports loc' t r \<longrightarrow> r = Some (prev a b c t)) \<and>
    ((\<forall>t \<in> corners a b c. has_received a b c loc' (abs_machine s') t) \<or>
     (\<exists>u \<in> corners a b c. \<not> has_received a b c loc' (abs_machine s') u \<and>
        (u \<in> set (k_ready (abs_machine s')) \<or> k_running (abs_machine s') = Some u)))"
proof -
  obtain outs s' loc' where r: "k_run es s = Some (outs, s')" "p_run (triangle a b c) es (loc, abs_machine s) = (loc', abs_machine s')"
    "triangle.holds a b c (loc', abs_machine s')"
    using triangle.kernel_holds[OF ok tri_start_holds[OF ok st] en good] by blast
  let ?k = "abs_machine s'"
  have co: "coupled (triangle a b c) (loc', ?k)" and inv: "tri_inv a b c loc' (k_phase ?k) (k_inbox ?k) (k_saved ?k)"
    using r(3) by (simp_all add: triangle.holds_def)
  have "dead_still loc (abs_machine s) loc (abs_machine s)" by (simp add: dead_still_def)
  from run_schedules[OF ok run this en r(2)] have sch: "scheduled_in (corners a b c) ?k" "dead_still loc (abs_machine s) loc' ?k" by simp_all
  have live: "k_phase ?k u \<noteq> Dead" if "u \<in> corners a b c" for u
    using sch(2) st that by (auto simp: dead_still_def tri_start_def)
  have "\<exists>u \<in> corners a b c. \<not> has_received a b c loc' ?k u \<and> (u \<in> set (k_ready ?k) \<or> k_running ?k = Some u)"
    if t: "t \<in> corners a b c" "\<not> has_received a b c loc' ?k t" for t
  proof -
    obtain u where u: "u \<in> corners a b c" "\<not> has_received a b c loc' ?k u" "\<forall>who. k_phase ?k u \<noteq> Awaits who"
      using tri_goes_on[OF co inv t] by blast
    then have "k_phase ?k u = Runnable" using live[OF u(1)] by (cases "k_phase ?k u") auto
    with u sch(1) show ?thesis by (auto simp: scheduled_in_def)
  qed
  with r(1,2) tri_reports[OF inv] show ?thesis by blast
qed

end
