(* ===== verification/LockRun.thy ===== *)
theory LockRun imports Progress begin

text \<open>
  A concrete run of the critical section, with the test thread as the server \<open>cs_thread\<close> and the SSI thread
  as a client: the client asks, the server grants, and the client goes on inside.
\<close>

definition p2_call :: "u32 \<Rightarrow> val \<Rightarrow> event" where
  "p2_call n x = Syscall (zero_state\<lparr>a1 := U n, a2 := x, a3 := NULL, pc := U 0x8000, cpsr := U STATUS_SYS_MODE\<rparr>)
     demo_mem 5000 kernel_cpu 0x7000"

definition one_entry :: "event list" where
  "one_entry =
     [p2_call SYS_SEND (Tcb (Thread 0)), p2_call SYS_RECV (Tcb (Thread 0)), p2_call SYS_RECV NULL,
      p2_call SYS_SEND (Tcb SSI_thread), p2_call SYS_RECV (Tcb SSI_thread)]"

definition entry_points :: "tid \<Rightarrow> p2_point point" where
  "entry_points = (\<lambda>_. At Outside)(Thread 0 := At Cs_recv)"

lemma demo_phases [simp]: "k_phase (abs_machine demo_start) t \<noteq> Awaits who" "k_inbox (abs_machine demo_start) t = []"
  "k_device (abs_machine demo_start) = None"
proof -
  have "t_status (threads demo_start t) \<noteq> T_STATUS_W4MSG"
    by (simp add: demo_start_facts first_threads_def ssi_tcb_def test_tcb_def zero_tcb_def)
  then show "k_phase (abs_machine demo_start) t \<noteq> Awaits who"
    unfolding abs_machine_eq[OF demo_start_kernel] by (simp add: phase_of_iff)
  show "k_inbox (abs_machine demo_start) t = []" "k_device (abs_machine demo_start) = None"
    unfolding abs_machine_eq[OF demo_start_kernel] by (simp_all add: demo_start_facts view_def inbox_of_def)
qed

lemma entry_start: "lock_start (Thread 0) entry_points (abs_machine demo_start)"
  by (auto simp: lock_start_def entry_points_def demo_phases letters_def split: phase.split)

lemma p2_call_args [simp]: "call_of (zero_state\<lparr>a1 := U SYS_SEND, a2 := Tcb d, a3 := NULL, pc := x, cpsr := U STATUS_SYS_MODE\<rparr>) = Some (Send d NULL)"
  "call_of (zero_state\<lparr>a1 := U SYS_RECV, a2 := of_tcb w, a3 := NULL, pc := x, cpsr := U STATUS_SYS_MODE\<rparr>) = Some (Recv w 0)"
  by (simp_all add: is_message_def sys_defs)

lemma send_enabled:
  assumes "k_running k = Some c" "loc c = At l" "P c l (Send d NULL) \<noteq> None" "valid_tid d"
  shows "p_enabled P (p2_call SYS_SEND (Tcb d)) (loc, k)"
proof -
  have "m_enabled (p2_call SYS_SEND (Tcb d)) k"
    using assms(1,4) by (simp add: p2_call_def kernel_cpu_mode is_message_def sys_defs)
  then show ?thesis using assms by (simp add: p_enabled_def p2_call_def del: call_of.simps)
qed

lemma recv_enabled:
  assumes "k_running k = Some c" "loc c = At l" "P c l (Recv w 0) \<noteq> None" "\<And>d. w = Some d \<Longrightarrow> valid_tid d"
  shows "p_enabled P (p2_call SYS_RECV (of_tcb w)) (loc, k)"
proof -
  have "m_enabled (p2_call SYS_RECV (of_tcb w)) k"
    using assms(1,4) by (cases w; simp add: p2_call_def kernel_cpu_mode is_message_def sys_defs)
  then show ?thesis using assms by (simp add: p_enabled_def p2_call_def del: call_of.simps)
qed

text \<open>The five steps.\<close>

lemma send_step:
  assumes "k_running k = Some c" "loc c = At l" "P c l (Send d NULL) = Some f" "m_send d c NULL (k\<lparr>k_ram := demo_mem\<rparr>) = (r, k')"
  shows "\<exists>st. p_step P (p2_call SYS_SEND (Tcb d)) (loc, k) = (Ldst st, loc(c := At (f (U r))), k')"
  using assms m_send_fields(1)[of d c NULL "k\<lparr>k_ram := demo_mem\<rparr>"] by (simp add: p_step_def p2_call_def is_message_def running_def m_message_def)

lemma fetch_step:
  assumes "k_running k = Some c" "loc c = At l" "P c l (Recv None 0) = Some f" "k_inbox k c = [(Some d, NULL)]"
  shows "\<exists>st k'. p_step P (p2_call SYS_RECV NULL) (loc, k) = (Ldst st, loc(c := At (f (Tcb d))), k') \<and>
    k_running k' = Some c \<and> k_ready k' = k_ready k \<and> k_phase k' = k_phase k \<and> k_inbox k' = (k_inbox k)(c := [])"
  using assms by (simp add: p_step_def p2_call_def is_message_def running_def m_message_def m_recv_def sys_defs wanted_def)

lemma block_step:
  assumes "k_running k = Some c" "loc c = At l" "k_inbox k c = []" "k_ready k = t # ts" "t \<noteq> c"
  shows "\<exists>st k'. p_step P (p2_call SYS_RECV (Tcb d)) (loc, k) =
      (Ldst st, leave P (Ldst (k_saved k t)) (Some t) (loc(c := Calling l (Recv (Some d) 0))), k') \<and>
    k_running k' = Some t \<and> k_ready k' = ts \<and> k_phase k' = (k_phase k)(c := Awaits (Some d)) \<and> k_inbox k' = k_inbox k"
  using assms by (simp add: p_step_def p2_call_def is_message_def running_def m_message_def m_recv_def sys_defs dispatch_def)

lemma demo_phase_0: "k_phase (abs_machine demo_start) (Thread 0) = Runnable"
  unfolding abs_machine_eq[OF demo_start_kernel] by (simp add: demo_start_facts phase_of_def test_tcb_def)

lemma queue_letter:
  assumes "k_phase k d = Runnable" "k_room k = 40"
  shows "\<exists>k'. m_send d c v k = (SEND_SUCCESS, k') \<and> k_running k' = k_running k \<and> k_ready k' = k_ready k \<and> k_phase k' = k_phase k \<and>
    k_inbox k' = (k_inbox k)(d := k_inbox k d @ [(Some c, v)])"
  using assms by (simp add: m_send_def put_letter_def)

lemma wake_letter:
  assumes "k_phase k d = Awaits (Some c)"
  shows "\<exists>k'. m_send d c v k = (SEND_SUCCESS, k') \<and> k_running k' = k_running k \<and> k_ready k' = k_ready k @ [d] \<and>
    k_phase k' = (k_phase k)(d := Runnable) \<and> k_inbox k' = k_inbox k"
  using assms by (simp add: m_send_def wake_def)

text \<open>After each step: who runs, who is ready, who waits, and where the two threads are.\<close>

lemma one_entry_run:
  "p_allowed (p2_program (Thread 0)) one_entry (entry_points, abs_machine demo_start) \<and>
   (\<exists>loc k. p_run (p2_program (Thread 0)) one_entry (entry_points, abs_machine demo_start) = (loc, k) \<and> in_section (Thread 0) loc k SSI_thread)"
proof -
  let ?P = "p2_program (Thread 0)" and ?k0 = "abs_machine demo_start"
  let ?loc1 = "entry_points(SSI_thread := At Csin_recv)"
  let ?loc2 = "entry_points(SSI_thread := Calling Csin_recv (Recv (Some (Thread 0)) 0))"
  let ?loc3 = "?loc2(Thread 0 := At (Cs_send (Some SSI_thread)))"
  let ?loc4 = "?loc2(Thread 0 := At (Cs_release (Some SSI_thread)))"
  let ?loc5 = "?loc4(SSI_thread := At Inside, Thread 0 := Calling (Cs_release (Some SSI_thread)) (Recv (Some SSI_thread) 0))"
  have P: "?P SSI_thread = client (Thread 0)" "?P (Thread 0) = cs_thread" by (simp_all add: p2_program_def)
  have l0: "entry_points SSI_thread = At Outside" "entry_points (Thread 0) = At Cs_recv" by (simp_all add: entry_points_def)
  obtain k1 where k1: "m_send (Thread 0) SSI_thread NULL (?k0\<lparr>k_ram := demo_mem\<rparr>) = (SEND_SUCCESS, k1)" "k_running k1 = Some SSI_thread"
    "k_ready k1 = [Thread 0]" "k_inbox k1 = (k_inbox ?k0)(Thread 0 := [(Some SSI_thread, NULL)])"
    using queue_letter[of "?k0\<lparr>k_ram := demo_mem\<rparr>" "Thread 0" SSI_thread NULL] demo_machine demo_phase_0 by auto
  obtain st1 where s1: "p_step ?P (p2_call SYS_SEND (Tcb (Thread 0))) (entry_points, ?k0) = (Ldst st1, ?loc1, k1)"
    using send_step[where loc = entry_points and l = Outside and P = ?P and f = "\<lambda>_. Csin_recv", OF demo_machine(1) _ _ k1(1)] l0 P by auto
  obtain st2 k2 where s2: "p_step ?P (p2_call SYS_RECV (Tcb (Thread 0))) (?loc1, k1) = (Ldst st2, ?loc2, k2)"
    "k_running k2 = Some (Thread 0)" "k_ready k2 = []" "k_phase k2 SSI_thread = Awaits (Some (Thread 0))" "k_inbox k2 = k_inbox k1"
    using block_step[where loc = ?loc1 and l = Csin_recv and P = ?P and d = "Thread 0", OF k1(2) _ _ k1(3)] P k1(4) l0 by auto
  have n2: "k_inbox k2 (Thread 0) = [(Some SSI_thread, NULL)]" using s2 k1 by simp
  have f: "?P (Thread 0) Cs_recv (Recv None 0) = Some (\<lambda>v. Cs_send (sender_of v))" using P by simp
  obtain st3 k3 where s3: "p_step ?P (p2_call SYS_RECV NULL) (?loc2, k2) = (Ldst st3, ?loc3, k3)"
    "k_running k3 = Some (Thread 0)" "k_ready k3 = []" "k_phase k3 SSI_thread = Awaits (Some (Thread 0))" "k_inbox k3 (Thread 0) = []"
    using fetch_step[where loc = ?loc2 and l = Cs_recv and P = ?P, OF s2(2) _ f n2] s2 l0 by auto
  obtain k4 where k4: "m_send SSI_thread (Thread 0) NULL (k3\<lparr>k_ram := demo_mem\<rparr>) = (SEND_SUCCESS, k4)" "k_running k4 = Some (Thread 0)"
    "k_ready k4 = [SSI_thread]" "k_inbox k4 (Thread 0) = []"
    using wake_letter[of "k3\<lparr>k_ram := demo_mem\<rparr>" SSI_thread "Thread 0" NULL] s3 by auto
  obtain st4 where s4: "p_step ?P (p2_call SYS_SEND (Tcb SSI_thread)) (?loc3, k3) = (Ldst st4, ?loc4, k4)"
    using send_step[where loc = ?loc3 and l = "Cs_send (Some SSI_thread)" and P = ?P and f = "\<lambda>_. Cs_release (Some SSI_thread)", OF s3(2) _ _ k4(1)] P by auto
  obtain st5 k5 where s5: "p_step ?P (p2_call SYS_RECV (Tcb SSI_thread)) (?loc4, k4) = (Ldst st5, ?loc5, k5)"
    using block_step[where loc = ?loc4 and l = "Cs_release (Some SSI_thread)" and P = ?P and d = SSI_thread, OF k4(2) _ k4(4,3)] P by (auto simp: fun_upd_twist)
  have "p_enabled ?P (p2_call SYS_SEND (Tcb (Thread 0))) (entry_points, ?k0)" "p_enabled ?P (p2_call SYS_SEND (Tcb SSI_thread)) (?loc3, k3)"
    using send_enabled[where loc = entry_points and l = Outside and P = ?P and d = "Thread 0", OF demo_machine(1)]
      send_enabled[where loc = ?loc3 and l = "Cs_send (Some SSI_thread)" and P = ?P and d = SSI_thread, OF s3(2)] P l0
    by (simp_all add: MAXTHREAD_def)
  moreover have "p_enabled ?P (p2_call SYS_RECV (Tcb (Thread 0))) (?loc1, k1)" "p_enabled ?P (p2_call SYS_RECV NULL) (?loc2, k2)"
    "p_enabled ?P (p2_call SYS_RECV (Tcb SSI_thread)) (?loc4, k4)"
    using recv_enabled[where loc = ?loc1 and l = Csin_recv and P = ?P and w = "Some (Thread 0)", OF k1(2)]
      recv_enabled[where loc = ?loc2 and l = Cs_recv and P = ?P and w = None, OF s2(2)]
      recv_enabled[where loc = ?loc4 and l = "Cs_release (Some SSI_thread)" and P = ?P and w = "Some SSI_thread", OF k4(2)] P l0
    by (simp_all add: MAXTHREAD_def)
  moreover have "in_section (Thread 0) ?loc5 k5 SSI_thread" by (simp add: in_section_def)
  ultimately show ?thesis using s1 s2(1) s3(1) s4 s5 by (simp add: one_entry_def stopped_def)
qed

text \<open>After the first two steps the client waits, and the server runs.\<close>

definition half_entry :: "event list" where
  "half_entry = [p2_call SYS_SEND (Tcb (Thread 0)), p2_call SYS_RECV (Tcb (Thread 0))]"

lemma demo_scheduled: "scheduled (abs_machine demo_start)"
proof -
  have dead: "t_status (threads demo_start t) = T_STATUS_NONE" if "t \<noteq> SSI_thread" "t \<noteq> Thread 0" for t
    using that by (simp add: demo_start_facts first_threads_def zero_tcb_def)
  then have "t = SSI_thread \<or> t = Thread 0" if "k_phase (abs_machine demo_start) t = Runnable" for t
    using that dead[of t] unfolding abs_machine_eq[OF demo_start_kernel] by (auto simp: phase_of_iff)
  then show ?thesis using demo_machine by (auto simp: scheduled_def)
qed

lemma half_entry_run:
  "p_allowed (p2_program (Thread 0)) half_entry (entry_points, abs_machine demo_start) \<and>
   along (sends_ok (\<lambda>r. r = SEND_SUCCESS)) half_entry (abs_machine demo_start) \<and>
   (\<exists>loc k. p_run (p2_program (Thread 0)) half_entry (entry_points, abs_machine demo_start) = (loc, k) \<and>
     waits_to_enter (Thread 0) loc k SSI_thread)"
proof -
  let ?P = "p2_program (Thread 0)" and ?k0 = "abs_machine demo_start"
  let ?loc1 = "entry_points(SSI_thread := At Csin_recv)"
  let ?loc2 = "entry_points(SSI_thread := Calling Csin_recv (Recv (Some (Thread 0)) 0))"
  let ?e1 = "p2_call SYS_SEND (Tcb (Thread 0))" and ?e2 = "p2_call SYS_RECV (Tcb (Thread 0))"
  have P: "?P SSI_thread = client (Thread 0)" by (simp add: p2_program_def)
  have l0: "entry_points SSI_thread = At Outside" "entry_points (Thread 0) = At Cs_recv" by (simp_all add: entry_points_def)
  obtain k1 where k1: "m_send (Thread 0) SSI_thread NULL (?k0\<lparr>k_ram := demo_mem\<rparr>) = (SEND_SUCCESS, k1)" "k_running k1 = Some SSI_thread"
    "k_ready k1 = [Thread 0]" "k_inbox k1 = (k_inbox ?k0)(Thread 0 := [(Some SSI_thread, NULL)])"
    using queue_letter[of "?k0\<lparr>k_ram := demo_mem\<rparr>" "Thread 0" SSI_thread NULL] demo_machine demo_phase_0 by auto
  obtain st1 where s1: "p_step ?P ?e1 (entry_points, ?k0) = (Ldst st1, ?loc1, k1)"
    using send_step[where loc = entry_points and l = Outside and P = ?P and f = "\<lambda>_. Csin_recv", OF demo_machine(1) _ _ k1(1)] l0 P by auto
  obtain st2 k2 where s2: "p_step ?P ?e2 (?loc1, k1) = (Ldst st2, ?loc2, k2)" "k_phase k2 SSI_thread = Awaits (Some (Thread 0))"
    using block_step[where loc = ?loc1 and l = Csin_recv and P = ?P and d = "Thread 0", OF k1(2) _ _ k1(3)] P k1(4) l0 by auto
  have m1: "m_step ?e1 ?k0 = (Ldst st1, k1)" using p_step_machine[of ?P ?e1 entry_points ?k0] s1 by simp
  have en: "p_enabled ?P ?e1 (entry_points, ?k0)" "p_enabled ?P ?e2 (?loc1, k1)"
    using send_enabled[where loc = entry_points and l = Outside and P = ?P and d = "Thread 0", OF demo_machine(1)]
      recv_enabled[where loc = ?loc1 and l = Csin_recv and P = ?P and w = "Some (Thread 0)", OF k1(2)] P l0
    by (simp_all add: MAXTHREAD_def)
  have "fst (m_send (Thread 0) SSI_thread NULL ?k0) = SEND_SUCCESS" using mail_send(1)[of ?k0 "?k0\<lparr>k_ram := demo_mem\<rparr>"] k1(1) by simp
  then have "sends_ok (\<lambda>r. r = SEND_SUCCESS) ?e1 ?k0" "sends_ok (\<lambda>r. r = SEND_SUCCESS) ?e2 k1"
    using demo_machine(1) k1(2) by (simp_all add: sends_ok_def p2_call_def is_message_def sys_defs)
  then show ?thesis
    using s1 s2 m1 en by (simp add: half_entry_def stopped_def waits_to_enter_def case_prod_beta)
qed

end
