(* ===== verification/DebugTests.thy ===== *)
theory DebugTests imports Triangle LockRun Syslib begin

text \<open>
  The loaders of \<open>tests/debug_tests.c\<close>: they allocate threads and put them in the ready queue. A thread that
  is allocated and not yet loaded is ready and in no queue, so that the invariant of the kernel holds again
  when all are loaded. With the loader the triangle test runs from any state of the kernel.
\<close>

section \<open>The loaders\<close>

definition triangle_init :: "state_t \<Rightarrow> pid \<Rightarrow> kstate \<Rightarrow> ((tid \<times> tid \<times> tid) \<times> kstate) option" where
  "triangle_init cpu root s = do {
     (first, s) \<leftarrow> thread_alloc (Some root) s;
     (second, s) \<leftarrow> thread_alloc (Some root) s;
     (third, s) \<leftarrow> thread_alloc (Some root) s;
     first \<leftarrow> first;
     s \<leftarrow> init_and_load cpu first fn_t1 (STATUS_ALL_INT_DISABLE STATUS_SYS_MODE) s;
     second \<leftarrow> second;
     s \<leftarrow> init_and_load cpu second fn_t2 (STATUS_ALL_INT_DISABLE STATUS_SYS_MODE) s;
     third \<leftarrow> third;
     s \<leftarrow> init_and_load cpu third fn_t3 (STATUS_ALL_INT_DISABLE STATUS_SYS_MODE) s;
     Some ((first, second, third), s)
   }"

definition test_succed_msg_init :: "state_t \<Rightarrow> pid \<Rightarrow> kstate \<Rightarrow> ((tid \<times> tid) \<times> kstate) option" where
  "test_succed_msg_init cpu root s = do {
     (sender, s) \<leftarrow> thread_alloc (Some root) s;
     (receiver, s) \<leftarrow> thread_alloc (Some root) s;
     sender \<leftarrow> sender;
     s \<leftarrow> init_and_load cpu sender fn_test_succed_msg_send (STATUS_ALL_INT_DISABLE STATUS_SYS_MODE) s;
     receiver \<leftarrow> receiver;
     s \<leftarrow> init_and_load cpu receiver fn_test_succed_msg_recv (STATUS_ALL_INT_DISABLE STATUS_SYS_MODE) s;
     Some ((sender, receiver), s)
   }"

section \<open>Threads that are being loaded\<close>

text \<open>The invariant of the kernel, but for the threads \<open>A\<close>, which are ready and in no queue.\<close>

definition loading :: "tid set \<Rightarrow> queues \<Rightarrow> kstate \<Rightarrow> bool" where
  "loading A Q s \<longleftrightarrow> kernel_ok Q s \<and>
     sched_inv Q (current_thread s) (\<lambda>t. if t \<in> A then zero_tcb else threads s t) \<and>
     (\<forall>t \<in> A. valid_tid t \<and> t_status (threads s t) = T_STATUS_READY \<and> Q (T_msgq t) = []) \<and>
     mail_inv (mailbox Q s) (threads s) \<and> mgrs_ok (procs s) \<and> devices_ok (soft_blocked_thread s) \<and>
     (is_idle s \<longrightarrow> current_thread s = None) \<and> SSI s = Some SSI_thread \<and> Q T_wait4clock = []"

lemma loadingD:
  assumes "loading A Q s"
  shows loading_kernel: "kernel_ok Q s"
    and loading_sched: "sched_inv Q (current_thread s) (\<lambda>t. if t \<in> A then zero_tcb else threads s t)"
    and loading_thread: "t \<in> A \<Longrightarrow> valid_tid t \<and> t_status (threads s t) = T_STATUS_READY \<and> Q (T_msgq t) = []"
    and loading_mail: "mail_inv (mailbox Q s) (threads s)"
    and loading_rest: "mgrs_ok (procs s)" "devices_ok (soft_blocked_thread s)" "is_idle s \<longrightarrow> current_thread s = None"
      "SSI s = Some SSI_thread" "Q T_wait4clock = []"
  using assms by (simp_all add: loading_def)

lemma loadingI:
  "kernel_ok Q s \<Longrightarrow> sched_inv Q (current_thread s) (\<lambda>t. if t \<in> A then zero_tcb else threads s t) \<Longrightarrow>
   (\<And>t. t \<in> A \<Longrightarrow> valid_tid t \<and> t_status (threads s t) = T_STATUS_READY \<and> Q (T_msgq t) = []) \<Longrightarrow>
   mail_inv (mailbox Q s) (threads s) \<Longrightarrow> mgrs_ok (procs s) \<Longrightarrow> devices_ok (soft_blocked_thread s) \<Longrightarrow>
   is_idle s \<longrightarrow> current_thread s = None \<Longrightarrow> SSI s = Some SSI_thread \<Longrightarrow> Q T_wait4clock = [] \<Longrightarrow> loading A Q s"
  by (simp add: loading_def)

text \<open>A change of a thread that is not waiting changes no mail.\<close>

lemma mail_inv_ready:
  assumes "mail_inv mb ts" "t_status x = T_STATUS_READY"
  shows "mail_inv mb (ts(t := x))"
proof (rule mail_inv_update[OF assms(1), of t])
  show "\<exists>u. fst l = Some u \<and> valid_tid u" if "valid_tid t" "l \<in> set (mb t)" for l
    using mail_inv_senders[OF assms(1)] that by blast
qed (use assms(2) in simp_all)

lemma loading_none: "loading {} Q s \<longleftrightarrow> sys_ok Q s"
  by (auto simp: loading_def sys_ok_def)

lemma zero_status [simp]: "t_status zero_tcb = T_STATUS_NONE"
  by (simp add: zero_tcb_def)

text \<open>A descriptor that is taken, and the state that this leaves.\<close>

abbreviation taken :: "node links \<Rightarrow> pid \<Rightarrow> tid \<Rightarrow> kstate \<Rightarrow> kstate" where
  "taken l p t s \<equiv> s\<lparr>lk := l, threads := (threads s)(t := (threads s t)\<lparr>t_pcb := Some p, t_status := T_STATUS_READY\<rparr>)\<rparr>"

lemma loading_alloc:
  assumes ok: "loading A Q s" and alive: "proc_alive s p" and free: "Q Thread_h = T_next t # ns"
  shows "\<exists>l. thread_alloc (Some p) s = Some (Some t, taken l p t s) \<and>
    loading (insert t A) (Q(Thread_h := ns, P_threads p := Q (P_threads p) @ [T_next t])) (taken l p t s) \<and>
    t \<notin> A \<and> t \<noteq> SSI_thread \<and> count_error (taken l p t s) = count_error s - 1"
proof -
  have kok: "kernel_ok Q s" using ok by (simp add: loading_def)
  obtain t' l where a: "T_next t = T_next t'" "valid_tid t'" "t' \<noteq> SSI_thread" "t_status (threads s t') = T_STATUS_NONE"
    "thread_alloc (Some p) s = Some (Some t', taken l p t' s)"
    "kernel_ok (Q(Thread_h := ns, P_threads p := Q (P_threads p) @ [T_next t])) (taken l p t' s)"
    using thread_alloc_correct[OF kok alive free] by metis
  have t': "t' = t" using a(1) by simp
  let ?Q' = "Q(Thread_h := ns, P_threads p := Q (P_threads p) @ [T_next t])" and ?s' = "taken l p t s"
  obtain i where i: "t = Thread i" "i < MAXTHREAD" using a(2,3) unfolding t' by (cases t) auto
  have "t_pcb (threads s t) = None" using thread_status_none_iff[OF kok a(2)] a(4) unfolding t' by simp
  then have box: "Q (T_msgq t) = []" using kernel_ok_threads[OF kok] i by (simp add: thread_inv_def)
  have new: "t \<notin> A" using ok a(4) unfolding t' by (auto simp: loading_def)
  have "of_nat (card (live_threads ?s')) = (of_nat (card (live_threads s)) + 1 :: u32)"
    using live_threads_add[of t s ?s'] a(2,4) unfolding t' by simp
  then have count: "count_error ?s' = count_error s - 1" by (simp add: count_error_def)
  have "sched_inv ?Q' (current_thread ?s') (\<lambda>u. if u \<in> insert t A then zero_tcb else threads ?s' u)"
  proof (rule sched_inv_update[where t = t and Q = Q and cur = "current_thread s" and ts = "\<lambda>u. if u \<in> A then zero_tcb else threads s u"])
    show inv: "sched_inv Q (current_thread s) (\<lambda>u. if u \<in> A then zero_tcb else threads s u)" using ok by (simp add: loading_def)
    have "thread_sched_ok Q (current_thread s) (threads s t) t" using sched_inv_thread[OF inv, of t] a(2) new unfolding t' by simp
    then show "thread_sched_ok ?Q' (current_thread ?s') (if t \<in> insert t A then zero_tcb else threads ?s' t) t"
      using a(4) unfolding t' by (simp add: thread_sched_ok_def)
    show "valid_tid u" if "current_thread ?s' = Some u" for u using that inv sched_inv_current[of Q u] by simp
  qed auto
  moreover have "mailbox ?Q' ?s' = mailbox Q s" by (rule mailbox_frame) simp_all
  moreover have "mail_inv (mailbox Q s) (threads ?s')"
    using mail_inv_ready[OF loading_mail[OF ok]] by simp
  moreover have "valid_tid u \<and> t_status (threads ?s' u) = T_STATUS_READY \<and> ?Q' (T_msgq u) = []" if "u \<in> insert t A" for u
    using that loading_thread[OF ok, of u] a(2) box unfolding t' by auto
  ultimately have "loading (insert t A) ?Q' ?s'"
    using a(6) loading_rest[OF ok] unfolding t' by (intro loadingI) simp_all
  with a(3,5) new count show ?thesis unfolding t' by blast
qed

text \<open>A thread that is put in the ready queue.\<close>

abbreviation loaded :: "node links \<Rightarrow> tid \<Rightarrow> state_t \<Rightarrow> kstate \<Rightarrow> kstate" where
  "loaded l t st s \<equiv> s\<lparr>lk := l, threads := (threads s)(t := (threads s t)\<lparr>t_s := st\<rparr>),
     state_init_n := state_init_n s + 1, thread_count := thread_count s + 1\<rparr>"

lemma loading_load:
  assumes ok: "loading A Q s" and t: "t \<in> A" and top: "ram_top (mem s) = Some ramtop"
  shows "\<exists>l st. init_and_load cpu t target (STATUS_ALL_INT_DISABLE STATUS_SYS_MODE) s = Some (loaded l t st s) \<and>
    loading (A - {t}) (Q(Readyq := Q Readyq @ [T_sched t])) (loaded l t st s) \<and> pc st = Fn target \<and>
    count_error (loaded l t st s) = count_error s + 1"
proof -
  let ?Q' = "Q(Readyq := Q Readyq @ [T_sched t])" and ?st = "loaded_state cpu target (ramtop - state_init_n s * FRAME_SIZE)"
  have kok: "kernel_ok Q s" and inv: "sched_inv Q (current_thread s) (\<lambda>t. if t \<in> A then zero_tcb else threads s t)"
    and v: "valid_tid t" and r: "t_status (threads s t) = T_STATUS_READY" using loadingD[OF ok] t by simp_all
  have z: "current_thread s \<noteq> Some t" "\<And>h. \<not> linked_at Q t h"
    using sched_inv_thread[OF inv v] t by (simp_all add: thread_sched_ok_def)
  have n: "not_linked (T_sched t) Q" using not_linked_iff[OF kernel_ok_typed[OF kok], of t] z(2) by simp
  obtain l where l: "init_and_load cpu t target (STATUS_ALL_INT_DISABLE STATUS_SYS_MODE) s = Some (loaded l t ?st s)"
    "kernel_ok ?Q' (s\<lparr>lk := l, threads := (threads s)(t := (threads s t)\<lparr>t_s := ?st\<rparr>)\<rparr>)"
    using init_and_load_correct[OF kok v n top] by auto
  let ?s' = "loaded l t ?st s"
  have "kernel_ok ?Q' ?s'" by (rule kernel_ok_fields[OF l(2)]) simp_all
  moreover have "sched_inv ?Q' (current_thread ?s') (\<lambda>u. if u \<in> A - {t} then zero_tcb else threads ?s' u)"
  proof (rule sched_inv_update[OF inv, of t])
    show "thread_sched_ok ?Q' (current_thread ?s') (if t \<in> A - {t} then zero_tcb else threads ?s' t) t"
      using z r by (auto simp: thread_sched_ok_def)
    show "valid_tid u" if "current_thread ?s' = Some u" for u using that inv sched_inv_current[of Q u] by simp
  qed auto
  moreover have "mailbox ?Q' ?s' = mailbox Q s" by (rule mailbox_frame) simp_all
  moreover have "mail_inv (mailbox Q s) (threads ?s')"
    using mail_inv_ready[OF loading_mail[OF ok]] r by simp
  moreover have "valid_tid u \<and> t_status (threads ?s' u) = T_STATUS_READY \<and> ?Q' (T_msgq u) = []" if "u \<in> A - {t}" for u
    using that loading_thread[OF ok, of u] by simp
  ultimately have "loading (A - {t}) ?Q' ?s'"
    using loading_rest[OF ok] by (intro loadingI) simp_all
  moreover have "live_threads ?s' = live_threads s" by (rule live_threads_same) simp
  then have "count_error ?s' = count_error s + 1" by (simp add: count_error_def)
  moreover have "pc ?st = Fn target" by (simp add: loaded_state_def)
  ultimately show ?thesis using l(1) by blast
qed

section \<open>The loaders are correct\<close>

text \<open>What the loaders leave alone, and the two steps with the states named.\<close>

definition only_threads :: "tid set \<Rightarrow> kstate \<Rightarrow> kstate \<Rightarrow> bool" where
  "only_threads A s s' \<longleftrightarrow> (\<forall>t. t \<notin> A \<longrightarrow> threads s' t = threads s t) \<and> procs s' = procs s \<and> msgs s' = msgs s \<and> mem s' = mem s \<and>
     current_thread s' = current_thread s \<and> soft_blocked_thread s' = soft_blocked_thread s"

lemma only_threads_trans: "only_threads A s s' \<Longrightarrow> only_threads B s' s'' \<Longrightarrow> only_threads (A \<union> B) s s''"
  by (simp add: only_threads_def)

lemma only_threads_simps:
  assumes "only_threads A s s'"
  shows "proc_alive s p \<Longrightarrow> proc_alive s' p" "mem s' = mem s" "t \<notin> A \<Longrightarrow> threads s' t = threads s t"
  using assms by (simp_all add: only_threads_def proc_alive_def)

lemma alloc_step:
  assumes "loading A Q s" "proc_alive s p" "Q Thread_h = T_next t # ns"
  obtains s' where "thread_alloc (Some p) s = Some (Some t, s')" "only_threads {t} s s'" "count_error s' = count_error s - 1"
    "loading (insert t A) (Q(Thread_h := ns, P_threads p := Q (P_threads p) @ [T_next t])) s'" "t \<notin> A" "t \<noteq> SSI_thread"
proof -
  obtain l where l: "thread_alloc (Some p) s = Some (Some t, taken l p t s)"
    "loading (insert t A) (Q(Thread_h := ns, P_threads p := Q (P_threads p) @ [T_next t])) (taken l p t s)"
    "t \<notin> A" "t \<noteq> SSI_thread" "count_error (taken l p t s) = count_error s - 1" using loading_alloc[OF assms] by blast
  have "only_threads {t} s (taken l p t s)" by (simp add: only_threads_def)
  from l(1) this l(5,2,3,4) show ?thesis by (rule that)
qed

lemma load_step:
  assumes "loading A Q s" "t \<in> A" "ram_top (mem s) = Some ramtop"
  obtains s' where "init_and_load cpu t target (STATUS_ALL_INT_DISABLE STATUS_SYS_MODE) s = Some s'" "only_threads {t} s s'"
    "count_error s' = count_error s + 1" "loading (A - {t}) (Q(Readyq := Q Readyq @ [T_sched t])) s'"
    "pc (t_s (threads s' t)) = Fn target" "t_status (threads s' t) = T_STATUS_READY"
proof -
  obtain l st where l: "init_and_load cpu t target (STATUS_ALL_INT_DISABLE STATUS_SYS_MODE) s = Some (loaded l t st s)"
    "loading (A - {t}) (Q(Readyq := Q Readyq @ [T_sched t])) (loaded l t st s)" "pc st = Fn target"
    "count_error (loaded l t st s) = count_error s + 1" using loading_load[OF assms] by blast
  have "t_status (threads s t) = T_STATUS_READY" using loading_thread[OF assms(1,2)] by simp
  then have "only_threads {t} s (loaded l t st s)" "pc (t_s (threads (loaded l t st s) t)) = Fn target"
    "t_status (threads (loaded l t st s) t) = T_STATUS_READY" using l(3) by (simp_all add: only_threads_def)
  with l(1,2,4) show ?thesis using that by blast
qed

lemma triangle_init_correct:
  assumes ok: "sys_ok Q s" and alive: "proc_alive s root" and top: "ram_top (mem s) = Some ramtop"
    and free: "Q Thread_h = T_next a # T_next b # T_next c # ns"
  shows "\<exists>s' Q'. triangle_init cpu root s = Some ((a, b, c), s') \<and> sys_ok Q' s' \<and> count_error s' = count_error s \<and> ids a b c \<and>
    only_threads {a, b, c} s s' \<and> Q' Readyq = Q Readyq @ [T_sched a, T_sched b, T_sched c] \<and> (\<forall>t. Q' (T_msgq t) = Q (T_msgq t)) \<and>
    (\<forall>t \<in> {a, b, c}. t_status (threads s' t) = T_STATUS_READY \<and> valid_tid t \<and> Q (T_msgq t) = []) \<and>
    pc (t_s (threads s' a)) = Fn fn_t1 \<and> pc (t_s (threads s' b)) = Fn fn_t2 \<and> pc (t_s (threads s' c)) = Fn fn_t3"
proof -
  have ok0: "loading {} Q s" using ok by (simp add: loading_none)
  let ?Q1 = "Q(Thread_h := T_next b # T_next c # ns, P_threads root := Q (P_threads root) @ [T_next a])"
  obtain s1 where 1: "thread_alloc (Some root) s = Some (Some a, s1)" "only_threads {a} s s1" "count_error s1 = count_error s - 1"
    "loading {a} ?Q1 s1" "a \<notin> {}" "a \<noteq> SSI_thread" by (rule alloc_step[OF ok0 alive free])
  have free1: "?Q1 Thread_h = T_next b # T_next c # ns" by simp
  note alive1 = only_threads_simps(1)[OF 1(2) alive]
  let ?Q2 = "?Q1(Thread_h := T_next c # ns, P_threads root := ?Q1 (P_threads root) @ [T_next b])"
  obtain s2 where 2: "thread_alloc (Some root) s1 = Some (Some b, s2)" "only_threads {b} s1 s2" "count_error s2 = count_error s1 - 1"
    "loading {b, a} ?Q2 s2" "b \<notin> {a}" "b \<noteq> SSI_thread" by (rule alloc_step[OF 1(4) alive1 free1])
  have free2: "?Q2 Thread_h = T_next c # ns" by simp
  note alive2 = only_threads_simps(1)[OF 2(2) alive1]
  let ?Q3 = "?Q2(Thread_h := ns, P_threads root := ?Q2 (P_threads root) @ [T_next c])"
  obtain s3 where 3: "thread_alloc (Some root) s2 = Some (Some c, s3)" "only_threads {c} s2 s3" "count_error s3 = count_error s2 - 1"
    "loading {c, b, a} ?Q3 s3" "c \<notin> {b, a}" "c \<noteq> SSI_thread" by (rule alloc_step[OF 2(4) alive2 free2])
  have top3: "ram_top (mem s3) = Some ramtop"
    using top only_threads_simps(2)[OF 1(2)] only_threads_simps(2)[OF 2(2)] only_threads_simps(2)[OF 3(2)] by simp
  have ids: "ids a b c" using 1(6) 2(5,6) 3(5,6) by auto
  let ?Q4 = "?Q3(Readyq := ?Q3 Readyq @ [T_sched a])"
  have in_: "a \<in> {c, b, a}" "b \<in> {c, b, a} - {a}" "c \<in> {c, b, a} - {a} - {b}" using ids by auto
  obtain s4 where 4: "init_and_load cpu a fn_t1 (STATUS_ALL_INT_DISABLE STATUS_SYS_MODE) s3 = Some s4" "only_threads {a} s3 s4"
    "count_error s4 = count_error s3 + 1" "loading ({c, b, a} - {a}) ?Q4 s4" "pc (t_s (threads s4 a)) = Fn fn_t1"
    "t_status (threads s4 a) = T_STATUS_READY" by (rule load_step[OF 3(4) in_(1) top3])
  have top4: "ram_top (mem s4) = Some ramtop" using top3 only_threads_simps(2)[OF 4(2)] by simp
  obtain s5 where 5: "init_and_load cpu b fn_t2 (STATUS_ALL_INT_DISABLE STATUS_SYS_MODE) s4 = Some s5" "only_threads {b} s4 s5"
    "count_error s5 = count_error s4 + 1" "loading ({c, b, a} - {a} - {b}) (?Q4(Readyq := ?Q4 Readyq @ [T_sched b])) s5"
    "pc (t_s (threads s5 b)) = Fn fn_t2" "t_status (threads s5 b) = T_STATUS_READY" by (rule load_step[OF 4(4) in_(2) top4])
  have top5: "ram_top (mem s5) = Some ramtop" using top4 only_threads_simps(2)[OF 5(2)] by simp
  let ?Q5 = "?Q4(Readyq := ?Q4 Readyq @ [T_sched b])"
  let ?Q6 = "?Q5(Readyq := ?Q5 Readyq @ [T_sched c])"
  obtain s6 where 6: "init_and_load cpu c fn_t3 (STATUS_ALL_INT_DISABLE STATUS_SYS_MODE) s5 = Some s6" "only_threads {c} s5 s6"
    "count_error s6 = count_error s5 + 1" "loading ({c, b, a} - {a} - {b} - {c}) ?Q6 s6"
    "pc (t_s (threads s6 c)) = Fn fn_t3" "t_status (threads s6 c) = T_STATUS_READY" by (rule load_step[OF 5(4) in_(3) top5])
  have run: "triangle_init cpu root s = Some ((a, b, c), s6)"
    by (simp add: triangle_init_def 1(1) 2(1) 3(1) 4(1) 5(1) 6(1))
  have "{c, b, a} - {a} - {b} - {c} = {}" by auto
  with 6(4) have ok6: "sys_ok ?Q6 s6" by (simp only: loading_none)
  have same: "threads s6 a = threads s4 a" "threads s6 b = threads s5 b"
    using only_threads_simps(3)[OF 5(2)] only_threads_simps(3)[OF 6(2)] ids by simp_all
  have box: "valid_tid t \<and> Q (T_msgq t) = []" if "t \<in> {c, b, a}" for t using loading_thread[OF 3(4) that] by simp
  have only: "only_threads {a, b, c} s s6"
    using only_threads_trans[OF only_threads_trans[OF only_threads_trans[OF 1(2) 2(2)] only_threads_trans[OF 3(2) 4(2)]]
        only_threads_trans[OF 5(2) 6(2)]] by (auto simp: only_threads_def)
  have count: "count_error s6 = count_error s" using 1(3) 2(3) 3(3) 4(3) 5(3) 6(3) by simp
  have ready: "t_status (threads s6 t) = T_STATUS_READY" if "t \<in> {a, b, c}" for t using that same 4(6) 5(6) 6(6) by auto
  have lists: "?Q6 Readyq = Q Readyq @ [T_sched a, T_sched b, T_sched c]" "?Q6 (T_msgq t) = Q (T_msgq t)" for t by simp_all
  show ?thesis
    by (rule exI[of _ s6], rule exI[of _ ?Q6])
      (use run ok6 count ids only ready box lists same 4(5) 5(5) 6(5) in auto)
qed

lemma test_succed_msg_init_correct:
  assumes ok: "sys_ok Q s" and alive: "proc_alive s root" and top: "ram_top (mem s) = Some ramtop"
    and free: "Q Thread_h = T_next a # T_next b # ns"
  shows "\<exists>s' Q'. test_succed_msg_init cpu root s = Some ((a, b), s') \<and> sys_ok Q' s' \<and> count_error s' = count_error s \<and> a \<noteq> b \<and>
    only_threads {a, b} s s' \<and> Q' Readyq = Q Readyq @ [T_sched a, T_sched b] \<and>
    pc (t_s (threads s' a)) = Fn fn_test_succed_msg_send \<and> pc (t_s (threads s' b)) = Fn fn_test_succed_msg_recv"
proof -
  have ok0: "loading {} Q s" using ok by (simp add: loading_none)
  let ?Q1 = "Q(Thread_h := T_next b # ns, P_threads root := Q (P_threads root) @ [T_next a])"
  obtain s1 where 1: "thread_alloc (Some root) s = Some (Some a, s1)" "only_threads {a} s s1" "count_error s1 = count_error s - 1"
    "loading {a} ?Q1 s1" by (rule alloc_step[OF ok0 alive free])
  have free1: "?Q1 Thread_h = T_next b # ns" by simp
  let ?Q2 = "?Q1(Thread_h := ns, P_threads root := ?Q1 (P_threads root) @ [T_next b])"
  obtain s2 where 2: "thread_alloc (Some root) s1 = Some (Some b, s2)" "only_threads {b} s1 s2" "count_error s2 = count_error s1 - 1"
    "loading {b, a} ?Q2 s2" "b \<notin> {a}" by (rule alloc_step[OF 1(4) only_threads_simps(1)[OF 1(2) alive] free1])
  have top2: "ram_top (mem s2) = Some ramtop" using top only_threads_simps(2)[OF 1(2)] only_threads_simps(2)[OF 2(2)] by simp
  let ?Q3 = "?Q2(Readyq := ?Q2 Readyq @ [T_sched a])"
  have in_: "a \<in> {b, a}" "b \<in> {b, a} - {a}" using 2(5) by auto
  obtain s3 where 3: "init_and_load cpu a fn_test_succed_msg_send (STATUS_ALL_INT_DISABLE STATUS_SYS_MODE) s2 = Some s3"
    "only_threads {a} s2 s3" "count_error s3 = count_error s2 + 1" "loading ({b, a} - {a}) ?Q3 s3"
    "pc (t_s (threads s3 a)) = Fn fn_test_succed_msg_send" by (rule load_step[OF 2(4) in_(1) top2])
  have top3: "ram_top (mem s3) = Some ramtop" using top2 only_threads_simps(2)[OF 3(2)] by simp
  let ?Q4 = "?Q3(Readyq := ?Q3 Readyq @ [T_sched b])"
  obtain s4 where 4: "init_and_load cpu b fn_test_succed_msg_recv (STATUS_ALL_INT_DISABLE STATUS_SYS_MODE) s3 = Some s4"
    "only_threads {b} s3 s4" "count_error s4 = count_error s3 + 1" "loading ({b, a} - {a} - {b}) ?Q4 s4"
    "pc (t_s (threads s4 b)) = Fn fn_test_succed_msg_recv" by (rule load_step[OF 3(4) in_(2) top3])
  have run: "test_succed_msg_init cpu root s = Some ((a, b), s4)"
    by (simp add: test_succed_msg_init_def 1(1) 2(1) 3(1) 4(1))
  have "{b, a} - {a} - {b} = {}" by auto
  with 4(4) have ok4: "sys_ok ?Q4 s4" by (simp only: loading_none)
  have only: "only_threads {a, b} s s4"
    using only_threads_trans[OF only_threads_trans[OF 1(2) 2(2)] only_threads_trans[OF 3(2) 4(2)]] by (auto simp: only_threads_def)
  have count: "count_error s4 = count_error s" using 1(3) 2(3) 3(3) 4(3) by simp
  have "threads s4 a = threads s3 a" using only_threads_simps(3)[OF 4(2)] 2(5) by simp
  with run ok4 count only 2(5) 3(5) 4(5) show ?thesis
    by (intro exI[of _ s4] exI[of _ ?Q4]) auto
qed

section \<open>The triangle from any state of the kernel\<close>

text \<open>Where the threads are when the test is loaded.\<close>

definition tri_entry :: "tid \<Rightarrow> tid \<Rightarrow> tid \<Rightarrow> machine \<Rightarrow> tid \<Rightarrow> tri_point point" where
  "tri_entry a b c k t =
     (if t \<in> corners a b c then At Sends
      else (case k_phase k t of Awaits who \<Rightarrow> Calling Elsewhere (Recv who 0) | _ \<Rightarrow> At Elsewhere))"

text \<open>
  The three threads have the programs \<open>t1\<close>, \<open>t2\<close> and \<open>t3\<close> to run, in this order, and are the last in the
  ready queue, in this order too.
\<close>

definition triangle_ready :: "tid \<Rightarrow> tid \<Rightarrow> tid \<Rightarrow> kstate \<Rightarrow> kstate \<Rightarrow> bool" where
  "triangle_ready a b c s s0 \<longleftrightarrow>
     pc (t_s (threads s0 a)) = Fn fn_t1 \<and> pc (t_s (threads s0 b)) = Fn fn_t2 \<and> pc (t_s (threads s0 c)) = Fn fn_t3 \<and>
     contents s0 Readyq = contents s Readyq @ [T_sched a, T_sched b, T_sched c]"

lemma triangle_loaded:
  assumes ok: "system_ok s" and cur: "current_thread s = Some r"
    and alive: "proc_alive s root" and top: "ram_top (mem s) = Some ramtop"
    and free: "contents s Thread_h = T_next a # T_next b # T_next c # ns"
  shows "\<exists>s'. triangle_init cpu root s = Some ((a, b, c), s') \<and> triangle_ready a b c s s' \<and> system_ok s' \<and>
    scheduled_in (corners a b c) (abs_machine s') \<and> tri_start a b c (tri_entry a b c (abs_machine s')) (abs_machine s')"
proof -
  obtain Q where "settled Q s" and ce: "count_error s = 0" using ok by (auto simp: system_ok_def)
  then have sys: "sys_ok Q s" by (simp add: settled_def)
  note kok = sys_ok_kernel[OF sys]
  have "Q Thread_h = T_next a # T_next b # T_next c # ns" using free contents_eq[OF kok, of Thread_h] by simp
  from triangle_init_correct[OF sys alive top this] obtain s' Q' where s': "triangle_init cpu root s = Some ((a, b, c), s')"
    "sys_ok Q' s'" "count_error s' = count_error s" "ids a b c" "only_threads {a, b, c} s s'"
    "Q' Readyq = Q Readyq @ [T_sched a, T_sched b, T_sched c]" "\<forall>t. Q' (T_msgq t) = Q (T_msgq t)"
    "\<forall>t \<in> {a, b, c}. t_status (threads s' t) = T_STATUS_READY \<and> valid_tid t \<and> Q (T_msgq t) = []"
    "pc (t_s (threads s' a)) = Fn fn_t1" "pc (t_s (threads s' b)) = Fn fn_t2" "pc (t_s (threads s' c)) = Fn fn_t3" by blast
  have cur': "current_thread s' = Some r" using s'(5) cur by (simp add: only_threads_def)
  have sysok: "system_ok s'" using settled_running[OF s'(2) cur'] s'(3) ce by (auto simp: system_ok_def)
  note kok' = sys_ok_kernel[OF s'(2)]
  have m: "abs_machine s' = view Q' s'" by (rule abs_machine_eq[OF kok'])
  have "contents s' Readyq = contents s Readyq @ [T_sched a, T_sched b, T_sched c]"
    using s'(6) contents_eq[OF kok, of Readyq] contents_eq[OF kok', of Readyq] by simp
  with s'(9-11) have ready: "triangle_ready a b c s s'" by (simp add: triangle_ready_def)
  have sch: "scheduled_in (corners a b c) (abs_machine s')"
    using s'(6) by (auto simp: m scheduled_in_def corners_def)
  have "k_phase (abs_machine s') t = Runnable \<and> k_inbox (abs_machine s') t = []" if "t \<in> corners a b c" for t
    using s'(7,8) that by (auto simp: m corners_def phase_of_iff view_def inbox_of_def)
  then have "tri_start a b c (tri_entry a b c (abs_machine s')) (abs_machine s')"
    using s'(4) by (auto simp: tri_start_def tri_entry_def split: phase.split)
  with s'(1) sysok sch ready show ?thesis by blast
qed

lemma loaded_triangle_goes_on:
  assumes "system_ok s" "current_thread s = Some r"
    and "proc_alive s root" "ram_top (mem s) = Some ramtop" "contents s Thread_h = T_next a # T_next b # T_next c # ns"
  shows "\<exists>s0. triangle_init cpu root s = Some ((a, b, c), s0) \<and> triangle_ready a b c s s0 \<and>
    (\<forall>es. p_allowed (triangle a b c) es (tri_entry a b c (abs_machine s0), abs_machine s0) \<longrightarrow>
       along (sends_ok (\<lambda>r. r = SEND_SUCCESS)) es (abs_machine s0) \<longrightarrow>
       (\<exists>outs s' loc'. k_run es s0 = Some (outs, s') \<and>
          p_run (triangle a b c) es (tri_entry a b c (abs_machine s0), abs_machine s0) = (loc', abs_machine s') \<and>
          (\<forall>t \<in> {a, b, c}. \<forall>r. reports loc' t r \<longrightarrow> r = Some (prev a b c t)) \<and>
          ((\<forall>t \<in> {a, b, c}. has_received a b c loc' (abs_machine s') t) \<or>
           (\<exists>u \<in> {a, b, c}. \<not> has_received a b c loc' (abs_machine s') u \<and>
              (u \<in> set (k_ready (abs_machine s')) \<or> k_running (abs_machine s') = Some u)))))"
proof -
  obtain s0 where s0: "triangle_init cpu root s = Some ((a, b, c), s0)" "triangle_ready a b c s s0" "system_ok s0"
    "scheduled_in (corners a b c) (abs_machine s0)" "tri_start a b c (tri_entry a b c (abs_machine s0)) (abs_machine s0)"
    using triangle_loaded[OF assms] by blast
  show ?thesis using s0(1,2) kernel_triangle[OF s0(3,5,4), unfolded corners_def] by blast
qed

section \<open>One message\<close>

text \<open>The programs of \<open>test_succed_msg_init\<close>; what they print is not part of the state.\<close>

datatype msg_point = Starting | Stopping | Stopped | Others

fun test_succed_msg_send :: "tid \<Rightarrow> msg_point \<Rightarrow> call \<Rightarrow> (val \<Rightarrow> msg_point) option" where
  "test_succed_msg_send receiver Starting (Send d v) = (if d = receiver \<and> v = U 10 then Some (\<lambda>_. Stopping) else None)"
| "test_succed_msg_send receiver Stopping (Recv who a) = (if who = None \<and> a = 0 then Some (\<lambda>_. Stopped) else None)"
| "test_succed_msg_send receiver _ _ = None"

fun test_succed_msg_recv :: "msg_point \<Rightarrow> call \<Rightarrow> (val \<Rightarrow> msg_point) option" where
  "test_succed_msg_recv Starting (Recv who a) = (if who = None \<and> a \<noteq> 0 then Some (\<lambda>_. Stopping) else None)"
| "test_succed_msg_recv Stopping (Recv who a) = (if who = None \<and> a \<noteq> 0 then Some (\<lambda>_. Stopped) else None)"
| "test_succed_msg_recv _ _ = None"

definition succed_msg :: "tid \<Rightarrow> tid \<Rightarrow> msg_point program" where
  "succed_msg sender receiver t =
     (if t = sender then test_succed_msg_send receiver
      else if t = receiver then test_succed_msg_recv
      else (\<lambda>l x. if l = Others then Some (\<lambda>_. Others) else None))"

text \<open>A letter that a thread of a program sends is a send that its control point allows.\<close>

lemma sending_program:
  assumes "p_enabled P e (loc, k)" "sending e k = Some (c, d, v)" "c \<noteq> SSI_thread"
  shows "\<exists>l old ram now cpu frame. e = Syscall old ram now cpu frame \<and> k_running k = Some c \<and> loc c = At l \<and> is_message old \<and>
    a1 old = U SYS_SEND \<and> a2 old = Tcb d \<and> a3 old = v \<and> P c l (Send d v) \<noteq> None"
proof (cases e)
  case (Syscall old ram now cpu frame)
  obtain c' where c': "k_running k = Some c'" using assms(1) Syscall by (auto simp: p_enabled_def)
  obtain l x where l: "loc c' = At l" "call_of old = Some x" "P c' l x \<noteq> None"
    using assms(1) Syscall c' by (auto simp: p_enabled_def simp del: call_of.simps split: point.splits option.splits)
  then have im: "is_message old" by (simp split: if_splits)
  have s: "c' = c" "a1 old = U SYS_SEND" "as_tcb (a2 old) = Some (Some d)" "a3 old = v"
    using assms(2) Syscall c' im by (auto split: option.splits if_splits)
  then have "x = Send d v" "a2 old = Tcb d" using l(2) im by (simp, cases "a2 old") (auto split: if_splits)
  with Syscall c' l s im show ?thesis by blast
next
  case (Interrupt old ram now cpu w p)
  then show ?thesis using assms(2,3) by (auto split: if_splits)
qed (use assms(1) in \<open>simp_all add: p_enabled_def\<close>)

text \<open>The sender sends once.\<close>

lemma sender_left:
  assumes "loc c \<noteq> At Starting"
  shows "fst (snd (p_step (succed_msg c r) e (loc, k))) c \<noteq> At Starting"
proof -
  have enter: "enter e (k_running k) loc c \<noteq> At Starting"
    using assms by (cases "(e, k_running k, loc)" rule: enter.cases) (auto split: point.split option.split)
  have "leave (succed_msg c r) out t loc' c \<noteq> At Starting" if n: "loc' c \<noteq> At Starting" for out t loc'
  proof (cases "(succed_msg c r, out, t, loc')" rule: leave.cases)
    case (1 P st u loc'')
    have "f v \<noteq> Starting" if "succed_msg c r c l x = Some f" for l x f v
      using that by (cases "(r, l, x)" rule: test_succed_msg_send.cases) (auto simp: succed_msg_def split: if_splits)
    with 1 n show ?thesis by (auto split: point.split option.split)
  qed (use n in auto)
  with enter show ?thesis by (simp add: p_step_def case_prod_beta Let_def)
qed

lemma sender_calls:
  assumes "p_enabled (succed_msg c r) e (loc, k)" "sending e k = Some (c, d, v)" "c \<noteq> SSI_thread"
  shows "loc c = At Starting \<and> d = r \<and> v = U 10 \<and> fst (snd (p_step (succed_msg c r) e (loc, k))) c \<noteq> At Starting"
proof -
  obtain l old ram now cpu frame where e: "e = Syscall old ram now cpu frame" "k_running k = Some c" "loc c = At l" "is_message old"
    "a1 old = U SYS_SEND" "a2 old = Tcb d" "a3 old = v" "succed_msg c r c l (Send d v) \<noteq> None"
    using sending_program[OF assms] by blast
  then obtain f where f: "succed_msg c r c l (Send d (a3 old)) = Some f" by auto
  then have lv: "l = Starting" "d = r" "v = U 10" "f = (\<lambda>_. Stopping)"
    using e(7) by (cases "(r, l, Send d v)" rule: test_succed_msg_send.cases; auto simp: succed_msg_def split: if_splits)+
  obtain r' k' where m: "m_send d c (a3 old) (k\<lparr>k_ram := ram\<rparr>) = (r', k')" by (cases "m_send d c (a3 old) (k\<lparr>k_ram := ram\<rparr>)")
  from p_step_send[where loc = loc and P = "succed_msg c r", OF e(2,3,4,5,6) f m] e(1,3) lv show ?thesis by simp
qed

lemma sent_once:
  assumes "c \<noteq> SSI_thread"
  shows "p_allowed (succed_msg c r) es (loc, k) \<Longrightarrow>
    sent_along c r es k \<in> (if loc c = At Starting then {[], [U 10]} else {[]})"
proof (induction es arbitrary: loc k)
  case (Cons e es)
  let ?P = "succed_msg c r"
  obtain out loc' k' where s: "p_step ?P e (loc, k) = (out, loc', k')" by (cases "p_step ?P e (loc, k)") auto
  have m: "m_step e k = (out, k')" using p_step_machine[of ?P e loc k] s by simp
  have en: "p_enabled ?P e (loc, k)" using Cons.prems by simp
  let ?rest = "if stopped out then [] else sent_along c r es k'"
  have rest: "?rest \<in> (if loc' c = At Starting then {[], [U 10]} else {[]})"
  proof (cases "stopped out")
    case False
    then show ?thesis using Cons.IH[of loc' k'] Cons.prems s by simp
  qed simp
  have keep: "loc c \<noteq> At Starting \<Longrightarrow> loc' c \<noteq> At Starting" using sender_left[of loc c r e k] s by simp
  show ?case
  proof (cases "part c r (posted e k) = []")
    case True
    with rest keep m show ?thesis by (auto split: if_splits)
  next
    case False
    then obtain v where v: "sending e k = Some (c, r, v)" "part c r (posted e k) = [v]"
      by (auto simp: part_def posted_def split: option.splits prod.splits if_splits)
    from sender_calls[OF en v(1) assms] s have "loc c = At Starting" "v = U 10" "loc' c \<noteq> At Starting" by simp_all
    with rest m v(2) show ?thesis by simp
  qed
qed simp

text \<open>The receiver gets nothing of the sender but the number 10, at most once.\<close>

lemma kernel_succed_msg:
  assumes ok: "system_ok s" and en: "p_allowed (succed_msg sender receiver) es (loc, abs_machine s)"
    and start: "sender \<noteq> SSI_thread" "pending sender receiver (abs_machine s) = []"
  shows "\<exists>outs s'. k_run es s = Some (outs, s') \<and>
    (received_along sender receiver es (abs_machine s) = [] \<or> received_along sender receiver es (abs_machine s) = [U 10])"
proof -
  have en': "m_allowed es (abs_machine s)" by (rule p_allowed_machine[OF en])
  obtain outs s' where run: "k_run es s = Some (outs, s')" using run_refines[OF ok en'] by blast
  have "sent_along sender receiver es (abs_machine s) \<in> {[], [U 10]}"
    using sent_once[OF start(1) en] by (auto split: if_splits)
  with kernel_channels[OF ok en' run, of sender receiver] start(2) run show ?thesis by (auto simp: append_eq_Cons_conv)
qed

section \<open>A message to nobody\<close>

text \<open>
  \<open>test_fail_msg\<close> expects that a message to \<open>NULL\<close> fails with -1. The kernel has no such check: \<open>send\<close>
  reads the status of its destination.
\<close>

definition test_fail_msg :: "state_t \<Rightarrow> kstate \<Rightarrow> (printed \<times> outcome \<times> kstate) option" where
  "test_fail_msg cpu s = do {
     (rval, s) \<leftarrow> msgsend_k cpu NULL (U 1) s;
     r \<leftarrow> as_u32 rval;
     out \<leftarrow> tprintf (''msgsend should fail (return -1) --> rval == %d'' @ [CHR 0x0A]) [Int_arg r];
     Some (out, Halt, s)
   }"

lemma test_fail_msg_faults: "handler_mode cpu \<Longrightarrow> test_fail_msg cpu s = None"
  by (simp add: test_fail_msg_def msgsend_k_def enter_syscall_kernel_mode send_null)

section \<open>A run\<close>

text \<open>The test is loaded in the first state of the kernel; the SSI and the test thread wait for each other, and \<open>t1\<close> runs.\<close>

definition two_waits :: "event list" where
  "two_waits = [p2_call SYS_RECV (Tcb (Thread 0)), p2_call SYS_RECV (Tcb SSI_thread)]"

definition demo_triangle :: kstate where
  "demo_triangle = snd (the (triangle_init zero_state 0 demo_start))"

lemma demo_triangle_loaded:
  "triangle_init zero_state 0 demo_start = Some ((Thread 1, Thread 2, Thread 3), demo_triangle)"
  "k_running (abs_machine demo_triangle) = Some SSI_thread"
  "k_ready (abs_machine demo_triangle) = [Thread 0, Thread 1, Thread 2, Thread 3]"
  "k_phase (abs_machine demo_triangle) SSI_thread = Runnable" "k_phase (abs_machine demo_triangle) (Thread 0) = Runnable"
  "k_inbox (abs_machine demo_triangle) t = []"
proof -
  have alive: "proc_alive demo_start 0" by (simp add: proc_alive_def)
  have top: "ram_top (mem demo_start) = Some 0x108000" by (simp add: demo_start_facts demo_mem_ok)
  have "started_queues Thread_h = T_next (Thread 1) # T_next (Thread 2) # T_next (Thread 3) # map (\<lambda>i. T_next (Thread i)) [4..<MAXTHREAD]"
    by (simp add: started_queues_simps MAXTHREAD_def upt_conv_Cons)
  from triangle_init_correct[OF demo_start_ok alive top this, of zero_state] obtain s' Q' where
    s': "triangle_init zero_state 0 demo_start = Some ((Thread 1, Thread 2, Thread 3), s')" "sys_ok Q' s'"
      "only_threads {Thread 1, Thread 2, Thread 3} demo_start s'"
      "Q' Readyq = started_queues Readyq @ [T_sched (Thread 1), T_sched (Thread 2), T_sched (Thread 3)]"
      "\<forall>t. Q' (T_msgq t) = started_queues (T_msgq t)" by blast
  have d: "demo_triangle = s'" using s'(1) by (simp add: demo_triangle_def)
  show "triangle_init zero_state 0 demo_start = Some ((Thread 1, Thread 2, Thread 3), demo_triangle)" using s'(1) d by simp
  have m: "abs_machine demo_triangle = view Q' s'" unfolding d by (rule abs_machine_eq[OF sys_ok_kernel[OF s'(2)]])
  have "threads s' SSI_thread = threads demo_start SSI_thread" "threads s' (Thread 0) = threads demo_start (Thread 0)"
    using only_threads_simps(3)[OF s'(3)] by simp_all
  moreover have "current_thread s' = Some SSI_thread" using s'(3) demo_start_facts(3) by (simp add: only_threads_def)
  ultimately show "k_running (abs_machine demo_triangle) = Some SSI_thread"
    "k_ready (abs_machine demo_triangle) = [Thread 0, Thread 1, Thread 2, Thread 3]"
    "k_phase (abs_machine demo_triangle) SSI_thread = Runnable" "k_phase (abs_machine demo_triangle) (Thread 0) = Runnable"
    "k_inbox (abs_machine demo_triangle) t = []"
    using s'(4,5) by (simp_all add: m demo_start_facts phase_of_def ssi_tcb_def test_tcb_def view_def inbox_of_def)
qed

lemma demo_triangle_free:
  "contents demo_start Thread_h = T_next (Thread 1) # T_next (Thread 2) # T_next (Thread 3) # map (\<lambda>i. T_next (Thread i)) [4..<MAXTHREAD]"
  by (simp add: contents_eq[OF demo_start_kernel] started_queues_simps MAXTHREAD_def upt_conv_Cons)

lemma two_waits_run:
  "p_allowed (triangle (Thread 1) (Thread 2) (Thread 3)) two_waits
     (tri_entry (Thread 1) (Thread 2) (Thread 3) (abs_machine demo_triangle), abs_machine demo_triangle) \<and>
   along (sends_ok (\<lambda>r. r = SEND_SUCCESS)) two_waits (abs_machine demo_triangle) \<and>
   (\<exists>loc k. p_run (triangle (Thread 1) (Thread 2) (Thread 3)) two_waits
     (tri_entry (Thread 1) (Thread 2) (Thread 3) (abs_machine demo_triangle), abs_machine demo_triangle) = (loc, k) \<and>
     loc (Thread 1) = At Sends \<and> k_running k = Some (Thread 1))"
proof -
  let ?P = "triangle (Thread 1) (Thread 2) (Thread 3)" and ?k0 = "abs_machine demo_triangle"
  let ?l0 = "tri_entry (Thread 1) (Thread 2) (Thread 3) ?k0"
  let ?e1 = "p2_call SYS_RECV (Tcb (Thread 0))" and ?e2 = "p2_call SYS_RECV (Tcb SSI_thread)"
  let ?l1 = "?l0(SSI_thread := Calling Elsewhere (Recv (Some (Thread 0)) 0))"
  let ?l2 = "?l1(Thread 0 := Calling Elsewhere (Recv (Some SSI_thread) 0))"
  have l0: "?l0 SSI_thread = At Elsewhere" "?l0 (Thread 0) = At Elsewhere" "?l0 (Thread 1) = At Sends"
    by (simp_all add: tri_entry_def corners_def demo_triangle_loaded)
  have P: "?P t Elsewhere (Recv w 0) = Some (\<lambda>_. Elsewhere)" if "t \<in> {SSI_thread, Thread 0}" for t w
    using that by (auto simp: triangle_def)
  obtain st1 k1 where s1: "p_step ?P ?e1 (?l0, ?k0) = (Ldst st1, ?l1, k1)" "k_running k1 = Some (Thread 0)"
    "k_ready k1 = [Thread 1, Thread 2, Thread 3]" "k_inbox k1 = k_inbox ?k0"
    using block_step[where P = ?P and loc = ?l0 and l = Elsewhere and d = "Thread 0", OF demo_triangle_loaded(2) l0(1) demo_triangle_loaded(6,3)]
      l0 by auto
  have n1: "k_inbox k1 (Thread 0) = []" using s1(4) demo_triangle_loaded(6) by simp
  obtain st2 k2 where s2: "p_step ?P ?e2 (?l1, k1) = (Ldst st2, ?l2, k2)" "k_running k2 = Some (Thread 1)"
    using block_step[where P = ?P and loc = ?l1 and l = Elsewhere and d = SSI_thread, OF s1(2) _ n1 s1(3)] l0 by auto
  have m1: "m_step ?e1 ?k0 = (Ldst st1, k1)" using p_step_machine[of ?P ?e1 ?l0 ?k0] s1 by simp
  have en: "p_enabled ?P ?e1 (?l0, ?k0)" "p_enabled ?P ?e2 (?l1, k1)"
    using recv_enabled[where loc = ?l0 and l = Elsewhere and P = ?P and w = "Some (Thread 0)", OF demo_triangle_loaded(2)]
      recv_enabled[where loc = ?l1 and l = Elsewhere and P = ?P and w = "Some SSI_thread", OF s1(2)] P l0
    by (simp_all add: MAXTHREAD_def)
  have "sends_ok (\<lambda>r. r = SEND_SUCCESS) (p2_call SYS_RECV w) k" for w k
    by (simp add: sends_ok_def p2_call_def sys_defs is_message_def split: option.split)
  then show ?thesis
    using s1 s2 m1 en l0 by (simp add: two_waits_def stopped_def case_prod_beta)
qed

end
