(* ===== verification/Arch.thy ===== *)
theory Arch imports Machine begin

text \<open>
  The macros of \<open>uARMsupportFiles/microARMconst.h\<close>, \<open>microARMarch.h\<close> and \<open>microARMtypes.h\<close> that lay out
  the machine: the areas where the processor state is saved, the device registers and bitmaps, and the
  fields of the registers of the coprocessor. The theorems: the areas and registers do not overlap,
  which is why the model keeps the areas as separate fields, and the field macros read back what they wrote.
\<close>

unbundle bit_operations_syntax

section \<open>Exception areas\<close>

definition WORD_SIZE :: u32 where "WORD_SIZE = 4"
definition RAM_BASE :: u32 where "RAM_BASE = 0x8000"
definition EXCV_BASE :: u32 where "EXCV_BASE = 0x7000"
definition STATE_T_SIZE :: u32 where "STATE_T_SIZE = 88"
definition INT_OLDAREA_ADDR :: u32 where "INT_OLDAREA_ADDR = EXCV_BASE"
definition INT_NEWAREA_ADDR :: u32 where "INT_NEWAREA_ADDR = EXCV_BASE + STATE_T_SIZE"
definition TLB_OLDAREA_ADDR :: u32 where "TLB_OLDAREA_ADDR = EXCV_BASE + 2 * STATE_T_SIZE"
definition TLB_NEWAREA_ADDR :: u32 where "TLB_NEWAREA_ADDR = EXCV_BASE + 3 * STATE_T_SIZE"
definition PGMTRAP_OLDAREA_ADDR :: u32 where "PGMTRAP_OLDAREA_ADDR = EXCV_BASE + 4 * STATE_T_SIZE"
definition PGMTRAP_NEWAREA_ADDR :: u32 where "PGMTRAP_NEWAREA_ADDR = EXCV_BASE + 5 * STATE_T_SIZE"
definition SYSBK_OLDAREA_ADDR :: u32 where "SYSBK_OLDAREA_ADDR = EXCV_BASE + 6 * STATE_T_SIZE"
definition SYSBK_NEWAREA_ADDR :: u32 where "SYSBK_NEWAREA_ADDR = EXCV_BASE + 7 * STATE_T_SIZE"
definition ROMF_EXCVBASE :: u32 where "ROMF_EXCVBASE = 0x7000"
definition ROMF_EXCVTOP :: u32 where "ROMF_EXCVTOP = 0x7500"
definition SEGTABLE_START :: u32 where "SEGTABLE_START = 0x7600"

lemmas area_defs = INT_OLDAREA_ADDR_def INT_NEWAREA_ADDR_def TLB_OLDAREA_ADDR_def TLB_NEWAREA_ADDR_def
  PGMTRAP_OLDAREA_ADDR_def PGMTRAP_NEWAREA_ADDR_def SYSBK_OLDAREA_ADDR_def SYSBK_NEWAREA_ADDR_def
  EXCV_BASE_def STATE_T_SIZE_def ROMF_EXCVBASE_def ROMF_EXCVTOP_def SEGTABLE_START_def RAM_BASE_def

text \<open>The eight areas in the order of their addresses.\<close>

definition areas :: "u32 list" where
  "areas = [INT_OLDAREA_ADDR, INT_NEWAREA_ADDR, TLB_OLDAREA_ADDR, TLB_NEWAREA_ADDR,
     PGMTRAP_OLDAREA_ADDR, PGMTRAP_NEWAREA_ADDR, SYSBK_OLDAREA_ADDR, SYSBK_NEWAREA_ADDR]"

text \<open>Storing a processor state: the inverse of \<open>load_state\<close>.\<close>

fun store_words :: "u32 \<Rightarrow> val list \<Rightarrow> memory \<Rightarrow> memory" where
  "store_words a [] m = m"
| "store_words a (w # ws) m = store_words (a + WORD_SIZE) ws (m(a := w))"

definition state_words :: "state_t \<Rightarrow> val list" where
  "state_words x = [a1 x, a2 x, a3 x, a4 x, v1 x, v2 x, v3 x, v4 x, v5 x, v6 x, sl x, fp x, ip x, sp x, lr x, pc x,
     cpsr x, CP15_Control x, CP15_EntryHi x, CP15_Cause x, TOD_Hi x, TOD_Low x]"

definition store_state :: "u32 \<Rightarrow> state_t \<Rightarrow> memory \<Rightarrow> memory" where
  "store_state a x = store_words a (state_words x)"

lemma state_words_length: "of_nat (length (state_words x)) * WORD_SIZE = STATE_T_SIZE"
  by (simp add: state_words_def WORD_SIZE_def STATE_T_SIZE_def)

lemma store_words_frame:
  "(\<And>i. i < length ws \<Longrightarrow> b \<noteq> a + WORD_SIZE * of_nat i) \<Longrightarrow> store_words a ws m b = m b"
proof (induction ws arbitrary: a m)
  case Nil
  then show ?case by simp
next
  case (Cons w ws)
  have "b \<noteq> (a + WORD_SIZE) + WORD_SIZE * of_nat i" if "i < length ws" for i
    using Cons.prems[of "Suc i"] that by (simp add: algebra_simps)
  then have "store_words (a + WORD_SIZE) ws (m(a := w)) b = (m(a := w)) b" by (rule Cons.IH)
  then show ?case using Cons.prems[of 0] by simp
qed

lemma load_store_state: "load_state (store_state a x m) a = x"
  by (cases x) (simp add: load_state_def store_state_def state_words_def WORD_SIZE_def add.assoc)

lemma of_nat_u32_inj: "m < 2 ^ 32 \<Longrightarrow> n < 2 ^ 32 \<Longrightarrow> (of_nat m :: u32) = of_nat n \<longleftrightarrow> m = n"
  by (simp add: word_of_nat_eq_iff take_bit_nat_eq_self)

lemma unat_of_nat_u32: "n < 2 ^ 32 \<Longrightarrow> unat (of_nat n :: u32) = n"
  by (simp add: unat_of_nat take_bit_nat_eq_self)

lemma areas_list: "areas = map (\<lambda>k. of_nat (0x7000 + 88 * k)) [0..<8]"
  by (simp add: areas_def area_defs upt_rec)

lemma areas_eq: "set areas = (\<lambda>k. of_nat (0x7000 + 88 * k)) ` {..<8}"
  unfolding areas_list set_map set_upt atLeast0LessThan ..

text \<open>A state written into one area leaves the states in the others alone.\<close>

lemma load_other_area:
  assumes "a \<in> set areas" "b \<in> set areas" "a \<noteq> b"
  shows "load_state (store_state a x m) b = load_state m b"
proof -
  have "store_state a x m (b + 4 * of_nat i) = m (b + 4 * of_nat i)" if "i < 22" for i
    unfolding store_state_def
  proof (rule store_words_frame)
    fix j assume "j < length (state_words x)"
    then have j: "j < 22" by (simp add: state_words_def)
    obtain p q where pq: "a = of_nat (0x7000 + 88 * p)" "p < 8" "b = of_nat (0x7000 + 88 * q)" "q < 8"
      using assms(1,2) by (auto simp: areas_eq)
    then have "p \<noteq> q" using assms(3) by auto
    have "(22 * q + i) div 22 = q" "(22 * p + j) div 22 = p" using that j by simp_all
    with \<open>p \<noteq> q\<close> have "22 * q + i \<noteq> 22 * p + j" by auto
    then have "0x7000 + 88 * q + 4 * i \<noteq> 0x7000 + 88 * p + 4 * j" by simp
    moreover have "0x7000 + 88 * q + 4 * i < 2 ^ 32" "0x7000 + 88 * p + 4 * j < 2 ^ 32" using pq that j by simp_all
    ultimately have "(of_nat (0x7000 + 88 * q + 4 * i) :: u32) \<noteq> of_nat (0x7000 + 88 * p + 4 * j)"
      using of_nat_u32_inj by blast
    then show "b + 4 * of_nat i \<noteq> a + WORD_SIZE * of_nat j" by (simp add: pq WORD_SIZE_def)
  qed
  from this[of 0] this[of 1] this[of 2] this[of 3] this[of 4] this[of 5] this[of 6] this[of 7] this[of 8]
    this[of 9] this[of 10] this[of 11] this[of 12] this[of 13] this[of 14] this[of 15] this[of 16]
    this[of 17] this[of 18] this[of 19] this[of 20] this[of 21]
  show ?thesis by (simp add: load_state_def)
qed

section \<open>Interrupt lines and device registers\<close>

definition N_INTERRUPT_LINES :: u32 where "N_INTERRUPT_LINES = 8"
definition N_EXT_IL :: u32 where "N_EXT_IL = 5"
definition DEV_REG_SIZE_W :: u32 where "DEV_REG_SIZE_W = 4"
definition MMIO_BASE :: u32 where "MMIO_BASE = 0x40"
definition CDEV_BITMAP_BASE :: u32 where "CDEV_BITMAP_BASE = 0x6FE0"
definition IDEV_BITMAP_BASE :: u32 where "IDEV_BITMAP_BASE = 0x20"

definition EXT_IL_INDEX :: "u32 \<Rightarrow> u32" where "EXT_IL_INDEX il = il - DEV_IL_START"
definition INT_DEV_VECTOR :: "u32 \<Rightarrow> u32" where "INT_DEV_VECTOR il = 0x6FE0 + EXT_IL_INDEX il * 4"

definition CDEV_BITMAP_ADDR :: "u32 \<Rightarrow> u32" where
  "CDEV_BITMAP_ADDR line = CDEV_BITMAP_BASE + (line - DEV_IL_START) * WORD_SIZE"
definition CDEV_BITMAP_END :: u32 where "CDEV_BITMAP_END = CDEV_BITMAP_BASE + N_EXT_IL * WORD_SIZE"

definition IDEV_BITMAP_ADDR :: "u32 \<Rightarrow> u32" where
  "IDEV_BITMAP_ADDR line = IDEV_BITMAP_BASE + (line - DEV_IL_START) * WORD_SIZE"
definition IDEV_BITMAP_END :: u32 where "IDEV_BITMAP_END = IDEV_BITMAP_BASE + N_EXT_IL * WORD_SIZE"

definition DEV_REG_END :: u32 where "DEV_REG_END = DEV_REG_START + N_EXT_IL * N_DEV_PER_IL * DEV_REG_SIZE"

definition DEV_USED_INTS :: nat where "DEV_USED_INTS = 5"
definition DEV_PER_INT :: nat where "DEV_PER_INT = 8"
definition MAX_DEVICES :: nat where "MAX_DEVICES = (DEV_USED_INTS * DEV_PER_INT) + DEV_PER_INT + 1"
text \<open>\<open>MAX_DEVICES\<close> has no parentheses of its own: the expansion is written out.\<close>
definition CLOCK_SEM :: nat where "CLOCK_SEM = ((DEV_USED_INTS * DEV_PER_INT) + DEV_PER_INT + 1 - 1)"

lemmas line_defs = N_INTERRUPT_LINES_def N_EXT_IL_def DEV_REG_SIZE_W_def MMIO_BASE_def CDEV_BITMAP_BASE_def
  IDEV_BITMAP_BASE_def EXT_IL_INDEX_def INT_DEV_VECTOR_def CDEV_BITMAP_ADDR_def CDEV_BITMAP_END_def
  IDEV_BITMAP_ADDR_def IDEV_BITMAP_END_def DEV_REG_END_def WORD_SIZE_def

text \<open>The two macros for the bitmap of a line agree.\<close>

lemma INT_DEV_VECTOR_eq: "INT_DEV_VECTOR il = CDEV_BITMAP_ADDR il"
  by (simp add: line_defs)

lemma clock_sem_last: "Suc CLOCK_SEM = MAX_DEVICES" "MAX_DEVICES = 49"
  by (simp_all add: CLOCK_SEM_def MAX_DEVICES_def DEV_USED_INTS_def DEV_PER_INT_def)

text \<open>Addresses as numbers: line \<open>3 + l\<close> with \<open>l < 5\<close>, device \<open>d < 8\<close>.\<close>

lemma dev_reg_addr_nat: "DEV_REG_ADDR (of_nat (3 + l)) (of_nat d) = of_nat (0x40 + 128 * l + 16 * d)"
  by (simp add: address_defs)

lemma DEV_REG_END_eq: "DEV_REG_END = 0x2C0"
  by (simp add: line_defs address_defs)

text \<open>
  The registers of the forty devices are disjoint, lie between \<open>DEV_REG_START\<close> and \<open>DEV_REG_END\<close>, and do
  not reach the registers of the bus.
\<close>

lemma dev_reg_range:
  assumes "l < 5" "d < 8" "k < 16"
  shows "unat (DEV_REG_ADDR (of_nat (3 + l)) (of_nat d) + of_nat k) = 0x40 + 128 * l + 16 * d + k"
    "0x40 + 128 * l + 16 * d + k < unat DEV_REG_END" "unat DEV_REG_END \<le> unat BUS_REG_RAM_BASE"
proof -
  have "DEV_REG_ADDR (of_nat (3 + l)) (of_nat d) + of_nat k = of_nat (0x40 + 128 * l + 16 * d + k)"
    unfolding dev_reg_addr_nat by simp
  moreover have "0x40 + 128 * l + 16 * d + k < 2 ^ 32" using assms by simp
  ultimately show "unat (DEV_REG_ADDR (of_nat (3 + l)) (of_nat d) + of_nat k) = 0x40 + 128 * l + 16 * d + k"
    by (simp only: unat_of_nat_u32)
  show "0x40 + 128 * l + 16 * d + k < unat DEV_REG_END" using assms by (simp add: DEV_REG_END_eq)
  show "unat DEV_REG_END \<le> unat BUS_REG_RAM_BASE" by (simp add: DEV_REG_END_eq BUS_REG_RAM_BASE_def)
qed

lemma dev_reg_disjoint:
  assumes "l < 5" "d < 8" "k < 16" "l' < 5" "d' < 8" "k' < 16"
    and "DEV_REG_ADDR (of_nat (3 + l)) (of_nat d) + of_nat k = DEV_REG_ADDR (of_nat (3 + l')) (of_nat d') + of_nat k'"
  shows "l = l' \<and> d = d' \<and> k = k'"
proof -
  have "0x40 + 128 * l + 16 * d + k = 0x40 + 128 * l' + 16 * d' + k'"
    using dev_reg_range(1)[OF assms(1-3)] dev_reg_range(1)[OF assms(4-6)] assms(7) by metis
  then have eq: "128 * l + (16 * d + k) = 128 * l' + (16 * d' + k')" by simp
  have "l = (128 * l + (16 * d + k)) div 128" "l' = (128 * l' + (16 * d' + k')) div 128" using assms by simp_all
  with eq have l: "l = l'" by simp
  have "d = (16 * d + k) div 16" "d' = (16 * d' + k') div 16" using assms by simp_all
  moreover have "16 * d + k = 16 * d' + k'" using eq l by simp
  ultimately show ?thesis using l by simp
qed

text \<open>The register of a terminal, as the struct \<open>termreg_t\<close>, and of the other devices, as \<open>dtpreg_t\<close>.\<close>

record termreg_t =
  recv_status :: val
  recv_command :: val
  transm_status :: val
  transm_command :: val

record dtpreg_t =
  status :: val
  command :: val
  data0 :: val
  data1 :: val

definition load_termreg :: "memory \<Rightarrow> u32 \<Rightarrow> termreg_t" where
  "load_termreg m a = \<lparr>recv_status = m a, recv_command = m (a + 4), transm_status = m (a + 8), transm_command = m (a + 12)\<rparr>"

definition load_dtpreg :: "memory \<Rightarrow> u32 \<Rightarrow> dtpreg_t" where
  "load_dtpreg m a = \<lparr>status = m a, command = m (a + 4), data0 = m (a + 8), data1 = m (a + 12)\<rparr>"

definition RECV_STATUS :: u32 where "RECV_STATUS = 0x0"
definition RECV_COMMAND :: u32 where "RECV_COMMAND = 0x4"
definition TRANSM_STATUS :: u32 where "TRANSM_STATUS = 0x8"

text \<open>The offsets of \<open>do_io.h\<close> are the fields of the struct.\<close>

lemma terminal_fields:
  "recv_status (load_termreg m (DEV_REG_ADDR IL_TERMINAL i)) = m (TERMINAL_DEV_FIELD i RECV_STATUS)"
  "recv_command (load_termreg m (DEV_REG_ADDR IL_TERMINAL i)) = m (TERMINAL_DEV_FIELD i RECV_COMMAND)"
  "transm_status (load_termreg m (DEV_REG_ADDR IL_TERMINAL i)) = m (TERMINAL_DEV_FIELD i TRANSM_STATUS)"
  "transm_command (load_termreg m (DEV_REG_ADDR IL_TERMINAL i)) = m (TERMINAL_DEV_FIELD i TRANSM_COMMAND)"
  by (simp_all add: load_termreg_def TERMINAL_DEV_FIELD_def RECV_STATUS_def RECV_COMMAND_def TRANSM_STATUS_def TRANSM_COMMAND_def)

section \<open>Fields of registers\<close>

definition CP15_VM_ON :: u32 where "CP15_VM_ON = 1"
definition CP15_ENABLE_VM :: "u32 \<Rightarrow> u32" where "CP15_ENABLE_VM control = control OR CP15_VM_ON"
definition CP15_DISABLE_VM :: "u32 \<Rightarrow> u32" where "CP15_DISABLE_VM control = control AND NOT CP15_VM_ON"

definition ENTRYHI_SEGNO_GET :: "u32 \<Rightarrow> u32" where
  "ENTRYHI_SEGNO_GET entryHI = drop_bit 30 (entryHI AND 0xc0000000)"
definition ENTRYHI_VPN_GET :: "u32 \<Rightarrow> u32" where
  "ENTRYHI_VPN_GET entryHI = drop_bit 12 (entryHI AND 0x3ffff000)"
definition ENTRYHI_ASID_GET :: "u32 \<Rightarrow> u32" where
  "ENTRYHI_ASID_GET entryHI = drop_bit 5 (entryHI AND 0x00000fe0)"

definition ENTRYHI_SEGNO_SET :: "u32 \<Rightarrow> u32 \<Rightarrow> u32" where
  "ENTRYHI_SEGNO_SET entryHI seg_no = (entryHI AND 0x3fffffff) OR push_bit 30 seg_no"
definition ENTRYHI_VPN_SET :: "u32 \<Rightarrow> u32 \<Rightarrow> u32" where
  "ENTRYHI_VPN_SET entryHI vpn = (entryHI AND 0xc0000fff) OR push_bit 12 vpn"
definition ENTRYHI_ASID_SET :: "u32 \<Rightarrow> u32 \<Rightarrow> u32" where
  "ENTRYHI_ASID_SET entryHI asid = (entryHI AND 0xfffff01f) OR push_bit 5 asid"

definition ENTRYLO_PFN_GET :: "u32 \<Rightarrow> u32" where
  "ENTRYLO_PFN_GET entryLO = drop_bit 12 (entryLO AND 0xfffff000)"
definition ENTRYLO_PFN_SET :: "u32 \<Rightarrow> u32 \<Rightarrow> u32" where
  "ENTRYLO_PFN_SET entryLO pfn = (entryLO AND 0x00000fff) OR push_bit 12 pfn"
definition ENTRYLO_NOCACHE :: u32 where "ENTRYLO_NOCACHE = 0x800"
definition ENTRYLO_DIRTY :: u32 where "ENTRYLO_DIRTY = 0x400"
definition ENTRYLO_VALID :: u32 where "ENTRYLO_VALID = 0x200"
definition ENTRYLO_GLOBAL :: u32 where "ENTRYLO_GLOBAL = 0x100"
definition ENTRYLO_ACCESSED :: u32 where "ENTRYLO_ACCESSED = 0x80"

definition CAUSE_EXCCODE_GET :: "u32 \<Rightarrow> u32" where "CAUSE_EXCCODE_GET cause = cause AND 0xFFFFFF"
definition CAUSE_EXCCODE_SET :: "u32 \<Rightarrow> u32 \<Rightarrow> u32" where
  "CAUSE_EXCCODE_SET cause exc_code = (cause AND 0xFF000000) OR exc_code"
definition CAUSE_IP_GET :: "u32 \<Rightarrow> nat \<Rightarrow> u32" where
  "CAUSE_IP_GET cause int_no = cause AND push_bit (int_no + 24) 1"

definition BIOS_SRV_SWI :: u32 where "BIOS_SRV_SWI = 8"
definition BIOS_SRV_BP :: u32 where "BIOS_SRV_BP = 9"
definition IS_SWI_BP :: "u32 \<Rightarrow> bool" where "IS_SWI_BP instr \<longleftrightarrow> instr AND BIOS_SRV_BP = BIOS_SRV_BP"
definition IS_SWI_SYS :: "u32 \<Rightarrow> bool" where "IS_SWI_SYS instr \<longleftrightarrow> instr AND BIOS_SRV_SWI = BIOS_SRV_SWI"

lemmas field_defs = CP15_VM_ON_def CP15_ENABLE_VM_def CP15_DISABLE_VM_def
  ENTRYHI_SEGNO_GET_def ENTRYHI_VPN_GET_def ENTRYHI_ASID_GET_def
  ENTRYHI_SEGNO_SET_def ENTRYHI_VPN_SET_def ENTRYHI_ASID_SET_def ENTRYLO_PFN_GET_def ENTRYLO_PFN_SET_def
  CAUSE_EXCCODE_GET_def CAUSE_EXCCODE_SET_def CAUSE_IP_GET_def
  ENTRYLO_NOCACHE_def ENTRYLO_DIRTY_def ENTRYLO_VALID_def ENTRYLO_GLOBAL_def ENTRYLO_ACCESSED_def

text \<open>The masks of the macros are runs of bits.\<close>

lemma field_masks:
  "(0xc0000000 :: u32) = push_bit 30 (mask 2)" "(0x3fffffff :: u32) = mask 30"
  "(0x3ffff000 :: u32) = push_bit 12 (mask 18)" "(0xc0000fff :: u32) = NOT (push_bit 12 (mask 18))"
  "(0x00000fe0 :: u32) = push_bit 5 (mask 7)" "(0xfffff01f :: u32) = NOT (push_bit 5 (mask 7))"
  "(0xfffff000 :: u32) = push_bit 12 (mask 20)" "(0x00000fff :: u32) = mask 12"
  "(0xFFFFFF :: u32) = mask 24" "(0xFF000000 :: u32) = push_bit 24 (mask 8)"
  by (simp_all add: mask_eq_exp_minus_1)

text \<open>\<open>fits k v\<close>: the value has no more than \<open>k\<close> bits.\<close>

definition fits_in :: "nat \<Rightarrow> u32 \<Rightarrow> bool" where
  "fits_in k v \<longleftrightarrow> (\<forall>n. bit v n \<longrightarrow> n < k)"

lemma fits_unat:
  assumes "unat v < 2 ^ k"
  shows "fits_in k v"
  unfolding fits_in_def
proof (intro allI impI)
  fix n assume "bit v n"
  then have "bit (unat v) n" by (simp add: bit_simps bit_imp_le_length)
  with assms have "bit (take_bit k (unat v)) n" by (simp add: take_bit_nat_eq_self)
  then show "n < k" by (simp add: bit_take_bit_iff)
qed

lemma one_bit:
  "bit (0x800 :: u32) n \<longleftrightarrow> n = 11" "bit (0x400 :: u32) n \<longleftrightarrow> n = 10" "bit (0x200 :: u32) n \<longleftrightarrow> n = 9"
  "bit (0x100 :: u32) n \<longleftrightarrow> n = 8" "bit (0x80 :: u32) n \<longleftrightarrow> n = 7" "bit (8 :: u32) n \<longleftrightarrow> n = 3"
proof -
  have one: "bit (2 ^ k :: u32) n \<longleftrightarrow> n = k" if "k < 32" for k
    using that by (auto simp: bit_exp_iff)
  show "bit (0x800 :: u32) n \<longleftrightarrow> n = 11" using one[of 11] by simp
  show "bit (0x400 :: u32) n \<longleftrightarrow> n = 10" using one[of 10] by simp
  show "bit (0x200 :: u32) n \<longleftrightarrow> n = 9" using one[of 9] by simp
  show "bit (0x100 :: u32) n \<longleftrightarrow> n = 8" using one[of 8] by simp
  show "bit (0x80 :: u32) n \<longleftrightarrow> n = 7" using one[of 7] by simp
  show "bit (8 :: u32) n \<longleftrightarrow> n = 3" using one[of 3] by simp
qed

lemmas bit_calc = field_defs field_masks bit_simps

text \<open>What a SET macro writes, the GET macro of the same field reads back, as long as it fits.\<close>

lemma entryhi_set_get:
  "fits_in 2 s \<Longrightarrow> ENTRYHI_SEGNO_GET (ENTRYHI_SEGNO_SET e s) = s"
  "fits_in 18 v \<Longrightarrow> ENTRYHI_VPN_GET (ENTRYHI_VPN_SET e v) = v"
  "fits_in 7 a \<Longrightarrow> ENTRYHI_ASID_GET (ENTRYHI_ASID_SET e a) = a"
  by (intro bit_word_eqI; auto simp: bit_calc fits_in_def)+

lemma entrylo_set_get: "fits_in 20 p \<Longrightarrow> ENTRYLO_PFN_GET (ENTRYLO_PFN_SET e p) = p"
  by (intro bit_word_eqI; auto simp: bit_calc fits_in_def)

lemma cause_set_get: "fits_in 24 c \<Longrightarrow> CAUSE_EXCCODE_GET (CAUSE_EXCCODE_SET e c) = c"
  by (intro bit_word_eqI; auto simp: bit_calc fits_in_def)

text \<open>and the other fields keep their values.\<close>

lemma entryhi_set_other:
  "fits_in 2 s \<Longrightarrow> ENTRYHI_VPN_GET (ENTRYHI_SEGNO_SET e s) = ENTRYHI_VPN_GET e"
  "fits_in 2 s \<Longrightarrow> ENTRYHI_ASID_GET (ENTRYHI_SEGNO_SET e s) = ENTRYHI_ASID_GET e"
  "fits_in 18 v \<Longrightarrow> ENTRYHI_SEGNO_GET (ENTRYHI_VPN_SET e v) = ENTRYHI_SEGNO_GET e"
  "fits_in 18 v \<Longrightarrow> ENTRYHI_ASID_GET (ENTRYHI_VPN_SET e v) = ENTRYHI_ASID_GET e"
  "fits_in 7 a \<Longrightarrow> ENTRYHI_SEGNO_GET (ENTRYHI_ASID_SET e a) = ENTRYHI_SEGNO_GET e"
  "fits_in 7 a \<Longrightarrow> ENTRYHI_VPN_GET (ENTRYHI_ASID_SET e a) = ENTRYHI_VPN_GET e"
  by (intro bit_word_eqI; auto simp: bit_calc fits_in_def)+

lemma entrylo_set_low: "n < 12 \<Longrightarrow> bit (ENTRYLO_PFN_SET e p) n = bit e n"
  by (auto simp: bit_calc)

lemma entrylo_set_flags:
  assumes "f \<in> {ENTRYLO_NOCACHE, ENTRYLO_DIRTY, ENTRYLO_VALID, ENTRYLO_GLOBAL, ENTRYLO_ACCESSED}"
  shows "ENTRYLO_PFN_SET e p AND f = e AND f"
proof (rule bit_word_eqI)
  fix n
  have "bit f n \<Longrightarrow> n < 12" using assms unfolding field_defs by (auto simp only: one_bit insert_iff empty_iff)
  then show "bit (ENTRYLO_PFN_SET e p AND f) n = bit (e AND f) n" by (auto simp: bit_and_iff entrylo_set_low)
qed

lemma cause_set_ip:
  assumes "fits_in 24 c" "i < 8"
  shows "CAUSE_IP_GET (CAUSE_EXCCODE_SET e c) i = CAUSE_IP_GET e i"
  using assms by (intro bit_word_eqI; auto simp: bit_calc simp: fits_in_def)

text \<open>The macro for a pending interrupt returns the bit in its place, not 1.\<close>

lemma CAUSE_IP_GET_value:
  assumes "i < 8"
  shows "CAUSE_IP_GET e i = (if bit e (i + 24) then push_bit (i + 24) 1 else 0)"
  using assms by (intro bit_word_eqI) (auto simp: bit_calc)

lemma vm_enable_disable: "CP15_DISABLE_VM (CP15_ENABLE_VM c) = CP15_DISABLE_VM c" "CP15_ENABLE_VM (CP15_DISABLE_VM c) = CP15_ENABLE_VM c"
  by (intro bit_word_eqI; auto simp: bit_calc)+

lemma and_eq_subset: "(w :: u32) AND m = m \<longleftrightarrow> (\<forall>n. bit m n \<longrightarrow> bit w n)"
proof
  show "\<forall>n. bit m n \<longrightarrow> bit w n" if "w AND m = m" using that bit_and_iff[of w m] by auto
  show "w AND m = m" if "\<forall>n. bit m n \<longrightarrow> bit w n" using that by (intro bit_word_eqI) (auto simp: bit_and_iff)
qed

text \<open>Every breakpoint passes the test for a system call too.\<close>

lemma IS_SWI_BP_SYS: "IS_SWI_BP instr \<longleftrightarrow> IS_SWI_SYS instr \<and> odd instr"
proof -
  have "(9 :: u32) = 8 OR 1" by simp
  then have nine: "bit (9 :: u32) n \<longleftrightarrow> n = 3 \<or> n = 0" for n by (simp only: bit_or_iff one_bit bit_1_iff)
  have "IS_SWI_BP instr \<longleftrightarrow> bit instr 3 \<and> bit instr 0"
    unfolding IS_SWI_BP_def BIOS_SRV_BP_def and_eq_subset nine by blast
  moreover have "IS_SWI_SYS instr \<longleftrightarrow> bit instr 3"
    unfolding IS_SWI_SYS_def BIOS_SRV_SWI_def and_eq_subset one_bit by blast
  ultimately show ?thesis by (simp add: bit_0)
qed

text \<open>Clearing the mode and setting another one leaves the other bits of the status register alone.\<close>

lemma mode_switch:
  assumes "mode \<in> {STATUS_USER_MODE, STATUS_SYS_MODE, STATUS_SRV_MODE, STATUS_INT_MODE, STATUS_PGMT_MODE, STATUS_TLB_MODE}"
    and "bit w 4"
  shows "(w AND STATUS_CLEAR_MODE OR mode) AND mask 5 = mode"
    and "5 \<le> n \<Longrightarrow> bit (w AND STATUS_CLEAR_MODE OR mode) n = bit w n"
proof -
  have clear: "STATUS_CLEAR_MODE = NOT (mask 4)" by (simp add: STATUS_CLEAR_MODE_def mask_eq_exp_minus_1)
  have "unat mode < 2 ^ 5" and m4: "bit mode 4" using assms(1) by (auto simp: status_defs bit_numeral_rec)
  from fits_unat[OF this(1)] have m5: "bit mode n \<Longrightarrow> n < 5" for n by (simp add: fits_in_def)
  show "(w AND STATUS_CLEAR_MODE OR mode) AND mask 5 = mode"
  proof (rule bit_word_eqI)
    fix n assume "n < LENGTH(32)"
    show "bit ((w AND STATUS_CLEAR_MODE OR mode) AND mask 5) n = bit mode n"
      using m4 m5[of n] by (cases "n = 4") (auto simp: clear bit_simps)
  qed
  show "bit (w AND STATUS_CLEAR_MODE OR mode) n = bit w n" if "5 \<le> n"
    using m5[of n] that by (auto simp: clear bit_simps dest: bit_imp_le_length)
qed

end
