(* ===== verification/Devices.thy ===== *)
theory Devices imports Arch begin

text \<open>
  The rest of the machine headers: the map of the memory below and above \<open>RAM_BASE\<close>, the interrupt
  lines, the codes of the exceptions, the commands and statuses of the devices and the structures that
  the machine and the program share. The theorems: the regions of the memory are disjoint and in order,
  the two headers number the lines alike, an exception code survives the cause register, and the two
  views of a device register are views of the same words.
\<close>

unbundle bit_operations_syntax

section \<open>The map of the memory\<close>

definition WS :: u32 where "WS = WORD_SIZE"
definition KSEGOS_BASE :: u32 where "KSEGOS_BASE = 0"
definition KSEGOS_BIOS_BASE :: u32 where "KSEGOS_BIOS_BASE = 0x300"
definition KUSEG2_BASE :: u32 where "KUSEG2_BASE = 0x8000"
definition KSEG0 :: u32 where "KSEG0 = 0"
definition USEG2 :: u32 where "USEG2 = 2"
definition USEG3 :: u32 where "USEG3 = 3"
definition KSEG0BASE :: u32 where "KSEG0BASE = 0x8000"
definition USEG2BASE :: u32 where "USEG2BASE = 0x80000000"
definition USEG3BASE :: u32 where "USEG3BASE = 0xC0000000"
definition BUS_REG_DEV_BASE :: u32 where "BUS_REG_DEV_BASE = 0x2D8"
definition BUS_REG_TOD_HI :: u32 where "BUS_REG_TOD_HI = 0x2DC"
definition BUS_REG_TOD_LO :: u32 where "BUS_REG_TOD_LO = 0x2E0"
definition BUS_REG_TIMER :: u32 where "BUS_REG_TIMER = 0x2E4"
definition ROMF_SEGTBASE :: u32 where "ROMF_SEGTBASE = 0x7600"
definition ROMF_SEGTTOP :: u32 where "ROMF_SEGTTOP = 0x7E00"
definition ROMF_STACKBASE :: u32 where "ROMF_STACKBASE = 0x7FF0"
definition ROMF_STACKTOP :: u32 where "ROMF_STACKTOP = 0x8000"
definition VM_PSEG_START :: u32 where "VM_PSEG_START = 0x8000"
definition VM_PSEG_TOP :: u32 where "VM_PSEG_TOP = 0xF0000000"
definition VM_SHSEG_START :: u32 where "VM_SHSEG_START = 0xF0000000"
definition VM_SHSEG_TOP :: u32 where "VM_SHSEG_TOP = 0xFFFFFFFF"
definition FRAMESIZE :: u32 where "FRAMESIZE = 1024"
definition FRAMEKB :: u32 where "FRAMEKB = 4"
definition MAXASID :: u32 where "MAXASID = 128"
definition PTE_MAGICNO :: u32 where "PTE_MAGICNO = 0x2a"
definition PAGE_TBL_MAGICNO :: u32 where "PAGE_TBL_MAGICNO = 0x2A"
definition DEV_REGBLOCK_SIZE :: u32 where "DEV_REGBLOCK_SIZE = DEV_REG_SIZE * of_nat DEV_PER_INT"

lemmas map_defs = WS_def KSEGOS_BASE_def KSEGOS_BIOS_BASE_def KUSEG2_BASE_def KSEG0_def USEG2_def USEG3_def
  KSEG0BASE_def USEG2BASE_def USEG3BASE_def BUS_REG_DEV_BASE_def BUS_REG_TOD_HI_def BUS_REG_TOD_LO_def
  BUS_REG_TIMER_def BUS_REG_RAM_BASE_def BUS_REG_RAM_SIZE_def BUS_REG_TIME_SCALE_def ROMF_SEGTBASE_def ROMF_SEGTTOP_def
  ROMF_STACKBASE_def ROMF_STACKTOP_def VM_PSEG_START_def VM_PSEG_TOP_def VM_SHSEG_START_def VM_SHSEG_TOP_def
  FRAMESIZE_def FRAMEKB_def FRAME_SIZE_def MAXASID_def PTE_MAGICNO_def PAGE_TBL_MAGICNO_def DEV_REGBLOCK_SIZE_def

text \<open>The registers of the bus, in the order of their addresses.\<close>

definition bus_registers :: "u32 list" where
  "bus_registers = [BUS_REG_RAM_BASE, BUS_REG_RAM_SIZE, BUS_REG_DEV_BASE, BUS_REG_TOD_HI, BUS_REG_TOD_LO, BUS_REG_TIMER,
     BUS_REG_TIME_SCALE]"

text \<open>
  The regions that the headers reserve below \<open>RAM_BASE\<close>, each with its end: the bitmaps of the installed
  devices, the device registers, the bus registers, the bitmaps of the pending interrupts, the exception
  areas, the segment table and the stack of the start-up code.
\<close>

definition regions :: "(u32 \<times> u32) list" where
  "regions = [(IDEV_BITMAP_BASE, IDEV_BITMAP_END), (DEV_REG_START, DEV_REG_END), (BUS_REG_RAM_BASE, BUS_REG_TIME_SCALE + WS),
     (CDEV_BITMAP_BASE, CDEV_BITMAP_END), (ROMF_EXCVBASE, ROMF_EXCVTOP), (ROMF_SEGTBASE, ROMF_SEGTTOP),
     (ROMF_STACKBASE, ROMF_STACKTOP)]"

definition in_region :: "u32 \<Rightarrow> u32 \<times> u32 \<Rightarrow> bool" where
  "in_region a r \<longleftrightarrow> fst r \<le> a \<and> a < snd r"

fun ordered :: "(u32 \<times> u32) list \<Rightarrow> bool" where
  "ordered [] \<longleftrightarrow> True"
| "ordered [r] \<longleftrightarrow> fst r < snd r"
| "ordered (r # r' # rs) \<longleftrightarrow> fst r < snd r \<and> snd r \<le> fst r' \<and> ordered (r' # rs)"

lemma ordered_tail: "ordered (r # rs) \<Longrightarrow> ordered rs \<and> fst r < snd r \<and> (\<forall>r' \<in> set rs. snd r \<le> fst r')"
proof (induction rs arbitrary: r)
  case (Cons r' rs)
  then have "ordered (r' # rs)" "fst r < snd r" "snd r \<le> fst r'" by simp_all
  moreover from Cons.IH[OF this(1)] have "fst r' < snd r'" "\<forall>q \<in> set rs. snd r' \<le> fst q" by simp_all
  ultimately show ?case by (auto intro: order_trans less_imp_le)
qed simp

lemma ordered_unique:
  "ordered rs \<Longrightarrow> r \<in> set rs \<Longrightarrow> r' \<in> set rs \<Longrightarrow> in_region a r \<Longrightarrow> in_region a r' \<Longrightarrow> r = r'"
proof (induction rs)
  case (Cons q rs)
  have q: "ordered rs" "\<forall>p \<in> set rs. snd q \<le> fst p" using ordered_tail[OF Cons.prems(1)] by simp_all
  have "\<not> in_region a p" if "in_region a q" "p \<in> set rs" for p
    using q(2) that by (auto simp: in_region_def dest!: bspec)
  then show ?case using Cons.IH[OF q(1)] Cons.prems by (metis set_ConsD)
qed simp

lemma regions_ordered: "ordered regions" "\<forall>r \<in> set regions. snd r \<le> RAM_BASE"
  by (simp_all add: regions_def line_defs address_defs area_defs map_defs)

lemma areas_in_region: "a \<in> set areas \<Longrightarrow> in_region a (ROMF_EXCVBASE, ROMF_EXCVTOP) \<and> a + STATE_T_SIZE \<le> ROMF_EXCVTOP"
  by (auto simp: areas_def in_region_def area_defs)

lemma bus_registers_words:
  "bus_registers = map (\<lambda>i. BUS_REG_RAM_BASE + of_nat i * WS) [0..<7]" "a \<in> set bus_registers \<Longrightarrow>
     in_region a (BUS_REG_RAM_BASE, BUS_REG_TIME_SCALE + WS)"
  by (auto simp: bus_registers_def map_defs WORD_SIZE_def upt_rec in_region_def)

lemma device_in_region:
  assumes "l < 5" "d < 8" "k < 16"
  shows "in_region (DEV_REG_ADDR (of_nat (3 + l)) (of_nat d) + of_nat k) (DEV_REG_START, DEV_REG_END)"
  using dev_reg_range(1,2)[OF assms] by (simp add: in_region_def word_le_nat_alt word_less_nat_alt DEV_REG_START_def)

text \<open>The segments: their numbers are the top bits of their bases, which is what \<open>EntryHi\<close> holds.\<close>

lemma segment_numbers:
  "ENTRYHI_SEGNO_GET KSEG0BASE = KSEG0" "ENTRYHI_SEGNO_GET USEG2BASE = USEG2" "ENTRYHI_SEGNO_GET USEG3BASE = USEG3"
  by (simp_all add: map_defs ENTRYHI_SEGNO_GET_def drop_bit_eq_div)

lemma user_memory:
  "RAM_BASE = VM_PSEG_START" "VM_PSEG_START = KUSEG2_BASE" "VM_PSEG_START = KSEG0BASE" "VM_PSEG_TOP = VM_SHSEG_START"
  "VM_PSEG_START < VM_PSEG_TOP" "VM_SHSEG_START < VM_SHSEG_TOP" "KSEGOS_BASE < KSEGOS_BIOS_BASE"
  "BUS_REG_TIME_SCALE + WS \<le> KSEGOS_BIOS_BASE" "ROMF_SEGTBASE = SEGTABLE_START"
  by (simp_all add: map_defs area_defs WORD_SIZE_def)

text \<open>The sizes agree: a frame in words, in kilobytes and in bytes; the address space identifiers fill their field.\<close>

lemma frame_sizes: "FRAMESIZE * WS = FRAME_SIZE" "FRAMEKB * 1024 = FRAME_SIZE" "PTE_MAGICNO = PAGE_TBL_MAGICNO"
  "DEV_REG_START + N_EXT_IL * DEV_REGBLOCK_SIZE = DEV_REG_END"
  by (simp_all add: map_defs line_defs address_defs DEV_PER_INT_def)

lemma asid_range: "unat a < unat MAXASID \<Longrightarrow> ENTRYHI_ASID_GET (ENTRYHI_ASID_SET e a) = a"
  by (intro entryhi_set_get fits_unat) (simp add: MAXASID_def)

section \<open>Interrupt lines\<close>

definition IL_IPI :: u32 where "IL_IPI = 0"
definition IL_CPUTIMER :: u32 where "IL_CPUTIMER = 1"
definition IL_TIMER :: u32 where "IL_TIMER = 2"
definition IL_DISK :: u32 where "IL_DISK = 3"
definition IL_TAPE :: u32 where "IL_TAPE = 4"
definition IL_ETHERNET :: u32 where "IL_ETHERNET = 5"
definition IL_PRINTER :: u32 where "IL_PRINTER = 6"
definition INT_TIMER :: u32 where "INT_TIMER = 2"
definition INT_LOWEST :: u32 where "INT_LOWEST = 3"
definition INT_DISK :: u32 where "INT_DISK = 3"
definition INT_TAPE :: u32 where "INT_TAPE = 4"
definition INT_UNUSED :: u32 where "INT_UNUSED = 5"
definition INT_PRINTER :: u32 where "INT_PRINTER = 6"
definition INT_TERMINAL :: u32 where "INT_TERMINAL = 7"
definition N_IL :: u32 where "N_IL = N_INTERRUPT_LINES"

lemmas il_defs = IL_IPI_def IL_CPUTIMER_def IL_TIMER_def IL_DISK_def IL_TAPE_def IL_ETHERNET_def IL_PRINTER_def
  IL_TERMINAL_def INT_TIMER_def INT_LOWEST_def INT_DISK_def INT_TAPE_def INT_UNUSED_def INT_PRINTER_def INT_TERMINAL_def N_IL_def

definition lines :: "u32 list" where
  "lines = [IL_IPI, IL_CPUTIMER, IL_TIMER, IL_DISK, IL_TAPE, IL_ETHERNET, IL_PRINTER, IL_TERMINAL]"

text \<open>The two headers number the lines alike; the lines of the devices are the last five.\<close>

lemma lines_numbered:
  "lines = map of_nat [0..<8]" "of_nat (length lines) = N_IL"
  "[INT_TIMER, INT_DISK, INT_TAPE, INT_UNUSED, INT_PRINTER, INT_TERMINAL] =
     [IL_TIMER, IL_DISK, IL_TAPE, IL_ETHERNET, IL_PRINTER, IL_TERMINAL]"
  "filter (\<lambda>il. DEV_IL_START \<le> il) lines = [IL_DISK, IL_TAPE, IL_ETHERNET, IL_PRINTER, IL_TERMINAL]" "INT_LOWEST = DEV_IL_START"
  "map EXT_IL_INDEX [IL_DISK, IL_TAPE, IL_ETHERNET, IL_PRINTER, IL_TERMINAL] = map of_nat [0..<5]"
  by (simp_all add: lines_def il_defs line_defs address_defs upt_rec word_le_nat_alt)

section \<open>Exceptions\<close>

text \<open>The internal codes of the emulator, in their order.\<close>

datatype exception =
    NOEXCEPTION | MEMERROR | BUSERROR | INTEXCEPTION | SYSEXCEPTION | UNDEDEXCEPTION | COPROCEXCEPTION | BPEXCEPTION
  | SEGERROR | PAGEERROR | INVALIDPAGE | PAGENOTFOUND | UTLBLEXCEPTION | UTLBSEXCEPTION | TLBLEXCEPTION | TLBSEXCEPTION
  | ADELEXCEPTION | ADESEXCEPTION | MODEXCEPTION

fun exc_code :: "exception \<Rightarrow> u32" where
  "exc_code NOEXCEPTION = 0"
| "exc_code MEMERROR = 1"
| "exc_code BUSERROR = 2"
| "exc_code INTEXCEPTION = 3"
| "exc_code SYSEXCEPTION = 4"
| "exc_code UNDEDEXCEPTION = 5"
| "exc_code COPROCEXCEPTION = 6"
| "exc_code BPEXCEPTION = 7"
| "exc_code SEGERROR = 8"
| "exc_code PAGEERROR = 9"
| "exc_code INVALIDPAGE = 10"
| "exc_code PAGENOTFOUND = 11"
| "exc_code UTLBLEXCEPTION = 12"
| "exc_code UTLBSEXCEPTION = 13"
| "exc_code TLBLEXCEPTION = 14"
| "exc_code TLBSEXCEPTION = 15"
| "exc_code ADELEXCEPTION = 16"
| "exc_code ADESEXCEPTION = 17"
| "exc_code MODEXCEPTION = 18"

definition EXC_INTERRUPT :: u32 where "EXC_INTERRUPT = exc_code INTEXCEPTION"
definition EXC_TLBMOD :: u32 where "EXC_TLBMOD = exc_code MODEXCEPTION"
definition EXC_TLBINVLOAD :: u32 where "EXC_TLBINVLOAD = exc_code TLBLEXCEPTION"
definition EXC_TLBINVSTORE :: u32 where "EXC_TLBINVSTORE = exc_code TLBSEXCEPTION"
definition EXC_ADDRINVLOAD :: u32 where "EXC_ADDRINVLOAD = exc_code ADELEXCEPTION"
definition EXC_ADDRINVSTORE :: u32 where "EXC_ADDRINVSTORE = exc_code ADESEXCEPTION"
definition EXC_BUSINVFETCH :: u32 where "EXC_BUSINVFETCH = exc_code BUSERROR"
definition EXC_BUSINVLDSTORE :: u32 where "EXC_BUSINVLDSTORE = exc_code BUSERROR"
definition EXC_SYSCALL :: u32 where "EXC_SYSCALL = exc_code SYSEXCEPTION"
definition EXC_BREAKPOINT :: u32 where "EXC_BREAKPOINT = exc_code BPEXCEPTION"
definition EXC_COPROCUNUSABLE :: u32 where "EXC_COPROCUNUSABLE = exc_code COPROCEXCEPTION"
definition EXC_BADPTE :: u32 where "EXC_BADPTE = exc_code INVALIDPAGE"
definition EXC_PTEMISS :: u32 where "EXC_PTEMISS = exc_code PAGENOTFOUND"
definition EXC_BADPAGTBL :: u32 where "EXC_BADPAGTBL = exc_code PAGEERROR"
definition EXC_BADSEGTBL :: u32 where "EXC_BADSEGTBL = exc_code SEGERROR"

text \<open>The exceptions are finitely many, so that the library enumerates them, and are ordered as their numbers.\<close>

instantiation exception :: enum
begin

definition enum_exception :: "exception list" where
  "enum_exception = [NOEXCEPTION, MEMERROR, BUSERROR, INTEXCEPTION, SYSEXCEPTION, UNDEDEXCEPTION, COPROCEXCEPTION, BPEXCEPTION, SEGERROR,
     PAGEERROR, INVALIDPAGE, PAGENOTFOUND, UTLBLEXCEPTION, UTLBSEXCEPTION, TLBLEXCEPTION, TLBSEXCEPTION, ADELEXCEPTION, ADESEXCEPTION, MODEXCEPTION]"

definition enum_all_exception :: "(exception \<Rightarrow> bool) \<Rightarrow> bool" where
  "enum_all_exception P \<longleftrightarrow> list_all P enum_class.enum"

definition enum_ex_exception :: "(exception \<Rightarrow> bool) \<Rightarrow> bool" where
  "enum_ex_exception P \<longleftrightarrow> list_ex P enum_class.enum"

instance
proof
  show all: "(UNIV :: exception set) = set enum_class.enum"
    by (auto simp: enum_exception_def intro: exception.exhaust)
  show "distinct (enum_class.enum :: exception list)" by (simp add: enum_exception_def)
  show "enum_class.enum_all P \<longleftrightarrow> Ball UNIV P" "enum_class.enum_ex P \<longleftrightarrow> Bex UNIV P" for P :: "exception \<Rightarrow> bool"
    unfolding all by (simp_all add: enum_all_exception_def enum_ex_exception_def list_all_iff list_ex_iff)
qed

end

lemma exc_codes: "map exc_code enum_class.enum = map of_nat [0..<19]"
  by (simp add: enum_exception_def upt_rec)

lemma exc_code_inj: "exc_code e = exc_code e' \<longleftrightarrow> e = e'"
  by (cases e; cases e'; simp)

instantiation exception :: linorder
begin

definition less_eq_exception :: "exception \<Rightarrow> exception \<Rightarrow> bool" where
  "less_eq_exception e e' \<longleftrightarrow> exc_code e \<le> exc_code e'"

definition less_exception :: "exception \<Rightarrow> exception \<Rightarrow> bool" where
  "less_exception e e' \<longleftrightarrow> exc_code e < exc_code e'"

instance
  by standard (auto simp: less_eq_exception_def less_exception_def exc_code_inj less_le)

end

text \<open>The constructors are in the order of the numbers.\<close>

lemma exceptions_in_order: "sorted (enum_class.enum :: exception list)"
  by (simp add: enum_exception_def less_eq_exception_def)

text \<open>The number in the cause register determines the exception.\<close>

definition exc_of :: "u32 \<Rightarrow> exception option" where
  "exc_of w = find (\<lambda>e. exc_code e = w) enum_class.enum"

lemma exc_of_code: "exc_of (exc_code e) = Some e"
  by (cases e) (simp_all add: exc_of_def enum_exception_def)

lemma exc_code_fits: "fits_in 24 (exc_code e)"
  by (rule fits_unat) (cases e; simp)

lemma cause_exception:
  "exc_of (CAUSE_EXCCODE_GET (CAUSE_EXCCODE_SET cause (exc_code e))) = Some e"
  "i < 8 \<Longrightarrow> CAUSE_IP_GET (CAUSE_EXCCODE_SET cause (exc_code e)) i = CAUSE_IP_GET cause i"
  by (simp_all add: cause_set_get exc_code_fits exc_of_code cause_set_ip)

text \<open>The code that the kernel itself puts in the cause register is none of the machine.\<close>

lemma reserved_instruction: "exc_of EXC_RESERVEDINSTR = None"
  by (simp add: exc_of_def enum_exception_def EXC_RESERVEDINSTR_def)

section \<open>Device registers\<close>

text \<open>The union of the two views of the four words of a device.\<close>

record devreg_t =
  dtp :: dtpreg_t
  "term" :: termreg_t

definition load_devreg :: "memory \<Rightarrow> u32 \<Rightarrow> devreg_t" where
  "load_devreg m a = \<lparr>dtp = load_dtpreg m a, term = load_termreg m a\<rparr>"

lemma devreg_union:
  "recv_status (term (load_devreg m a)) = status (dtp (load_devreg m a))"
  "recv_command (term (load_devreg m a)) = command (dtp (load_devreg m a))"
  "transm_status (term (load_devreg m a)) = data0 (dtp (load_devreg m a))"
  "transm_command (term (load_devreg m a)) = data1 (dtp (load_devreg m a))"
  by (simp_all add: load_devreg_def load_dtpreg_def load_termreg_def)

definition DEV_DISK_C_SEEKCYL :: u32 where "DEV_DISK_C_SEEKCYL = 2"
definition DEV_DISK_C_READBLK :: u32 where "DEV_DISK_C_READBLK = 3"
definition DEV_DISK_C_WRITEBLK :: u32 where "DEV_DISK_C_WRITEBLK = 4"
definition DEV_TAPE_C_READBLK :: u32 where "DEV_TAPE_C_READBLK = 3"
definition DEV_PRNT_C_PRINTCHR :: u32 where "DEV_PRNT_C_PRINTCHR = 2"
definition DEV_TRCV_C_RECVCHAR :: u32 where "DEV_TRCV_C_RECVCHAR = 2"
definition DEV_TTRS_C_TRSMCHAR :: u32 where "DEV_TTRS_C_TRSMCHAR = 2"
definition DEV_S_READY :: u32 where "DEV_S_READY = 1"
definition DEV_TRCV_S_RECVERR :: u32 where "DEV_TRCV_S_RECVERR = 4"
definition DEV_TRCV_S_CHARRECV :: u32 where "DEV_TRCV_S_CHARRECV = 5"
definition DEV_TTRS_S_TRSMERR :: u32 where "DEV_TTRS_S_TRSMERR = 4"
definition DEV_TTRS_S_CHARTRSM :: u32 where "DEV_TTRS_S_CHARTRSM = 5"
definition DEV_TERM_STATUS :: u32 where "DEV_TERM_STATUS = 0xFF"
definition DEV_NOT_INSTALLED :: u32 where "DEV_NOT_INSTALLED = 0"

lemmas dev_defs = DEV_C_ACK_def DEV_DISK_C_SEEKCYL_def DEV_DISK_C_READBLK_def DEV_DISK_C_WRITEBLK_def DEV_TAPE_C_READBLK_def
  DEV_PRNT_C_PRINTCHR_def DEV_TRCV_C_RECVCHAR_def DEV_TTRS_C_TRSMCHAR_def DEV_S_READY_def DEV_TRCV_S_RECVERR_def
  DEV_TRCV_S_CHARRECV_def DEV_TTRS_S_TRSMERR_def DEV_TTRS_S_CHARTRSM_def DEV_TERM_STATUS_def DEV_NOT_INSTALLED_def

text \<open>No command of a device is its acknowledgement, and no two statuses of a terminal coincide.\<close>

lemma device_codes:
  "distinct [DEV_C_ACK, DEV_DISK_C_SEEKCYL, DEV_DISK_C_READBLK, DEV_DISK_C_WRITEBLK]" "distinct [DEV_C_ACK, DEV_TAPE_C_READBLK]"
  "distinct [DEV_C_ACK, DEV_PRNT_C_PRINTCHR]" "distinct [DEV_C_ACK, DEV_TRCV_C_RECVCHAR]" "distinct [DEV_C_ACK, DEV_TTRS_C_TRSMCHAR]"
  "distinct [DEV_NOT_INSTALLED, DEV_S_READY, DEV_TRCV_S_RECVERR, DEV_TRCV_S_CHARRECV]"
  "distinct [DEV_NOT_INSTALLED, DEV_S_READY, DEV_TTRS_S_TRSMERR, DEV_TTRS_S_CHARTRSM]"
  "\<forall>s \<in> {DEV_S_READY, DEV_TTRS_S_TRSMERR, DEV_TTRS_S_CHARTRSM}. s AND DEV_TERM_STATUS = s"
  by (simp_all add: dev_defs)

section \<open>The remaining constants\<close>

text \<open>The instructions that operate on the TLB, the priority field of a processor and the routing of interrupts.\<close>

definition OP_TLBWR :: u32 where "OP_TLBWR = 0xEE280F00"
definition OP_TLBWI :: u32 where "OP_TLBWI = 0xEE3A0F00"
definition OP_TLBR :: u32 where "OP_TLBR = 0xEE4A2F00"
definition OP_TLBP :: u32 where "OP_TLBP = 0xEE52AF00"
definition OP_TLBCLR :: u32 where "OP_TLBCLR = 0xEE600F00"
definition CPUCTL_TPR_PRIORITY_MASK :: u32 where "CPUCTL_TPR_PRIORITY_MASK = 0xF"
definition IRT_POLICY_FIXED :: u32 where "IRT_POLICY_FIXED = 0"

definition STATUS_NULL :: u32 where "STATUS_NULL = 0"
definition CP15_CONTROL_NULL :: u32 where "CP15_CONTROL_NULL = 0"
definition TAPE_EOF :: u32 where "TAPE_EOF = 1"
definition TAPE_EOT :: u32 where "TAPE_EOT = 0"
definition READ :: u32 where "READ = 0"
definition WRITE :: u32 where "WRITE = 1"
definition FALSE :: u32 where "FALSE = 0"
definition TRUE :: u32 where "TRUE = 1"
definition CR :: u32 where "CR = 0xA"
definition PACKETSIZE :: u32 where "PACKETSIZE = 1514"

definition MIN_of :: "'a::linorder \<Rightarrow> 'a \<Rightarrow> 'a" where
  "MIN_of a b = (if a < b then a else b)"

lemma MIN_min: "MIN_of a b = min a b"
  by (auto simp: MIN_of_def min_def)

text \<open>The instructions differ, also in the number that the machine decodes; they are coprocessor instructions.\<close>

lemma tlb_opcodes:
  "distinct (map (\<lambda>w. drop_bit 20 w AND 0xF) [OP_TLBWR, OP_TLBWI, OP_TLBR, OP_TLBP, OP_TLBCLR])"
  "\<forall>w \<in> {OP_TLBWR, OP_TLBWI, OP_TLBR, OP_TLBP, OP_TLBCLR}. drop_bit 24 w = 0xEE"
  by (simp_all add: OP_TLBWR_def OP_TLBWI_def OP_TLBR_def OP_TLBP_def OP_TLBCLR_def drop_bit_eq_div)

text \<open>The empty words are neutral for the operations on the status and the control register.\<close>

lemma empty_words: "w OR STATUS_NULL = w" "w OR CP15_CONTROL_NULL = w"
  by (simp_all add: STATUS_NULL_def CP15_CONTROL_NULL_def)

section \<open>Structures in memory\<close>

text \<open>The parameters of a disk and the header of an executable, as the words that they occupy.\<close>

record disk_data_t =
  max_cyl :: val
  max_head :: val
  max_sect :: val

record elf_hdr_s =
  tag :: val
  entry_point :: val
  text_vaddr :: val
  text_memsz :: val
  text_offset :: val
  text_filesz :: val
  data_vaddr :: val
  data_memsz :: val
  data_offset :: val
  data_filesz :: val

definition load_elf_hdr :: "memory \<Rightarrow> u32 \<Rightarrow> elf_hdr_s" where
  "load_elf_hdr m a = \<lparr>tag = m a, entry_point = m (a + 4), text_vaddr = m (a + 8), text_memsz = m (a + 12),
     text_offset = m (a + 16), text_filesz = m (a + 20), data_vaddr = m (a + 24), data_memsz = m (a + 28),
     data_offset = m (a + 32), data_filesz = m (a + 36)\<rparr>"

definition elf_words :: "elf_hdr_s \<Rightarrow> val list" where
  "elf_words x = [tag x, entry_point x, text_vaddr x, text_memsz x, text_offset x, text_filesz x, data_vaddr x, data_memsz x,
     data_offset x, data_filesz x]"

definition load_disk_data :: "memory \<Rightarrow> u32 \<Rightarrow> disk_data_t" where
  "load_disk_data m a = \<lparr>max_cyl = m a, max_head = m (a + 4), max_sect = m (a + 8)\<rparr>"

lemma load_store_elf: "load_elf_hdr (store_words a (elf_words x) m) a = x"
  by (cases x) (simp add: load_elf_hdr_def elf_words_def WORD_SIZE_def add.assoc)

lemma load_store_disk: "load_disk_data (store_words a [max_cyl x, max_head x, max_sect x] m) a = x"
  by (cases x) (simp add: load_disk_data_def WORD_SIZE_def add.assoc)

section \<open>The map of the memory is a map\<close>

lemma memory_map:
  assumes "r \<in> set regions" "r' \<in> set regions" "in_region a r"
  shows "a < RAM_BASE" "in_region a r' \<Longrightarrow> r = r'"
  using assms regions_ordered ordered_unique[OF regions_ordered(1)] by (auto simp: in_region_def)

end
