(* ===== verification/P2test.thy ===== *)
theory P2test imports Lock Ssi Arch Devices "HOL-Library.State_Monad" begin

text \<open>
  The threads of the acceptance test of the kernel, \<open>tests/p2test.c\<close>, as programs against an arbitrary
  kernel: every system call, request to the SSI, special instruction and access to memory that is not a
  variable of the test is an operation, and the environment says what it returns, or that it does not
  return. The theorems say what the test finds out: what an environment has answered when a thread does
  not panic, and that the threads panic with the kernel of this repository.
\<close>

section \<open>Programs against an environment\<close>

text \<open>The payload of a message: a word, or the address of a string.\<close>

datatype payload = V val | Str string

text \<open>
  The operations. The stubs of \<open>create_process\<close> and \<open>create_thread\<close> come with the state that their argument
  points to. \<open>Peek\<close> and \<open>Poke\<close> are accesses through the pointers that a manager receives.
\<close>

datatype field = State_a1 | State_cause | Tcb_pc

datatype operation =
    Msgsend val payload | Msgrecv val | Request request | Create_process_of state_t | Create_thread_of state_t
  | Syscall4 u32 u32 u32 u32 | Get_todlo | Store_state | Get_status | Set_status u32
  | Peek val field | Poke val field val | Store u32 u32 | Print string

record reply =
  r_val :: val
  r_payload :: payload
  r_state :: state_t

datatype ending = Panicked | Halted | Spins | Fault | In_call operation

text \<open>The variables of the test.\<close>

record variables =
  printid :: val
  csid :: val
  testt :: val
  p2t :: val
  p3t :: val
  p4t :: val
  p5t :: val
  p6t :: val
  p7t :: val
  p8t :: val
  tmpstate :: state_t
  stackalloc :: u32
  p5sys :: u32
  p5send :: u32
  p4inc :: int

text \<open>
  The environment answers the \<open>n\<close>-th operation and says what the other threads do to the variables
  meanwhile; \<open>None\<close> when the operation does not return. A thread that has ended does nothing more.
\<close>

type_synonym environment = "nat \<Rightarrow> operation \<Rightarrow> (reply \<times> (variables \<Rightarrow> variables)) option"

record world =
  env :: environment
  vars :: variables
  calls :: "(operation \<times> reply) list"
  ending :: "ending option"

type_synonym 'a thread = "(world, 'a) state"

abbreviation ret :: "'a \<Rightarrow> 'a thread" where "ret \<equiv> State_Monad.return"

definition nothing :: reply where
  "nothing = \<lparr>r_val = NULL, r_payload = V NULL, r_state = zero_state\<rparr>"

definition invoke :: "operation \<Rightarrow> reply thread" where
  "invoke f = State (\<lambda>w.
     if ending w \<noteq> None then (nothing, w)
     else (case env w (length (calls w)) f of
         None \<Rightarrow> (nothing, w\<lparr>ending := Some (In_call f)\<rparr>)
       | Some (r, others) \<Rightarrow> (r, w\<lparr>calls := calls w @ [(f, r)], vars := others (vars w)\<rparr>)))"

definition variable :: "(variables \<Rightarrow> 'a) \<Rightarrow> 'a thread" where
  "variable x = State (\<lambda>w. (x (vars w), w))"

definition assign :: "(variables \<Rightarrow> variables) \<Rightarrow> unit thread" where
  "assign f = State (\<lambda>w. ((), if ending w = None then w\<lparr>vars := f (vars w)\<rparr> else w))"

definition ends :: "ending \<Rightarrow> unit thread" where
  "ends e = State (\<lambda>w. ((), if ending w = None then w\<lparr>ending := Some e\<rparr> else w))"

text \<open>The values of C: a number of a word, and the null pointer as \<open>false\<close>.\<close>

definition number :: "val \<Rightarrow> u32 thread" where
  "number v = (case as_u32 v of Some n \<Rightarrow> ret n | None \<Rightarrow> do { ends Fault; ret 0 })"

definition nl :: "string \<Rightarrow> string" where
  "nl s = s @ [CHR 0x0A]"

section \<open>The stubs and the library\<close>

definition msgsend :: "val \<Rightarrow> payload \<Rightarrow> val thread" where
  "msgsend d v = do { r \<leftarrow> invoke (Msgsend d v); ret (r_val r) }"

definition msgrecv :: "val \<Rightarrow> (val \<times> payload) thread" where
  "msgrecv source = do { r \<leftarrow> invoke (Msgrecv source); ret (r_val r, r_payload r) }"

definition ask :: "request \<Rightarrow> val thread" where
  "ask q = do { r \<leftarrow> invoke (Request q); ret (r_val r) }"

definition create_process :: "state_t \<Rightarrow> val thread" where
  "create_process st = do { r \<leftarrow> invoke (Create_process_of st); ret (r_val r) }"

definition create_thread :: "state_t \<Rightarrow> val thread" where
  "create_thread st = do { r \<leftarrow> invoke (Create_thread_of st); ret (r_val r) }"

definition STST :: "state_t thread" where
  "STST = do { r \<leftarrow> invoke Store_state; ret (r_state r) }"

definition perform :: "operation \<Rightarrow> unit thread" where
  "perform f = do { _ \<leftarrow> invoke f; ret () }"

abbreviation PANIC :: "unit thread" where "PANIC \<equiv> ends Panicked"
abbreviation HALT :: "unit thread" where "HALT \<equiv> ends Halted"

section \<open>The terminal and the critical section\<close>

definition QPAGE :: u32 where "QPAGE = FRAME_SIZE"
definition TERM0ADDR :: u32 where "TERM0ADDR = 0x24C"
definition SYNCCODE :: u32 where "SYNCCODE = 0x01000010"
definition MINLOOPTIME :: u32 where "MINLOOPTIME = 5"
definition PSEUDOCLOCK :: u32 where "PSEUDOCLOCK = 100000"
definition NWAIT :: nat where "NWAIT = 10"
definition BADADDR :: u32 where "BADADDR = 0xFFFFFFFF"
definition NGRANDCHILDREN :: nat where "NGRANDCHILDREN = 3"

fun ttyprintstring :: "u32 \<Rightarrow> string \<Rightarrow> unit thread" where
  "ttyprintstring device [] = ret ()"
| "ttyprintstring device (c # s) =
     (if c = CHR 0x00 then ret ()
      else do {
        status \<leftarrow> ask (Do_io (U device) (U (DEV_TTRS_C_TRSMCHAR OR push_bit 8 (of_char c))) NULL NULL);
        status \<leftarrow> number status;
        if status AND 0xFF \<in> {DEV_S_READY, DEV_TTRS_S_CHARTRSM} then ttyprintstring device s else ret () })"

text \<open>One round of the loop of \<open>tty0out_thread\<close>.\<close>

definition tty0out_thread :: "unit thread" where
  "tty0out_thread = do {
     (sender, payload) \<leftarrow> msgrecv NULL;
     (case payload of
        Str s \<Rightarrow> ttyprintstring TERM0ADDR s
      | V _ \<Rightarrow> ends Fault);
     _ \<leftarrow> msgsend sender (V NULL);
     ret ()
   }"

definition tty0print :: "string \<Rightarrow> unit thread" where
  "tty0print s = do {
     p \<leftarrow> variable printid;
     _ \<leftarrow> msgsend p (Str s);
     p \<leftarrow> variable printid;
     _ \<leftarrow> msgrecv p;
     ret ()
   }"

definition panic :: "string \<Rightarrow> unit thread" where
  "panic s = do {
     tty0print ''!!! PANIC: '';
     tty0print s;
     PANIC
   }"

definition CSIN :: "unit thread" where
  "CSIN = do {
     c \<leftarrow> variable csid;
     _ \<leftarrow> msgsend c (V NULL);
     c \<leftarrow> variable csid;
     _ \<leftarrow> msgrecv c;
     ret ()
   }"

definition CSOUT :: "unit thread" where
  "CSOUT = do { c \<leftarrow> variable csid; _ \<leftarrow> msgsend c (V NULL); ret () }"

text \<open>The statement \<open>stackalloc -= QPAGE\<close>, with the new value.\<close>

definition take_page :: "u32 thread" where
  "take_page = do {
     assign (\<lambda>x. x\<lparr>stackalloc := stackalloc x - QPAGE\<rparr>);
     variable stackalloc
   }"

text \<open>The assignments to \<open>tmpstate\<close>, and the sequence that \<open>test\<close> repeats: a new stack, in the critical section.\<close>

definition set_tmp :: "(state_t \<Rightarrow> state_t) \<Rightarrow> unit thread" where
  "set_tmp f = assign (\<lambda>x. x\<lparr>tmpstate := f (tmpstate x)\<rparr>)"

definition tmp_stack :: "unit thread" where
  "tmp_stack = do {
     CSIN;
     page \<leftarrow> take_page;
     set_tmp (\<lambda>st. st\<lparr>sp := U page\<rparr>);
     CSOUT
   }"

definition new_process :: "fn_sym \<Rightarrow> val thread" where
  "new_process f = do {
     set_tmp (\<lambda>st. st\<lparr>pc := Fn f\<rparr>);
     st \<leftarrow> variable tmpstate;
     create_process st
   }"

section \<open>The test thread\<close>

definition test_start :: "unit thread" where
  "test_start = do {
     ttyprintstring TERM0ADDR (nl ''NUCLEUS1...'');
     st \<leftarrow> STST;
     set_tmp (\<lambda>_. st);
     top \<leftarrow> number (sp st);
     assign (\<lambda>x. x\<lparr>stackalloc := (top + (QPAGE - 1)) AND NOT (QPAGE - 1)\<rparr>);
     page \<leftarrow> take_page;
     set_tmp (\<lambda>st. st\<lparr>sp := U page\<rparr>);
     set_tmp (\<lambda>st. st\<lparr>pc := Fn fn_tty0out_thread\<rparr>);
     st \<leftarrow> variable tmpstate;
     mode \<leftarrow> number (cpsr st);
     set_tmp (\<lambda>st. st\<lparr>cpsr := U (STATUS_ALL_INT_ENABLE mode)\<rparr>);
     st \<leftarrow> variable tmpstate;
     t \<leftarrow> create_thread st;
     assign (\<lambda>x. x\<lparr>printid := t\<rparr>);
     tty0print (nl ''NUCLEUS2'');
     me \<leftarrow> ask Get_mythreadid;
     assign (\<lambda>x. x\<lparr>testt := me\<rparr>);
     page \<leftarrow> take_page;
     set_tmp (\<lambda>st. st\<lparr>sp := U page\<rparr>);
     t \<leftarrow> new_process fn_cs_thread;
     assign (\<lambda>x. x\<lparr>csid := t\<rparr>);
     tty0print (nl ''NUCLEUS3'')
   }"

definition test_p2 :: "unit thread" where
  "test_p2 = do {
     tmp_stack;
     t \<leftarrow> new_process fn_p2;
     assign (\<lambda>x. x\<lparr>p2t := t\<rparr>);
     t \<leftarrow> variable p2t;
     _ \<leftarrow> msgsend t (V (U SYNCCODE));
     tty0print (nl ''p2 message sent'');
     t \<leftarrow> variable p2t;
     _ \<leftarrow> msgrecv t;
     tty0print (nl ''p2 completed'')
   }"

definition test_p3 :: "unit thread" where
  "test_p3 = do {
     tmp_stack;
     t \<leftarrow> new_process fn_p3;
     assign (\<lambda>x. x\<lparr>p3t := t\<rparr>);
     t \<leftarrow> variable p3t;
     _ \<leftarrow> msgrecv t;
     tty0print (nl ''p3 completed'')
   }"

definition test_p4 :: "unit thread" where
  "test_p4 = do {
     tmp_stack;
     t \<leftarrow> new_process fn_p4;
     assign (\<lambda>x. x\<lparr>p4t := t\<rparr>);
     t \<leftarrow> variable p4t;
     _ \<leftarrow> msgsend t (V NULL);
     t \<leftarrow> variable p4t;
     _ \<leftarrow> msgrecv t;
     t \<leftarrow> variable p4t;
     st \<leftarrow> variable tmpstate;
     _ \<leftarrow> msgsend t (V (sp st));
     t \<leftarrow> variable p4t;
     _ \<leftarrow> msgrecv t;
     e \<leftarrow> ask Geterrno;
     e \<leftarrow> number e;
     (if e = 0 then panic (nl ''p1 wrong errno: recv from p4 should abort, p4 terminated'')
      else tty0print (nl ''p4 errno ok''));
     tty0print (nl ''p4 completed'')
   }"

definition test_p5 :: "unit thread" where
  "test_p5 = do {
     tmp_stack;
     t \<leftarrow> new_process fn_p5;
     assign (\<lambda>x. x\<lparr>p5t := t\<rparr>);
     t \<leftarrow> variable p5t;
     _ \<leftarrow> msgsend t (V NULL);
     t \<leftarrow> variable p5t;
     _ \<leftarrow> msgrecv t;
     n \<leftarrow> variable p5sys;
     (if n = 1 then tty0print (nl ''p5a usermode sys passup ok'') else panic (nl ''p5a usermode passup error''));
     n \<leftarrow> variable p5send;
     if n \<noteq> 2 then tty0print (nl ''p5a usermode msg priv kill is ok'') else panic (nl ''p5a usermode msg priv kill error'')
   }"

definition test_p6 :: "unit thread" where
  "test_p6 = do {
     tmp_stack;
     t \<leftarrow> new_process fn_p6;
     assign (\<lambda>x. x\<lparr>p6t := t\<rparr>);
     t \<leftarrow> variable p6t;
     _ \<leftarrow> msgrecv t;
     tty0print (nl ''p6 completed'')
   }"

definition test_p7 :: "unit thread" where
  "test_p7 = do {
     tmp_stack;
     t \<leftarrow> new_process fn_p7;
     assign (\<lambda>x. x\<lparr>p7t := t\<rparr>);
     t \<leftarrow> variable p7t;
     _ \<leftarrow> msgrecv t;
     tty0print (nl ''p7 completed'')
   }"

definition test_p8 :: "unit thread" where
  "test_p8 = do {
     tmp_stack;
     t \<leftarrow> new_process fn_p8;
     assign (\<lambda>x. x\<lparr>p8t := t\<rparr>);
     t \<leftarrow> variable p8t;
     _ \<leftarrow> msgrecv t;
     tty0print (nl ''p8 completed'')
   }"

definition test :: "unit thread" where
  "test = do {
     test_start;
     test_p2;
     test_p3;
     test_p4;
     test_p5;
     test_p6;
     test_p7;
     test_p8;
     tty0print (nl (''IT'' @ [CHR 0x27] @ ''S ALIVE! IT'' @ [CHR 0x27] @ ''S ALIVE! THE KERNEL IS ALIVE!''));
     HALT
   }"

section \<open>The threads of the test\<close>

text \<open>The empty loop for delay has no effect here; operands are evaluated from left to right.\<close>

definition p2 :: "unit thread" where
  "p2 = do {
     tty0print (nl ''p2 started'');
     tty0print (nl ''p2 about to call get_mythreadid()'');
     me \<leftarrow> ask Get_mythreadid;
     t \<leftarrow> variable p2t;
     (if me \<noteq> t then panic (nl ''p2 get_mythreadid: wrong pid returned'') else ret ());
     (p1t, value) \<leftarrow> msgrecv NULL;
     tty0print (nl ''p2 message received'');
     (if value \<noteq> V (U SYNCCODE) then panic (nl ''p2 recv: got the wrong value'') else ret ());
     t \<leftarrow> variable testt;
     (if p1t \<noteq> t then panic (nl ''p2 recv: got the wrong sender'') else ret ());
     p \<leftarrow> ask (Get_processid p1t);
     me \<leftarrow> ask Get_mythreadid;
     q \<leftarrow> ask (Get_processid me);
     q \<leftarrow> ask (Get_parentprocid q);
     (if p \<noteq> q then panic (nl ''p2 get_parentprocid get_processid error'') else ret ());
     cpu_t1 \<leftarrow> ask Getcputime;
     cpu_t2 \<leftarrow> ask Getcputime;
     cpu_t1 \<leftarrow> number cpu_t1;
     cpu_t2 \<leftarrow> number cpu_t2;
     (if MINLOOPTIME \<le> cpu_t2 - cpu_t1 then tty0print (nl ''p2 GET_CPUTIME sounds okay'')
      else panic (nl ''p2 GETCPUTIME sounds faulty''));
     _ \<leftarrow> msgsend p1t (V NULL);
     _ \<leftarrow> msgrecv p1t;
     _ \<leftarrow> ask Terminate_thread;
     panic (nl ''p2 survived TERMINATE_THREAD'')
   }"

fun times :: "nat \<Rightarrow> unit thread \<Rightarrow> unit thread" where
  "times 0 m = ret ()"
| "times (Suc n) m = do { m; times n m }"

definition getTODLO :: "u32 thread" where
  "getTODLO = do { r \<leftarrow> invoke Get_todlo; number (r_val r) }"

definition waitforclock :: "unit thread" where
  "waitforclock = do { _ \<leftarrow> ask Waitforclock; ret () }"

definition p3 :: "unit thread" where
  "p3 = do {
     tty0print (nl ''p3 started'');
     time1 \<leftarrow> getTODLO;
     times NWAIT waitforclock;
     time2 \<leftarrow> getTODLO;
     (if time2 - time1 < PSEUDOCLOCK * (of_nat NWAIT - 1) then panic (nl ''WAITCLOCK too small'')
      else if PSEUDOCLOCK * (of_nat NWAIT + 1) < time2 - time1 then panic (nl ''WAITCLOCK too big'')
      else tty0print (nl ''WAITCLOCK OK''));
     t \<leftarrow> variable testt;
     _ \<leftarrow> msgsend t (Str ''NULL'');
     _ \<leftarrow> ask Terminate_process;
     panic (nl ''p3 survived TERMINATE_PROCESS'')
   }"

text \<open>A new stack for a local state \<open>st\<close>, in the critical section.\<close>

definition local_stack :: "state_t \<Rightarrow> state_t thread" where
  "local_stack st = do {
     CSIN;
     page \<leftarrow> take_page;
     CSOUT;
     ret (st\<lparr>sp := U page\<rparr>)
   }"

definition p4 :: "unit thread" where
  "p4 = do {
     inc \<leftarrow> variable p4inc;
     (if inc = 1 then tty0print (nl ''first incarnation of p4 starts'')
      else if inc = 2 then tty0print (nl ''second incarnation of p4 starts'')
      else ret ());
     assign (\<lambda>x. x\<lparr>p4inc := p4inc x + 1\<rparr>);
     (parent, _) \<leftarrow> msgrecv NULL;
     _ \<leftarrow> msgsend parent (V NULL);
     _ \<leftarrow> msgrecv NULL;
     p4childstate \<leftarrow> STST;
     p4childstate \<leftarrow> local_stack p4childstate;
     child \<leftarrow> create_process (p4childstate\<lparr>pc := Fn fn_p4\<rparr>);
     _ \<leftarrow> msgsend child (V NULL);
     _ \<leftarrow> msgrecv child;
     _ \<leftarrow> ask Terminate_process;
     panic (nl ''p4 survived TERMINATE_PROCESS'')
   }"

text \<open>The managers: one round of each loop. A payload that is a string is no pointer to a state.\<close>

definition state_pointer :: "payload \<Rightarrow> val thread" where
  "state_pointer p = (case p of V v \<Rightarrow> ret v | Str _ \<Rightarrow> do { ends Fault; ret NULL })"

definition peek :: "val \<Rightarrow> field \<Rightarrow> u32 thread" where
  "peek p f = do { r \<leftarrow> invoke (Peek p f); number (r_val r) }"

definition p5p :: "bool \<Rightarrow> bool thread" where
  "p5p should_terminate = do {
     (sender, state) \<leftarrow> msgrecv NULL;
     state \<leftarrow> state_pointer state;
     cause \<leftarrow> peek state State_cause;
     should_terminate \<leftarrow>
       (if CAUSE_EXCCODE_GET cause = EXC_RESERVEDINSTR then do { tty0print (nl ''p5a got RESERVEDINSTR''); ret True }
        else do { PANIC; ret should_terminate });
     (if should_terminate then do { _ \<leftarrow> ask Terminate_process; ret () } else do { _ \<leftarrow> msgsend sender (V NULL); ret () });
     ret should_terminate
   }"

definition p5m :: "unit thread" where
  "p5m = do {
     (sender, state) \<leftarrow> msgrecv NULL;
     state \<leftarrow> state_pointer state;
     cause \<leftarrow> peek state State_cause;
     tty0print (nl ''p5 mem error passup okay'');
     perform (Poke sender Tcb_pc (Fn fn_p5a));
     _ \<leftarrow> msgsend sender (V NULL);
     ret ()
   }"

definition p5s :: "unit thread" where
  "p5s = do {
     (sender, state) \<leftarrow> msgrecv NULL;
     state \<leftarrow> state_pointer state;
     a \<leftarrow> peek state State_a1;
     let retval = (if a = 42 then 42 else if a = 3 then 0 else - 1);
     perform (Poke state State_a1 (U retval));
     _ \<leftarrow> msgsend sender (V NULL);
     ret ()
   }"

text \<open>A manager is created on a new stack.\<close>

definition new_manager :: "state_t \<Rightarrow> fn_sym \<Rightarrow> (val \<Rightarrow> request) \<Rightarrow> state_t thread" where
  "new_manager mgrstate f request_of = do {
     mgrstate \<leftarrow> local_stack mgrstate;
     let mgrstate = mgrstate\<lparr>pc := Fn f\<rparr>;
     t \<leftarrow> create_thread mgrstate;
     _ \<leftarrow> ask (request_of t);
     ret mgrstate
   }"

definition p5 :: "unit thread" where
  "p5 = do {
     tty0print (nl ''p5 started'');
     mgrstate \<leftarrow> STST;
     (_, v) \<leftarrow> msgrecv NULL;
     v \<leftarrow> state_pointer v;
     mgrstate \<leftarrow> new_manager (mgrstate\<lparr>pc := v\<rparr>) fn_p5p Setpgmmgr;
     mgrstate \<leftarrow> new_manager mgrstate fn_p5m Settlbmgr;
     mgrstate \<leftarrow> new_manager mgrstate fn_p5s Setsysmgr;
     perform (Print (nl ''BREAKPOINT''));
     r \<leftarrow> invoke (Syscall4 42 42 42 42);
     retval \<leftarrow> number (r_val r);
     (if retval = 42 then tty0print (nl ''p5 syscall passup okay'') else panic (nl ''p5 syscall passup error''));
     perform (Store BADADDR 0);
     panic ''p5 survived mem error''
   }"

definition p5a :: "unit thread" where
  "p5a = do {
     r \<leftarrow> invoke Get_status;
     status \<leftarrow> number (r_val r);
     perform (Set_status ((status AND STATUS_CLEAR_MODE) OR STATUS_USER_MODE));
     assign (\<lambda>x. x\<lparr>p5sys := 0\<rparr>);
     r \<leftarrow> invoke (Syscall4 3 2 1 0);
     retval \<leftarrow> number (r_val r);
     (if retval = 0 then assign (\<lambda>x. x\<lparr>p5sys := 1\<rparr>) else assign (\<lambda>x. x\<lparr>p5sys := 2\<rparr>));
     _ \<leftarrow> msgsend (Tcb SSI_thread) (V NULL);
     assign (\<lambda>x. x\<lparr>p5send := 2\<rparr>);
     ends Spins
   }"

definition p6 :: "unit thread" where
  "p6 = do {
     tty0print (nl ''p6 started'');
     perform (Store BADADDR 0);
     panic ''p6 survived mem error''
   }"

definition p7 :: "unit thread" where
  "p7 = do {
     tty0print (nl ''p7 started'');
     perform (Syscall4 3 2 1 0);
     panic ''p7 survived syscall without manager''
   }"

definition p8 :: "unit thread" where
  "p8 = do {
     tty0print (nl ''p8 started'');
     pid \<leftarrow> ask Get_mythreadid;
     childstate \<leftarrow> STST;
     let childstate = childstate\<lparr>pc := Fn fn_p8child\<rparr>;
     childstate \<leftarrow> local_stack childstate;
     t \<leftarrow> create_process childstate;
     _ \<leftarrow> msgsend t (V pid);
     childstate \<leftarrow> local_stack childstate;
     t \<leftarrow> create_process childstate;
     _ \<leftarrow> msgsend t (V pid);
     times 6 (do { _ \<leftarrow> msgrecv NULL; ret () });
     _ \<leftarrow> ask Terminate_process;
     panic (nl ''p8 survived TERMINATE_PROCESS'')
   }"

definition p8child :: "unit thread" where
  "p8child = do {
     (_, ppid) \<leftarrow> msgrecv NULL;
     times NGRANDCHILDREN (do {
       childstate \<leftarrow> STST;
       childstate \<leftarrow> local_stack (childstate\<lparr>pc := Fn fn_p8grandchild\<rparr>);
       t \<leftarrow> create_process childstate;
       _ \<leftarrow> msgsend t ppid;
       ret () });
     _ \<leftarrow> msgrecv NULL;
     panic (nl ''p8child survived parent termination'')
   }"

definition p8grandchild :: "unit thread" where
  "p8grandchild = do {
     (_, gpid) \<leftarrow> msgrecv NULL;
     gpid \<leftarrow> state_pointer gpid;
     _ \<leftarrow> msgsend gpid (V NULL);
     _ \<leftarrow> msgrecv NULL;
     panic (nl ''p8grandchild survived grandparent termination'')
   }"

section \<open>How the programs run\<close>

text \<open>A thread that has ended does nothing; operations are only added; the environment stays.\<close>

definition grows :: "world \<Rightarrow> world \<Rightarrow> bool" where
  "grows w w' \<longleftrightarrow> env w' = env w \<and> (\<exists>fs. calls w' = calls w @ fs) \<and> (ending w \<noteq> None \<longrightarrow> w' = w)"

definition proper :: "'a thread \<Rightarrow> bool" where
  "proper m \<longleftrightarrow> (\<forall>w. grows w (snd (run_state m w)))"

lemma grows_refl: "grows w w"
  by (simp add: grows_def)

lemma grows_trans: "grows w w' \<Longrightarrow> grows w' w'' \<Longrightarrow> grows w w''"
  by (auto simp: grows_def)

named_theorems proper_rules

lemma proper_prim [proper_rules]:
  "proper (State_Monad.return x)" "proper (invoke f)" "proper (variable y)" "proper (assign h)" "proper (ends e)"
  by (auto simp: proper_def grows_def invoke_def variable_def assign_def ends_def split: option.split)

lemma proper_bind [proper_rules]: "proper m \<Longrightarrow> (\<And>x. proper (f x)) \<Longrightarrow> proper (State_Monad.bind m f)"
  unfolding proper_def by (auto simp: case_prod_beta intro: grows_trans)

lemma proper_if [proper_rules]: "proper m \<Longrightarrow> proper n \<Longrightarrow> proper (if b then m else n)"
  by simp

lemma proper_option [proper_rules]: "proper m \<Longrightarrow> (\<And>x. proper (f x)) \<Longrightarrow> proper (case v of None \<Rightarrow> m | Some x \<Rightarrow> f x)"
  by (cases v) simp_all

lemma proper_payload [proper_rules]: "(\<And>x. proper (g x)) \<Longrightarrow> (\<And>x. proper (h x)) \<Longrightarrow> proper (case v of V x \<Rightarrow> g x | Str x \<Rightarrow> h x)"
  by (cases v) simp_all

lemma proper_prod [proper_rules]: "(\<And>x y. proper (g x y)) \<Longrightarrow> proper (case v of (x, y) \<Rightarrow> g x y)"
  by (cases v) simp

lemma proper_times [proper_rules]: "proper m \<Longrightarrow> proper (times n m)"
  by (induction n) (auto intro: proper_rules)

lemma proper_stubs [proper_rules]:
  "proper (number v)" "proper (msgsend d v')" "proper (msgrecv d)" "proper (ask q)" "proper (create_process st)" "proper (create_thread st)"
  "proper STST" "proper (perform f)" "proper (state_pointer v')" "proper (peek v g)" "proper getTODLO" "proper waitforclock"
  unfolding number_def msgsend_def msgrecv_def ask_def create_process_def create_thread_def STST_def perform_def state_pointer_def
    peek_def getTODLO_def waitforclock_def
  by (intro proper_rules)+

lemma proper_helpers [proper_rules]:
  "proper (tty0print s)" "proper CSIN" "proper CSOUT" "proper take_page" "proper (set_tmp h)"
  unfolding tty0print_def CSIN_def CSOUT_def take_page_def set_tmp_def by (intro proper_rules)+

lemma proper_panic [proper_rules]: "proper (panic s)"
  unfolding panic_def by (intro proper_rules)

lemma proper_tty [proper_rules]: "proper (ttyprintstring dev s)"
  by (induction s) (auto intro!: proper_rules)

lemma proper_stacks [proper_rules]: "proper tmp_stack" "proper (new_process f)" "proper (local_stack st)"
  unfolding tmp_stack_def new_process_def local_stack_def by (intro proper_rules)+

lemma proper_manager [proper_rules]: "proper (new_manager st f q)"
  unfolding new_manager_def Let_def by (intro proper_rules)

lemma proper_parts [proper_rules]:
  "proper test_start" "proper test_p2" "proper test_p3" "proper test_p4" "proper test_p5" "proper test_p6" "proper test_p7" "proper test_p8"
  unfolding test_start_def test_p2_def test_p3_def test_p4_def test_p5_def test_p6_def test_p7_def test_p8_def
  by (intro proper_rules)+

lemma proper_threads [proper_rules]:
  "proper test" "proper tty0out_thread" "proper p2" "proper p3" "proper p4" "proper (p5p b)" "proper p5m" "proper p5s" "proper p5"
  "proper p5a" "proper p6" "proper p7" "proper p8" "proper p8child" "proper p8grandchild"
  unfolding test_def tty0out_thread_def p2_def p3_def p4_def p5p_def p5m_def p5s_def p5_def p5a_def p6_def p7_def p8_def p8child_def
    p8grandchild_def Let_def
  by (intro proper_rules)+

definition after :: "'a thread \<Rightarrow> world \<Rightarrow> world" where
  "after m w = snd (run_state m w)"

lemma after_bind: "after (State_Monad.bind m f) w = after (f (fst (run_state m w))) (after m w)"
  by (simp add: after_def case_prod_beta)

lemma after_grows: "proper m \<Longrightarrow> grows w (after m w)"
  by (simp add: proper_def after_def)

lemma after_ended: "proper m \<Longrightarrow> ending w \<noteq> None \<Longrightarrow> after m w = w"
  using after_grows[of m w] by (simp add: grows_def)

text \<open>What follows does not matter once a thread has ended.\<close>

lemma ended_bind:
  assumes "\<And>x. proper (f x)" "ending (after m w) = Some e"
  shows "ending (after (State_Monad.bind m f) w) = Some e"
  using assms after_ended[OF assms(1), of "after m w"] by (simp add: after_bind)

text \<open>Step by step.\<close>

lemma go_on: "run_state m w = (x, w') \<Longrightarrow> ending (after (f x) w') = e \<Longrightarrow> ending (after (State_Monad.bind m f) w) = e"
  by (simp add: after_def)

lemma go_unit: "ending (after (f ()) (after m w)) = e \<Longrightarrow> ending (after (State_Monad.bind m f) w) = e"
  by (simp add: after_bind)

lemma run_after: "run_state m w = (fst (run_state m w), after m w)"
  by (simp add: after_def)

text \<open>
  An environment in which every operation returns, but for a request to terminate. The threads of the
  test do not wait in vain there.
\<close>

definition final :: "operation \<Rightarrow> bool" where
  "final f \<longleftrightarrow> f = Request Terminate_process \<or> f = Request Terminate_thread"

definition returning :: "world \<Rightarrow> bool" where
  "returning w \<longleftrightarrow> (\<forall>n f. env w n f = None \<longleftrightarrow> final f)"

lemma returning_after: "proper m \<Longrightarrow> returning (after m w) = returning w"
  using after_grows[of m w] by (simp add: grows_def returning_def)

text \<open>A piece of a program that makes \<open>n\<close> calls and goes on.\<close>

definition runs :: "nat \<Rightarrow> 'a thread \<Rightarrow> bool" where
  "runs n m \<longleftrightarrow> proper m \<and> (\<forall>w. returning w \<longrightarrow> ending w = None \<longrightarrow>
     ending (after m w) = None \<and> length (calls (after m w)) = length (calls w) + n)"

lemma runsD:
  assumes "runs n m" "returning w" "ending w = None"
  shows "ending (after m w) = None" "length (calls (after m w)) = length (calls w) + n" "returning (after m w)" "env (after m w) = env w"
  using assms returning_after[of m w] after_grows[of m w] by (auto simp: runs_def grows_def)

lemma runs_ret: "runs 0 (State_Monad.return x)" and runs_variable: "runs 0 (variable y)" and runs_assign: "runs 0 (assign h)"
  unfolding runs_def by (intro conjI proper_rules; simp add: after_def variable_def assign_def)+

lemma runs_invoke: "\<not> final f \<Longrightarrow> runs 1 (invoke f)"
  unfolding runs_def by (intro conjI proper_rules) (auto simp: after_def invoke_def returning_def split: option.split)

lemma runs_bind:
  assumes "runs m a" "\<And>x. runs n (f x)"
  shows "runs (m + n) (State_Monad.bind a f)"
proof -
  have "proper (State_Monad.bind a f)" using assms by (intro proper_rules) (simp_all add: runs_def)
  then show ?thesis using runsD[OF assms(1)] runsD[OF assms(2)] by (simp add: runs_def after_bind)
qed

lemma runs_msgsend: "runs 1 (msgsend d v)" and runs_msgrecv: "runs 1 (msgrecv d)"
  unfolding msgsend_def msgrecv_def
  using runs_bind[OF runs_invoke[of "Msgsend d v"] runs_ret] runs_bind[OF runs_invoke[of "Msgrecv d"] runs_ret] by (simp_all add: final_def)

lemma runs_tty0print: "runs 2 (tty0print s)"
  unfolding tty0print_def
  using runs_bind[OF runs_variable runs_bind[OF runs_msgsend runs_bind[OF runs_variable runs_bind[OF runs_msgrecv runs_ret]]]]
  by (simp add: numeral_2_eq_2)

lemma runs_waitforclock: "runs 1 waitforclock"
proof -
  have "\<not> final (Request Waitforclock)" by (simp add: final_def)
  from runs_bind[OF runs_bind[OF runs_invoke[OF this] runs_ret] runs_ret] show ?thesis
    unfolding waitforclock_def ask_def by simp
qed

lemma runs_times: "runs n m \<Longrightarrow> runs (k * n) (times k m)"
  by (induction k) (auto intro: runs_ret runs_bind)

lemma panic_ends: "returning w \<Longrightarrow> ending w = None \<Longrightarrow> ending (after (panic s) w) = Some Panicked"
  using runsD[OF runs_bind[OF runs_tty0print[of "''!!! PANIC: ''"] runs_tty0print[of s]], of w]
  by (simp add: panic_def after_bind) (simp add: after_def ends_def)

lemma run_variable [simp]: "run_state (variable y) w = (y (vars w), w)" "after (variable y) w = w"
  by (simp_all add: variable_def after_def)

lemma ask_final:
  assumes "returning w" "ending w = None" "final (Request q)"
  shows "ending (after (ask q) w) = Some (In_call (Request q))"
proof -
  have "env w (length (calls w)) (Request q) = None" using assms(1,3) by (simp add: returning_def)
  with assms(2) show ?thesis by (simp add: ask_def after_def invoke_def)
qed

lemma run_getTODLO:
  assumes "ending w = None" "env w (length (calls w)) Get_todlo = Some (r, others)" "r_val r = U time"
  shows "run_state getTODLO w = (time, w\<lparr>calls := calls w @ [(Get_todlo, r)], vars := others (vars w)\<rparr>)"
  using assms by (simp add: getTODLO_def invoke_def number_def)

section \<open>What the threads find out\<close>

text \<open>
  \<open>p3\<close>: the ten requests \<open>WAIT_FOR_CLOCK\<close> have to take between nine and eleven ticks of the pseudo-clock.
  The clock is read in the third and in the fourteenth operation.
\<close>

lemma p3_verdict:
  assumes env: "returning w" "ending w = None" "calls w = []"
    and clock: "env w 2 Get_todlo = Some (r1, o1)" "r_val r1 = U time1" "env w 13 Get_todlo = Some (r2, o2)" "r_val r2 = U time2"
  shows "ending (after p3 w) =
    (if 900000 \<le> time2 - time1 \<and> time2 - time1 \<le> 1100000 then Some (In_call (Request Terminate_process)) else Some Panicked)"
proof -
  define w1 where "w1 = after (tty0print (nl ''p3 started'')) w"
  note 1 = runsD[OF runs_tty0print env(1,2), of "nl ''p3 started''", folded w1_def]
  define w2 where "w2 = w1\<lparr>calls := calls w1 @ [(Get_todlo, r1)], vars := o1 (vars w1)\<rparr>"
  have "length (calls w1) = 2" using 1(2) env(3) by simp
  then have 2: "run_state getTODLO w1 = (time1, w2)" unfolding w2_def using 1(1,4) clock(1,2) by (intro run_getTODLO) simp_all
  have w2: "returning w2" "ending w2 = None" "length (calls w2) = 3" "env w2 = env w"
    using 1 env(3) by (simp_all add: w2_def returning_def)
  define w3 where "w3 = after (times NWAIT waitforclock) w2"
  note 3 = runsD[OF runs_times[OF runs_waitforclock, of NWAIT] w2(1,2), folded w3_def]
  define w4 where "w4 = w3\<lparr>calls := calls w3 @ [(Get_todlo, r2)], vars := o2 (vars w3)\<rparr>"
  have "length (calls w3) = 13" using 3(2) w2(3) by (simp add: NWAIT_def)
  then have 4: "run_state getTODLO w3 = (time2, w4)" unfolding w4_def using 3(1,4) w2(4) clock(3,4) by (intro run_getTODLO) simp_all
  have w4: "returning w4" "ending w4 = None" using 3 by (simp_all add: w4_def returning_def)
  have bounds: "PSEUDOCLOCK * (of_nat NWAIT - 1) = 900000" "PSEUDOCLOCK * (of_nat NWAIT + 1) = 1100000"
    by (simp_all add: PSEUDOCLOCK_def NWAIT_def)
  show ?thesis
  proof (cases "900000 \<le> time2 - time1 \<and> time2 - time1 \<le> 1100000")
    case True
    define w5 where "w5 = after (tty0print (nl ''WAITCLOCK OK'')) w4"
    note 5 = runsD[OF runs_tty0print w4, of "nl ''WAITCLOCK OK''", folded w5_def]
    define w6 where "w6 = after (msgsend (testt (vars w5)) (Str ''NULL'')) w5"
    note 6 = runsD[OF runs_msgsend 5(3,1), of "testt (vars w5)" "Str ''NULL''", folded w6_def]
    have in_time: "\<not> time2 - time1 < 900000" "\<not> 1100000 < time2 - time1" using True by (simp_all add: not_less)
    have stays: "ending (after (ask Terminate_process) w6) = Some (In_call (Request Terminate_process))"
      by (rule ask_final[OF 6(3,1)]) (simp add: final_def)
    have "ending (after p3 w) = Some (In_call (Request Terminate_process))"
      unfolding p3_def
    proof (rule go_unit, fold w1_def, rule go_on[OF 2], rule go_unit, fold w3_def, rule go_on[OF 4], rule go_unit, rule go_on, rule run_variable(1),
        rule go_on, rule run_after, rule ended_bind)
    qed (use in_time bounds in \<open>simp_all add: w5_def[symmetric] w6_def[symmetric] stays proper_panic\<close>)
    with True show ?thesis by simp
  next
    case False
    have "ending (after p3 w) = Some Panicked"
      unfolding p3_def
    proof (rule go_unit, fold w1_def, rule go_on[OF 2], rule go_unit, fold w3_def, rule go_on[OF 4], rule ended_bind)
    qed (intro proper_rules, use False bounds panic_ends[OF w4] in auto)
    with False show ?thesis by simp
  qed
qed

text \<open>
  \<open>p2\<close>, as long as the others leave \<open>p2t\<close> and \<open>testt\<close> alone: it asks in the order of its operations and
  panics at the first answer that is wrong.
\<close>

definition keeps_names :: "environment \<Rightarrow> bool" where
  "keeps_names e \<longleftrightarrow> (\<forall>n f r others x. e n f = Some (r, others) \<longrightarrow> p2t (others x) = p2t x \<and> testt (others x) = testt x)"

definition p2_at :: "nat \<Rightarrow> world \<Rightarrow> world \<Rightarrow> bool" where
  "p2_at n w w1 \<longleftrightarrow> returning w1 \<and> ending w1 = None \<and> length (calls w1) = n \<and> env w1 = env w \<and>
     p2t (vars w1) = p2t (vars w) \<and> testt (vars w1) = testt (vars w)"

lemma p2_at_invoke:
  assumes "keeps_names (env w)" "p2_at n w w1" "env w n f = Some (r, others)"
  shows "\<exists>w2. run_state (invoke f) w1 = (r, w2) \<and> p2_at (Suc n) w w2"
  using assms by (auto simp: p2_at_def invoke_def returning_def keeps_names_def)

lemma p2_at_ask:
  assumes "keeps_names (env w)" "p2_at n w w1" "env w n (Request q) = Some (r, others)"
  obtains w2 where "run_state (ask q) w1 = (r_val r, w2)" "p2_at (Suc n) w w2"
  using p2_at_invoke[OF assms] by (auto simp: ask_def)

lemma p2_at_recv:
  assumes "keeps_names (env w)" "p2_at n w w1" "env w n (Msgrecv d) = Some (r, others)"
  obtains w2 where "run_state (msgrecv d) w1 = ((r_val r, r_payload r), w2)" "p2_at (Suc n) w w2"
  using p2_at_invoke[OF assms] by (auto simp: msgrecv_def)

lemma p2_at_print:
  assumes k: "keeps_names (env w)" and at: "p2_at n w w1"
  obtains w2 where "run_state (tty0print s) w1 = ((), w2)" "p2_at (Suc (Suc n)) w w2"
proof -
  let ?d = "printid (vars w1)"
  have ret: "env w m f \<noteq> None" if "\<not> final f" for m f using at that by (metis p2_at_def returning_def)
  have nf: "\<not> final (Msgsend d v)" "\<not> final (Msgrecv d)" for d v by (simp_all add: final_def)
  obtain r2 o2 where "env w n (Msgsend ?d (Str s)) = Some (r2, o2)" using ret[OF nf(1)] by fast
  from p2_at_invoke[OF k at this] obtain w2 where 2: "run_state (invoke (Msgsend ?d (Str s))) w1 = (r2, w2)" "p2_at (Suc n) w w2" by blast
  obtain r3 o3 where "env w (Suc n) (Msgrecv (printid (vars w2))) = Some (r3, o3)" using ret[OF nf(2)] by fast
  from p2_at_invoke[OF k 2(2) this] obtain w3 where 3: "run_state (invoke (Msgrecv (printid (vars w2)))) w2 = (r3, w3)" "p2_at (Suc (Suc n)) w w3"
    by blast
  have "run_state (tty0print s) w1 = ((), w3)" using 2(1) 3(1) by (simp add: tty0print_def msgsend_def msgrecv_def)
  from this 3(2) show ?thesis by (rule that)
qed

lemma go_pair:
  "run_state m w = ((x, y), w') \<Longrightarrow> ending (after (f x y) w') = e \<Longrightarrow> ending (after (State_Monad.bind m (\<lambda>(x, y). f x y)) w) = e"
  by (simp add: after_def)

text \<open>A check of the test.\<close>

lemma checked:
  assumes "p2_at n w w1" "\<And>x. proper (f x)" "ok \<Longrightarrow> ending (after (f ()) w1) = (if rest then e else Some Panicked)"
  shows "ending (after (State_Monad.bind (if \<not> ok then panic s else State_Monad.return ()) f) w1) = (if ok \<and> rest then e else Some Panicked)"
proof (cases ok)
  case True
  with assms(3) show ?thesis by (simp add: after_def)
next
  case False
  have "ending (after (panic s) w1) = Some Panicked" using assms(1) by (intro panic_ends) (simp_all add: p2_at_def)
  from ended_bind[OF assms(2) this] False show ?thesis by simp
qed

text \<open>The last part, from the reading of the times.\<close>

lemma p2_times_out:
  assumes k: "keeps_names (env w)" and at: "p2_at n w w1"
  shows "ending (after (do {
      (if MINLOOPTIME \<le> t2 - t1 then tty0print (nl ''p2 GET_CPUTIME sounds okay'') else panic (nl ''p2 GETCPUTIME sounds faulty''));
      _ \<leftarrow> msgsend p1t (V NULL);
      _ \<leftarrow> msgrecv p1t;
      _ \<leftarrow> ask Terminate_thread;
      panic (nl ''p2 survived TERMINATE_THREAD'') }) w1) =
    (if 5 \<le> t2 - t1 then Some (In_call (Request Terminate_thread)) else Some Panicked)"
proof (cases "MINLOOPTIME \<le> t2 - t1")
  case True
  obtain w2 where 2: "run_state (tty0print (nl ''p2 GET_CPUTIME sounds okay'')) w1 = ((), w2)" "p2_at (Suc (Suc n)) w w2"
    by (rule p2_at_print[OF k at])
  define w3 where "w3 = after (msgsend p1t (V NULL)) w2"
  define w4 where "w4 = after (msgrecv p1t) w3"
  have r: "returning w2" "ending w2 = None" using 2(2) by (simp_all add: p2_at_def)
  note 3 = runsD[OF runs_msgsend r, of p1t "V NULL", folded w3_def]
  note 4 = runsD[OF runs_msgrecv 3(3,1), of p1t, folded w4_def]
  have "ending (after (ask Terminate_thread) w4) = Some (In_call (Request Terminate_thread))"
    by (rule ask_final[OF 4(3,1)]) (simp add: final_def)
  then have "ending (after (do { _ \<leftarrow> ask Terminate_thread; panic (nl ''p2 survived TERMINATE_THREAD'') }) w4) =
      Some (In_call (Request Terminate_thread))"
    by (rule ended_bind[rotated]) (rule proper_panic)
  then have stays: "ending (after (do { _ \<leftarrow> msgsend p1t (V NULL); _ \<leftarrow> msgrecv p1t; _ \<leftarrow> ask Terminate_thread;
      panic (nl ''p2 survived TERMINATE_THREAD'') }) w2) = Some (In_call (Request Terminate_thread))"
    unfolding w4_def w3_def by (simp only: after_bind)
  have five: "5 \<le> t2 - t1" using True by (simp add: MINLOOPTIME_def)
  show ?thesis unfolding if_P[OF True] if_P[OF five] by (rule go_on[OF 2(1)], rule stays)
next
  case False
  have "ending (after (panic (nl ''p2 GETCPUTIME sounds faulty'')) w1) = Some Panicked"
    using at by (intro panic_ends) (simp_all add: p2_at_def)
  then have panics: "ending (after (State_Monad.bind (panic (nl ''p2 GETCPUTIME sounds faulty'')) f) w1) = Some Panicked"
    if "\<And>x. proper (f x)" for f :: "unit \<Rightarrow> unit thread" using that by (intro ended_bind)
  have five: "\<not> 5 \<le> t2 - t1" using False by (simp add: MINLOOPTIME_def)
  show ?thesis unfolding if_not_P[OF False] if_not_P[OF five] by (rule panics, intro proper_rules)
qed

lemma p2_verdict:
  assumes env: "returning w" "ending w = None" "calls w = []" "keeps_names (env w)"
    and id: "env w 4 (Request Get_mythreadid) = Some (me, o4)" "env w 9 (Request Get_mythreadid) = Some (me', o9)"
    and letter: "env w 5 (Msgrecv NULL) = Some (m, o5)"
    and proc: "env w 8 (Request (Get_processid (r_val m))) = Some (p, o8)"
      "env w 10 (Request (Get_processid (r_val me'))) = Some (q, o10)" "env w 11 (Request (Get_parentprocid (r_val q))) = Some (parent, o11)"
    and clock: "env w 12 (Request Getcputime) = Some (c1, o12)" "env w 13 (Request Getcputime) = Some (c2, o13)"
      "r_val c1 = U time1" "r_val c2 = U time2"
  shows "ending (after p2 w) =
    (if r_val me = p2t (vars w) \<and> r_payload m = V (U SYNCCODE) \<and> r_val m = testt (vars w) \<and> r_val p = r_val parent \<and> 5 \<le> time2 - time1
     then Some (In_call (Request Terminate_thread)) else Some Panicked)"
proof -
  note k = env(4)
  have at0: "p2_at 0 w w" using env by (simp add: p2_at_def)
  obtain w1 where 1: "run_state (tty0print (nl ''p2 started'')) w = ((), w1)" "p2_at (Suc (Suc 0)) w w1" by (rule p2_at_print[OF k at0])
  obtain w2 where 2: "run_state (tty0print (nl ''p2 about to call get_mythreadid()'')) w1 = ((), w2)" "p2_at (Suc (Suc (Suc (Suc 0)))) w w2"
    by (rule p2_at_print[OF k 1(2)])
  have "Suc (Suc (Suc (Suc 0))) = 4" by simp
  then have at2: "p2_at 4 w w2" using 2(2) by (simp only:)
  obtain w3 where 3: "run_state (ask Get_mythreadid) w2 = (r_val me, w3)" "p2_at (Suc 4) w w3" by (rule p2_at_ask[OF k at2 id(1)])
  have at3: "p2_at 5 w w3" using 3(2) by simp
  obtain w4 where 4: "run_state (msgrecv NULL) w3 = ((r_val m, r_payload m), w4)" "p2_at (Suc 5) w w4" by (rule p2_at_recv[OF k at3 letter])
  obtain w5 where 5: "run_state (tty0print (nl ''p2 message received'')) w4 = ((), w5)" "p2_at (Suc (Suc (Suc 5))) w w5"
    by (rule p2_at_print[OF k 4(2)])
  have at5: "p2_at 8 w w5" using 5(2) by simp
  obtain w6 where 6: "run_state (ask (Get_processid (r_val m))) w5 = (r_val p, w6)" "p2_at (Suc 8) w w6" by (rule p2_at_ask[OF k at5 proc(1)])
  have at6: "p2_at 9 w w6" using 6(2) by simp
  obtain w7 where 7: "run_state (ask Get_mythreadid) w6 = (r_val me', w7)" "p2_at (Suc 9) w w7" by (rule p2_at_ask[OF k at6 id(2)])
  have at7: "p2_at 10 w w7" using 7(2) by simp
  obtain w8 where 8: "run_state (ask (Get_processid (r_val me'))) w7 = (r_val q, w8)" "p2_at (Suc 10) w w8"
    by (rule p2_at_ask[OF k at7 proc(2)])
  have at8: "p2_at 11 w w8" using 8(2) by simp
  obtain w9 where 9: "run_state (ask (Get_parentprocid (r_val q))) w8 = (r_val parent, w9)" "p2_at (Suc 11) w w9"
    by (rule p2_at_ask[OF k at8 proc(3)])
  have at9: "p2_at 12 w w9" using 9(2) by simp
  obtain w10 where 10: "run_state (ask Getcputime) w9 = (r_val c1, w10)" "p2_at (Suc 12) w w10" by (rule p2_at_ask[OF k at9 clock(1)])
  have at10: "p2_at 13 w w10" using 10(2) by simp
  obtain w11 where 11: "run_state (ask Getcputime) w10 = (r_val c2, w11)" "p2_at (Suc 13) w w11" by (rule p2_at_ask[OF k at10 clock(2)])
  have n: "run_state (number (r_val c1)) w11 = (time1, w11)" "run_state (number (r_val c2)) w11 = (time2, w11)"
    using clock(3,4) by (simp_all add: number_def)
  have names: "p2t (vars w3) = p2t (vars w)" "testt (vars w5) = testt (vars w)" using 3(2) 5(2) by (simp_all add: p2_at_def)
  show ?thesis
    unfolding p2_def names[symmetric]
    apply (rule go_on[OF 1(1)], rule go_on[OF 2(1)], rule go_on[OF 3(1)], rule go_on[OF run_variable(1)])
    apply (rule checked[OF 3(2)], intro proper_rules)
    apply (rule go_pair[OF 4(1)], rule go_on[OF 5(1)])
    apply (rule checked[OF 5(2)], intro proper_rules)
    apply (rule go_on[OF run_variable(1)])
    apply (rule checked[OF 5(2)], intro proper_rules)
    apply (rule go_on[OF 6(1)], rule go_on[OF 7(1)], rule go_on[OF 8(1)], rule go_on[OF 9(1)])
    apply (rule checked[OF 9(2)], intro proper_rules)
    apply (rule go_on[OF 10(1)], rule go_on[OF 11(1)], rule go_on[OF n(1)], rule go_on[OF n(2)])
    apply (rule p2_times_out[OF k 11(2)])
    done
qed

text \<open>
  In particular it panics when \<open>GET_MYTHREADID\<close> does not answer with the value that \<open>test\<close> has stored in
  \<open>p2t\<close>. The kernel of this repository answers with the word after the request, which no stub writes (lemma
  \<open>ssi_handle_mythreadid\<close>).
\<close>

lemma p2_wrong_thread:
  assumes env: "returning w" "ending w = None" "calls w = []"
    and id: "env w 4 (Request Get_mythreadid) = Some (r, others)"
    and wrong: "\<And>x. r_val r \<noteq> p2t (others x)"
  shows "ending (after p2 w) = Some Panicked"
proof -
  define w1 where "w1 = after (tty0print (nl ''p2 started'')) w"
  note 1 = runsD[OF runs_tty0print env(1,2), of "nl ''p2 started''", folded w1_def]
  define w2 where "w2 = after (tty0print (nl ''p2 about to call get_mythreadid()'')) w1"
  note 2 = runsD[OF runs_tty0print 1(3,1), of "nl ''p2 about to call get_mythreadid()''", folded w2_def]
  define w3 where "w3 = w2\<lparr>calls := calls w2 @ [(Request Get_mythreadid, r)], vars := others (vars w2)\<rparr>"
  have "length (calls w2) = 4" "env w2 = env w" using 1(2,4) 2(2,4) env(3) by simp_all
  then have 3: "run_state (ask Get_mythreadid) w2 = (r_val r, w3)"
    using 2(1) id by (simp add: ask_def invoke_def w3_def)
  have w3: "returning w3" "ending w3 = None" "r_val r \<noteq> p2t (vars w3)" using 2 wrong by (simp_all add: w3_def returning_def)
  show ?thesis
    unfolding p2_def
  proof (rule go_unit, fold w1_def, rule go_unit, fold w2_def, rule go_on[OF 3], rule go_on, rule run_variable(1), rule ended_bind)
  qed (intro proper_rules, use w3 panic_ends[OF w3(1,2)] in simp)
qed

text \<open>
  \<open>test\<close>, while \<open>p4\<close> runs: the receive from a thread that terminates has to set the error number of the
  receiver; if it is still 0, \<open>test\<close> panics.
\<close>

lemma runs_pieces: "runs 3 tmp_stack" "runs 1 (new_process f)"
proof -
  have "runs (0 + (1 + (0 + (1 + 0)))) CSIN" "runs (0 + (1 + 0)) CSOUT" "runs (0 + 0) take_page"
    unfolding CSIN_def CSOUT_def take_page_def
    by (intro runs_bind runs_variable runs_msgsend runs_msgrecv runs_ret runs_assign)+
  then have pieces: "runs 2 CSIN" "runs 1 CSOUT" "runs 0 take_page" by (simp_all add: numeral_2_eq_2)
  have set: "runs 0 (set_tmp h)" for h unfolding set_tmp_def by (rule runs_assign)
  have "runs (2 + (0 + (0 + 1))) tmp_stack" unfolding tmp_stack_def by (intro runs_bind pieces set)
  then show "runs 3 tmp_stack" by (simp add: numeral_3_eq_3)
  have "runs (0 + (0 + (1 + 0))) (new_process f)" unfolding new_process_def create_process_def
    by (intro runs_bind set runs_variable runs_invoke runs_ret) (simp add: final_def)
  then show "runs 1 (new_process f)" by simp
qed

lemma test_p4_errno:
  assumes env: "returning w" "ending w = None"
    and errno: "env w (length (calls w) + 8) (Request Geterrno) = Some (r, others)" "r_val r = U 0"
  shows "ending (after test_p4 w) = Some Panicked"
proof -
  define before where "before = do {
     tmp_stack;
     t \<leftarrow> new_process fn_p4;
     assign (\<lambda>x. x\<lparr>p4t := t\<rparr>);
     t \<leftarrow> variable p4t;
     _ \<leftarrow> msgsend t (V NULL);
     t \<leftarrow> variable p4t;
     _ \<leftarrow> msgrecv t;
     t \<leftarrow> variable p4t;
     st \<leftarrow> variable tmpstate;
     _ \<leftarrow> msgsend t (V (sp st));
     t \<leftarrow> variable p4t;
     msgrecv t }"
  have split: "test_p4 = do { _ \<leftarrow> before; e \<leftarrow> ask Geterrno; e \<leftarrow> number e;
     (if e = 0 then panic (nl ''p1 wrong errno: recv from p4 should abort, p4 terminated'') else tty0print (nl ''p4 errno ok''));
     tty0print (nl ''p4 completed'') }"
    by (simp add: test_p4_def before_def)
  have "runs (3 + (1 + (0 + (0 + (1 + (0 + (1 + (0 + (0 + (1 + (0 + 1))))))))))) before"
    unfolding before_def by (intro runs_bind runs_pieces runs_variable runs_msgsend runs_msgrecv runs_assign)
  then have "runs 8 before" by simp
  define w1 where "w1 = after before w"
  note 1 = runsD[OF \<open>runs 8 before\<close> env, folded w1_def]
  define w2 where "w2 = w1\<lparr>calls := calls w1 @ [(Request Geterrno, r)], vars := others (vars w1)\<rparr>"
  have 2: "run_state (ask Geterrno) w1 = (U 0, w2)" using 1 errno by (simp add: ask_def invoke_def w2_def)
  have w2: "returning w2" "ending w2 = None" using 1 by (simp_all add: w2_def returning_def)
  have 3: "run_state (number (U 0)) w2 = (0, w2)" by (simp add: number_def)
  have before: "run_state before w = (fst (run_state before w), w1)" unfolding w1_def by (rule run_after)
  show ?thesis
    unfolding split
  proof (rule go_on[OF before], rule go_on[OF 2], rule go_on[OF 3], rule ended_bind)
  qed (intro proper_rules, use panic_ends[OF w2] in simp)
qed

text \<open>\<open>ttyprintstring\<close> sends every character to the terminal as long as the terminal is ready.\<close>

definition put_char :: "u32 \<Rightarrow> char \<Rightarrow> operation" where
  "put_char device c = Request (Do_io (U device) (U (DEV_TTRS_C_TRSMCHAR OR push_bit 8 (of_char c))) NULL NULL)"

definition terminal_ready :: "environment \<Rightarrow> u32 \<Rightarrow> bool" where
  "terminal_ready e device \<longleftrightarrow> (\<forall>n c. \<exists>r others status. e n (put_char device c) = Some (r, others) \<and> r_val r = U status \<and>
     status AND 0xFF \<in> {DEV_S_READY, DEV_TTRS_S_CHARTRSM})"

lemma ttyprintstring_transmits:
  assumes "ending w = None" "terminal_ready (env w) device" "CHR 0x00 \<notin> set s"
  shows "map fst (calls (after (ttyprintstring device s) w)) = map fst (calls w) @ map (put_char device) s \<and>
    ending (after (ttyprintstring device s) w) = None"
  using assms
proof (induction s arbitrary: w)
  case Nil
  then show ?case by (simp add: after_def)
next
  case (Cons c s)
  obtain r others status where r: "env w (length (calls w)) (put_char device c) = Some (r, others)" "r_val r = U status"
    "status AND 0xFF \<in> {DEV_S_READY, DEV_TTRS_S_CHARTRSM}" using Cons.prems(2) unfolding terminal_ready_def by metis
  let ?w = "w\<lparr>calls := calls w @ [(put_char device c, r)], vars := others (vars w)\<rparr>"
  have "c \<noteq> CHR 0x00" using Cons.prems(3) by auto
  then have "after (ttyprintstring device (c # s)) w = after (ttyprintstring device s) ?w"
    using Cons.prems(1) r by (simp add: after_def ask_def invoke_def number_def put_char_def[symmetric])
  moreover have "ending ?w = None" "terminal_ready (env ?w) device" "CHR 0x00 \<notin> set s" using Cons.prems by simp_all
  ultimately show ?case using Cons.IH[of ?w] by simp
qed

text \<open>One round of \<open>p5s\<close>: the call with 42 returns 42, as \<open>p5\<close> expects, and the call with 3 returns 0, as \<open>p5a\<close> expects.\<close>

lemma p5s_answers:
  assumes env: "ending w = None" "calls w = []"
    and recv: "env w 0 (Msgrecv NULL) = Some (r0, o0)" "r_payload r0 = V p"
    and a1: "env w 1 (Peek p State_a1) = Some (r1, o1)" "r_val r1 = U a"
    and retval: "retval = (if a = 42 then 42 else if a = 3 then 0 else - 1)"
    and rest: "env w 2 (Poke p State_a1 (U retval)) = Some (r2, o2)" "env w 3 (Msgsend (r_val r0) (V NULL)) = Some (r3, o3)"
  shows "map fst (calls (after p5s w)) = [Msgrecv NULL, Peek p State_a1, Poke p State_a1 (U retval), Msgsend (r_val r0) (V NULL)] \<and>
    ending (after p5s w) = None"
  using assms(1-6) rest unfolding retval[symmetric]
  by (simp add: after_def p5s_def msgrecv_def msgsend_def invoke_def state_pointer_def peek_def number_def perform_def Let_def
      retval[symmetric] numeral_2_eq_2 numeral_3_eq_3)

text \<open>The first stack pointer: the end of the page of the stack of \<open>test\<close>.\<close>

lemma first_page:
  fixes top :: u32
  assumes "unat top + 4095 < 2 ^ 32"
  shows "unat ((top + (QPAGE - 1)) AND NOT (QPAGE - 1)) mod 4096 = 0"
    "top \<le> (top + (QPAGE - 1)) AND NOT (QPAGE - 1)"
    "unat ((top + (QPAGE - 1)) AND NOT (QPAGE - 1)) < unat top + 4096"
proof -
  have m: "QPAGE - 1 = (mask 12 :: u32)" by (simp add: QPAGE_def FRAME_SIZE_def mask_eq_exp_minus_1)
  let ?x = "top + mask 12 :: u32"
  have x: "unat ?x = unat top + 4095"
    using assms by (simp add: unat_word_ariths mask_eq_exp_minus_1)
  have "?x AND NOT (mask 12) = push_bit 12 (drop_bit 12 ?x)"
    by (rule bit_word_eqI) (auto simp: bit_simps)
  then have "unat (?x AND NOT (mask 12)) = take_bit LENGTH(32) (push_bit 12 (drop_bit 12 (unat ?x)))"
    by (simp only: unsigned_push_bit_eq unat_drop_bit_eq)
  also have "\<dots> = take_bit 32 ((unat ?x div 4096) * 4096)"
    by (simp add: push_bit_eq_mult drop_bit_eq_div)
  also have "\<dots> = (unat ?x div 4096) * 4096"
    using assms x by (simp add: take_bit_nat_eq_self)
  finally have floor: "unat (?x AND NOT (mask 12)) = (unat ?x div 4096) * 4096" .
  have "(unat ?x div 4096) * 4096 + unat ?x mod 4096 = unat ?x" "unat ?x mod 4096 < 4096" by simp_all
  with floor x m show "unat ((top + (QPAGE - 1)) AND NOT (QPAGE - 1)) mod 4096 = 0"
    "top \<le> (top + (QPAGE - 1)) AND NOT (QPAGE - 1)"
    "unat ((top + (QPAGE - 1)) AND NOT (QPAGE - 1)) < unat top + 4096"
    unfolding m word_le_nat_alt by simp_all
qed

section \<open>A run\<close>

text \<open>An environment that answers as \<open>p2\<close> and \<open>p3\<close> expect.\<close>

fun demo_answer :: "nat \<Rightarrow> operation \<Rightarrow> val" where
  "demo_answer n (Msgrecv d) = Tcb (Thread 0)"
| "demo_answer n (Request Get_mythreadid) = Tcb (Thread 2)"
| "demo_answer n (Request (Get_processid t)) = (if t = Tcb (Thread 0) then Pcb 0 else Pcb 1)"
| "demo_answer n (Request (Get_parentprocid p)) = Pcb 0"
| "demo_answer n (Request Getcputime) = U (10 * of_nat n)"
| "demo_answer n Get_todlo = U (90909 * of_nat n)"
| "demo_answer n f = NULL"

definition demo_env :: environment where
  "demo_env n f = (if final f then None else Some (nothing\<lparr>r_val := demo_answer n f, r_payload := V (U SYNCCODE)\<rparr>, \<lambda>x. x))"

definition demo_world :: world where
  "demo_world = \<lparr>env = demo_env,
     vars = \<lparr>printid = Tcb (Thread 1), csid = NULL, testt = Tcb (Thread 0), p2t = Tcb (Thread 2), p3t = NULL, p4t = NULL, p5t = NULL,
       p6t = NULL, p7t = NULL, p8t = NULL, tmpstate = zero_state, stackalloc = 0, p5sys = 0, p5send = 0, p4inc = 1\<rparr>,
     calls = [], ending = None\<rparr>"

lemma demo_world_facts:
  "returning demo_world" "keeps_names (env demo_world)" "ending demo_world = None" "calls demo_world = []"
  "p2t (vars demo_world) = Tcb (Thread 2)" "testt (vars demo_world) = Tcb (Thread 0)"
  "\<not> final f \<Longrightarrow> env demo_world n f = Some (nothing\<lparr>r_val := demo_answer n f, r_payload := V (U SYNCCODE)\<rparr>, \<lambda>x. x)"
  by (simp_all add: demo_world_def demo_env_def returning_def keeps_names_def)

end
