(* ===== verification/Typing.thy ===== *)
theory Typing imports System begin

text \<open>
  The kernel is written in a language that checks no pointer: \<open>container_of\<close> subtracts an offset from
  whatever it is given. Here every pointer of the kernel has a type, and in every reachable state every
  variable, field and link has its type, so that no \<open>container_of\<close> is applied to a foreign node.
\<close>

section \<open>Definitions\<close>

text \<open>The thread and process pointers: NULL or a descriptor of the tables.\<close>

definition tcb_ptr :: "tid option \<Rightarrow> bool" where
  "tcb_ptr p \<longleftrightarrow> (\<forall>t. p = Some t \<longrightarrow> valid_tid t)"

definition pcb_ptr :: "pid option \<Rightarrow> bool" where
  "pcb_ptr p \<longleftrightarrow> (\<forall>q. p = Some q \<longrightarrow> q < MAXPROC)"

definition pcb_typed :: "pcb_t \<Rightarrow> bool" where
  "pcb_typed x \<longleftrightarrow> pcb_ptr (p_parent x) \<and> tcb_ptr (pgm_mgr x) \<and> tcb_ptr (tlb_mgr x) \<and> tcb_ptr (sys_mgr x)"

text \<open>The expected sender is meaningful while the thread waits; then the saved \<open>a3\<close> is an address.\<close>

definition tcb_typed :: "tcb_t \<Rightarrow> bool" where
  "tcb_typed x \<longleftrightarrow> pcb_ptr (t_pcb x) \<and>
     (t_status x = T_STATUS_W4MSG \<longrightarrow> tcb_ptr (t_wait4sender x) \<and> (\<exists>a. a3 (t_s x) = U a))"

text \<open>
  \<open>container_of\<close> with the member that the operations on the list \<open>h\<close> use, applied to the link \<open>n\<close>: it
  gives a descriptor only if \<open>n\<close> is that member of one.
\<close>

datatype struct = Pcb_struct pid | Tcb_struct tid | Msg_struct mid

fun container_of :: "node \<Rightarrow> node \<Rightarrow> struct option" where
  "container_of h (P_siblings p) = (if is_proc_head h \<and> p < MAXPROC then Some (Pcb_struct p) else None)"
| "container_of h (T_next t) = (if is_thread_head h \<and> valid_tid t then Some (Tcb_struct t) else None)"
| "container_of h (T_sched t) = (if is_sched_head h \<and> valid_tid t then Some (Tcb_struct t) else None)"
| "container_of h (M_next m) = (if is_msg_head h \<and> m < MAXMSG then Some (Msg_struct m) else None)"
| "container_of h _ = None"

definition well_typed :: "kstate \<Rightarrow> bool" where
  "well_typed s \<longleftrightarrow>
     tcb_ptr (current_thread s) \<and> SSI s = Some SSI_thread \<and> (\<forall>i. tcb_ptr (soft_blocked_thread s i)) \<and>
     (\<forall>p < MAXPROC. pcb_typed (procs s p)) \<and> (\<forall>t. valid_tid t \<longrightarrow> tcb_typed (threads s t)) \<and>
     (\<forall>h m. is_msg_head h \<longrightarrow> h \<noteq> Message_h \<longrightarrow> M_next m \<in> set (contents s h) \<longrightarrow>
        (\<exists>t. m_sender (msgs s m) = Some t \<and> valid_tid t)) \<and>
     (\<forall>h. is_head h \<longrightarrow> list_for_each h (lk s) = Some (contents s h)) \<and>
     (\<forall>h n. is_head h \<longrightarrow> n \<in> set (contents s h) \<longrightarrow> container_of h n \<noteq> None)"

section \<open>Reachable states are well typed\<close>

lemma member_struct: "member_ok h n \<Longrightarrow> container_of h n \<noteq> None"
  by (cases "(h, n)" rule: member_ok.cases) auto

lemma sys_ok_typed:
  assumes ok: "sys_ok Q s"
  shows "well_typed s"
proof -
  note kok = sys_ok_kernel[OF ok]
  have procs: "pcb_typed (procs s p)" for p
    using proc_inv_parent[OF kernel_ok_procs[OF kok], of p] sys_ok_mgrs[OF ok]
    by (auto simp: pcb_typed_def pcb_ptr_def tcb_ptr_def mgrs_ok_def)
  have threads: "tcb_typed (threads s t)" if t: "valid_tid t" for t
  proof -
    have "pcb_ptr (t_pcb (threads s t))"
      using t thread_inv_used[OF kernel_ok_threads[OF kok]] thread_inv_SSI[OF kernel_ok_threads[OF kok]]
      by (cases t) (auto simp: pcb_ptr_def)
    moreover have "tcb_ptr (t_wait4sender (threads s t)) \<and> (\<exists>a. a3 (t_s (threads s t)) = U a)"
      if "t_status (threads s t) = T_STATUS_W4MSG"
      using sched_inv_waiting[OF sys_ok_sched[OF ok] t that] by (auto simp: tcb_ptr_def linked_at_def split: option.splits)
    ultimately show ?thesis by (simp add: tcb_typed_def)
  qed
  have mail: "\<exists>t. m_sender (msgs s m) = Some t \<and> valid_tid t"
    if h: "is_msg_head h" "h \<noteq> Message_h" "M_next m \<in> set (contents s h)" for h m
  proof -
    obtain u where u: "h = T_msgq u" "valid_tid u" using h(1,2) by (cases h) auto
    then have "M_next m \<in> set (Q (T_msgq u))" using h(3) contents_eq[OF kok head_kindsI(4)[OF h(1)]] by simp
    then have "letter_of (msgs s) m \<in> set (mailbox Q s u)" by (force simp: mailbox_def)
    then show ?thesis using mail_inv_senders[OF sys_ok_mail[OF ok] u(2)] by (fastforce simp: letter_of_def)
  qed
  have lists: "container_of h n \<noteq> None" if "is_head h" "n \<in> set (contents s h)" for h n
    using that contents_eq[OF kok that(1)] member_struct member_type[OF kok that(1)] by auto
  have walks: "list_for_each h (lk s) = Some (contents s h)" if "is_head h" for h
    using that contents_eq[OF kok that] shape_for_each[OF kernel_ok_shape[OF kok], of h] by simp
  show ?thesis
    using walks sys_ok_running[OF ok] sys_ok_SSI[OF ok] sys_ok_devices[OF ok] procs threads mail lists
    by (simp add: well_typed_def tcb_ptr_def devices_ok_def)
qed

lemma reachable_well_typed: "reachable s \<Longrightarrow> well_typed s"
  using reachable_sys_ok sys_ok_typed by metis

end
