(* ===== verification/Bitmaps.thy ===== *)
theory Bitmaps imports Accounting begin

text \<open>
  The bitmaps of \<open>bitmap.h\<close> are sets: every program of \<open>set_bit\<close>, \<open>clear_bit\<close> and \<open>get_bit\<close> on an
  array gives the answers that insertion, removal and membership give on the set of the numbers of
  its bits, as long as it stays in the array; a step outside is a fault.
\<close>

datatype bit_op = Set_bit nat | Clear_bit nat | Get_bit nat

fun op_index :: "bit_op \<Rightarrow> nat" where
  "op_index (Set_bit n) = n"
| "op_index (Clear_bit n) = n"
| "op_index (Get_bit n) = n"

text \<open>A program on the array, with the answers of \<open>get_bit\<close>, and the same program on a set.\<close>

fun bitmap_run :: "bit_op list \<Rightarrow> u32 list \<Rightarrow> (bool list \<times> u32 list) option" where
  "bitmap_run [] bm = Some ([], bm)"
| "bitmap_run (Set_bit n # ops) bm = do { bm \<leftarrow> bitmap_set_bit bm n; bitmap_run ops bm }"
| "bitmap_run (Clear_bit n # ops) bm = do { bm \<leftarrow> bitmap_clear_bit bm n; bitmap_run ops bm }"
| "bitmap_run (Get_bit n # ops) bm = do { b \<leftarrow> bitmap_get_bit bm n; (bs, bm) \<leftarrow> bitmap_run ops bm; Some (b # bs, bm) }"

fun set_run :: "bit_op list \<Rightarrow> nat set \<Rightarrow> bool list \<times> nat set" where
  "set_run [] A = ([], A)"
| "set_run (Set_bit n # ops) A = set_run ops (insert n A)"
| "set_run (Clear_bit n # ops) A = set_run ops (A - {n})"
| "set_run (Get_bit n # ops) A = (let (bs, B) = set_run ops A in ((n \<in> A) # bs, B))"

lemma bitmap_get_bit_bits: "n < 32 * length bm \<Longrightarrow> bitmap_get_bit bm n = Some (n \<in> bits bm)"
  by (simp add: bits_def bitmap_get_bit_bit)

lemma bitmap_run_set:
  "\<forall>x \<in> set ops. op_index x < 32 * length bm \<Longrightarrow>
   \<exists>bm'. bitmap_run ops bm = Some (fst (set_run ops (bits bm)), bm') \<and> length bm' = length bm \<and>
     bits bm' = snd (set_run ops (bits bm))"
proof (induction ops bm rule: bitmap_run.induct)
  case (2 n ops bm)
  obtain bm1 where bm1: "bitmap_set_bit bm n = Some bm1" "length bm1 = length bm" "bits bm1 = insert n (bits bm)"
    using bitmap_set_bit_correct[of n bm] "2.prems" by auto
  with "2.IH"[of bm1] "2.prems" show ?case by auto
next
  case (3 n ops bm)
  obtain bm1 where bm1: "bitmap_clear_bit bm n = Some bm1" "length bm1 = length bm" "bits bm1 = bits bm - {n}"
    using bitmap_clear_bit_correct[of n bm] "3.prems" by auto
  with "3.IH"[of bm1] "3.prems" show ?case by auto
next
  case (4 n ops bm)
  have "bitmap_get_bit bm n = Some (n \<in> bits bm)" using bitmap_get_bit_bits "4.prems" by simp
  with "4.IH" "4.prems" show ?case by (auto simp: case_prod_beta)
qed simp

lemma bitmap_out_of_range:
  assumes "32 * length bm \<le> op_index x"
  shows "bitmap_run (x # ops) bm = None"
proof -
  have "length bm \<le> op_index x div 32" using assms by (simp add: less_eq_div_iff_mult_less_eq mult.commute)
  then show ?thesis
    by (cases x) (auto simp: bitmap_set_bit_def bitmap_clear_bit_def bitmap_get_bit_def upd_word_def BITS_PER_WORD_def)
qed

end
