(* ===== verification/ListExample.thy ===== *)
theory ListExample imports Listx begin

text \<open>
  \<open>Documentation/list_kernel_example.c\<close>, the example of the list macros: two items are allocated, linked,
  visited in two ways and unlinked. What it prints does not depend on what was in the memory before.
\<close>

section \<open>The program\<close>

text \<open>The list heads of the program: the sentinel on the stack, and the field \<open>list\<close> of each item.\<close>

datatype link = Head | List nat

record kitem_t =
  elem :: int

text \<open>\<open>container_of (iter, kitem_t, list)\<close>: the item of a link; the sentinel is in no item.\<close>

fun item_of :: "link \<Rightarrow> nat option" where
  "item_of (List i) = Some i"
| "item_of Head = None"

text \<open>The memory of the program: the links and the items.\<close>

record heap =
  nodes :: "link links"
  items :: "nat \<Rightarrow> kitem_t"

text \<open>\<open>p->elem = v\<close> for a pointer to an item that \<open>malloc\<close> returned, and an operation on the links.\<close>

definition set_elem :: "nat option \<Rightarrow> int \<Rightarrow> heap \<Rightarrow> heap option" where
  "set_elem p v m = map_option (\<lambda>i. m\<lparr>items := (items m)(i := (items m i)\<lparr>elem := v\<rparr>)\<rparr>) p"

definition on_nodes :: "(link links \<Rightarrow> link links option) \<Rightarrow> heap \<Rightarrow> heap option" where
  "on_nodes f m = map_option (\<lambda>l. m\<lparr>nodes := l\<rparr>) (f (nodes m))"

text \<open>Both loops print the datum of each item; the second finds the next item from the link of the item.\<close>

definition print_for_each :: "link \<Rightarrow> heap \<Rightarrow> int list option" where
  "print_for_each head m = do {
     ns \<leftarrow> list_for_each head (nodes m);
     is \<leftarrow> those (map item_of ns);
     Some (map (\<lambda>i. elem (items m i)) is) }"

partial_function (option) print_entries :: "link \<Rightarrow> heap \<Rightarrow> link option \<Rightarrow> int list option" where
  "print_entries head m pos =
     (case pos of
        None \<Rightarrow> None
      | Some n \<Rightarrow>
          if n = head then Some []
          else do {
            i \<leftarrow> item_of n;
            out \<leftarrow> print_entries head m (lnext (nodes m) (List i));
            Some (elem (items m i) # out) })"

definition print_for_each_entry :: "link \<Rightarrow> heap \<Rightarrow> int list option" where
  "print_for_each_entry head m = print_entries head m (lnext (nodes m) head)"

text \<open>
  \<open>main\<close>, with what \<open>malloc\<close> returns for the two items and what the memory held before. The result is
  the list of the numbers that are printed.
\<close>

definition example_main :: "nat option \<Rightarrow> nat option \<Rightarrow> heap \<Rightarrow> int list option" where
  "example_main elem1 elem2 m = do {
     m \<leftarrow> set_elem elem1 1 m;
     m \<leftarrow> set_elem elem2 2 m;
     e1 \<leftarrow> elem1;
     e2 \<leftarrow> elem2;
     let m = m\<lparr>nodes := init_list_head Head (nodes m)\<rparr>;
     let out = [of_bool (list_empty Head (nodes m))];
     m \<leftarrow> on_nodes (list_add (List e1) Head) m;
     m \<leftarrow> on_nodes (list_add (List e2) Head) m;
     let out = out @ [of_bool (list_empty Head (nodes m))];
     xs \<leftarrow> print_for_each Head m;
     ys \<leftarrow> print_for_each_entry Head m;
     m \<leftarrow> on_nodes (list_del (List e1)) m;
     m \<leftarrow> on_nodes (list_del (List e2)) m;
     Some (out @ xs @ ys @ [of_bool (list_empty Head (nodes m))])
   }"

section \<open>The two loops are the same\<close>

lemma print_entries_walk:
  "walk_next (nodes m) head pos = Some ns \<Longrightarrow>
   print_entries head m pos = map_option (map (\<lambda>i. elem (items m i))) (those (map item_of ns))"
proof (induction ns arbitrary: pos)
  case Nil
  then show ?case
    by (subst print_entries.simps, subst (asm) walk_next.simps) (auto split: option.splits if_splits bind_splits)
next
  case (Cons n ns)
  then obtain "pos = Some n" "n \<noteq> head" "walk_next (nodes m) head (lnext (nodes m) n) = Some ns"
    by (subst (asm) walk_next.simps) (auto split: option.splits if_splits bind_splits)
  with Cons.IH[of "lnext (nodes m) n"] show ?case
    by (subst print_entries.simps) (cases n; cases "those (map item_of ns)"; auto)
qed

lemma loops_agree:
  "list_for_each head (nodes m) = Some ns \<Longrightarrow> print_for_each head m = print_for_each_entry head m"
  using print_entries_walk[of m head "lnext (nodes m) head" ns]
  by (cases "those (map item_of ns)") (simp_all add: print_for_each_def print_for_each_entry_def list_for_each_def)

section \<open>What it prints\<close>

lemma example_prints:
  assumes "i \<noteq> j"
  shows "example_main (Some i) (Some j) m = Some [1, 0, 2, 1, 2, 1, 1]"
proof -
  let ?H = "{Head}"
  let ?Q = "\<lambda>ns. (\<lambda>_. [])(Head := ns)"
  let ?items = "(items m)(i := (items m i)\<lparr>elem := 1\<rparr>, j := (items m j)\<lparr>elem := 2\<rparr>)"
  let ?m = "\<lambda>l. m\<lparr>items := ?items, nodes := l\<rparr>"
  have s0: "shape (init_list_head Head (nodes m)) ?H (\<lambda>_. [])" by (auto simp: shape_def ring_def init_list_head_def)
  have u: "unlinked_node (List k) ?H (?Q ns) \<longleftrightarrow> List k \<notin> set ns" "unlinked_node (List k) ?H (\<lambda>_. [])" for k ns
    by (auto simp: unlinked_node_def)
  obtain l1 where l1: "list_add (List i) Head (init_list_head Head (nodes m)) = Some l1" "shape l1 ?H (?Q [List i])"
    using list_add_shape[OF s0, of Head "List i"] by (auto simp: u)
  obtain l2 where l2: "list_add (List j) Head l1 = Some l2" "shape l2 ?H (?Q [List j, List i])"
    using list_add_shape[OF l1(2), of Head "List j"] assms by (auto simp: u)
  obtain l3 where l3: "list_del (List i) l2 = Some l3" "shape l3 ?H (?Q [List j])"
    using list_del_shape[OF l2(2), of Head "List i"] assms by auto
  obtain l4 where l4: "list_del (List j) l3 = Some l4" "shape l4 ?H (?Q [])"
    using list_del_shape[OF l3(2), of Head "List j"] by auto
  have each: "list_for_each Head l2 = Some [List j, List i]" using shape_for_each[OF l2(2), of Head] by simp
  have p: "print_for_each Head (?m l2) = Some [2, 1]" using each assms by (simp add: print_for_each_def)
  then have q: "print_for_each_entry Head (?m l2) = Some [2, 1]" using loops_agree[of Head "?m l2" "[List j, List i]"] each by simp
  have e: "list_empty Head (init_list_head Head (nodes m))" "\<not> list_empty Head l2" "list_empty Head l4"
    using shape_list_empty[OF s0, of Head] shape_list_empty[OF l2(2), of Head] shape_list_empty[OF l4(2), of Head] by simp_all
  show ?thesis using assms l1(1) l2(1) l3(1) l4(1) p q e by (simp add: example_main_def set_elem_def on_nodes_def)
qed

text \<open>The result of \<open>malloc\<close> is not tested.\<close>

lemma example_null: "e1 = None \<or> e2 = None \<Longrightarrow> example_main e1 e2 m = None"
  by (cases e1) (auto simp: example_main_def set_elem_def)

end
