(* ===== verification/P1test.thy ===== *)
theory P1test imports Termination begin

text \<open>
  The acceptance test of the tables, \<open>old-files/p1test.c\<close> (the same file as \<open>src/tests/p1test.c\<close>), run
  on the model of the tables: here the tests of the process table, which pass on every well-formed
  kernel in which only the root process is alive, and the test of the thread table, which faults.
\<close>

section \<open>Definitions\<close>

text \<open>
  A test goes on (\<open>Inr\<close>), or prints an error and panics (\<open>Inl\<close>, with the text but for blanks and the
  newline at its end); \<open>None\<close> is a fault or a loop that does not end, as everywhere.
\<close>

type_synonym test_result = "(string + kstate) option"

definition adderrbuf :: "string \<Rightarrow> test_result" where "adderrbuf strp = Some (Inl strp)"

definition check :: "bool \<Rightarrow> string \<Rightarrow> kstate \<Rightarrow> test_result" where
  "check err strp s = (if err then adderrbuf strp else Some (Inr s))"

definition andthen :: "test_result \<Rightarrow> (kstate \<Rightarrow> test_result) \<Rightarrow> test_result" where
  "andthen r f = (case r of None \<Rightarrow> None | Some (Inl e) \<Rightarrow> Some (Inl e) | Some (Inr s) \<Rightarrow> f s)"

text \<open>\<open>for (i = 0; i < n; i++) body\<close>, where the body does not look at \<open>i\<close>.\<close>

fun repeat_n :: "nat \<Rightarrow> (kstate \<Rightarrow> test_result) \<Rightarrow> kstate \<Rightarrow> test_result" where
  "repeat_n 0 body s = Some (Inr s)"
| "repeat_n (Suc n) body s = andthen (body s) (repeat_n n body)"

definition alloc_proc :: "pid \<Rightarrow> kstate \<Rightarrow> test_result" where
  "alloc_proc parent s = do {
     (p, s) \<leftarrow> proc_alloc (Some parent) s;
     check (p = None) ''ERROR proc_alloc: wrongly unavailable pcb'' s
   }"

definition delete_first :: "pid \<Rightarrow> kstate \<Rightarrow> test_result" where
  "delete_first root s = andthen (check (list_empty (P_children root) (lk s)) ''ERROR wrong management of children list'' s)
     (\<lambda>s. do {
       pcb \<leftarrow> proc_firstchild root s;
       pcb \<leftarrow> pcb;
       (_, s) \<leftarrow> proc_delete pcb s;
       Some (Inr s)
     })"

definition test_proc_alloc :: "pid \<Rightarrow> kstate \<Rightarrow> test_result" where
  "test_proc_alloc root s =
     andthen (repeat_n (MAXPROC - 1) (alloc_proc root) s) (\<lambda>s.
     andthen (do { (p, s) \<leftarrow> proc_alloc (Some root) s; check (p \<noteq> None) ''ERROR proc_alloc: wrongly available pcb'' s }) (\<lambda>s.
     andthen (repeat_n (MAXPROC - 1) (delete_first root) s) (\<lambda>s.
     check (\<not> list_empty (P_children root) (lk s)) ''ERROR wrong management of children list (extra items)'' s)))"

text \<open>The loop over the children, which reads each next pointer after the body has run.\<close>

partial_function (option) each_child :: "node \<Rightarrow> node option \<Rightarrow> kstate \<Rightarrow> test_result" where
  "each_child head pos s = do {
     n \<leftarrow> pos;
     if n = head then Some (Inr s)
     else do {
       pcb \<leftarrow> pcb_of_siblings n;
       r \<leftarrow> repeat_n 4 (alloc_proc pcb) s;
       (case r of
          Inl e \<Rightarrow> Some (Inl e)
        | Inr s \<Rightarrow> each_child head (lnext (lk s) n) s) } }"

text \<open>The inner loop goes down the first children to a leaf.\<close>

partial_function (option) first_leaf :: "pid \<Rightarrow> kstate \<Rightarrow> pid option" where
  "first_leaf pcb s =
     (if list_empty (P_children pcb) (lk s) then Some pcb
      else do { c \<leftarrow> proc_firstchild pcb s; c \<leftarrow> c; first_leaf c s })"

partial_function (option) delete_leaves :: "pid \<Rightarrow> nat \<Rightarrow> kstate \<Rightarrow> (string + nat \<times> kstate) option" where
  "delete_leaves root i s =
     (if list_empty (P_children root) (lk s) then Some (Inr (i, s))
      else do {
        pcb \<leftarrow> first_leaf root s;
        (r, s) \<leftarrow> proc_delete pcb s;
        if r = -1 then Some (Inl ''ERROR proc_delete should succeed if empty p_children'')
        else delete_leaves root (i + 1) s })"

definition test_proc_hierarchy :: "pid \<Rightarrow> kstate \<Rightarrow> test_result" where
  "test_proc_hierarchy root s =
     andthen (repeat_n 3 (alloc_proc root) s) (\<lambda>s.
     andthen (each_child (P_children root) (lnext (lk s) (P_children root)) s) (\<lambda>s. do {
       pcb \<leftarrow> proc_firstchild root s;
       pcb \<leftarrow> pcb;
       (r, s) \<leftarrow> proc_delete pcb s;
       andthen (check (r \<noteq> -1) ''ERROR proc_delete should fail if non-empty p_children'' s) (\<lambda>s. do {
         r \<leftarrow> delete_leaves root 0 s;
         (case r of
            Inl e \<Rightarrow> Some (Inl e)
          | Inr (i, s) \<Rightarrow> check (i \<noteq> 15) ''ERROR wrong # of elements in hierarchy'' s) }) }))"

definition alloc_thread :: "pid \<Rightarrow> kstate \<Rightarrow> test_result" where
  "alloc_thread root s = do {
     (t, s) \<leftarrow> thread_alloc (Some root) s;
     check (t = None) ''ERROR thread_alloc: wrongly unavailable tcb'' s
   }"

definition free_first :: "pid \<Rightarrow> kstate \<Rightarrow> test_result" where
  "free_first root s = andthen (check (list_empty (P_threads root) (lk s)) ''ERROR wrong management of thread list'' s)
     (\<lambda>s. do {
       tcb \<leftarrow> proc_firstthread root s;
       tcb \<leftarrow> tcb;
       (_, s) \<leftarrow> thread_free tcb s;
       Some (Inr s)
     })"

definition test_thread_alloc :: "pid \<Rightarrow> kstate \<Rightarrow> test_result" where
  "test_thread_alloc root s =
     andthen (do { (t, s) \<leftarrow> thread_alloc None s; check (t \<noteq> None) ''thread_alloc should fail if process == NULL'' s }) (\<lambda>s.
     andthen (repeat_n MAXTHREAD (alloc_thread root) s) (\<lambda>s.
     andthen (do { (t, s) \<leftarrow> thread_alloc (Some root) s; check (t \<noteq> None) ''ERROR thread_alloc: wrongly available tcb'' s }) (\<lambda>s.
     andthen (repeat_n MAXTHREAD (free_first root) s) (\<lambda>s.
     check (\<not> list_empty (P_threads root) (lk s)) ''ERROR wrong management of thread list (extra items)'' s))))"

section \<open>Rules for the loops\<close>

lemma andthen_simps [simp]:
  "andthen (Some (Inr s)) f = f s" "andthen (Some (Inl e)) f = Some (Inl e)" "andthen None f = None"
  by (simp_all add: andthen_def)

lemma check_simps [simp]: "check False e s = Some (Inr s)" "check True e s = Some (Inl e)"
  by (simp_all add: check_def adderrbuf_def)

lemma repeat_invariant:
  assumes "I 0 s" "\<And>k s. k < n \<Longrightarrow> I k s \<Longrightarrow> \<exists>s'. body s = Some (Inr s') \<and> I (Suc k) s'"
  shows "\<exists>s'. repeat_n n body s = Some (Inr s') \<and> I n s'"
  using assms
proof (induction n arbitrary: s I)
  case 0
  then show ?case by simp
next
  case (Suc n)
  obtain s1 where s1: "body s = Some (Inr s1)" "I (Suc 0) s1" using Suc.prems(2)[of 0 s] Suc.prems(1) by auto
  have "\<exists>s'. repeat_n n body s1 = Some (Inr s') \<and> I (Suc n) s'"
    using Suc.IH[of "\<lambda>k. I (Suc k)" s1] s1(2) Suc.prems(2)[of "Suc _"] by fastforce
  with s1(1) show ?case by simp
qed

lemma MAXPROC_pos [simp]: "0 < MAXPROC" by (simp add: MAXPROC_def)

text \<open>What is linked in a list of children, and in the free list.\<close>

lemma child_node:
  assumes ok: "kernel_ok Q s" and p: "p < MAXPROC" and n: "n \<in> set (Q (P_children p))"
  shows "\<exists>c. n = P_siblings c \<and> 0 < c \<and> c < MAXPROC \<and> p_parent (procs s c) = Some p"
proof -
  obtain c where "n = P_siblings c" "0 < c" "c < MAXPROC"
    using member_type[OF ok _ n] member_ok_cases(1)[of "P_children p" n] p by auto
  with proc_child_iff[OF ok p, of c] n show ?thesis by simp
qed

lemma free_node:
  assumes ok: "kernel_ok Q s" and n: "n \<in> set (Q (P_siblings 0))"
  shows "n \<in> P_siblings ` {1..<MAXPROC}"
  using member_type[OF ok _ n] member_ok_cases(1)[of "P_siblings 0" n] by auto

section \<open>Allocating and deleting processes\<close>

text \<open>Processes are allocated as children of \<open>p\<close>; no other process has a child or a thread of its own.\<close>

lemma alloc_proc_step:
  assumes ok: "kernel_ok Q s" and p: "proc_alive s p" and free: "Q (P_siblings 0) \<noteq> []"
  shows "\<exists>s' c ns. alloc_proc p s = Some (Inr s') \<and> Q (P_siblings 0) = P_siblings c # ns \<and> 0 < c \<and> c < MAXPROC \<and>
    kernel_ok (Q(P_siblings 0 := ns, P_children p := Q (P_children p) @ [P_siblings c])) s' \<and>
    procs s' = (procs s)(c := (procs s c)\<lparr>p_parent := Some p\<rparr>) \<and> p_parent (procs s c) = None"
proof -
  obtain n ns where n: "Q (P_siblings 0) = n # ns" using free by (cases "Q (P_siblings 0)") auto
  then obtain c where c: "n = P_siblings c"
    using member_type[OF ok, of "P_siblings 0" n] member_ok_cases(1)[of "P_siblings 0" n] by auto
  obtain s' where s': "proc_alloc (Some p) s = Some (Some c, s')"
    "s' = s\<lparr>lk := lk s', procs := (procs s)(c := (procs s c)\<lparr>p_parent := Some p\<rparr>)\<rparr>"
    "kernel_ok (Q(P_siblings 0 := ns, P_children p := Q (P_children p) @ [P_siblings c])) s'"
    using proc_alloc_correct[OF ok p n[unfolded c]] by blast
  have "procs s' = (procs s)(c := (procs s c)\<lparr>p_parent := Some p\<rparr>)" by (subst s'(2)) simp
  with s'(1,3) n c free_list_procs[OF ok, of c] show ?thesis
    by (intro exI[of _ s'] exI[of _ c] exI[of _ ns]) (simp add: alloc_proc_def)
qed

definition only_children :: "queues \<Rightarrow> pid set \<Rightarrow> bool" where
  "only_children Q P \<longleftrightarrow> (\<forall>c. c < MAXPROC \<longrightarrow> c \<notin> P \<longrightarrow> Q (P_children c) = []) \<and> (\<forall>c. 0 < c \<longrightarrow> c < MAXPROC \<longrightarrow> Q (P_threads c) = [])"

text \<open>The lists of processes change, the others hold what they held in \<open>R\<close>.\<close>

definition others_keep :: "queues \<Rightarrow> queues \<Rightarrow> bool" where
  "others_keep R Q \<longleftrightarrow> (\<forall>h. (\<forall>p. h \<noteq> P_children p \<and> h \<noteq> P_siblings p) \<longrightarrow> Q h = R h)"

lemma others_keep_simps [simp]:
  "others_keep R (Q(P_children p := x)) \<longleftrightarrow> others_keep R Q" "others_keep R (Q(P_siblings p := x)) \<longleftrightarrow> others_keep R Q"
  "others_keep Q Q"
  by (auto simp: others_keep_def)

text \<open>\<open>k\<close> processes are alive, all of them children of the root.\<close>

definition flat :: "queues \<Rightarrow> nat \<Rightarrow> kstate \<Rightarrow> bool" where
  "flat R k s \<longleftrightarrow> (\<exists>Q. kernel_ok Q s \<and> others_keep R Q \<and> only_children Q {0} \<and> length (Q (P_children 0)) = k \<and> length (Q (P_siblings 0)) + k = MAXPROC - 1)"

lemma flat_alloc:
  assumes "flat R k s" "k < MAXPROC - 1"
  shows "\<exists>s'. alloc_proc 0 s = Some (Inr s') \<and> flat R (Suc k) s'"
proof -
  obtain Q where Q: "kernel_ok Q s" "only_children Q {0}" "length (Q (P_children 0)) = k"
    "length (Q (P_siblings 0)) + k = MAXPROC - 1" "others_keep R Q" using assms(1) by (auto simp: flat_def)
  have "Q (P_siblings 0) \<noteq> []" "proc_alive s 0" using Q(4) assms(2) by (auto simp: proc_alive_def)
  from alloc_proc_step[OF Q(1) this(2,1)] obtain s' c ns where
    "alloc_proc 0 s = Some (Inr s')" "Q (P_siblings 0) = P_siblings c # ns"
    "kernel_ok (Q(P_siblings 0 := ns, P_children 0 := Q (P_children 0) @ [P_siblings c])) s'" by blast
  with Q show ?thesis unfolding flat_def
    by (intro exI[of _ s'] conjI exI[of _ "Q(P_siblings 0 := ns, P_children 0 := Q (P_children 0) @ [P_siblings c])"])
      (auto simp: only_children_def)
qed

lemma flat_delete:
  assumes "flat R (Suc k) s"
  shows "\<exists>s'. delete_first 0 s = Some (Inr s') \<and> flat R k s'"
proof -
  obtain Q where Q: "kernel_ok Q s" "only_children Q {0}" "length (Q (P_children 0)) = Suc k"
    "length (Q (P_siblings 0)) + Suc k = MAXPROC - 1" "others_keep R Q" using assms by (auto simp: flat_def)
  obtain n ns where n: "Q (P_children 0) = n # ns" using Q(3) by (cases "Q (P_children 0)") auto
  then obtain c where c: "n = P_siblings c" "0 < c" "c < MAXPROC" and par: "p_parent (procs s c) = Some 0"
    using child_node[OF Q(1), of 0 n] by auto
  have e: "Q (P_children c) = []" "Q (P_threads c) = []" using Q(2) c by (auto simp: only_children_def)
  let ?Q' = "Q(P_children 0 := remove1 (P_siblings c) (Q (P_children 0)), P_siblings 0 := Q (P_siblings 0) @ [P_siblings c])"
  obtain s' where s': "proc_delete c s = Some (0, s')" "kernel_ok ?Q' s'"
    using proc_delete_correct[OF Q(1) par e] by blast
  have "list_next (P_children 0) (lk s) = Some (P_siblings c)" "\<not> list_empty (P_children 0) (lk s)"
    using shape_list_next[OF kernel_ok_shape[OF Q(1)], of "P_children 0"] shape_list_empty[OF kernel_ok_shape[OF Q(1)], of "P_children 0"] n c
    by (simp_all add: MAXPROC_def)
  then have "delete_first 0 s = Some (Inr s')"
    using s'(1) by (simp add: delete_first_def proc_firstchild_def queue_macros)
  moreover have "flat R k s'" unfolding flat_def
    using s'(2) Q n c by (intro exI[of _ ?Q']) (auto simp: only_children_def)
  ultimately show ?thesis by blast
qed

lemma flat_full: "flat R (MAXPROC - 1) s \<Longrightarrow> proc_alloc (Some 0) s = Some (None, s)"
  using proc_alloc_fails by (auto simp: flat_def)

lemma flat_empty: "flat R 0 s \<Longrightarrow> list_empty (P_children 0) (lk s)"
  using shape_list_empty[OF kernel_ok_shape, of _ s "P_children 0"] by (auto simp: flat_def MAXPROC_def)

lemma test_proc_alloc_passes:
  assumes "flat R 0 s"
  shows "\<exists>s'. test_proc_alloc 0 s = Some (Inr s') \<and> flat R 0 s'"
proof -
  obtain s1 where s1: "repeat_n (MAXPROC - 1) (alloc_proc 0) s = Some (Inr s1)" "flat R (MAXPROC - 1) s1"
    using repeat_invariant[of "flat R" s "MAXPROC - 1" "alloc_proc 0"] assms flat_alloc by blast
  have "\<exists>s'. delete_first 0 s = Some (Inr s') \<and> flat R (MAXPROC - 1 - Suc k) s'"
    if "k < MAXPROC - 1" "flat R (MAXPROC - 1 - k) s" for k s
    using flat_delete[of R "MAXPROC - 1 - Suc k" s] that by (simp add: Suc_diff_Suc)
  then obtain s2 where s2: "repeat_n (MAXPROC - 1) (delete_first 0) s1 = Some (Inr s2)" "flat R 0 s2"
    using repeat_invariant[of "\<lambda>k. flat R (MAXPROC - 1 - k)" s1 "MAXPROC - 1" "delete_first 0"] s1(2) by auto
  show ?thesis
    using s1 s2 flat_full[OF s1(2)] flat_empty[OF s2(2)] by (simp add: test_proc_alloc_def)
qed

section \<open>The hierarchy\<close>

lemma parent_rel_finite: "proc_inv Q ps \<Longrightarrow> finite (parent_rel ps)"
  by (rule finite_subset[of _ "{..<MAXPROC} \<times> {..<MAXPROC}"])
    (auto simp: parent_rel_def dest: proc_inv_range proc_inv_parent)

text \<open>The children of the root are visited once each, and each gets four children.\<close>

definition tree :: "queues \<Rightarrow> node list \<Rightarrow> node list \<Rightarrow> nat \<Rightarrow> kstate \<Rightarrow> bool" where
  "tree R L pre k s \<longleftrightarrow> (\<exists>Q. kernel_ok Q s \<and> others_keep R Q \<and> Q (P_children 0) = L \<and>
     only_children Q (insert 0 {c. P_siblings c \<in> set pre}) \<and>
     length (Q (P_siblings 0)) + k = MAXPROC - 1 \<and> (\<forall>c. P_siblings c \<in> set pre \<longrightarrow> 0 < length (Q (P_children c))))"

lemma four_children:
  assumes t: "tree R L pre k s" and L: "L = pre @ P_siblings c # rest" and k: "k + 4 \<le> MAXPROC - 1"
  shows "\<exists>s'. repeat_n 4 (alloc_proc c) s = Some (Inr s') \<and> tree R L (pre @ [P_siblings c]) (k + 4) s'"
proof -
  define I where "I = (\<lambda>j s. \<exists>Q. kernel_ok Q s \<and> others_keep R Q \<and> Q (P_children 0) = L \<and>
     only_children Q (insert 0 {d. P_siblings d \<in> set (pre @ [P_siblings c])}) \<and>
     length (Q (P_siblings 0)) + (k + j) = MAXPROC - 1 \<and> (\<forall>d. P_siblings d \<in> set pre \<longrightarrow> 0 < length (Q (P_children d))) \<and>
     j \<le> length (Q (P_children c)))"
  have I0: "I 0 s" using t unfolding tree_def I_def only_children_def by auto
  have step: "\<exists>s'. alloc_proc c s = Some (Inr s') \<and> I (Suc j) s'" if j: "j < 4" and I: "I j s" for j s
  proof -
    obtain Q where Q: "kernel_ok Q s" "Q (P_children 0) = L"
      "only_children Q (insert 0 {d. P_siblings d \<in> set (pre @ [P_siblings c])})"
      "length (Q (P_siblings 0)) + (k + j) = MAXPROC - 1"
      "\<forall>d. P_siblings d \<in> set pre \<longrightarrow> 0 < length (Q (P_children d))" "j \<le> length (Q (P_children c))" "others_keep R Q"
      using I by (auto simp: I_def)
    have c: "0 < c" "c < MAXPROC" "p_parent (procs s c) = Some 0" using child_node[OF Q(1), of 0 "P_siblings c"] Q(2) L by auto
    then have "proc_alive s c" by (simp add: proc_alive_def)
    moreover have "Q (P_siblings 0) \<noteq> []" using Q(4) j k by auto
    ultimately obtain s' d ns where "alloc_proc c s = Some (Inr s')" "Q (P_siblings 0) = P_siblings d # ns"
      "kernel_ok (Q(P_siblings 0 := ns, P_children c := Q (P_children c) @ [P_siblings d])) s'"
      using alloc_proc_step[OF Q(1)] by blast
    with Q c show ?thesis unfolding I_def
      by (intro exI[of _ s'] conjI exI[of _ "Q(P_siblings 0 := ns, P_children c := Q (P_children c) @ [P_siblings d])"])
        (auto simp: only_children_def)
  qed
  obtain s' where "repeat_n 4 (alloc_proc c) s = Some (Inr s')" "I 4 s'"
    using repeat_invariant[of I s 4 "alloc_proc c", OF I0 step] by blast
  then show ?thesis unfolding I_def tree_def by (intro exI[of _ s']) force
qed

lemma each_child_walk:
  assumes "tree R L pre k s" "L = pre @ rest" "k + 4 * length rest \<le> MAXPROC - 1"
  shows "\<exists>s'. each_child (P_children 0) (Some (hd (rest @ [P_children 0]))) s = Some (Inr s') \<and> tree R L L (k + 4 * length rest) s'"
  using assms
proof (induction rest arbitrary: pre k s)
  case Nil
  then show ?case by (subst each_child.simps) simp
next
  case (Cons n rest)
  obtain Q where Q: "kernel_ok Q s" "Q (P_children 0) = L" using Cons.prems(1) by (auto simp: tree_def)
  have H: "P_children 0 \<in> heads" by (simp add: MAXPROC_def)
  obtain c where c: "n = P_siblings c"
    using child_node[OF Q(1), of 0 n] Q(2) Cons.prems(2) by auto
  obtain s' where s': "repeat_n 4 (alloc_proc c) s = Some (Inr s')" "tree R L (pre @ [n]) (k + 4) s'"
    using four_children[OF Cons.prems(1), of c rest] Cons.prems(2,3) c by auto
  obtain Q' where Q': "kernel_ok Q' s'" "Q' (P_children 0) = L" using s'(2) by (auto simp: tree_def)
  have nxt: "lnext (lk s') n = Some (hd (rest @ [P_children 0]))"
    using shape_next[OF kernel_ok_shape[OF Q'(1)] H, of pre n rest] Q'(2) Cons.prems(2) by simp
  obtain s'' where s'': "each_child (P_children 0) (Some (hd (rest @ [P_children 0]))) s' = Some (Inr s'')"
    "tree R L L (k + 4 + 4 * length rest) s''"
    using Cons.IH[OF s'(2)] Cons.prems(2,3) by auto
  have "each_child (P_children 0) (Some n) s = Some (Inr s'')"
    using s'(1) s''(1) nxt c by (subst each_child.simps) simp
  with s''(2) show ?case by (simp add: add.assoc)
qed

text \<open>Going down the first children ends at a live process without children.\<close>

lemma first_leaf_ends:
  assumes ok: "kernel_ok Q s" and p: "proc_alive s p"
  shows "\<exists>q. first_leaf p s = Some q \<and> proc_alive s q \<and> Q (P_children q) = []"
proof -
  have "wf (parent_rel (procs s))"
    by (rule finite_acyclic_wf[OF parent_rel_finite[OF kernel_ok_procs[OF ok]] proc_inv_acyclic[OF kernel_ok_procs[OF ok]]])
  then show ?thesis using p
  proof (induction p)
    case (less p)
    have pl: "p < MAXPROC" using proc_alive_lt[OF ok less.prems] .
    note empty = shape_list_empty[OF kernel_ok_shape[OF ok], of "P_children p"]
    show ?case
    proof (cases "Q (P_children p)")
      case Nil
      with empty pl less.prems show ?thesis by (subst first_leaf.simps) simp
    next
      case (Cons n ns)
      then obtain c where c: "n = P_siblings c" "p_parent (procs s c) = Some p" using child_node[OF ok pl, of n] by auto
      then have "(c, p) \<in> parent_rel (procs s)" "proc_alive s c" by (simp_all add: parent_rel_def proc_alive_def)
      then obtain q where q: "first_leaf c s = Some q" "proc_alive s q" "Q (P_children q) = []" using less.IH by blast
      have "first_leaf p s = Some q"
        using q(1) empty pl Cons c proc_firstchild_eq[OF ok pl] by (subst first_leaf.simps) simp
      with q show ?thesis by blast
    qed
  qed
qed

text \<open>When the root has no child, every other descriptor is free.\<close>

lemma no_parent:
  assumes ok: "kernel_ok Q s" and empty: "Q (P_children 0) = []"
  shows "p_parent (procs s c) = None"
proof -
  have "wf ((parent_rel (procs s))\<inverse>)"
    by (rule finite_acyclic_wf_converse[OF parent_rel_finite[OF kernel_ok_procs[OF ok]] proc_inv_acyclic[OF kernel_ok_procs[OF ok]]])
  then show ?thesis
  proof (induction c)
    case (less c)
    show ?case
    proof (rule ccontr)
      assume "p_parent (procs s c) \<noteq> None"
      then obtain p where p: "p_parent (procs s c) = Some p" by auto
      then have "(p, c) \<in> (parent_rel (procs s))\<inverse>" by (simp add: parent_rel_def)
      then have q: "p_parent (procs s p) = None" by (rule less.IH)
      have pl: "p < MAXPROC" "P_siblings c \<in> set (Q (P_children p))"
        using proc_inv_parent[OF kernel_ok_procs[OF ok] p] by auto
      then have "proc_alive s p" using thread_proc_alive[OF ok pl(1)] by force
      with q pl empty show False by (auto simp: proc_alive_def)
    qed
  qed
qed

lemma only_root_flat:
  assumes ok: "kernel_ok Q s" and empty: "Q (P_children 0) = []" and keep: "others_keep R Q"
  shows "flat R 0 s"
proof -
  have "set (Q (P_siblings 0)) = P_siblings ` {1..<MAXPROC}"
    using free_node[OF ok] proc_free_iff[OF ok] no_parent[OF ok empty] by auto
  moreover have "distinct (Q (P_siblings 0))" using shape_distinct[OF kernel_ok_shape[OF ok], of "P_siblings 0"] by simp
  moreover have "card (P_siblings ` {1..<MAXPROC}) = MAXPROC - 1" by (subst card_image) (auto simp: inj_on_def)
  ultimately have "length (Q (P_siblings 0)) = MAXPROC - 1" by (metis distinct_card)
  moreover have "only_children Q {0}"
    using proc_inv_free[OF kernel_ok_procs[OF ok]] no_parent[OF ok empty] by (auto simp: only_children_def)
  ultimately show ?thesis using ok empty keep unfolding flat_def by (intro exI[of _ Q]) simp
qed

lemma delete_leaves_counts:
  assumes "kernel_ok Q s" "\<forall>c. 0 < c \<longrightarrow> c < MAXPROC \<longrightarrow> Q (P_threads c) = []"
    "length (Q (P_siblings 0)) + k = MAXPROC - 1" "others_keep R Q"
  shows "\<exists>s' Q'. delete_leaves 0 i s = Some (Inr (i + k, s')) \<and> kernel_ok Q' s' \<and> Q' (P_children 0) = [] \<and>
    others_keep R Q'"
  using assms
proof (induction k arbitrary: Q s i rule: less_induct)
  case (less k)
  note ok = less.prems(1)
  note empty = shape_list_empty[OF kernel_ok_shape[OF ok], of "P_children 0"]
  have H: "P_children 0 \<in> heads" by (simp add: MAXPROC_def)
  show ?case
  proof (cases "Q (P_children 0) = []")
    case True
    from only_root_flat[OF ok True others_keep_simps(3)] obtain P where "kernel_ok P s" "length (P (P_siblings 0)) = MAXPROC - 1"
      by (auto simp: flat_def)
    then have "k = 0" using less.prems(3) shape_unique[OF kernel_ok_shape kernel_ok_shape, OF _ ok, of P "P_siblings 0"] by simp
    with True empty H less.prems show ?thesis by (subst delete_leaves.simps) auto
  next
    case False
    obtain q where q: "first_leaf 0 s = Some q" "proc_alive s q" "Q (P_children q) = []"
      using first_leaf_ends[OF ok, of 0] by (auto simp: proc_alive_def)
    with False have q0: "0 < q" "q < MAXPROC" using proc_alive_lt[OF ok] by (auto intro: gr0I)
    then obtain p where p: "p_parent (procs s q) = Some p" using q(2) by (auto simp: proc_alive_def)
    let ?Q' = "Q(P_children p := remove1 (P_siblings q) (Q (P_children p)), P_siblings 0 := Q (P_siblings 0) @ [P_siblings q])"
    obtain s' where s': "proc_delete q s = Some (0, s')" "kernel_ok ?Q' s'"
      using proc_delete_correct[OF ok p q(3)] less.prems(2) q0 by blast
    have "k \<noteq> 0"
    proof
      assume "k = 0"
      have "distinct (Q (P_siblings 0) @ [P_siblings q])"
        using shape_distinct[OF kernel_ok_shape[OF s'(2)], of "P_siblings 0"] by simp
      moreover have "set (Q (P_siblings 0) @ [P_siblings q]) \<subseteq> P_siblings ` {1..<MAXPROC}"
        using free_node[OF ok] q0 by auto
      ultimately have "length (Q (P_siblings 0) @ [P_siblings q]) \<le> card (P_siblings ` {1..<MAXPROC})"
        by (metis card_mono distinct_card finite_atLeastLessThan finite_imageI)
      also have "\<dots> \<le> MAXPROC - 1" using card_image_le[of "{1..<MAXPROC}" P_siblings] by simp
      finally show False using less.prems(3) \<open>k = 0\<close> by simp
    qed
    then obtain k' where k: "k = Suc k'" by (cases k) auto
    have pre: "\<forall>c. 0 < c \<longrightarrow> c < MAXPROC \<longrightarrow> ?Q' (P_threads c) = []" "length (?Q' (P_siblings 0)) + k' = MAXPROC - 1"
      "others_keep R ?Q'" using less.prems(2,3,4) k by simp_all
    have "\<exists>s'' Q''. delete_leaves 0 (i + 1) s' = Some (Inr (i + 1 + k', s'')) \<and> kernel_ok Q'' s'' \<and> Q'' (P_children 0) = [] \<and>
        others_keep R Q''"
      by (rule less.IH[OF _ s'(2) pre]) (simp add: k)
    moreover have "delete_leaves 0 i s = delete_leaves 0 (i + 1) s'"
      using False empty H q(1) s'(1) by (subst delete_leaves.simps) simp
    ultimately show ?thesis using k by simp
  qed
qed

lemma test_proc_hierarchy_passes:
  assumes "flat R 0 s"
  shows "\<exists>s'. test_proc_hierarchy 0 s = Some (Inr s') \<and> flat R 0 s'"
proof -
  have H: "P_children 0 \<in> heads" by (simp add: MAXPROC_def)
  obtain s1 where s1: "repeat_n 3 (alloc_proc 0) s = Some (Inr s1)" "flat R 3 s1"
    using repeat_invariant[of "flat R" s 3 "alloc_proc 0"] assms flat_alloc by (force simp: MAXPROC_def)
  then obtain Q where Q: "kernel_ok Q s1" "only_children Q {0}" "length (Q (P_children 0)) = 3"
    "length (Q (P_siblings 0)) + 3 = MAXPROC - 1" "others_keep R Q" by (auto simp: flat_def)
  have "tree R (Q (P_children 0)) [] 3 s1" using Q unfolding tree_def by (intro exI[of _ Q]) simp
  moreover have "lnext (lk s1) (P_children 0) = Some (hd (Q (P_children 0) @ [P_children 0]))"
    using shape_ring[OF kernel_ok_shape[OF Q(1)] H] by (simp add: ring_def chain_first)
  ultimately obtain s2 where s2: "each_child (P_children 0) (lnext (lk s1) (P_children 0)) s1 = Some (Inr s2)"
    "tree R (Q (P_children 0)) (Q (P_children 0)) 15 s2"
    using each_child_walk[of R "Q (P_children 0)" "[]" 3 s1 "Q (P_children 0)"] Q(3) by (auto simp: MAXPROC_def)
  obtain Q2 where Q2: "kernel_ok Q2 s2" "Q2 (P_children 0) = Q (P_children 0)"
    "only_children Q2 (insert 0 {c. P_siblings c \<in> set (Q (P_children 0))})"
    "length (Q2 (P_siblings 0)) + 15 = MAXPROC - 1"
    "\<And>c. P_siblings c \<in> set (Q (P_children 0)) \<Longrightarrow> Q2 (P_children c) \<noteq> []" "others_keep R Q2" using s2(2) by (auto simp: tree_def)
  obtain n ns where n: "Q2 (P_children 0) = n # ns" using Q(3) Q2(2) by (cases "Q (P_children 0)") auto
  then obtain c where c: "n = P_siblings c" "c < MAXPROC" using child_node[OF Q2(1), of 0 n] by auto
  have "P_siblings c \<in> set (Q (P_children 0))" using n c Q2(2) by simp
  then have d: "proc_firstchild 0 s2 = Some (Some c)" "proc_delete c s2 = Some (-1, s2)"
    using proc_firstchild_eq[OF Q2(1), of 0] proc_delete_fails[OF Q2(1) c(2)] Q2(5)[of c] by (simp_all add: n c)
  obtain s3 Q3 where s3: "delete_leaves 0 0 s2 = Some (Inr (15, s3))" "kernel_ok Q3 s3" "Q3 (P_children 0) = []" "others_keep R Q3"
    using delete_leaves_counts[OF Q2(1) _ Q2(4,6), of 0] Q2(3) by (auto simp: only_children_def)
  with s1(1) s2(1) d only_root_flat[OF s3(2,3,4)] show ?thesis
    by (simp add: test_proc_hierarchy_def)
qed

section \<open>Threads that no queue has held\<close>

text \<open>A node that no operation has written: its pointers are NULL and no pointer leads to it.\<close>

definition isolated :: "'n \<Rightarrow> 'n links \<Rightarrow> bool" where
  "isolated n l \<longleftrightarrow> lnext l n = None \<and> lprev l n = None \<and> (\<forall>m. lnext l m \<noteq> Some n \<and> lprev l m \<noteq> Some n)"

lemma isolated_list_del: "list_del m l = Some l' \<Longrightarrow> isolated n l \<Longrightarrow> isolated n l'"
  by (auto simp: isolated_def list_del_def list_del_between_def put_prev_def put_next_def bind_eq_Some_conv
      split: option.splits if_splits)

lemma isolated_list_add_tail: "list_add_tail m h l = Some l' \<Longrightarrow> isolated n l \<Longrightarrow> n \<noteq> m \<Longrightarrow> n \<noteq> h \<Longrightarrow> isolated n l'"
  by (auto simp: isolated_def list_add_tail_def list_add_between_def put_prev_def put_next_def bind_eq_Some_conv
      split: option.splits if_splits)

text \<open>
  Before the SSI is initialised and the first thread is put in a queue that is so for the scheduling nodes of all
  threads and for the three other nodes of the SSI. \<open>N\<close> is a set of such nodes.
\<close>

definition unused_nodes :: "node set" where
  "unused_nodes = range T_sched \<union> {T_msgq SSI_thread, T_wait4me SSI_thread, T_next SSI_thread}"

definition fresh :: "node set \<Rightarrow> kstate \<Rightarrow> bool" where
  "fresh N s \<longleftrightarrow> N \<subseteq> unused_nodes \<and> (\<forall>n \<in> N. isolated n (lk s))"

lemma unused_nodes_simps [simp]:
  "P_children p \<notin> unused_nodes" "P_siblings p \<notin> unused_nodes" "P_threads p \<notin> unused_nodes" "Thread_h \<notin> unused_nodes"
  "T_next (Thread i) \<notin> unused_nodes" "T_msgq (Thread i) \<notin> unused_nodes" "T_wait4me (Thread i) \<notin> unused_nodes"
  "T_sched t \<in> unused_nodes" "T_msgq SSI_thread \<in> unused_nodes" "T_wait4me SSI_thread \<in> unused_nodes"
  "T_next SSI_thread \<in> unused_nodes" "M_next m \<notin> unused_nodes" "Message_h \<notin> unused_nodes"
  "Readyq \<notin> unused_nodes" "Blockedq \<notin> unused_nodes" "T_wait4clock \<notin> unused_nodes"
  by (auto simp: unused_nodes_def)

lemma fresh_subset: "fresh N s \<Longrightarrow> M \<subseteq> N \<Longrightarrow> fresh M s"
  by (auto simp: fresh_def)

lemma fresh_outside: "fresh N s \<Longrightarrow> n \<notin> unused_nodes \<Longrightarrow> n \<notin> N"
  by (auto simp: fresh_def)

lemma fresh_no_pointer:
  "fresh N s \<Longrightarrow> lnext (lk s) m = Some n \<Longrightarrow> n \<notin> N" "fresh N s \<Longrightarrow> lprev (lk s) m = Some n \<Longrightarrow> n \<notin> N"
  by (auto simp: fresh_def isolated_def)

lemma list_next_some: "list_next h l = Some n \<Longrightarrow> lnext l h = Some n"
  by (simp add: list_next_def split: if_splits)

lemma fresh_frame [simp]:
  "fresh N (upd_proc p f s) \<longleftrightarrow> fresh N s" "fresh N (upd_thread t g s) \<longleftrightarrow> fresh N s" "fresh N (clean_mgr p s) \<longleftrightarrow> fresh N s"
  by (simp_all add: fresh_def upd_defs clean_mgr_def)

lemma fresh_del: "with_links (list_del m) s = Some s' \<Longrightarrow> fresh N s \<Longrightarrow> fresh N s'"
  by (auto simp: with_links_def fresh_def intro: isolated_list_del)

lemma fresh_add:
  assumes run: "with_links (list_add_tail m h) s = Some s'" and f: "fresh N s"
    and "m \<notin> N" "h \<notin> N"
  shows "fresh N s'"
proof -
  obtain l where l: "list_add_tail m h (lk s) = Some l" "lk s' = l" using run by (auto simp: with_links_def)
  have "n \<noteq> m" "n \<noteq> h" if "n \<in> N" for n using assms(3,4) that by auto
  with isolated_list_add_tail[OF l(1)] f l(2) show ?thesis by (simp add: fresh_def)
qed

lemma proc_alloc_fresh:
  assumes run: "proc_alloc p s = Some (r, s')" and f: "fresh N s"
  shows "fresh N s'"
proof (cases "list_next (P_siblings 0) (lk s)"; cases p)
  fix n q assume "list_next (P_siblings 0) (lk s) = Some n" "p = Some q"
  with run obtain s1 c where c: "with_links (list_del n) s = Some s1"
    "with_links (list_add_tail (P_siblings c) (P_children q)) (upd_proc c (\<lambda>x. x\<lparr>p_parent := Some q\<rparr>) s1) = Some s'"
    by (auto simp: proc_alloc_def proc_enqueue_def bind_eq_Some_conv)
  have "fresh N s1" by (rule fresh_del[OF c(1) f])
  then show ?thesis using fresh_add[OF c(2)] fresh_outside[OF f] by simp
qed (use run f in \<open>simp_all add: proc_alloc_def\<close>)

lemma proc_delete_fresh:
  assumes run: "proc_delete p s = Some (r, s')" and f: "fresh N s"
  shows "fresh N s'"
proof (cases "s' = s")
  case False
  with run obtain s1 s2 where c: "with_links (list_del (P_siblings p)) (upd_proc p (\<lambda>x. x\<lparr>p_parent := None\<rparr>) s) = Some s1"
    "with_links (list_add_tail (P_siblings p) (P_siblings 0)) s1 = Some s2" "s' = clean_mgr p s2"
    by (auto simp: proc_delete_def bind_eq_Some_conv split: if_splits)
  have "fresh N s1" using fresh_del[OF c(1)] f by simp
  then have "fresh N s2" using fresh_add[OF c(2)] fresh_outside[OF f] by simp
  with c(3) show ?thesis by simp
qed (use f in simp)

lemma thread_alloc_fresh:
  assumes run: "thread_alloc p s = Some (r, s')" and f: "fresh N s"
  shows "fresh N s'"
proof (cases "list_next Thread_h (lk s)"; cases p)
  fix n q assume "list_next Thread_h (lk s) = Some n" "p = Some q"
  with run obtain s1 s2 t where t: "tcb_of_next n = Some t" "with_links (list_del n) s = Some s1"
    "with_links (list_add_tail n (P_threads q)) (upd_thread t (\<lambda>x. x\<lparr>t_pcb := Some q\<rparr>) s1) = Some s2"
    "s' = upd_thread t (\<lambda>x. x\<lparr>t_status := T_STATUS_READY\<rparr>) s2"
    by (auto simp: thread_alloc_def bind_eq_Some_conv)
  have "fresh N s1" by (rule fresh_del[OF t(2) f])
  moreover have "n \<notin> N" by (rule fresh_no_pointer(1)[OF f list_next_some]) (rule \<open>list_next Thread_h (lk s) = Some n\<close>)
  ultimately have "fresh N s2" using fresh_add[OF t(3)] fresh_outside[OF f] by simp
  with t(4) show ?thesis by simp
qed (use run f in \<open>simp_all add: thread_alloc_def\<close>)

section \<open>The thread test does not pass\<close>

text \<open>\<open>k\<close> threads are alive, all of them in the root process and without mail or waiting threads.\<close>

definition busy :: "nat \<Rightarrow> kstate \<Rightarrow> bool" where
  "busy k s \<longleftrightarrow> fresh (range T_sched) s \<and> (\<exists>Q. kernel_ok Q s \<and> length (Q (P_threads 0)) = k \<and> length (Q Thread_h) + k = MAXTHREAD \<and>
     (\<forall>t. valid_tid t \<longrightarrow> Q (T_msgq t) = [] \<and> Q (T_wait4me t) = []))"

lemma busy_alloc:
  assumes "busy k s" "k < MAXTHREAD"
  shows "\<exists>s'. alloc_thread 0 s = Some (Inr s') \<and> busy (Suc k) s'"
proof -
  obtain Q where Q: "fresh (range T_sched) s" "kernel_ok Q s" "length (Q (P_threads 0)) = k" "length (Q Thread_h) + k = MAXTHREAD"
    "\<forall>t. valid_tid t \<longrightarrow> Q (T_msgq t) = [] \<and> Q (T_wait4me t) = []" using assms(1) by (auto simp: busy_def)
  obtain n ns where n: "Q Thread_h = n # ns" using Q(4) assms(2) by (cases "Q Thread_h") auto
  obtain t s' where s': "thread_alloc (Some 0) s = Some (Some t, s')"
    "kernel_ok (Q(Thread_h := ns, P_threads 0 := Q (P_threads 0) @ [n])) s'"
    using thread_alloc_correct[OF Q(2) _ n, of 0] by (auto simp: proc_alive_def)
  moreover have "busy (Suc k) s'" unfolding busy_def
    using s'(2) Q n thread_alloc_fresh[OF s'(1) Q(1)]
    by (intro conjI exI[of _ "Q(Thread_h := ns, P_threads 0 := Q (P_threads 0) @ [n])"]) auto
  ultimately show ?thesis by (simp add: alloc_thread_def)
qed

lemma busy_free:
  assumes "busy (Suc k) s"
  shows "free_first 0 s = None"
proof -
  obtain Q where Q: "fresh (range T_sched) s" "kernel_ok Q s" "length (Q (P_threads 0)) = Suc k"
    "\<forall>t. valid_tid t \<longrightarrow> Q (T_msgq t) = [] \<and> Q (T_wait4me t) = []" using assms by (auto simp: busy_def)
  obtain n ns where n: "Q (P_threads 0) = n # ns" using Q(3) by (cases "Q (P_threads 0)") auto
  obtain i where i: "n = T_next (Thread i)" "i < MAXTHREAD"
    using member_type[OF Q(2), of "P_threads 0" n] member_ok_cases(2)[of "P_threads 0" n] n by auto
  with n have pcb: "t_pcb (threads s (Thread i)) = Some 0" using thread_of_iff[OF Q(2), of 0 "Thread i"] by simp
  have "thread_free (Thread i) s = None"
    using thread_free_never_enqueued[OF Q(2) _ pcb] Q(1,4) i(2) by (auto simp: fresh_def isolated_def)
  then show ?thesis
    using proc_firstthread_eq[OF Q(2), of 0] shape_list_empty[OF kernel_ok_shape[OF Q(2)], of "P_threads 0"] n i
    by (simp add: free_first_def)
qed

lemma test_thread_alloc_faults:
  assumes "busy 0 s"
  shows "test_thread_alloc 0 s = None"
proof -
  obtain s1 where s1: "repeat_n MAXTHREAD (alloc_thread 0) s = Some (Inr s1)" "busy MAXTHREAD s1"
    using repeat_invariant[of busy s MAXTHREAD "alloc_thread 0"] assms busy_alloc by blast
  obtain Q Q1 where Q: "kernel_ok Q s" "kernel_ok Q1 s1" "Q1 Thread_h = []" using assms s1(2) by (auto simp: busy_def)
  have "repeat_n MAXTHREAD (free_first 0) s1 = None"
    using busy_free[of 29 s1] s1(2) by (simp add: MAXTHREAD_def eval_nat_numeral)
  with s1(1) thread_alloc_fails[OF Q(1), of None] thread_alloc_fails[OF Q(2), of "Some 0"] Q(3) show ?thesis
    by (simp add: test_thread_alloc_def)
qed

text \<open>The tests of the process table leave the scheduling links alone, whatever they return.\<close>

definition keeps_fresh :: "(kstate \<Rightarrow> test_result) \<Rightarrow> bool" where
  "keeps_fresh body \<longleftrightarrow> (\<forall>N s s'. fresh N s \<longrightarrow> body s = Some (Inr s') \<longrightarrow> fresh N s')"

lemma keeps_freshI: "(\<And>N s s'. fresh N s \<Longrightarrow> body s = Some (Inr s') \<Longrightarrow> fresh N s') \<Longrightarrow> keeps_fresh body"
  by (simp add: keeps_fresh_def)

lemma keeps_freshD: "keeps_fresh body \<Longrightarrow> fresh N s \<Longrightarrow> body s = Some (Inr s') \<Longrightarrow> fresh N s'"
  unfolding keeps_fresh_def by blast

lemma andthen_Inr: "andthen r f = Some (Inr s') \<longleftrightarrow> (\<exists>s. r = Some (Inr s) \<and> f s = Some (Inr s'))"
  by (auto simp: andthen_def split: option.splits sum.splits)

lemma check_Inr: "check e m s = Some (Inr s') \<longleftrightarrow> \<not> e \<and> s' = s"
  by (auto simp: check_def adderrbuf_def)

lemma case_sum_Inr:
  "(case x of Inl e \<Rightarrow> Some (Inl e) | Inr y \<Rightarrow> f y) = Some (Inr z) \<longleftrightarrow> (\<exists>y. x = Inr y \<and> f y = Some (Inr z))"
  by (cases x) auto

lemma keeps_fresh_repeat: "keeps_fresh body \<Longrightarrow> keeps_fresh (repeat_n n body)"
proof (induction n)
  case 0
  show ?case by (simp add: keeps_fresh_def)
next
  case (Suc n)
  show ?case
  proof (rule keeps_freshI)
    fix N s s' assume "fresh N s" "repeat_n (Suc n) body s = Some (Inr s')"
    then obtain s1 where "body s = Some (Inr s1)" "repeat_n n body s1 = Some (Inr s')" by (auto simp: andthen_Inr)
    with keeps_freshD[OF Suc.prems \<open>fresh N s\<close>] keeps_freshD[OF Suc.IH[OF Suc.prems]] show "fresh N s'" by blast
  qed
qed

lemma keeps_fresh_alloc: "keeps_fresh (alloc_proc p)"
  by (rule keeps_freshI) (auto simp: alloc_proc_def bind_eq_Some_conv check_Inr dest: proc_alloc_fresh)

lemma keeps_fresh_delete: "keeps_fresh (delete_first p)"
  by (rule keeps_freshI) (auto simp: delete_first_def bind_eq_Some_conv check_Inr andthen_Inr dest: proc_delete_fresh)

lemma test_proc_alloc_fresh:
  assumes "fresh N s" "test_proc_alloc p s = Some (Inr s')"
  shows "fresh N s'"
proof -
  obtain s1 s2 s3 r where s: "repeat_n (MAXPROC - 1) (alloc_proc p) s = Some (Inr s1)" "proc_alloc (Some p) s1 = Some (r, s2)"
    "repeat_n (MAXPROC - 1) (delete_first p) s2 = Some (Inr s3)" "s' = s3"
    using assms(2) by (auto simp: test_proc_alloc_def andthen_Inr check_Inr bind_eq_Some_conv)
  have "fresh N s1" by (rule keeps_freshD[OF keeps_fresh_repeat[OF keeps_fresh_alloc] assms(1) s(1)])
  then have "fresh N s2" by (rule proc_alloc_fresh[OF s(2)])
  from keeps_freshD[OF keeps_fresh_repeat[OF keeps_fresh_delete] this s(3)] s(4) show ?thesis by simp
qed

lemma each_child_fresh:
  assumes "each_child h pos s = Some r" "fresh N s" "r = Inr s'"
  shows "fresh N s'"
proof -
  have "fresh N s \<longrightarrow> (\<forall>s'. r = Inr s' \<longrightarrow> fresh N s')"
  proof (rule each_child.raw_induct[OF _ assms(1)])
    fix rec h pos s r
    assume IH: "\<And>h pos s r. rec h pos s = Some r \<Longrightarrow> fresh N s \<longrightarrow> (\<forall>s'. r = Inr s' \<longrightarrow> fresh N s')"
      and run: "do { n \<leftarrow> pos; if n = h then Some (Inr s) else do { pcb \<leftarrow> pcb_of_siblings n; r \<leftarrow> repeat_n 4 (alloc_proc pcb) s;
        (case r of Inl e \<Rightarrow> Some (Inl e) | Inr s \<Rightarrow> rec h (lnext (lk s) n) s) } } = Some r"
    show "fresh N s \<longrightarrow> (\<forall>s'. r = Inr s' \<longrightarrow> fresh N s')"
    proof (intro impI allI)
      fix s' assume f: "fresh N s" and r: "r = Inr s'"
      obtain n where n: "pos = Some n" using run by (cases pos) auto
      show "fresh N s'"
      proof (cases "n = h")
        case True
        with run n r f show ?thesis by simp
      next
        case False
        then obtain pcb s1 where "repeat_n 4 (alloc_proc pcb) s = Some (Inr s1)" "rec h (lnext (lk s1) n) s1 = Some (Inr s')"
          using run n r by (auto simp: bind_eq_Some_conv case_sum_Inr)
        with keeps_freshD[OF keeps_fresh_repeat[OF keeps_fresh_alloc] f] IH show ?thesis by blast
      qed
    qed
  qed
  with assms show ?thesis by blast
qed

lemma delete_leaves_fresh:
  assumes "delete_leaves p i s = Some r" "fresh N s" "r = Inr (j, s')"
  shows "fresh N s'"
proof -
  have "fresh N s \<longrightarrow> (\<forall>j s'. r = Inr (j, s') \<longrightarrow> fresh N s')"
  proof (rule delete_leaves.raw_induct[OF _ assms(1)])
    fix rec p i s r
    assume IH: "\<And>p i s r. rec p i s = Some r \<Longrightarrow> fresh N s \<longrightarrow> (\<forall>j s'. r = Inr (j, s') \<longrightarrow> fresh N s')"
      and run: "(if list_empty (P_children p) (lk s) then Some (Inr (i, s)) else do { pcb \<leftarrow> first_leaf p s; (r, s) \<leftarrow> proc_delete pcb s;
        if r = -1 then Some (Inl ''ERROR proc_delete should succeed if empty p_children'') else rec p (i + 1) s }) = Some r"
    show "fresh N s \<longrightarrow> (\<forall>j s'. r = Inr (j, s') \<longrightarrow> fresh N s')"
    proof (intro impI allI)
      fix j s' assume f: "fresh N s" and r: "r = Inr (j, s')"
      show "fresh N s'"
      proof (cases "list_empty (P_children p) (lk s)")
        case True
        with run r f show ?thesis by simp
      next
        case False
        then obtain pcb q s1 where "proc_delete pcb s = Some (q, s1)" "rec p (i + 1) s1 = Some (Inr (j, s'))"
          using run r by (auto simp: bind_eq_Some_conv split: if_splits)
        with proc_delete_fresh[OF _ f] IH show ?thesis by blast
      qed
    qed
  qed
  with assms show ?thesis by blast
qed

lemma test_proc_hierarchy_fresh:
  assumes f: "fresh N s" and run: "test_proc_hierarchy p s = Some (Inr s')"
  shows "fresh N s'"
proof -
  obtain s1 s2 c q s3 j where s: "repeat_n 3 (alloc_proc p) s = Some (Inr s1)"
    "each_child (P_children p) (lnext (lk s1) (P_children p)) s1 = Some (Inr s2)"
    "proc_delete c s2 = Some (q, s3)" "delete_leaves p 0 s3 = Some (Inr (j, s'))"
    using run by (auto 6 0 simp: test_proc_hierarchy_def andthen_Inr check_Inr bind_eq_Some_conv case_sum_Inr)
  have "fresh N s1" by (rule keeps_freshD[OF keeps_fresh_repeat[OF keeps_fresh_alloc] f s(1)])
  then have "fresh N s2" by (rule each_child_fresh[OF s(2) _ refl])
  then have "fresh N s3" by (rule proc_delete_fresh[OF s(3)])
  then show ?thesis by (rule delete_leaves_fresh[OF s(4) _ refl])
qed

end
