(* ===== verification/P1queues.thy ===== *)
theory P1queues imports P1test Boot begin

text \<open>
  The rest of \<open>src/old-files/p1test.c\<close>: the test of the scheduling queues, whose two local list heads
  are parameters, and the test of the message queues, whose two local variables are memory cells. The
  checks of both succeed.
\<close>

section \<open>Definitions\<close>

text \<open>A loop whose body looks at its index, or at the array element it selects.\<close>

fun foreach :: "'a list \<Rightarrow> ('a \<Rightarrow> kstate \<Rightarrow> test_result) \<Rightarrow> kstate \<Rightarrow> test_result" where
  "foreach [] body s = Some (Inr s)"
| "foreach (x # xs) body s = andthen (body x s) (foreach xs body)"

text \<open>The array \<open>tcb\<close> is filled, and its threads are enqueued.\<close>

fun alloc_enqueue :: "nat \<Rightarrow> pid \<Rightarrow> node \<Rightarrow> kstate \<Rightarrow> (tid list \<times> kstate) option" where
  "alloc_enqueue 0 root tcbq s = Some ([], s)"
| "alloc_enqueue (Suc n) root tcbq s = do {
     (t, s) \<leftarrow> thread_alloc (Some root) s;
     t \<leftarrow> t;
     s \<leftarrow> thread_enqueue t tcbq s;
     (ts, s) \<leftarrow> alloc_enqueue n root tcbq s;
     Some (t # ts, s)
   }"

definition dequeue_next :: "node \<Rightarrow> tid \<Rightarrow> kstate \<Rightarrow> test_result" where
  "dequeue_next tcbq t s = do {
     (ttcb, s) \<leftarrow> thread_dequeue tcbq s;
     andthen (check (ttcb = None) ''ERROR thread_dequeue missing elements'' s)
       (check (ttcb \<noteq> Some t) ''ERROR thread_enqueue FIFO mismatch'')
   }"

definition dequeue_multi :: "node \<Rightarrow> tid \<Rightarrow> kstate \<Rightarrow> test_result" where
  "dequeue_multi tcbq t s = do {
     (ttcb, s) \<leftarrow> thread_dequeue tcbq s;
     check (ttcb = None \<or> ttcb \<noteq> Some t) ''ERROR thread_enqueue FIFO mismatch (multiq)'' s
   }"

definition queue_checks :: "node \<Rightarrow> node \<Rightarrow> tid list \<Rightarrow> kstate \<Rightarrow> test_result" where
  "queue_checks tcbq tcbqq tcb s =
     andthen (foreach tcb (dequeue_next tcbq) s) (\<lambda>s. do {
       s \<leftarrow> for_each (\<lambda>i. thread_enqueue (tcb ! i) (if odd i then tcbqq else tcbq)) [0..<20] s;
       h \<leftarrow> thread_qhead tcbq s;
       hh \<leftarrow> thread_qhead tcbqq s;
       andthen (check (h \<noteq> Some (tcb ! 0) \<or> hh \<noteq> Some (tcb ! 1)) ''ERROR thread_qhead returns the wrong element'' s) (\<lambda>s.
       andthen (foreach [0..<10] (\<lambda>i. dequeue_multi tcbq (tcb ! (2 * i))) s)
         (foreach [0..<10] (\<lambda>i. dequeue_multi tcbqq (tcb ! (2 * i + 1))))) })"

text \<open>\<open>thread_free(tcb[i])\<close> for every element; its result is ignored.\<close>

definition free_all :: "tid list \<Rightarrow> kstate \<Rightarrow> test_result" where
  "free_all tcb s = map_option Inr (for_each (\<lambda>t s. map_option snd (thread_free t s)) tcb s)"

definition test_thread_queue :: "node \<Rightarrow> node \<Rightarrow> pid \<Rightarrow> kstate \<Rightarrow> test_result" where
  "test_thread_queue tcbq tcbqq root s = do {
     let s = init_head tcbqq (init_head tcbq s);
     h \<leftarrow> thread_qhead tcbq s;
     andthen (check (h \<noteq> None) ''ERROR thread_qhead returns non NULL on an empty queue'' s) (\<lambda>s.
     andthen (do { (h, s) \<leftarrow> thread_dequeue tcbqq s; check (h \<noteq> None) ''ERROR thread_dequeue returns non NULL on an empty queue'' s })
       (\<lambda>s. do {
         (tcb, s) \<leftarrow> alloc_enqueue 20 root tcbq s;
         andthen (queue_checks tcbq tcbqq tcb s) (free_all tcb) }))
   }"

text \<open>\<open>a\<close> and \<open>b\<close> are the addresses of the local variables \<open>value\<close> and \<open>new_value\<close>.\<close>

definition fill_msgq :: "tid option \<Rightarrow> tid option \<Rightarrow> nat \<Rightarrow> kstate \<Rightarrow> test_result" where
  "fill_msgq alpha bravo v s = do {
     (r, s) \<leftarrow> msgq_add alpha bravo (U (of_nat v)) s;
     check (r \<noteq> 0) ''ERROR msgq_add wrongly unavailable msg'' s
   }"

definition read_msgq :: "u32 \<Rightarrow> tid option \<Rightarrow> nat \<Rightarrow> kstate \<Rightarrow> test_result" where
  "read_msgq b bravo v s = do {
     (r, _, s) \<leftarrow> msgq_get None bravo (U b) s;
     andthen (check (r \<noteq> 0) ''ERROR msgq_get lost messages'' s)
       (\<lambda>s. check (mem s b \<noteq> U (of_nat v)) ''ERROR msgq_get FIFO mismatch'' s)
   }"

partial_function (option) drain_msgq :: "u32 \<Rightarrow> tid option \<Rightarrow> kstate \<Rightarrow> kstate option" where
  "drain_msgq a bravo s = do {
     (r, _, s) \<leftarrow> msgq_get None bravo (U a) s;
     if r = 0 then drain_msgq a bravo s else Some s
   }"

definition selective_checks :: "u32 \<Rightarrow> tid option \<Rightarrow> tid option \<Rightarrow> tid option \<Rightarrow> kstate \<Rightarrow> test_result" where
  "selective_checks a alpha bravo charlie s = do {
     (_, s) \<leftarrow> msgq_add alpha bravo (U 42) s;
     (_, s) \<leftarrow> msgq_add alpha bravo (U 48) s;
     (_, s) \<leftarrow> msgq_add alpha bravo (U 128) s;
     (_, s) \<leftarrow> msgq_add charlie bravo (U 2017) s;
     (_, sender, s) \<leftarrow> msgq_get (Some None) bravo (U a) s;
     andthen (check (sender \<noteq> Some alpha \<or> mem s a \<noteq> U 42) ''ERROR msgq_get wrong sender or value'' s) (\<lambda>s. do {
       (_, _, s) \<leftarrow> msgq_get (Some charlie) bravo (U a) s;
       andthen (check (mem s a \<noteq> U 2017) ''ERROR msgq_get wrong element (sender search)'' s) (\<lambda>s. do {
         (r, _, s) \<leftarrow> msgq_get None alpha (U a) s;
         andthen (check (r = 0) ''ERROR msgq_get wrong queue'' s) (\<lambda>s. map_option Inr (drain_msgq a bravo s)) }) })
   }"

definition letter_checks :: "u32 \<Rightarrow> u32 \<Rightarrow> tid option \<Rightarrow> tid option \<Rightarrow> tid option \<Rightarrow> kstate \<Rightarrow> test_result" where
  "letter_checks a b alpha bravo charlie s =
     andthen (foreach [0..<MAXMSG] (fill_msgq alpha bravo) s) (\<lambda>s.
     andthen (do { (r, s) \<leftarrow> msgq_add alpha bravo (U (of_nat MAXMSG)) s;
                   check (r \<noteq> -1) ''ERROR msgq_add wrongly available msg'' s }) (\<lambda>s.
     andthen (foreach [0..<MAXMSG] (read_msgq b bravo) s) (\<lambda>s.
     andthen (do { (r, _, s) \<leftarrow> msgq_get None bravo (U a) s; check (r \<noteq> -1) ''ERROR msgq_get extra messages'' s })
       (selective_checks a alpha bravo charlie))))"

definition test_msg_queue :: "u32 \<Rightarrow> u32 \<Rightarrow> pid \<Rightarrow> kstate \<Rightarrow> test_result" where
  "test_msg_queue a b root s = do {
     (alpha, s) \<leftarrow> thread_alloc (Some root) s;
     (bravo, s) \<leftarrow> thread_alloc (Some root) s;
     (charlie, s) \<leftarrow> thread_alloc (Some root) s;
     andthen (letter_checks a b alpha bravo charlie s) (\<lambda>s. do {
       alpha \<leftarrow> alpha;
       bravo \<leftarrow> bravo;
       charlie \<leftarrow> charlie;
       free_all [alpha, bravo, charlie] s })
   }"

text \<open>
  The five tests in the order of \<open>main\<close>. \<open>h\<close> and \<open>k\<close> are the local list heads of the queue test, \<open>a\<close> and
  \<open>b\<close> the local variables of the message test.
\<close>

definition run_tests :: "node \<Rightarrow> node \<Rightarrow> u32 \<Rightarrow> u32 \<Rightarrow> pid \<Rightarrow> kstate \<Rightarrow> test_result" where
  "run_tests h k a b root s =
     andthen (test_proc_alloc root s) (\<lambda>s.
     andthen (test_proc_hierarchy root s) (\<lambda>s.
     andthen (test_thread_alloc root s) (\<lambda>s.
     andthen (test_thread_queue h k root s) (test_msg_queue a b root))))"

section \<open>The scheduling queues\<close>

text \<open>Two queues and the threads that are in no list.\<close>

definition queued :: "node \<Rightarrow> node \<Rightarrow> tid set \<Rightarrow> tid list \<Rightarrow> tid list \<Rightarrow> kstate \<Rightarrow> bool" where
  "queued h k F xs ys s \<longleftrightarrow> is_sched_head h \<and> is_sched_head k \<and> h \<noteq> k \<and> (\<exists>Q. kernel_ok Q s \<and>
     Q h = map T_sched xs \<and> Q k = map T_sched ys \<and> (\<forall>t\<in>F. valid_tid t \<and> not_linked (T_sched t) Q))"

lemma queued_swap: "queued h k F xs ys s \<Longrightarrow> queued k h F ys xs s"
  unfolding queued_def by blast

lemma not_linked_upd: "not_linked n Q \<Longrightarrow> n \<notin> set zs \<Longrightarrow> not_linked n (Q(h := zs))"
  by (simp add: unlinked_node_def)

lemma queued_enqueue:
  assumes "queued h k F xs ys s" "t \<in> F"
  shows "\<exists>s'. thread_enqueue t h s = Some s' \<and> queued h k (F - {t}) (xs @ [t]) ys s'"
proof -
  obtain Q where Q: "kernel_ok Q s" "is_sched_head h" "is_sched_head k" "h \<noteq> k" "Q h = map T_sched xs" "Q k = map T_sched ys"
    "\<forall>t\<in>F. valid_tid t \<and> not_linked (T_sched t) Q" using assms(1) by (auto simp: queued_def)
  obtain l where l: "thread_enqueue t h s = Some (s\<lparr>lk := l\<rparr>)" "kernel_ok (Q(h := Q h @ [T_sched t])) (s\<lparr>lk := l\<rparr>)"
    using thread_enqueue_correct[OF Q(1,2), of t] Q(7) assms(2) by blast
  have "valid_tid u \<and> not_linked (T_sched u) (Q(h := Q h @ [T_sched t]))" if "u \<in> F - {t}" for u
    using that Q(2,7) by (intro conjI not_linked_upd) (auto simp: unlinked_node_def)
  then have "queued h k (F - {t}) (xs @ [t]) ys (s\<lparr>lk := l\<rparr>)" unfolding queued_def
    using l(2) Q(2-6) by (intro conjI exI[of _ "Q(h := Q h @ [T_sched t])"]) simp_all
  with l(1) show ?thesis by blast
qed

lemma queued_dequeue:
  assumes "queued h k F (t # xs) ys s"
  shows "\<exists>s'. thread_dequeue h s = Some (Some t, s') \<and> queued h k (insert t F) xs ys s'"
proof -
  obtain Q where Q: "kernel_ok Q s" "is_sched_head h" "is_sched_head k" "h \<noteq> k" "Q h = T_sched t # map T_sched xs" "Q k = map T_sched ys"
    "\<forall>t\<in>F. valid_tid t \<and> not_linked (T_sched t) Q" using assms(1) by (auto simp: queued_def)
  obtain l where l: "thread_dequeue h s = Some (Some t, s\<lparr>lk := l\<rparr>)" "kernel_ok (Q(h := map T_sched xs)) (s\<lparr>lk := l\<rparr>)"
    "not_linked (T_sched t) (Q(h := map T_sched xs))"
    using thread_dequeue_correct[OF Q(1,2,5)] by blast
  have "valid_tid t" using member_type[OF Q(1) _, of h "T_sched t"] Q(2,5) by auto
  moreover have "not_linked (T_sched u) (Q(h := map T_sched xs))" if "u \<in> F" for u
  proof (rule not_linked_upd)
    have "T_sched u \<notin> set (Q h)" using Q(2,7) that by (auto simp: unlinked_node_def)
    then show "T_sched u \<notin> set (map T_sched xs)" using Q(5) by simp
  qed (use Q(7) that in blast)
  ultimately have "queued h k (insert t F) xs ys (s\<lparr>lk := l\<rparr>)" unfolding queued_def
    using l(2,3) Q by (intro conjI exI[of _ "Q(h := map T_sched xs)"]) auto
  with l(1) show ?thesis by blast
qed

lemma queued_head:
  assumes "queued h k F (t # xs) ys s"
  shows "thread_qhead h s = Some (Some t)"
  using assms thread_qhead_eq[of _ s h] by (auto simp: queued_def)

lemma dequeue_loop:
  assumes "queued h k F (map f is) ys s"
    and body: "\<And>i s s'. thread_dequeue h s = Some (Some (f i), s') \<Longrightarrow> body i s = Some (Inr s')"
  shows "\<exists>s'. foreach is body s = Some (Inr s') \<and> queued h k (F \<union> set (map f is)) [] ys s'"
  using assms(1)
proof (induction "is" arbitrary: F s)
  case (Cons i js)
  obtain s1 where s1: "thread_dequeue h s = Some (Some (f i), s1)" "queued h k (insert (f i) F) (map f js) ys s1"
    using queued_dequeue[of h k F "f i" "map f js" ys s] Cons.prems by auto
  then show ?case using Cons.IH[OF s1(2)] body[OF s1(1)] by simp
qed simp

lemma alternate_loop:
  assumes q: "queued h k (set ts) [] [] s" and d: "distinct ts"
  shows "\<exists>s'. for_each (\<lambda>i. thread_enqueue (ts ! i) (if odd i then k else h)) [0..<length ts] s = Some s' \<and>
    queued h k {} (map ((!) ts) (filter even [0..<length ts])) (map ((!) ts) (filter odd [0..<length ts])) s'"
proof -
  define I where "I = (\<lambda>n. queued h k (set (drop n ts)) (map ((!) ts) (filter even [0..<n])) (map ((!) ts) (filter odd [0..<n])))"
  have "\<exists>s'. for_each (\<lambda>i. thread_enqueue (ts ! i) (if odd i then k else h)) [0..<length ts] s = Some s' \<and>
      I (length [0..<length ts]) s'"
  proof (rule for_each_invariant)
    show "I 0 s" using q by (simp add: I_def)
    fix n s assume n: "n < length [0..<length ts]" and I: "I n s"
    have D: "set (drop n ts) - {ts ! n} = set (drop (Suc n) ts)" "ts ! n \<in> set (drop n ts)"
      using n d distinct_drop[OF d, of n] by (auto simp: Cons_nth_drop_Suc[symmetric])
    show "\<exists>s'. thread_enqueue (ts ! ([0..<length ts] ! n)) (if odd ([0..<length ts] ! n) then k else h) s = Some s' \<and> I (Suc n) s'"
    proof (cases "even n")
      case True
      with queued_enqueue[OF I[unfolded I_def] D(2)] n show ?thesis by (auto simp: I_def D(1))
    next
      case False
      with queued_enqueue[OF queued_swap[OF I[unfolded I_def]] D(2)] n show ?thesis
        by (auto simp: I_def D(1) intro: queued_swap)
    qed
  qed
  then show ?thesis by (simp add: I_def)
qed

lemma queue_checks_pass:
  assumes q: "queued h k {} ts [] s" and ts: "distinct ts" "length ts = 20"
  shows "\<exists>s'. queue_checks h k ts s = Some (Inr s') \<and> queued h k (set ts) [] [] s'"
proof -
  have ev: "filter even [0..<20] = map (\<lambda>i. 2 * i) [0..<10]" "filter odd [0..<20] = map (\<lambda>i. 2 * i + 1) [0..<10 :: nat]"
    by (simp_all add: upt_rec)
  have q': "queued h k {} (map id ts) [] s" using q by simp
  obtain s1 where s1: "foreach ts (dequeue_next h) s = Some (Inr s1)" "queued h k (set ts) [] [] s1"
    using dequeue_loop[OF q', of "dequeue_next h"] by (auto simp: dequeue_next_def)
  obtain s2 where s2: "for_each (\<lambda>i. thread_enqueue (ts ! i) (if odd i then k else h)) [0..<20] s1 = Some s2"
    "queued h k {} (map (\<lambda>i. ts ! (2 * i)) [0..<10]) (map (\<lambda>i. ts ! (2 * i + 1)) [0..<10]) s2"
    using alternate_loop[OF s1(2) ts(1)] by (auto simp: ts(2) ev comp_def)
  have heads: "thread_qhead h s2 = Some (Some (ts ! 0))" "thread_qhead k s2 = Some (Some (ts ! 1))"
    using queued_head[of h k "{}" "ts ! 0" "map (\<lambda>i. ts ! (2 * i)) [1..<10]"] 
      queued_head[of k h "{}" "ts ! 1" "map (\<lambda>i. ts ! (2 * i + 1)) [1..<10]"] s2(2) queued_swap[OF s2(2)]
    by (simp_all add: upt_conv_Cons)
  obtain s3 where s3: "foreach [0..<10] (\<lambda>i. dequeue_multi h (ts ! (2 * i))) s2 = Some (Inr s3)"
    "queued h k ((\<lambda>i. ts ! (2 * i)) ` {0..<10}) [] (map (\<lambda>i. ts ! (2 * i + 1)) [0..<10]) s3"
    using dequeue_loop[OF s2(2), of "\<lambda>i. dequeue_multi h (ts ! (2 * i))"] by (auto simp: dequeue_multi_def)
  obtain s4 where s4: "foreach [0..<10] (\<lambda>i. dequeue_multi k (ts ! (2 * i + 1))) s3 = Some (Inr s4)"
    "queued k h ((\<lambda>i. ts ! (2 * i)) ` {0..<10} \<union> (\<lambda>i. ts ! (2 * i + 1)) ` {0..<10}) [] [] s4"
    using dequeue_loop[OF queued_swap[OF s3(2)], of "\<lambda>i. dequeue_multi k (ts ! (2 * i + 1))"] by (auto simp: dequeue_multi_def)
  have "(\<lambda>i. ts ! (2 * i)) ` {0..<10} \<union> (\<lambda>i. ts ! (2 * i + 1)) ` {0..<10} = (!) ts ` (set (filter even [0..<20]) \<union> set (filter odd [0..<20]))"
    unfolding ev by (auto simp: image_Un image_image)
  also have "set (filter even [0..<20]) \<union> set (filter odd [0..<20]) = {0..<length ts}" by (auto simp: ts(2))
  also have "(!) ts ` {0..<length ts} = set ts" by (metis list.set_map map_nth set_upt)
  finally have "queued h k (set ts) [] [] s4" using queued_swap[OF s4(2)] by simp
  with s1(1) s2(1) heads s3(1) s4(1) show ?thesis by (simp add: queue_checks_def)
qed

text \<open>The twenty threads, in a kernel without scheduled threads.\<close>

definition filling :: "node \<Rightarrow> node \<Rightarrow> nat \<Rightarrow> tid list \<Rightarrow> kstate \<Rightarrow> bool" where
  "filling h k n ts s \<longleftrightarrow> (\<exists>Q. kernel_ok Q s \<and> Q h = map T_sched ts \<and> (\<forall>g. is_sched_head g \<longrightarrow> g \<noteq> h \<longrightarrow> Q g = []) \<and>
     distinct ts \<and> n \<le> length (Q Thread_h) \<and> (\<forall>t\<in>set ts. t_status (threads s t) \<noteq> T_STATUS_NONE))"

lemma sched_node_list:
  assumes "kernel_ok Q s" "is_head g" "T_sched t \<in> set (Q g)"
  shows "is_sched_head g"
  using member_type[OF assms] by (cases g rule: is_sched_head.cases) auto

lemma filling_step:
  assumes f: "filling h k (Suc n) ts s" and h: "is_sched_head h"
  shows "\<exists>t s1 s2. thread_alloc (Some 0) s = Some (Some t, s1) \<and> thread_enqueue t h s1 = Some s2 \<and> filling h k n (ts @ [t]) s2"
proof -
  obtain Q where Q: "kernel_ok Q s" "Q h = map T_sched ts" "\<forall>g. is_sched_head g \<longrightarrow> g \<noteq> h \<longrightarrow> Q g = []" "distinct ts"
    "Suc n \<le> length (Q Thread_h)" "\<forall>t\<in>set ts. t_status (threads s t) \<noteq> T_STATUS_NONE" using f by (auto simp: filling_def)
  obtain m ns where m: "Q Thread_h = m # ns" using Q(5) by (cases "Q Thread_h") auto
  let ?Q1 = "Q(Thread_h := ns, P_threads 0 := Q (P_threads 0) @ [m])"
  obtain t l where t: "valid_tid t" "t_status (threads s t) = T_STATUS_NONE"
    "thread_alloc (Some 0) s =
      Some (Some t, s\<lparr>lk := l, threads := (threads s)(t := (threads s t)\<lparr>t_pcb := Some 0, t_status := T_STATUS_READY\<rparr>)\<rparr>)"
    "kernel_ok ?Q1 (s\<lparr>lk := l, threads := (threads s)(t := (threads s t)\<lparr>t_pcb := Some 0, t_status := T_STATUS_READY\<rparr>)\<rparr>)"
    using thread_alloc_correct[OF Q(1) _ m, of 0] by (auto simp: proc_alive_def)
  let ?s1 = "s\<lparr>lk := l, threads := (threads s)(t := (threads s t)\<lparr>t_pcb := Some 0, t_status := T_STATUS_READY\<rparr>)\<rparr>"
  have t_new: "t \<notin> set ts" using Q(6) t(2) by auto
  have Q1: "?Q1 g = Q g" if "is_sched_head g" for g using that by (cases g rule: is_sched_head.cases) auto
  have "T_sched t \<notin> set (?Q1 g)" if "is_head g" for g
  proof
    assume a: "T_sched t \<in> set (?Q1 g)"
    from sched_node_list[OF t(4) that a] have g: "is_sched_head g" .
    then show False using a Q1[OF g] Q(2,3) t_new by (cases "g = h") auto
  qed
  then have "not_linked (T_sched t) ?Q1" by (auto simp: unlinked_node_def)
  then obtain l' where l': "thread_enqueue t h ?s1 = Some (?s1\<lparr>lk := l'\<rparr>)"
    "kernel_ok (?Q1(h := ?Q1 h @ [T_sched t])) (?s1\<lparr>lk := l'\<rparr>)"
    using thread_enqueue_correct[OF t(4) h t(1)] by blast
  have "filling h k n (ts @ [t]) (?s1\<lparr>lk := l'\<rparr>)" unfolding filling_def
  proof (intro exI conjI)
    show "kernel_ok (?Q1(h := ?Q1 h @ [T_sched t])) (?s1\<lparr>lk := l'\<rparr>)" by (rule l'(2))
    show "(?Q1(h := ?Q1 h @ [T_sched t])) h = map T_sched (ts @ [t])" using Q1[OF h] Q(2) by simp
    show "\<forall>g. is_sched_head g \<longrightarrow> g \<noteq> h \<longrightarrow> (?Q1(h := ?Q1 h @ [T_sched t])) g = []" using Q1 Q(3) by simp
    show "n \<le> length ((?Q1(h := ?Q1 h @ [T_sched t])) Thread_h)" using m Q(5) h by auto
  qed (use Q(4,6) t_new in auto)
  with t(3) l'(1) show ?thesis by blast
qed

lemma alloc_enqueue_fills:
  assumes "filling h k n xs s" "is_sched_head h"
  shows "\<exists>ts s'. alloc_enqueue n 0 h s = Some (ts, s') \<and> filling h k 0 (xs @ ts) s' \<and> length ts = n"
  using assms(1)
proof (induction n arbitrary: xs s)
  case 0
  then show ?case by simp
next
  case (Suc n)
  obtain t s1 s2 where s: "thread_alloc (Some 0) s = Some (Some t, s1)" "thread_enqueue t h s1 = Some s2" "filling h k n (xs @ [t]) s2"
    using filling_step[OF Suc.prems assms(2)] by blast
  obtain ts s' where "alloc_enqueue n 0 h s2 = Some (ts, s')" "filling h k 0 ((xs @ [t]) @ ts) s'" "length ts = n"
    using Suc.IH[OF s(3)] by blast
  with s(1,2) show ?case by simp
qed

lemma filling_queued:
  assumes "filling h k 0 ts s" "is_sched_head h" "is_sched_head k" "h \<noteq> k"
  shows "queued h k {} ts [] s \<and> distinct ts"
proof -
  obtain Q where Q: "kernel_ok Q s" "Q h = map T_sched ts" "\<forall>g. is_sched_head g \<longrightarrow> g \<noteq> h \<longrightarrow> Q g = []" "distinct ts"
    using assms(1) by (auto simp: filling_def)
  then have "Q k = []" using assms(3,4) by blast
  with Q assms(2-4) show ?thesis by (auto simp: queued_def)
qed

text \<open>The sentinels of the test are set up by \<open>LIST_HEAD\<close>, which changes nothing when they are empty lists.\<close>

lemma init_head_empty:
  assumes ok: "kernel_ok Q s" and h: "is_head h" "Q h = []"
  shows "init_head h s = s"
proof -
  have "lnext (lk s) h = Some h" "lprev (lk s) h = Some h"
    using shape_ring[OF kernel_ok_shape[OF ok], of h] h by (simp_all add: ring_def)
  then have "init_list_head h (lk s) = lk s" by (simp add: init_list_head_def fun_upd_idem)
  then show ?thesis by (simp add: init_head_def)
qed

lemma test_thread_queue_checks:
  assumes ok: "kernel_ok Q s" and heads: "is_sched_head h" "is_sched_head k" "h \<noteq> k"
    and empty: "\<forall>g. is_sched_head g \<longrightarrow> Q g = []" and free: "20 \<le> length (Q Thread_h)"
  shows "\<exists>ts s'. test_thread_queue h k 0 s = free_all ts s' \<and> queued h k (set ts) [] [] s' \<and> length ts = 20"
proof -
  have i: "init_head k (init_head h s) = s"
    using init_head_empty[OF ok head_kindsI(3)[OF heads(1)]] init_head_empty[OF ok head_kindsI(3)[OF heads(2)]] empty heads by simp
  have "filling h k 20 [] s" unfolding filling_def using ok empty free heads by (intro exI[of _ Q]) simp
  then obtain ts s1 where s1: "alloc_enqueue 20 0 h s = Some (ts, s1)" "filling h k 0 ts s1" "length ts = 20"
    using alloc_enqueue_fills[of h k 20 "[]" s] heads(1) by auto
  obtain s2 where s2: "queue_checks h k ts s1 = Some (Inr s2)" "queued h k (set ts) [] [] s2"
    using queue_checks_pass[of h k ts s1] filling_queued[OF s1(2) heads] s1(3) by blast
  have "thread_qhead h s = Some None" "thread_dequeue k s = Some (None, s)"
    using thread_qhead_eq[OF ok heads(1)] thread_dequeue_empty[OF ok heads(2)] empty heads by simp_all
  then have "test_thread_queue h k 0 s = free_all ts s2"
    using i s1(1) s2(1) by (simp add: test_thread_queue_def)
  with s1(3) s2(2) show ?thesis by blast
qed

section \<open>The message queues\<close>

text \<open>\<open>bravo\<close> holds \<open>xs\<close>, \<open>alpha\<close> holds nothing, and every other message is free.\<close>

definition boxes :: "tid \<Rightarrow> tid \<Rightarrow> letter list \<Rightarrow> kstate \<Rightarrow> bool" where
  "boxes alpha bravo xs s \<longleftrightarrow> alpha \<noteq> bravo \<and> valid_tid alpha \<and> valid_tid bravo \<and> t_status (threads s bravo) \<noteq> T_STATUS_NONE \<and>
     (\<exists>Q. kernel_ok Q s \<and> mailbox Q s bravo = xs \<and> mailbox Q s alpha = [] \<and> length (Q Message_h) + length xs = MAXMSG)"

lemma boxes_add:
  assumes b: "boxes alpha bravo xs s" and n: "length xs < MAXMSG"
  shows "\<exists>s'. msgq_add (Some w) (Some bravo) v s = Some (0, s') \<and> boxes alpha bravo (xs @ [(Some w, v)]) s' \<and> mem s' = mem s"
proof -
  obtain Q where Q: "kernel_ok Q s" "mailbox Q s bravo = xs" "mailbox Q s alpha = []" "length (Q Message_h) + length xs = MAXMSG"
    and d: "alpha \<noteq> bravo" "valid_tid alpha" "valid_tid bravo" "t_status (threads s bravo) \<noteq> T_STATUS_NONE"
    using b by (auto simp: boxes_def)
  obtain h ns where h: "Q Message_h = h # ns" using Q(4) n by (cases "Q Message_h") auto
  then obtain m where m: "Q Message_h = M_next m # ns"
    using member_type[OF Q(1), of Message_h h] member_ok_cases(4)[of Message_h h] by auto
  let ?Q' = "Q(Message_h := ns, T_msgq bravo := Q (T_msgq bravo) @ [M_next m])"
  obtain l where l: "msgq_add (Some w) (Some bravo) v s = Some (0, s\<lparr>lk := l, msgs := (msgs s)(m := \<lparr>m_sender = Some w, m_value = v\<rparr>)\<rparr>)"
    "kernel_ok ?Q' (s\<lparr>lk := l, msgs := (msgs s)(m := \<lparr>m_sender = Some w, m_value = v\<rparr>)\<rparr>)"
    using msgq_add_correct[OF Q(1) d(3,4) m] by blast
  have "boxes alpha bravo (xs @ [(Some w, v)]) (s\<lparr>lk := l, msgs := (msgs s)(m := \<lparr>m_sender = Some w, m_value = v\<rparr>)\<rparr>)"
    unfolding boxes_def
    using d l(2) Q m mailbox_add[OF Q(1) m d(2,3)] mailbox_add[OF Q(1) m d(3,3)]
    by (intro conjI exI[of _ ?Q']) simp_all
  with l(1) show ?thesis by auto
qed

lemma boxes_full:
  assumes "boxes alpha bravo xs s" "length xs = MAXMSG"
  shows "msgq_add (Some w) (Some bravo) v s = Some (-1, s)"
  using assms msgq_add_fails(1)[of _ s] by (auto simp: boxes_def)

lemma boxes_get:
  assumes b: "boxes alpha bravo xs s" and f: "find (wanted sender) xs = Some (w, v)"
  shows "\<exists>s'. msgq_get sender (Some bravo) (U a) s = Some (0, map_option (\<lambda>_. w) sender, s') \<and>
    boxes alpha bravo (remove_first (wanted sender) xs) s' \<and> mem s' = put_word a v (mem s)"
proof -
  obtain Q where Q: "kernel_ok Q s" "mailbox Q s bravo = xs" "mailbox Q s alpha = []" "length (Q Message_h) + length xs = MAXMSG"
    and d: "alpha \<noteq> bravo" "valid_tid alpha" "valid_tid bravo" "t_status (threads s bravo) \<noteq> T_STATUS_NONE"
    using b by (auto simp: boxes_def)
  obtain m s' where s': "msgq_get sender (Some bravo) (U a) s = Some (0, map_option (\<lambda>_. w) sender, s')"
    "s' = s\<lparr>lk := lk s', mem := put_word a v (mem s), msgs := (msgs s)(m := (msgs s m)\<lparr>m_sender := None\<rparr>)\<rparr>"
    "kernel_ok (after_take Q bravo m) s'"
    "mailbox (after_take Q bravo m) s' bravo = remove_first (wanted sender) xs"
    "mailbox (after_take Q bravo m) s' alpha = []"
    using msgq_get_found[OF Q(1) d(3), of sender w v a] f Q(2,3) d(1,2) by auto
  have fr: "mem s' = put_word a v (mem s)" "threads s' = threads s" by (subst s'(2), simp)+
  have "length (remove_first (wanted sender) xs) + 1 = length xs" using f by (rule length_remove_first)
  then have "boxes alpha bravo (remove_first (wanted sender) xs) s'" unfolding boxes_def
    using d s'(3-5) Q(4) fr(2) by (intro conjI exI[of _ "after_take Q bravo m"]) simp_all
  with s'(1) fr(1) show ?thesis by blast
qed

lemma boxes_none:
  assumes b: "boxes alpha bravo xs s"
  shows "find (wanted sender) xs = None \<Longrightarrow> msgq_get sender (Some bravo) (U a) s = Some (-1, sender, s)"
    "msgq_get sender (Some alpha) (U a) s = Some (-1, sender, s)"
  using b msgq_get_none[of _ s "Some bravo" sender "U a"] msgq_get_none[of _ s "Some alpha" sender "U a"] by (auto simp: boxes_def)

lemma fill_loop:
  assumes "boxes alpha bravo (map (\<lambda>v. (Some alpha, U (of_nat v))) [0..<n]) s" "n + k \<le> MAXMSG"
  shows "\<exists>s'. foreach [n..<n + k] (fill_msgq (Some alpha) (Some bravo)) s = Some (Inr s') \<and>
    boxes alpha bravo (map (\<lambda>v. (Some alpha, U (of_nat v))) [0..<n + k]) s'"
  using assms
proof (induction k arbitrary: n s)
  case 0
  then show ?case by simp
next
  case (Suc k)
  obtain s1 where s1: "msgq_add (Some alpha) (Some bravo) (U (of_nat n)) s = Some (0, s1)"
    "boxes alpha bravo (map (\<lambda>v. (Some alpha, U (of_nat v))) [0..<Suc n]) s1"
    using boxes_add[OF Suc.prems(1), of alpha "U (of_nat n)"] Suc.prems(2) by auto
  obtain s' where "foreach [Suc n..<Suc n + k] (fill_msgq (Some alpha) (Some bravo)) s1 = Some (Inr s')"
    "boxes alpha bravo (map (\<lambda>v. (Some alpha, U (of_nat v))) [0..<Suc n + k]) s'"
    using Suc.IH[OF s1(2)] Suc.prems(2) by auto
  moreover have "fill_msgq (Some alpha) (Some bravo) n s = Some (Inr s1)" using s1(1) by (simp add: fill_msgq_def)
  moreover have "[n..<n + Suc k] = n # [Suc n..<Suc n + k]" "n + Suc k = Suc n + k" by (simp_all add: upt_conv_Cons del: upt_Suc)
  ultimately show ?case by (simp only: foreach.simps andthen_simps) blast
qed

lemma read_loop:
  assumes "boxes alpha bravo (map (\<lambda>v. (Some alpha, U (of_nat v))) vs) s" "b \<noteq> 0"
  shows "\<exists>s'. foreach vs (read_msgq b (Some bravo)) s = Some (Inr s') \<and> boxes alpha bravo [] s'"
  using assms(1)
proof (induction vs arbitrary: s)
  case (Cons v vs)
  obtain s1 where s1: "msgq_get None (Some bravo) (U b) s = Some (0, None, s1)"
    "boxes alpha bravo (map (\<lambda>v. (Some alpha, U (of_nat v))) vs) s1" "mem s1 = put_word b (U (of_nat v)) (mem s)"
    using boxes_get[OF Cons.prems, of None "Some alpha" "U (of_nat v)" b] by auto
  with Cons.IH[OF s1(2)] assms(2) show ?case by (simp add: read_msgq_def put_word_def)
qed simp

lemma drain_ends:
  assumes "boxes alpha bravo xs s"
  shows "\<exists>s'. drain_msgq a (Some bravo) s = Some s' \<and> boxes alpha bravo [] s'"
  using assms
proof (induction xs arbitrary: s)
  case Nil
  with boxes_none(1)[OF Nil, of None a] show ?case by (subst drain_msgq.simps) simp
next
  case (Cons x xs)
  obtain s1 where s1: "msgq_get None (Some bravo) (U a) s = Some (0, None, s1)" "boxes alpha bravo xs s1"
    using boxes_get[OF Cons.prems, of None "fst x" "snd x" a] by auto
  with Cons.IH[OF s1(2)] show ?case by (subst drain_msgq.simps) simp
qed

lemma selective_checks_pass:
  assumes b: "boxes alpha bravo [] s" and c: "charlie \<noteq> alpha" and a: "a \<noteq> 0"
  shows "\<exists>s'. selective_checks a (Some alpha) (Some bravo) (Some charlie) s = Some (Inr s') \<and> boxes alpha bravo [] s'"
proof -
  obtain s1 where s1: "msgq_add (Some alpha) (Some bravo) (U 42) s = Some (0, s1)" "boxes alpha bravo [(Some alpha, U 42)] s1"
    using boxes_add[OF b, of alpha "U 42"] by (auto simp: MAXMSG_def)
  obtain s2 where s2: "msgq_add (Some alpha) (Some bravo) (U 48) s1 = Some (0, s2)"
    "boxes alpha bravo [(Some alpha, U 42), (Some alpha, U 48)] s2"
    using boxes_add[OF s1(2), of alpha "U 48"] by (auto simp: MAXMSG_def)
  obtain s3 where s3: "msgq_add (Some alpha) (Some bravo) (U 128) s2 = Some (0, s3)"
    "boxes alpha bravo [(Some alpha, U 42), (Some alpha, U 48), (Some alpha, U 128)] s3"
    using boxes_add[OF s2(2), of alpha "U 128"] by (auto simp: MAXMSG_def)
  obtain s4 where s4: "msgq_add (Some charlie) (Some bravo) (U 2017) s3 = Some (0, s4)"
    "boxes alpha bravo [(Some alpha, U 42), (Some alpha, U 48), (Some alpha, U 128), (Some charlie, U 2017)] s4"
    using boxes_add[OF s3(2), of charlie "U 2017"] by (auto simp: MAXMSG_def)
  obtain s5 where s5: "msgq_get (Some None) (Some bravo) (U a) s4 = Some (0, Some (Some alpha), s5)"
    "boxes alpha bravo [(Some alpha, U 48), (Some alpha, U 128), (Some charlie, U 2017)] s5" "mem s5 a = U 42"
    using boxes_get[OF s4(2), of "Some None" "Some alpha" "U 42" a] a by (auto simp: put_word_def)
  obtain s6 where s6: "msgq_get (Some (Some charlie)) (Some bravo) (U a) s5 = Some (0, Some (Some charlie), s6)"
    "boxes alpha bravo [(Some alpha, U 48), (Some alpha, U 128)] s6" "mem s6 a = U 2017"
    using boxes_get[OF s5(2), of "Some (Some charlie)" "Some charlie" "U 2017" a] a c by (auto simp: put_word_def wanted_def)
  have "msgq_get None (Some alpha) (U a) s6 = Some (-1, None, s6)" by (rule boxes_none(2)[OF s6(2)])
  moreover obtain s7 where "drain_msgq a (Some bravo) s6 = Some s7" "boxes alpha bravo [] s7" using drain_ends[OF s6(2)] by blast
  ultimately show ?thesis using s1(1) s2(1) s3(1) s4(1) s5(1,3) s6(1,3) by (simp add: selective_checks_def)
qed

lemma letter_checks_pass:
  assumes b: "boxes alpha bravo [] s" and c: "charlie \<noteq> alpha" and ab: "a \<noteq> 0" "b \<noteq> 0"
  shows "\<exists>s'. letter_checks a b (Some alpha) (Some bravo) (Some charlie) s = Some (Inr s') \<and> boxes alpha bravo [] s'"
proof -
  obtain s1 where s1: "foreach [0..<MAXMSG] (fill_msgq (Some alpha) (Some bravo)) s = Some (Inr s1)"
    "boxes alpha bravo (map (\<lambda>v. (Some alpha, U (of_nat v))) [0..<MAXMSG]) s1"
    using fill_loop[of alpha bravo 0 s MAXMSG] b by auto
  obtain s2 where s2: "foreach [0..<MAXMSG] (read_msgq b (Some bravo)) s1 = Some (Inr s2)" "boxes alpha bravo [] s2"
    using read_loop[OF s1(2) ab(2)] by blast
  obtain s3 where s3: "selective_checks a (Some alpha) (Some bravo) (Some charlie) s2 = Some (Inr s3)" "boxes alpha bravo [] s3"
    using selective_checks_pass[OF s2(2) c ab(1)] by blast
  have "msgq_add (Some alpha) (Some bravo) (U (of_nat MAXMSG)) s1 = Some (-1, s1)"
    using boxes_full[OF s1(2)] by simp
  moreover have "msgq_get None (Some bravo) (U a) s2 = Some (-1, None, s2)" using boxes_none(1)[OF s2(2), of None] by simp
  ultimately show ?thesis using s1(1) s2(1) s3 by (simp add: letter_checks_def)
qed

section \<open>The whole run\<close>

lemma others_keep_other:
  "others_keep R Q \<Longrightarrow> Q (P_threads p) = R (P_threads p)" "others_keep R Q \<Longrightarrow> Q Thread_h = R Thread_h"
  "others_keep R Q \<Longrightarrow> Q (T_msgq t) = R (T_msgq t)" "others_keep R Q \<Longrightarrow> Q (T_wait4me t) = R (T_wait4me t)"
  by (auto simp: others_keep_def)

text \<open>Nothing is allocated but the root process, and no thread has ever been scheduled.\<close>

definition initialised :: "kstate \<Rightarrow> bool" where
  "initialised s \<longleftrightarrow> busy 0 s \<and> list_empty (P_children 0) (lk s)"

lemma initialised_runs:
  assumes "initialised s"
  shows "\<exists>R s1 s2. flat R 0 s \<and> test_proc_alloc 0 s = Some (Inr s1) \<and> test_proc_hierarchy 0 s1 = Some (Inr s2) \<and>
    flat R 0 s1 \<and> flat R 0 s2 \<and> test_thread_alloc 0 s2 = None"
proof -
  obtain Q where Q: "fresh (range T_sched) s" "kernel_ok Q s" "Q (P_threads 0) = []" "length (Q Thread_h) = MAXTHREAD"
    "\<forall>t. valid_tid t \<longrightarrow> Q (T_msgq t) = [] \<and> Q (T_wait4me t) = []"
    using assms by (auto simp: initialised_def busy_def)
  have "Q (P_children 0) = []"
    using shape_list_empty[OF kernel_ok_shape[OF Q(2)], of "P_children 0"] assms by (simp add: initialised_def)
  then have f: "flat Q 0 s" using only_root_flat[OF Q(2)] by simp
  then obtain s1 where s1: "test_proc_alloc 0 s = Some (Inr s1)" "flat Q 0 s1" using test_proc_alloc_passes by blast
  then obtain s2 where s2: "test_proc_hierarchy 0 s1 = Some (Inr s2)" "flat Q 0 s2" using test_proc_hierarchy_passes by blast
  have "fresh (range T_sched) s2" by (rule test_proc_hierarchy_fresh[OF test_proc_alloc_fresh[OF Q(1) s1(1)] s2(1)])
  moreover obtain R where R: "kernel_ok R s2" "others_keep Q R" using s2(2) by (auto simp: flat_def)
  ultimately have "busy 0 s2" unfolding busy_def
    using Q by (intro conjI exI[of _ R]) (simp_all add: others_keep_other[OF R(2)])
  then have "test_thread_alloc 0 s2 = None" by (rule test_thread_alloc_faults)
  with f s1 s2 show ?thesis by blast
qed

text \<open>The tables as the initialisation leaves them.\<close>

lemma isolated_init_list_head: "isolated n l \<Longrightarrow> n \<noteq> m \<Longrightarrow> isolated n (init_list_head m l)"
  by (auto simp: isolated_def init_list_head_def)

lemma isolated_list_add: "list_add m h l = Some l' \<Longrightarrow> isolated n l \<Longrightarrow> n \<noteq> m \<Longrightarrow> n \<noteq> h \<Longrightarrow> isolated n l'"
  by (auto simp: isolated_def list_add_def list_add_between_def put_prev_def put_next_def bind_eq_Some_conv
      split: option.splits if_splits)

lemma fresh_init_head:
  assumes "fresh N s" "n \<notin> N"
  shows "fresh N (init_head n s)"
proof -
  have "m \<noteq> n" if "m \<in> N" for m using assms(2) that by auto
  with assms(1) show ?thesis by (simp add: fresh_def init_head_def isolated_init_list_head)
qed

lemma for_each_fresh:
  assumes "\<And>x s s'. body x s = Some s' \<Longrightarrow> fresh N s \<Longrightarrow> fresh N s'"
  shows "for_each body xs s = Some s' \<Longrightarrow> fresh N s \<Longrightarrow> fresh N s'"
proof (induction xs arbitrary: s)
  case (Cons x xs)
  then obtain s1 where "body x s = Some s1" "for_each body xs s1 = Some s'" by (auto simp: bind_eq_Some_conv)
  with Cons.IH assms Cons.prems(2) show ?case by blast
qed simp

lemma proc_init_fresh:
  assumes "proc_init s = Some (r, s')" "fresh N s"
  shows "fresh N s'"
proof -
  have body: "fresh N s'" if run: "proc_init_body i s = Some s'" and "fresh N s" for i s s'
  proof -
    obtain s1 where "with_links (list_add_tail (P_siblings i) (P_siblings 0)) s = Some s1"
      "s' = clean_mgr i (init_head (P_children i) (init_head (P_threads i) (upd_proc i (\<lambda>p. p\<lparr>p_parent := None\<rparr>) s1)))"
      using run by (auto simp: proc_init_body_def bind_eq_Some_conv)
    with fresh_add[OF this(1) \<open>fresh N s\<close>] show ?thesis using fresh_outside[OF \<open>fresh N s\<close>] by (simp add: fresh_init_head)
  qed
  let ?s0 = "clean_mgr 0 (init_head (P_siblings 0) (init_head (P_children 0) (init_head (P_threads 0)
    (upd_proc 0 (\<lambda>p. p\<lparr>p_parent := None\<rparr>) s))))"
  have "for_each proc_init_body [1..<MAXPROC] ?s0 = Some s'" using assms(1) by (auto simp: proc_init_def bind_eq_Some_conv)
  moreover have "fresh N ?s0" using assms(2) fresh_outside[OF assms(2)] by (simp add: fresh_init_head)
  ultimately show ?thesis by (rule for_each_fresh[rotated]) (rule body)
qed

lemma thread_init_fresh:
  assumes "thread_init s = Some s'" "fresh N s"
  shows "fresh N s'"
proof -
  have body: "fresh N s'" if run: "thread_init_body i s = Some s'" and "fresh N s" for i s s'
  proof -
    obtain s1 where l: "with_links (list_add_tail (T_next (Thread i)) Thread_h) (clean_thread_data (Thread i) s) = Some s1"
      "s' = init_head (T_wait4me (Thread i)) (init_head (T_msgq (Thread i)) s1)"
      using run by (auto simp: thread_init_body_def bind_eq_Some_conv)
    have "fresh N (clean_thread_data (Thread i) s)" using \<open>fresh N s\<close> by (simp add: clean_thread_data_def)
    from fresh_add[OF l(1) this] l(2) show ?thesis using fresh_outside[OF \<open>fresh N s\<close>] by (simp add: fresh_init_head)
  qed
  show ?thesis using assms unfolding thread_init_def by (rule for_each_fresh[rotated]) (rule body)
qed

lemma msgq_init_fresh:
  assumes "msgq_init s = Some s'" "fresh N s"
  shows "fresh N s'"
proof -
  have body: "fresh N s'" if run: "msgq_init_body i s = Some s'" and "fresh N s" for i s s'
  proof -
    obtain l where l: "list_add (M_next i) Message_h (lk s) = Some l" "lk s' = l"
      using run by (auto simp: msgq_init_body_def with_links_def upd_defs bind_eq_Some_conv)
    have "n \<noteq> M_next i" "n \<noteq> Message_h" if "n \<in> N" for n using fresh_outside[OF \<open>fresh N s\<close>] that by auto
    with isolated_list_add[OF l(1)] \<open>fresh N s\<close> l(2) show ?thesis by (simp add: fresh_def)
  qed
  show ?thesis using assms unfolding msgq_init_def by (rule for_each_fresh[rotated]) (rule body)
qed

lemma bss_fresh: "N \<subseteq> unused_nodes \<Longrightarrow> fresh N (bss m)"
proof -
  assume N: "N \<subseteq> unused_nodes"
  have "isolated n \<lparr>lnext = (\<lambda>_. None), lprev = (\<lambda>_. None)\<rparr>" for n :: node by (simp add: isolated_def)
  moreover have "n \<notin> {Readyq, Blockedq, T_wait4clock, Thread_h, Message_h}" if "n \<in> N" for n
    using N that by (auto simp: unused_nodes_def)
  ultimately show ?thesis using N by (auto simp: fresh_def bss_def static_links_def LIST_HEAD_init intro!: isolated_init_list_head)
qed

end
