(* ===== verification/P1main.thy ===== *)
theory P1main imports P1queues begin

text \<open>
  The whole of \<open>src/old-files/p1test.c\<close>, from \<open>proc_init\<close> on. Its \<open>main\<close> never initialises the SSI, so that the
  list heads of the SSI are NULL and its status is that of a free thread: the invariant of the kernel does not hold
  yet. But no operation of the tests looks there: each does the same, up to those fields, as it does when the SSI
  is initialised. A relation between the two runs, with one rule per operation, carries the results over.
\<close>

section \<open>The state with the SSI initialised\<close>

definition ssi_links :: "node links \<Rightarrow> node links" where
  "ssi_links l = init_list_head (T_wait4me SSI_thread) (init_list_head (T_msgq SSI_thread) l)"

definition with_ssi :: "kstate \<Rightarrow> kstate" where
  "with_ssi s = s\<lparr>lk := ssi_links (lk s), threads := (threads s)(SSI_thread := ssi_tcb)\<rparr>"

text \<open>The nodes of the SSI, to which no pointer leads in the run of the tests.\<close>

definition ssi_nodes :: "node set" where
  "ssi_nodes = {T_msgq SSI_thread, T_wait4me SSI_thread, T_next SSI_thread}"

abbreviation clean :: "kstate \<Rightarrow> bool" where
  "clean s \<equiv> fresh ssi_nodes s"

lemma ssi_nodes_unused [simp]: "n \<notin> unused_nodes \<Longrightarrow> n \<notin> ssi_nodes"
  by (auto simp: ssi_nodes_def)

lemma ssi_nodes_sched [simp]: "T_sched t \<notin> ssi_nodes"
  by (simp add: ssi_nodes_def)

lemma with_ssi_simps [simp]:
  "procs (with_ssi s) = procs s" "lk (with_ssi s) = ssi_links (lk s)" "threads (with_ssi s) (Thread i) = threads s (Thread i)"
  by (simp_all add: with_ssi_def)

lemma ssi_links_same [simp]:
  assumes "n \<notin> ssi_nodes"
  shows "lnext (ssi_links l) n = lnext l n" "lprev (ssi_links l) n = lprev l n"
    "list_empty n (ssi_links l) = list_empty n l" "list_next n (ssi_links l) = list_next n l"
  using assms by (auto simp: ssi_links_def init_list_head_def ssi_nodes_def list_empty_def list_next_def)

lemma ssi_links_list_del:
  assumes "\<forall>n \<in> ssi_nodes. isolated n l" "m \<notin> ssi_nodes"
  shows "list_del m (ssi_links l) = map_option ssi_links (list_del m l)"
proof -
  have "lnext l m \<notin> Some ` ssi_nodes" "lprev l m \<notin> Some ` ssi_nodes" using assms(1) by (auto simp: isolated_def)
  then show ?thesis
    using assms(2) by (cases "lnext l m"; cases "lprev l m")
      (auto simp: list_del_def list_del_between_def put_prev_def put_next_def ssi_links_def init_list_head_def ssi_nodes_def fun_upd_twist)
qed

lemma ssi_links_list_add_tail:
  assumes "\<forall>n \<in> ssi_nodes. isolated n l" "m \<notin> ssi_nodes" "h \<notin> ssi_nodes"
  shows "list_add_tail m h (ssi_links l) = map_option ssi_links (list_add_tail m h l)"
proof -
  have "lprev l h \<notin> Some ` ssi_nodes" using assms(1) by (auto simp: isolated_def)
  then show ?thesis
    using assms(2,3) by (cases "lprev l h")
      (auto simp: list_add_tail_def list_add_between_def put_prev_def put_next_def ssi_links_def init_list_head_def ssi_nodes_def fun_upd_twist)
qed

section \<open>One rule per operation\<close>

lemma links_with_ssi:
  assumes "f (ssi_links (lk s)) = map_option ssi_links (f (lk s))"
  shows "with_links f (with_ssi s) = map_option with_ssi (with_links f s)"
  using assms by (cases "f (lk s)") (simp_all add: with_links_def with_ssi_def)

lemma del_with_ssi:
  "clean s \<Longrightarrow> m \<notin> ssi_nodes \<Longrightarrow> with_links (list_del m) (with_ssi s) = map_option with_ssi (with_links (list_del m) s)"
  by (rule links_with_ssi, rule ssi_links_list_del) (auto simp: fresh_def)

lemma add_with_ssi:
  "clean s \<Longrightarrow> m \<notin> ssi_nodes \<Longrightarrow> h \<notin> ssi_nodes \<Longrightarrow>
   with_links (list_add_tail m h) (with_ssi s) = map_option with_ssi (with_links (list_add_tail m h) s)"
  by (rule links_with_ssi, rule ssi_links_list_add_tail) (auto simp: fresh_def)

lemma upd_with_ssi [simp]:
  "upd_proc c f (with_ssi s) = with_ssi (upd_proc c f s)" "clean_mgr c (with_ssi s) = with_ssi (clean_mgr c s)"
  "upd_thread (Thread i) g (with_ssi s) = with_ssi (upd_thread (Thread i) g s)"
  "clean_thread_data (Thread i) (with_ssi s) = with_ssi (clean_thread_data (Thread i) s)"
  by (simp_all add: upd_defs clean_mgr_def clean_thread_data_def with_ssi_def fun_upd_twist)

lemma head_outside:
  assumes "clean s" "list_next h (lk s) = Some n"
  shows "n \<notin> ssi_nodes"
  by (rule fresh_no_pointer(1)[OF assms(1) list_next_some[OF assms(2)]])

lemma proc_alloc_with_ssi:
  assumes c: "clean s"
  shows "proc_alloc p (with_ssi s) = map_option (map_prod id with_ssi) (proc_alloc p s)"
proof (cases "list_next (P_siblings 0) (lk s)"; cases p)
  fix n q assume n: "list_next (P_siblings 0) (lk s) = Some n" and q: "p = Some q"
  note del = del_with_ssi[OF c head_outside[OF c n]]
  show ?thesis
  proof (cases "with_links (list_del n) s"; cases "pcb_of_siblings n")
    fix s1 x assume s1: "with_links (list_del n) s = Some s1" "pcb_of_siblings n = Some x"
    let ?s2 = "upd_proc x (\<lambda>y. y\<lparr>p_parent := Some q\<rparr>) s1"
    have "clean ?s2" using fresh_del[OF s1(1) c] by simp
    from add_with_ssi[OF this, of "P_siblings x" "P_children q"] show ?thesis
      using n q s1 del by (simp add: proc_alloc_def proc_enqueue_def bind_map_option comp_def option.map_comp
          split: Option.bind_split)
  qed (use n q del in \<open>simp_all add: proc_alloc_def\<close>)
qed (simp_all add: proc_alloc_def)

lemma proc_delete_with_ssi:
  assumes c: "clean s"
  shows "proc_delete p (with_ssi s) = map_option (map_prod id with_ssi) (proc_delete p s)"
proof -
  let ?s0 = "upd_proc p (\<lambda>p. p\<lparr>p_parent := None\<rparr>) s"
  have c0: "clean ?s0" using c by simp
  note del = del_with_ssi[OF c0, of "P_siblings p"]
  show ?thesis
  proof (cases "with_links (list_del (P_siblings p)) ?s0")
    case (Some s1)
    from add_with_ssi[OF fresh_del[OF Some c0], of "P_siblings p" "P_siblings 0"] show ?thesis
      using Some del by (simp add: proc_delete_def bind_map_option comp_def option.map_comp split: Option.bind_split)
  qed (use del in \<open>simp add: proc_delete_def\<close>)
qed

lemma firsts_with_ssi [simp]:
  "proc_firstchild p (with_ssi s) = proc_firstchild p s" "proc_firstthread p (with_ssi s) = proc_firstthread p s"
  by (simp_all add: proc_firstchild_def proc_firstthread_def queue_macros)

lemma thread_alloc_with_ssi:
  assumes c: "clean s"
  shows "thread_alloc p (with_ssi s) = map_option (map_prod id with_ssi) (thread_alloc p s)"
proof (cases "list_next Thread_h (lk s)"; cases p)
  fix n q assume n: "list_next Thread_h (lk s) = Some n" and q: "p = Some q"
  note out = head_outside[OF c n]
  note del = del_with_ssi[OF c out]
  show ?thesis
  proof (cases "with_links (list_del n) s"; cases "tcb_of_next n")
    fix s1 t assume s1: "with_links (list_del n) s = Some s1" "tcb_of_next n = Some t"
    have "t \<noteq> SSI_thread" using s1(2) out by (cases n) (auto simp: ssi_nodes_def)
    then obtain i where i: "t = Thread i" by (cases t) auto
    let ?s2 = "upd_thread t (\<lambda>x. x\<lparr>t_pcb := Some q\<rparr>) s1"
    have "clean ?s2" using fresh_del[OF s1(1) c] by simp
    from add_with_ssi[OF this out, of "P_threads q"] show ?thesis
      using n q s1 del i by (simp add: thread_alloc_def bind_map_option comp_def option.map_comp
          split: Option.bind_split)
  qed (use n q del in \<open>simp_all add: thread_alloc_def\<close>)
qed (simp_all add: thread_alloc_def)

text \<open>A thread that is in the list of its process is not the SSI.\<close>

lemma thread_free_with_ssi:
  assumes c: "clean s"
  shows "thread_free (Thread i) (with_ssi s) = map_option (map_prod id with_ssi) (thread_free (Thread i) s)"
proof -
  let ?s0 = "clean_thread_data (Thread i) s"
  have c0: "clean ?s0" using c by (simp add: clean_thread_data_def)
  note del = del_with_ssi[OF c0, of "T_next (Thread i)"]
  show ?thesis
  proof (cases "with_links (list_del (T_next (Thread i))) ?s0")
    case (Some s1)
    note c1 = fresh_del[OF Some c0]
    note del1 = del_with_ssi[OF c1, of "T_sched (Thread i)"]
    show ?thesis
    proof (cases "with_links (list_del (T_sched (Thread i))) s1")
      case s2: (Some s2)
      from add_with_ssi[OF fresh_del[OF s2 c1], of "T_next (Thread i)" Thread_h] show ?thesis
        using Some s2 del del1 by (simp add: thread_free_def bind_map_option comp_def option.map_comp split: Option.bind_split)
    qed (use Some del del1 in \<open>simp add: thread_free_def\<close>)
  qed (use del in \<open>simp add: thread_free_def\<close>)
qed

lemma firstthread_not_SSI:
  assumes "clean s" "proc_firstthread p s = Some (Some t)"
  shows "\<exists>i. t = Thread i"
proof -
  obtain n where n: "list_next (P_threads p) (lk s) = Some n" "tcb_of_next n = Some t"
    using assms(2) by (auto simp: proc_firstthread_def queue_macros split: option.splits)
  with head_outside[OF assms(1) n(1)] show ?thesis by (cases n; cases t) (auto simp: ssi_nodes_def)
qed

section \<open>The loops\<close>

lemma map_sum_eq_Inr: "map_sum f g x = Inr y \<longleftrightarrow> (\<exists>z. x = Inr z \<and> y = g z)" "Inr y = map_sum f g x \<longleftrightarrow> (\<exists>z. x = Inr z \<and> y = g z)"
  by (cases x; auto)+

text \<open>What a test returns from the two states.\<close>

abbreviation lift :: "test_result \<Rightarrow> test_result" where
  "lift r \<equiv> map_option (map_sum id with_ssi) r"

definition alike :: "(kstate \<Rightarrow> test_result) \<Rightarrow> bool" where
  "alike f \<longleftrightarrow> (\<forall>s. clean s \<longrightarrow> f (with_ssi s) = lift (f s) \<and> (\<forall>s'. f s = Some (Inr s') \<longrightarrow> clean s'))"

lemma alikeI:
  "(\<And>s. clean s \<Longrightarrow> f (with_ssi s) = lift (f s)) \<Longrightarrow> (\<And>s s'. clean s \<Longrightarrow> f s = Some (Inr s') \<Longrightarrow> clean s') \<Longrightarrow> alike f"
  by (simp add: alike_def)

lemma alikeD:
  assumes "alike f" "clean s"
  shows "f (with_ssi s) = lift (f s)" "f s = Some (Inr s') \<Longrightarrow> clean s'"
  using assms by (simp_all add: alike_def)

lemma alike_andthen:
  assumes "alike f" "alike g"
  shows "alike (\<lambda>s. andthen (f s) g)"
proof (rule alikeI)
  fix s assume "clean s"
  note f = alikeD[OF assms(1) this]
  show "andthen (f (with_ssi s)) g = lift (andthen (f s) g)"
    using f alikeD(1)[OF assms(2)] by (auto simp: andthen_def split: option.split sum.split)
  show "clean s'" if "andthen (f s) g = Some (Inr s')" for s'
    using that f(2) alikeD(2)[OF assms(2)] by (auto simp: andthen_Inr)
qed

lemma alike_repeat: "alike body \<Longrightarrow> alike (repeat_n n body)"
proof (induction n)
  case (Suc n)
  from alike_andthen[OF Suc.prems Suc.IH[OF Suc.prems]] show ?case by (simp add: alike_def)
qed (simp add: alike_def)

lemma alike_check:
  assumes "\<And>s. clean s \<Longrightarrow> err (with_ssi s) = err s"
  shows "alike (\<lambda>s. check (err s) e s)"
  using assms by (simp add: alike_def check_def adderrbuf_def)

lemma alike_alloc_proc: "alike (alloc_proc p)"
proof (rule alikeI)
  show "alloc_proc p (with_ssi s) = lift (alloc_proc p s)" if "clean s" for s
    using proc_alloc_with_ssi[OF that, of "Some p"]
    by (cases "proc_alloc (Some p) s") (auto simp: alloc_proc_def check_def adderrbuf_def)
qed (rule keeps_freshD[OF keeps_fresh_alloc])

lemma alike_delete_first: "alike (delete_first p)"
proof (rule alikeI)
  show "delete_first p (with_ssi s) = lift (delete_first p s)" if "clean s" for s
    using proc_delete_with_ssi[OF that]
    by (auto simp: delete_first_def check_def adderrbuf_def andthen_def split: Option.bind_split option.split)
qed (rule keeps_freshD[OF keeps_fresh_delete])

lemma alike_alloc_thread: "alike (alloc_thread p)"
proof (rule alikeI)
  show "alloc_thread p (with_ssi s) = lift (alloc_thread p s)" if "clean s" for s
    using thread_alloc_with_ssi[OF that, of "Some p"]
    by (cases "thread_alloc (Some p) s") (auto simp: alloc_thread_def check_def adderrbuf_def)
  show "clean s'" if "clean s" "alloc_thread p s = Some (Inr s')" for s s'
    using that thread_alloc_fresh by (auto simp: alloc_thread_def bind_eq_Some_conv check_Inr)
qed

lemma thread_free_clean:
  assumes run: "thread_free (Thread i) s = Some (r, s')" and c: "clean s"
  shows "clean s'"
proof (cases "s' = s")
  case False
  with run obtain s1 s2 where s: "with_links (list_del (T_next (Thread i))) (clean_thread_data (Thread i) s) = Some s1"
    "with_links (list_del (T_sched (Thread i))) s1 = Some s2" "with_links (list_add_tail (T_next (Thread i)) Thread_h) s2 = Some s'"
    by (auto simp: thread_free_def bind_eq_Some_conv split: if_splits)
  have "clean (clean_thread_data (Thread i) s)" using c by (simp add: clean_thread_data_def)
  from fresh_add[OF s(3) fresh_del[OF s(2) fresh_del[OF s(1) this]]] show ?thesis by simp
qed (use c in simp)

lemma alike_free_first: "alike (free_first p)"
proof (rule alikeI)
  fix s assume c: "clean s"
  consider "proc_firstthread p s = None" | "proc_firstthread p s = Some None"
    | i where "proc_firstthread p s = Some (Some (Thread i))"
    using firstthread_not_SSI[OF c, of p] by (cases "proc_firstthread p s"; cases "the (proc_firstthread p s)") auto
  then show "free_first p (with_ssi s) = lift (free_first p s)"
    using thread_free_with_ssi[OF c]
    by cases (auto simp: free_first_def check_def adderrbuf_def andthen_def split: Option.bind_split option.split)
  show "clean s'" if "free_first p s = Some (Inr s')" for s'
    using that thread_free_clean[OF _ c] firstthread_not_SSI[OF c, of p]
    by (fastforce simp: free_first_def bind_eq_Some_conv check_Inr andthen_Inr)
qed

lemmas alike_rules = alike_andthen alike_repeat alike_check alike_alloc_proc alike_delete_first alike_alloc_thread alike_free_first

lemma alike_alloc_fails:
  "alike (\<lambda>s. do { (p, s) \<leftarrow> proc_alloc (Some root) s; check (p \<noteq> None) e s })"
  "alike (\<lambda>s. do { (t, s) \<leftarrow> thread_alloc q s; check (t \<noteq> None) e s })"
proof -
  show "alike (\<lambda>s. do { (p, s) \<leftarrow> proc_alloc (Some root) s; check (p \<noteq> None) e s })"
  proof (rule alikeI)
    fix s assume c: "clean s"
    show "do { (p, s) \<leftarrow> proc_alloc (Some root) (with_ssi s); check (p \<noteq> None) e s } =
        lift (do { (p, s) \<leftarrow> proc_alloc (Some root) s; check (p \<noteq> None) e s })"
      using proc_alloc_with_ssi[OF c, of "Some root"] by (cases "proc_alloc (Some root) s") (auto simp: check_def adderrbuf_def)
  qed (auto simp: bind_eq_Some_conv check_Inr dest: proc_alloc_fresh)
  show "alike (\<lambda>s. do { (t, s) \<leftarrow> thread_alloc q s; check (t \<noteq> None) e s })"
  proof (rule alikeI)
    fix s assume c: "clean s"
    show "do { (t, s) \<leftarrow> thread_alloc q (with_ssi s); check (t \<noteq> None) e s } =
        lift (do { (t, s) \<leftarrow> thread_alloc q s; check (t \<noteq> None) e s })"
      using thread_alloc_with_ssi[OF c, of q] by (cases "thread_alloc q s") (auto simp: check_def adderrbuf_def)
  qed (auto simp: bind_eq_Some_conv check_Inr dest: thread_alloc_fresh)
qed

lemma alike_test_proc_alloc: "alike (test_proc_alloc p)"
  unfolding test_proc_alloc_def by (intro alike_rules alike_alloc_fails) simp

lemma alike_test_thread_alloc: "alike (test_thread_alloc p)"
  unfolding test_thread_alloc_def by (intro alike_rules alike_alloc_fails) simp

text \<open>The loops of the hierarchy test may not end: what they return with the SSI they return without.\<close>

lemma each_child_with_ssi:
  assumes "each_child h pos t = Some r" "t = with_ssi s" "clean s"
  shows "\<exists>r0. each_child h pos s = Some r0 \<and> r = map_sum id with_ssi r0 \<and> (\<forall>s'. r0 = Inr s' \<longrightarrow> clean s')"
proof -
  have "\<forall>s. t = with_ssi s \<longrightarrow> clean s \<longrightarrow>
      (\<exists>r0. each_child h pos s = Some r0 \<and> r = map_sum id with_ssi r0 \<and> (\<forall>s'. r0 = Inr s' \<longrightarrow> clean s'))"
  proof (rule each_child.raw_induct[OF _ assms(1)])
    fix rec h pos t r
    assume IH: "\<And>h pos t r. rec h pos t = Some r \<Longrightarrow> \<forall>s. t = with_ssi s \<longrightarrow> clean s \<longrightarrow>
        (\<exists>r0. each_child h pos s = Some r0 \<and> r = map_sum id with_ssi r0 \<and> (\<forall>s'. r0 = Inr s' \<longrightarrow> clean s'))"
      and run: "do { n \<leftarrow> pos; if n = h then Some (Inr t) else do { pcb \<leftarrow> pcb_of_siblings n; r \<leftarrow> repeat_n 4 (alloc_proc pcb) t;
        (case r of Inl e \<Rightarrow> Some (Inl e) | Inr s \<Rightarrow> rec h (lnext (lk s) n) s) } } = Some r"
    show "\<forall>s. t = with_ssi s \<longrightarrow> clean s \<longrightarrow>
        (\<exists>r0. each_child h pos s = Some r0 \<and> r = map_sum id with_ssi r0 \<and> (\<forall>s'. r0 = Inr s' \<longrightarrow> clean s'))"
    proof (intro allI impI)
      fix s assume t: "t = with_ssi s" and c: "clean s"
      obtain n where n: "pos = Some n" using run by (cases pos) auto
      show "\<exists>r0. each_child h pos s = Some r0 \<and> r = map_sum id with_ssi r0 \<and> (\<forall>s'. r0 = Inr s' \<longrightarrow> clean s')"
      proof (cases "n = h")
        case True
        with run n t c show ?thesis by (subst each_child.simps) auto
      next
        case False
        then obtain pcb q where p: "pcb_of_siblings n = Some pcb" "lift (repeat_n 4 (alloc_proc pcb) s) = Some q"
          "(case q of Inl e \<Rightarrow> Some (Inl e) | Inr s \<Rightarrow> rec h (lnext (lk s) n) s) = Some r"
          using run n t alikeD(1)[OF alike_repeat[OF alike_alloc_proc] c] by (auto simp: bind_eq_Some_conv)
        then obtain q0 where q0: "repeat_n 4 (alloc_proc pcb) s = Some q0" "q = map_sum id with_ssi q0" by auto
        show ?thesis
        proof (cases q0)
          case (Inl e)
          with False n p q0 show ?thesis by (subst each_child.simps) auto
        next
          case (Inr s1)
          have "clean s1" by (rule alikeD(2)[OF alike_repeat[OF alike_alloc_proc] c q0(1)[unfolded Inr]])
          moreover have "n \<notin> ssi_nodes" using p(1) by (cases n) simp_all
          ultimately show ?thesis using IH[of h "lnext (lk s1) n" "with_ssi s1" r] False n p q0 Inr
            by (subst each_child.simps) simp
        qed
      qed
    qed
  qed
  with assms(2,3) show ?thesis by blast
qed

lemma first_leaf_with_ssi:
  assumes "first_leaf p t = Some q" "t = with_ssi s"
  shows "first_leaf p s = Some q"
proof -
  have "t = with_ssi s \<longrightarrow> first_leaf p s = Some q"
  proof (rule first_leaf.raw_induct[OF _ assms(1)])
    fix rec p t q
    assume IH: "\<And>p t q. rec p t = Some q \<Longrightarrow> t = with_ssi s \<longrightarrow> first_leaf p s = Some q"
      and run: "(if list_empty (P_children p) (lk t) then Some p
        else do { c \<leftarrow> proc_firstchild p t; c \<leftarrow> c; rec c t }) = Some q"
    show "t = with_ssi s \<longrightarrow> first_leaf p s = Some q"
    proof
      assume t: "t = with_ssi s"
      show "first_leaf p s = Some q"
        using run IH t by (subst first_leaf.simps) (auto simp: bind_eq_Some_conv split: if_splits)
    qed
  qed
  with assms(2) show ?thesis by blast
qed

lemma delete_leaves_with_ssi:
  assumes "delete_leaves p i t = Some r" "t = with_ssi s" "clean s"
  shows "\<exists>r0. delete_leaves p i s = Some r0 \<and> r = map_sum id (map_prod id with_ssi) r0 \<and> (\<forall>j s'. r0 = Inr (j, s') \<longrightarrow> clean s')"
proof -
  have "\<forall>s. t = with_ssi s \<longrightarrow> clean s \<longrightarrow>
      (\<exists>r0. delete_leaves p i s = Some r0 \<and> r = map_sum id (map_prod id with_ssi) r0 \<and> (\<forall>j s'. r0 = Inr (j, s') \<longrightarrow> clean s'))"
  proof (rule delete_leaves.raw_induct[OF _ assms(1)])
    fix rec p i t r
    assume IH: "\<And>p i t r. rec p i t = Some r \<Longrightarrow> \<forall>s. t = with_ssi s \<longrightarrow> clean s \<longrightarrow>
        (\<exists>r0. delete_leaves p i s = Some r0 \<and> r = map_sum id (map_prod id with_ssi) r0 \<and> (\<forall>j s'. r0 = Inr (j, s') \<longrightarrow> clean s'))"
      and run: "(if list_empty (P_children p) (lk t) then Some (Inr (i, t)) else do { pcb \<leftarrow> first_leaf p t; (r, s) \<leftarrow> proc_delete pcb t;
        if r = -1 then Some (Inl ''ERROR proc_delete should succeed if empty p_children'') else rec p (i + 1) s }) = Some r"
    show "\<forall>s. t = with_ssi s \<longrightarrow> clean s \<longrightarrow>
        (\<exists>r0. delete_leaves p i s = Some r0 \<and> r = map_sum id (map_prod id with_ssi) r0 \<and> (\<forall>j s'. r0 = Inr (j, s') \<longrightarrow> clean s'))"
    proof (intro allI impI)
      fix s assume t: "t = with_ssi s" and c: "clean s"
      show "\<exists>r0. delete_leaves p i s = Some r0 \<and> r = map_sum id (map_prod id with_ssi) r0 \<and> (\<forall>j s'. r0 = Inr (j, s') \<longrightarrow> clean s')"
      proof (cases "list_empty (P_children p) (lk s)")
        case True
        with run t c show ?thesis by (subst delete_leaves.simps) auto
      next
        case False
        then obtain x where x: "first_leaf p s = Some x"
          using run t first_leaf_with_ssi[OF _ t] by (auto simp: bind_eq_Some_conv)
        have "first_leaf p t = Some x"
          using run False t first_leaf_with_ssi[OF _ t] x by (auto simp: bind_eq_Some_conv)
        with run False t obtain q s1 where q: "proc_delete x s = Some (q, s1)"
          "(if q = -1 then Some (Inl ''ERROR proc_delete should succeed if empty p_children'') else rec p (i + 1) (with_ssi s1)) = Some r"
          using proc_delete_with_ssi[OF c, of x] by (auto simp: bind_eq_Some_conv)
        show ?thesis
        proof (cases "q = -1")
          case True
          with False x q show ?thesis by (subst delete_leaves.simps) auto
        next
          case go: False
          from IH[of p "i + 1" "with_ssi s1" r] proc_delete_fresh[OF q(1) c] q False x go show ?thesis
            by (subst delete_leaves.simps) simp
        qed
      qed
    qed
  qed
  with assms(2,3) show ?thesis by blast
qed

lemma test_proc_hierarchy_with_ssi:
  assumes run: "test_proc_hierarchy p (with_ssi s) = Some (Inr t)" and c: "clean s"
  shows "\<exists>s'. test_proc_hierarchy p s = Some (Inr s') \<and> t = with_ssi s' \<and> clean s'"
proof -
  obtain t1 t2 x q t3 where t: "repeat_n 3 (alloc_proc p) (with_ssi s) = Some (Inr t1)"
    "each_child (P_children p) (lnext (lk t1) (P_children p)) t1 = Some (Inr t2)" "proc_firstchild p t2 = Some (Some x)"
    "proc_delete x t2 = Some (q, t3)" "q = -1" "delete_leaves p 0 t3 = Some (Inr (15, t))"
    using run by (auto 6 0 simp: test_proc_hierarchy_def andthen_Inr check_Inr bind_eq_Some_conv case_sum_Inr)
  note rep = alikeD[OF alike_repeat[OF alike_alloc_proc[of p]] c, of 3]
  obtain s1 where s1: "repeat_n 3 (alloc_proc p) s = Some (Inr s1)" "t1 = with_ssi s1" "clean s1"
    using t(1) rep by (auto simp: map_sum_eq_Inr)
  obtain s2 where s2: "each_child (P_children p) (lnext (lk s1) (P_children p)) s1 = Some (Inr s2)" "t2 = with_ssi s2" "clean s2"
    using each_child_with_ssi[OF t(2) s1(2,3)] s1(2) by (auto simp: map_sum_eq_Inr)
  obtain s3 where s3: "proc_delete x s2 = Some (q, s3)" "t3 = with_ssi s3"
    using t(4) proc_delete_with_ssi[OF s2(3), of x] s2(2) by auto
  have c3: "clean s3" by (rule proc_delete_fresh[OF s3(1) s2(3)])
  obtain s4 where s4: "delete_leaves p 0 s3 = Some (Inr (15, s4))" "t = with_ssi s4" "clean s4"
    using delete_leaves_with_ssi[OF t(6) s3(2) c3] by (auto simp: map_sum_eq_Inr)
  have "proc_firstchild p s2 = Some (Some x)" using t(3) s2(2) by simp
  with s1(1) s2(1) s3(1) s4 t(5) show ?thesis by (simp add: test_proc_hierarchy_def)
qed

section \<open>The program\<close>

definition p1test_main :: "node \<Rightarrow> node \<Rightarrow> u32 \<Rightarrow> u32 \<Rightarrow> kstate \<Rightarrow> test_result" where
  "p1test_main h k a b s = do {
     (root, s) \<leftarrow> proc_init s;
     s \<leftarrow> thread_init s;
     s \<leftarrow> msgq_init s;
     run_tests h k a b root s
   }"

text \<open>Every process descriptor but the one of the root is free, and linked in the free list once.\<close>

definition all_free :: "kstate \<Rightarrow> bool" where
  "all_free s \<longleftrightarrow> (\<forall>p. p_parent (procs s p) = None) \<and> (\<forall>p < MAXPROC. list_empty (P_children p) (lk s)) \<and>
     (\<exists>fs. ring (lk s) (P_siblings 0) fs \<and> set fs = P_siblings ` {1..<MAXPROC})"

lemma flat_all_free:
  assumes "flat R 0 (with_ssi s)"
  shows "all_free s"
proof -
  let ?t = "with_ssi s"
  obtain Q where Q: "kernel_ok Q ?t" "only_children Q {0}" "Q (P_children 0) = []" using assms by (auto simp: flat_def)
  have none: "p_parent (procs s p) = None" for p using no_parent[OF Q(1,3), of p] by simp
  have "Q (P_children p) = []" if "p < MAXPROC" for p using Q(2,3) that by (cases "p = 0") (auto simp: only_children_def)
  then have empty: "list_empty (P_children p) (lk s)" if "p < MAXPROC" for p
    using shape_list_empty[OF kernel_ok_shape[OF Q(1)], of "P_children p"] that by simp
  have fs: "set (Q (P_siblings 0)) = P_siblings ` {1..<MAXPROC}"
    using free_node[OF Q(1)] proc_free_iff[OF Q(1)] none by auto
  have "ring (ssi_links (lk s)) (P_siblings 0) (Q (P_siblings 0))"
    using shape_ring[OF kernel_ok_shape[OF Q(1)], of "P_siblings 0"] by simp
  then have "ring (lk s) (P_siblings 0) (Q (P_siblings 0))"
    unfolding ring_def using fs by (auto elim!: chain_cong)
  with none empty fs show ?thesis by (auto simp: all_free_def)
qed

lemma tables_initialised:
  "\<exists>s1 s2 s3. proc_init (bss m) = Some (0, s1) \<and> thread_init s1 = Some s2 \<and> msgq_init s2 = Some s3 \<and>
     clean s3 \<and> initialised (with_ssi s3)"
proof -
  obtain l1 where 1: "proc_init (bss m) = Some (0, (bss m)\<lparr>lk := l1\<rparr>)" "shape l1 (boot_heads MAXPROC 0 False) (boot_queues MAXPROC 0 0)"
    using proc_init_bss by blast
  obtain l2 where 2: "thread_init ((bss m)\<lparr>lk := l1\<rparr>) = Some ((bss m)\<lparr>lk := l2\<rparr>)"
    "shape l2 (boot_heads MAXPROC MAXTHREAD False) (boot_queues MAXPROC MAXTHREAD 0)" using thread_init_bss[OF 1(2)] by blast
  obtain l3 where 3: "msgq_init ((bss m)\<lparr>lk := l2\<rparr>) = Some ((bss m)\<lparr>lk := l3\<rparr>)"
    "shape l3 (boot_heads MAXPROC MAXTHREAD False) (boot_queues MAXPROC MAXTHREAD MAXMSG)" using msgq_init_bss[OF 2(2)] by blast
  let ?s3 = "(bss m)\<lparr>lk := l3\<rparr>"
  have f3: "fresh unused_nodes ?s3"
    by (rule msgq_init_fresh[OF 3(1) thread_init_fresh[OF 2(1) proc_init_fresh[OF 1(1) bss_fresh]]]) simp
  have sub: "ssi_nodes \<subseteq> unused_nodes" "range T_sched \<subseteq> unused_nodes" by (auto simp: unused_nodes_def ssi_nodes_def)
  have c3: "clean ?s3" "fresh (range T_sched) ?s3" by (rule fresh_subset[OF f3 sub(1)], rule fresh_subset[OF f3 sub(2)])
  have "blank ?s3" by (simp add: blank_def bss_def)
  then obtain l4 sb where 4: "ssi_thread_init ?s3 = Some (SSI_thread, ?s3\<lparr>lk := l4, threads := (threads ?s3)(SSI_thread := ssi_tcb),
      soft_blocked_thread := sb, SSI := Some SSI_thread\<rparr>)"
    "kernel_ok (boot_queues MAXPROC MAXTHREAD MAXMSG) (?s3\<lparr>lk := l4, threads := (threads ?s3)(SSI_thread := ssi_tcb)\<rparr>)"
    using ssi_thread_init_correct[of ?s3] 3(2) by auto
  have "l4 = ssi_links l3"
    using 4(1) by (auto simp: ssi_thread_init_def bind_eq_Some_conv init_head_def upd_defs Let_def ssi_links_def dest!: arg_cong[where f = lk])
  then have eq: "?s3\<lparr>lk := l4, threads := (threads ?s3)(SSI_thread := ssi_tcb)\<rparr> = with_ssi ?s3" by (simp add: with_ssi_def)
  have ok: "kernel_ok (boot_queues MAXPROC MAXTHREAD MAXMSG) (with_ssi ?s3)" using 4(2) unfolding eq .
  have "fresh (range T_sched) (with_ssi ?s3)"
    using c3(2) unfolding ssi_links_def by (auto simp: fresh_def ssi_links_def intro!: isolated_init_list_head)
  then have "busy 0 (with_ssi ?s3)" unfolding busy_def
    using ok by (intro conjI exI[of _ "boot_queues MAXPROC MAXTHREAD MAXMSG"]) simp_all
  moreover have "list_empty (P_children 0) (lk (with_ssi ?s3))"
    using shape_list_empty[OF kernel_ok_shape[OF ok], of "P_children 0"] by simp
  ultimately show ?thesis using 1(1) 2(1) 3(1) c3(1) by (simp add: initialised_def)
qed

lemma p1test_main_faults:
  "\<exists>s1 s2 s3 s' s''. proc_init (bss m) = Some (0, s1) \<and> thread_init s1 = Some s2 \<and> msgq_init s2 = Some s3 \<and> all_free s3 \<and>
     test_proc_alloc 0 s3 = Some (Inr s') \<and> all_free s' \<and> test_proc_hierarchy 0 s' = Some (Inr s'') \<and> all_free s'' \<and>
     test_thread_alloc 0 s'' = None \<and> p1test_main h k a b (bss m) = None"
proof -
  obtain s1 s2 s3 where s: "proc_init (bss m) = Some (0, s1)" "thread_init s1 = Some s2" "msgq_init s2 = Some s3"
    "clean s3" "initialised (with_ssi s3)" using tables_initialised by blast
  obtain R t' t'' where t: "flat R 0 (with_ssi s3)" "test_proc_alloc 0 (with_ssi s3) = Some (Inr t')" "flat R 0 t'"
    "test_proc_hierarchy 0 t' = Some (Inr t'')" "flat R 0 t''" "test_thread_alloc 0 t'' = None"
    using initialised_runs[OF s(5)] by blast
  obtain s' where s': "test_proc_alloc 0 s3 = Some (Inr s')" "t' = with_ssi s'" "clean s'"
    using t(2) alikeD[OF alike_test_proc_alloc s(4)] by (auto simp: map_sum_eq_Inr)
  obtain s'' where s'': "test_proc_hierarchy 0 s' = Some (Inr s'')" "t'' = with_ssi s''" "clean s''"
    using test_proc_hierarchy_with_ssi[OF t(4)[unfolded s'(2)] s'(3)] by blast
  have fault: "test_thread_alloc 0 s'' = None" using t(6) alikeD(1)[OF alike_test_thread_alloc s''(3)] s''(2) by simp
  have free: "all_free s3" "all_free s'" "all_free s''"
    using flat_all_free t(1,3,5) s'(2) s''(2) by blast+
  have "p1test_main h k a b (bss m) = None" by (simp add: p1test_main_def run_tests_def s(1-3) s'(1) s''(1) fault)
  with s(1-3) s'(1) s''(1) free fault show ?thesis by blast
qed

end
