(* ===== verification/Spec2Isabelle.thy ===== *)
theory Spec2Isabelle imports Drivers DebugTests P2test Handover Typing Bitmaps Devices ListExample Syslib P1main begin

text \<open>
  A verification library of the nucleus of this repository: a microkernel for the uARM machine, about
  1800 lines of C under \<open>src/src\<close>. Paths below are relative to that directory.

  \<^bold>\<open>The program.\<close> The kernel keeps three tables of descriptors (\<open>mikabooq.c\<close>): processes, which form a
  tree, threads, which belong to processes, and messages. Everything is linked by intrusive circular
  lists (\<open>listx.h\<close>): the free descriptors, the children and the threads of a process, the ready queue,
  the queues of waiting threads, the pending messages of a thread. Threads communicate by two system
  calls, send and receive (\<open>handlers/syscall.c\<close>). All other services are requests, messages to a system
  thread, the SSI (\<open>SSI/ssi.c\<close>, \<open>SSI/services\<close>), sent by the stubs of \<open>nucleus.h\<close>. Traps become
  messages to a manager thread (\<open>handlers/trap.c\<close>), interrupts end the time slice or wake the thread
  that waits for a device (\<open>handlers/interrupts.c\<close>). The scheduler (\<open>scheduler.c\<close>) is round robin.
  \<open>init.c\<close> builds the tables and starts the SSI and a test thread.

  \<^bold>\<open>Conventions.\<close> The state of the kernel is one record, \<open>kstate\<close> (theory \<open>Kernel\<close>): the tables, the
  links of all list nodes, the global variables, the saved processor states and the memory of the
  threads. A C function is a HOL function of the same name on this state, with result in \<open>option\<close>:
  \<open>None\<close> is undefined behaviour (a NULL or wild pointer is followed) or a loop that does not end;
  everything that the code does on purpose is a value. How a handler ends is a value of type
  \<open>outcome\<close>: it returns (\<open>Ret\<close>), loads a processor state (\<open>Ldst\<close>), waits for an interrupt, halts or
  panics. Words of memory and registers are tagged values (\<open>val\<close>): a number or a typed pointer, so that
  a number used as a pointer shows. Numbers are \<open>32 word\<close>, with the wrap-around of C.

  \<^bold>\<open>Theories.\<close>
  \<^item> \<open>Prelude\<close>, \<open>Contracts\<close>: conventions, bounded loops, list facts; the locales \<open>pool\<close>,
    \<open>identified_pool\<close>, \<open>fifo\<close> and \<open>letterbox\<close> for the interfaces of the tables, interpreted in
    \<open>Processes\<close>, \<open>Threads\<close> and \<open>Messages\<close> on the operations of the kernel.
  \<^item> \<open>Listx\<close>: \<open>listx.h\<close> on a map of \<open>next\<close> and \<open>prev\<close> pointers. \<open>shape\<close> says which sequences the pointers
    stand for; the lemmas are the refinement of sequences by pointers.
    \<open>ListExample\<close>: the example of the documentation for these macros.
  \<^item> \<open>Machine\<close>, \<open>Arch\<close>, \<open>Devices\<close>: the headers of \<open>uARMsupportFiles\<close>. Processor state, status register,
    device registers, exception areas, coprocessor fields: separation and round trips; the map of the
    memory, interrupt lines, exception codes, device codes.
  \<^item> \<open>Kernel\<close>: descriptors and globals, and the invariant \<open>kernel_ok Q s\<close>: the pointers of \<open>s\<close> stand for
    the disjoint sequences \<open>Q\<close>, and the descriptors agree with the lists that hold them.
  \<^item> \<open>Processes\<close>, \<open>Threads\<close>, \<open>Messages\<close>: the operations of \<open>mikabooq.c\<close>, each with its result and its
    effect on \<open>Q\<close> for every branch. The pending letters of a thread are \<open>mailbox Q s t\<close>.
  \<^item> \<open>Scheduler\<close>: \<open>scheduler.c\<close>, and the invariant \<open>sys_ok Q s\<close> of the running kernel, which adds to
    \<open>kernel_ok\<close> that the status of a thread agrees with its queue, that no waiting thread has a letter
    it would accept, and that managers and waiters for devices are threads. \<open>settled\<close> adds that an idle
    kernel has nothing to run; \<open>count_error\<close> is how far \<open>thread_count\<close> is from the number of threads.
  \<^item> \<open>Syscall\<close>: \<open>syscall.c\<close>, \<open>trap.c\<close> and \<open>update_clock\<close> of \<open>clock/accounting.c\<close>.
  \<^item> \<open>Services\<close>, \<open>Termination\<close>, \<open>Creation\<close>: the files of \<open>SSI/services\<close>, what termination does to a
    process, its threads and its progeny, what creation adds, and the managers (locale \<open>mgr_cell\<close>).
  \<^item> \<open>Ssi\<close>, \<open>Requests\<close>: \<open>ssi.c\<close> and the stubs of \<open>nucleus.h\<close>; one round of the loop of the SSI, and a
    request from the stub to the answer.
  \<^item> \<open>Accounting\<close>: \<open>clock/accounting.c\<close>, \<open>clock/accounting.h\<close> and \<open>bitmap.h\<close>; \<open>Bitmaps\<close>: bitmaps are sets.
  \<^item> \<open>Interrupts\<close>: \<open>interrupts.c\<close>. \<open>Boot\<close>: \<open>init.c\<close> and the loaders, from zeroed memory.
  \<^item> \<open>System\<close>: the transition system of all exceptions, reachability, the invariants of reachable states.
    \<open>Fairness\<close>: sequences of time slices. \<open>Typing\<close>: every pointer of a reachable state has its type.
  \<^item> \<open>Ipc\<close>: the specification of the kernel for its threads, a message machine without pointers,
    descriptors or queues of waiting threads, and the refinement: system calls, traps, timer and device
    interrupts of the kernel are its steps (the services of the SSI are not). \<open>Channels\<close>: on the machine, the messages between two threads
    form a channel. \<open>Runs\<close>: concrete runs.
  \<^item> \<open>Programs\<close>: programs of threads on the message machine, as control points with the calls that they
    make; the locale \<open>protocol\<close> carries an invariant of the programs through all steps of the kernel.
    \<open>Lock\<close>: its interpretation for the critical sections of \<open>tests/p2test.c\<close>, and mutual exclusion.
    \<open>Progress\<close>: threads that do not wait are scheduled, and the critical sections are free of deadlock.
    \<open>LockRun\<close>: a client that enters. \<open>Handover\<close>: a thread that is handed over to its manager stays there.
  \<^item> \<open>Triangle\<close>, \<open>DebugTests\<close>: \<open>tests/debug_tests.c\<close>. The threads of the triangle are another interpretation of
    \<open>protocol\<close>; the loaders run on the tables of the kernel (\<open>loading\<close> is its invariant while threads are
    allocated and not yet in a queue), so that the theorem starts from any reachable state. \<open>Drivers\<close>: the
    tests that need no kernel.
  \<^item> \<open>P2test\<close>: the acceptance test \<open>p2test.c\<close>. Each thread is a program in a state monad over an arbitrary
    environment, which answers the calls (\<open>operation\<close>) and may change the variables that the threads share, or
    never return. \<open>returning\<close> environments answer everything but a request to terminate. The theorems say what
    a kernel has answered when a thread does not panic.
  \<^item> \<open>P1test\<close>, \<open>P1queues\<close>, \<open>P1main\<close>: the acceptance test of the tables, \<open>p1test.c\<close>. The tests of the process table
    pass and give back what they take, the test of the thread table faults in \<open>thread_free\<close> (a property); the checks of
    the tests of the queues, which are not reached, pass on kernels that satisfy their preconditions. The \<open>main\<close> of the
    test does not initialise the SSI, as \<open>kernel_ok\<close> demands: \<open>with_ssi\<close> relates each step to the one with the SSI.
  \<^item> \<open>Syslib\<close>: \<open>syslib.c\<close>, with \<open>memcpy\<close> and \<open>tprintf\<close>. \<open>Examples\<close>: concrete runs for the witnesses.

  \<^bold>\<open>What the properties show.\<close> The first ones are about the whole kernel: in every state that can be
  reached from the boot each handler returns for the events of \<open>enabled\<close> (and faults for those of \<open>faults\<close>), no thread, wake-up or message descriptor is lost, the
  count of threads is exact, the processes form a tree and every pointer has its type; sequences of
  exceptions refine the message machine, so that messages are neither lost nor doubled nor overtaken,
  and the critical sections that the test program builds of messages exclude each other and, as long
  as messages can be sent, are free of deadlock; the triangle of three threads goes on until every letter
  has arrived.
  The next ones are the contracts of the components, success and failure of each operation, and the
  composition of the components: requests are answered, time slices are shared. The last ones are about the support library. Two properties
  are about the acceptance test itself: exactly which answers of a kernel let \<open>p2\<close> and \<open>p3\<close> pass. Properties of
  kind \<open>error\<close> state what goes wrong where the code does not do what it means to.

  \<^bold>\<open>Loops.\<close> \<open>for\<close> loops with constant bounds are \<open>for_each\<close> over their indices. The loops that walk or
  consume lists (\<open>walk_next\<close>, \<open>msgq_search\<close>, \<open>free_messages\<close>, \<open>resume_waiters\<close>, \<open>terminate_threads\<close>,
  \<open>terminate_children\<close>, \<open>clock_loop\<close>) are partial functions into \<open>option\<close>, with no fuel: that they
  end is part of the theorems, by the lengths of the lists and the finite tree of processes. The
  tables have the sizes of \<open>const.h\<close> (20 processes, 30 threads, 40 messages).

  \<^bold>\<open>Assumptions about the machine.\<close> An exception saves the processor state in the old area and nothing
  else of the kernel changes; \<open>LDST\<close>, \<open>STST\<close>, \<open>HALT\<close>, \<open>PANIC\<close>, \<open>WAIT\<close> and the registers for the timer
  and the status do what the manual of the machine says; their code is not in the repository. The eight
  exception areas are fields of the state (\<open>Arch\<close> shows that they do not overlap). Between two exceptions
  threads may do anything to their memory and registers, but not to the memory of the kernel. Operands
  with side effects are evaluated from left to right.

  \<^bold>\<open>Not modelled.\<close>
  \<^item> A SYSCALL that a handler itself executes is the call of the function that serves it; the reuse of
    the stack of the handler and of the old area by the nested exception is not modelled.
  \<^item> The steps of \<open>System\<close> are the system calls with arguments of the right kind, the traps, the
    interrupts and the rounds of the SSI for well-formed requests of living threads. \<open>WAIT_FOR_CLOCK\<close> is
    not among them, as it breaks the lists (a property says so), nor is \<open>GET_MYTHREADID\<close>, which reads a word
    that no stub writes. The calls, traps and requests whose handlers follow a NULL or stray pointer are no steps
    either; \<open>faults\<close> lists them and the first property shows that they fault.
  \<^item> \<open>interrupts.c\<close> does not compile as it is: the two undeclared variables are parameters of the model. Nor does
    \<open>clock/accounting.c\<close>, which passes a list head for its address: the model takes the address.
  \<^item> Output: what \<open>tprint\<close> writes to the terminal while the kernel runs is not part of the state.
  \<^item> The threads of \<open>p2test.c\<close> are not run by the model of the kernel, except the server and the clients of the
    critical sections: they read the registers and memory of each other, terminate one another and use
    \<open>WAIT_FOR_CLOCK\<close> and \<open>GET_MYTHREADID\<close>, which are not steps of \<open>System\<close>. In \<open>P2test\<close> a definition is one round of an
    endless loop and the empty delay loop has no effect. In \<open>Lock\<close> and \<open>Triangle\<close> the other threads may make any
    call (in \<open>Lock\<close> but sends to the server), and between the calls of a program the exceptions are the
    timer and the device.
  \<^item> What \<open>p1test.c\<close> prints; \<open>libuarm.h\<close>, prototypes of the library of the emulator.
\<close>

section \<open>Properties\<close>



text \<open>C2: from zeroed memory main initialises the three tables, loads each of the four exception vectors with its own handler and the stack at the top of the memory, computes the time slice from the scale of the bus, loads the SSI and the test thread, and dispatches the SSI in a state that satisfies every invariant.\<close>

theorem main_starts_the_ssi: assumes "bus_ok m"
  shows "\<exists>r s'. main cpu (bss m) = Some (Ldst (loaded_state cpu fn_ssi (r - FRAME_SIZE)), s') \<and> ram_top m = Some r \<and>
    sys_ok started_queues s' \<and> current_thread s' = Some SSI_thread \<and>
    count_error s' = 0 \<and> threads s' = first_threads cpu r \<and> TIMER s' = clockPerTimeslice s' \<and> mem s' = m \<and>
    SYSBK_OLDAREA s' = zero_state \<and> procs s' = (\<lambda>_. free_pcb) \<and> soft_blocked_thread s' = (\<lambda>_. None) \<and>
    INT_NEWAREA s' = loaded_state cpu fn_interrupt_h r \<and> TLB_NEWAREA s' = loaded_state cpu fn_tlbtrap_h r \<and>
    PGMTRAP_NEWAREA s' = loaded_state cpu fn_pgmtrap_h r \<and> SYSBK_NEWAREA s' = loaded_state cpu fn_syscall_h r \<and>
    SSI s' = Some SSI_thread \<and>
    map_option (\<lambda>scale. scale * 5000) (as_u32 (m BUS_REG_TIME_SCALE)) = Some (clockPerTimeslice s')"
  using assms by (rule main_correct)

theorem main_starts_the_ssi_witness:
  "\<exists>r s'. main zero_state (bss demo_mem) = Some (Ldst (loaded_state zero_state fn_ssi (r - FRAME_SIZE)), s') \<and>
    current_thread s' = Some SSI_thread \<and> count_error s' = 0 \<and> TLB_NEWAREA s' = loaded_state zero_state fn_tlbtrap_h r"
  using main_starts_the_ssi[OF demo_mem_ok(1), of zero_state] by blast

text \<open>C3: in every reachable state the lists of the kernel are disjoint well-formed rings, the descriptors agree with the lists that hold them, and the status of each thread agrees with its queue.\<close>

theorem reachable_invariants:
  assumes "reachable s"
  shows "kernel_wf s \<and> system_ok s"
  using reachable_system_ok[OF assms] kernel_ok_wf sys_ok_kernel settled_sys_ok by (metis system_ok_def)

theorem reachable_invariants_witness:
  "kernel_wf demo_client \<and> system_ok demo_client"
  by (rule reachable_invariants[OF demo_client_reachable])

text \<open>C4: in every reachable state thread_count is the number of threads in the system.\<close>

theorem thread_count_is_exact: "reachable s \<Longrightarrow> thread_count s = of_nat (card (live_threads s))"
  by (rule reachable_thread_count)

theorem thread_count_is_exact_witness:
  "thread_count demo_client = of_nat (card (live_threads demo_client))"
  by (rule thread_count_is_exact[OF demo_client_reachable])

text \<open>C5: in every reachable state a thread that is not running is linked in exactly one scheduling queue.\<close>

theorem no_thread_is_lost: assumes "reachable s" "valid_tid t" "t_status (threads s t) \<noteq> T_STATUS_NONE" "current_thread s \<noteq> Some t"
  shows "\<exists>!h. is_sched_head h \<and> T_sched t \<in> set (contents s h)"
  using assms by (rule reachable_no_lost_thread)

theorem no_thread_is_lost_witness:
  "\<exists>!h. is_sched_head h \<and> T_sched SSI_thread \<in> set (contents demo_client h)"
  using no_thread_is_lost[OF demo_client_reachable, of SSI_thread] demo_client_facts by simp

text \<open>C6: in every reachable state a thread that waits has no pending message that it would accept.\<close>

theorem no_wakeup_is_lost: assumes "reachable s" "valid_tid t" "t_status (threads s t) = T_STATUS_W4MSG"
  shows "\<forall>l \<in> set (mailbox (contents s) s t). \<not> wanted (Some (t_wait4sender (threads s t))) l"
  using assms by (rule reachable_no_lost_wakeup)

theorem no_wakeup_is_lost_witness:
  "filter (wanted (Some (t_wait4sender (threads demo_client SSI_thread)))) (mailbox (contents demo_client) demo_client SSI_thread) = []"
  using no_wakeup_is_lost[OF demo_client_reachable _ demo_client_facts(5)] unfolding filter_empty_conv valid_tid.simps(2) by blast

text \<open>C7: in every reachable state each message descriptor is in exactly one list: the free list or the queue of one thread.\<close>

theorem no_message_leaks: assumes "reachable s" "m < MAXMSG"
  shows "\<exists>!h. is_msg_head h \<and> M_next m \<in> set (contents s h)"
  using assms by (rule reachable_messages)

theorem no_message_leaks_witness:
  "\<exists>!h. is_msg_head h \<and> M_next 3 \<in> set (contents demo_client h)"
  using no_message_leaks[OF demo_client_reachable, of 3] by (simp add: MAXMSG_def)

text \<open>C8: in every reachable state the processes form a tree under the root that the child lists describe.\<close>

theorem processes_form_a_tree: assumes "reachable s"
  shows "acyclic (parent_rel (procs s)) \<and> p_parent (procs s 0) = None \<and>
    (\<forall>c p. p_parent (procs s c) = Some p \<longrightarrow> p < MAXPROC \<and> P_siblings c \<in> set (contents s (P_children p)) \<and>
       (p = 0 \<or> p_parent (procs s p) \<noteq> None))"
  using assms by (rule reachable_process_tree)

theorem processes_form_a_tree_witness:
  "acyclic (parent_rel (procs demo_client)) \<and> p_parent (procs demo_client 0) = None"
  using processes_form_a_tree[OF demo_client_reachable] by blast

text \<open>C9: in every reachable state every variable, field and link of the kernel has its type: pointers are NULL or descriptors of the tables, pending messages name a sender, lists close, and each of their members is the member that container_of assumes.\<close>

theorem kernel_is_well_typed: "reachable s \<Longrightarrow> well_typed s"
  by (rule reachable_well_typed)

theorem kernel_is_well_typed_witness:
  "well_typed demo_client"
  by (rule kernel_is_well_typed[OF demo_client_reachable])

text \<open>C10: seen through the abstraction, which forgets pointers, descriptors and queues of waiting threads, every sequence of system calls, traps, timer and device interrupts from a reachable state of the kernel is a run of the message machine, with the same processor states loaded.\<close>

theorem kernel_refines_the_message_machine:
  assumes "reachable s" "m_allowed es (abs_machine s)"
  shows "\<exists>outs s'. k_run es s = Some (outs, s') \<and> m_run es (abs_machine s) = (outs, abs_machine s')"
  by (rule run_refines[OF reachable_system_ok[OF assms(1)] assms(2)])

theorem kernel_refines_the_message_machine_witness:
  "\<exists>outs s'. k_run one_trap demo_start = Some (outs, s') \<and> k_running (abs_machine s') = Some SSI_thread \<and>
    k_phase (abs_machine s') (Thread 0) = Awaits (Some SSI_thread)"
  using kernel_refines_the_message_machine[OF demo_start_reachable conjunct1[OF one_trap_run]] conjunct2[OF one_trap_run] by fastforce

text \<open>C11: between two threads no message is lost, doubled or overtaken: in every run of calls, traps and interrupts from a reachable state, what was pending for a thread from a sender followed by what the sender then sent is what the thread received of it followed by what is still pending.\<close>

theorem channels_are_first_in_first_out:
  assumes "reachable s" "m_allowed es (abs_machine s)"
  shows "\<exists>outs s'. k_run es s = Some (outs, s') \<and>
    pending c d (abs_machine s) @ sent_along c d es (abs_machine s) =
    received_along c d es (abs_machine s) @ pending c d (abs_machine s')"
  using run_refines[OF reachable_system_ok[OF assms(1)] assms(2)] kernel_channels[OF reachable_system_ok[OF assms(1)] assms(2)] by blast

theorem channels_are_first_in_first_out_witness:
  "\<exists>outs s'. k_run two_letters demo_start = Some (outs, s') \<and>
    [U 7, U 8] = received_along (Thread 0) SSI_thread two_letters (abs_machine demo_start) @ pending (Thread 0) SSI_thread (abs_machine s')"
  using channels_are_first_in_first_out[OF demo_start_reachable two_letters_allowed, of "Thread 0" SSI_thread]
  unfolding two_letters_sent two_letters_pending append.simps .

text \<open>C12: the critical sections of the test program work: from every reachable state in which cs_thread starts and the clients are outside, whatever the clients send and receive, and however time slices and the device interleave them, the kernel runs the programs and never has two clients between CSIN and CSOUT, also when sends fail because no message is left.\<close>

theorem critical_section_is_exclusive:
  assumes "reachable s" "lock_start (Thread i) loc (abs_machine s)" "p_allowed (p2_program (Thread i)) es (loc, abs_machine s)"
  shows "\<exists>outs s' loc'. k_run es s = Some (outs, s') \<and>
    p_run (p2_program (Thread i)) es (loc, abs_machine s) = (loc', abs_machine s') \<and>
    (\<forall>c d. in_section (Thread i) loc' (abs_machine s') c \<and> in_section (Thread i) loc' (abs_machine s') d \<longrightarrow> c = d)"
  by (rule kernel_lock[OF reachable_system_ok[OF assms(1)] assms(2,3)])

theorem critical_section_is_exclusive_witness:
  "\<exists>outs s' loc'. k_run one_entry demo_start = Some (outs, s') \<and>
    p_run (p2_program (Thread 0)) one_entry (entry_points, abs_machine demo_start) = (loc', abs_machine s') \<and>
    (\<forall>c. in_section (Thread 0) loc' (abs_machine s') c \<longleftrightarrow> c = SSI_thread)"
  using critical_section_is_exclusive[OF demo_start_reachable entry_start conjunct1[OF one_entry_run]] conjunct2[OF one_entry_run]
  by fastforce

text \<open>C13: as long as messages can be sent, the critical sections of the test program go on: whenever a client waits in CSIN, after any interleaving of the server, the clients, time slices and the device, the server or the client that has been granted the section is running or in the ready queue, and it is another thread than the one that waits; nobody waits in a circle, and no wake-up is lost.\<close>

theorem critical_sections_are_free_of_deadlock:
  assumes "reachable s" "lock_start (Thread i) loc (abs_machine s)"
    and "scheduled (abs_machine s)" "k_phase (abs_machine s) (Thread i) = Runnable"
    and "p_allowed (p2_program (Thread i)) es (loc, abs_machine s)"
    and "along (sends_ok (\<lambda>r. r = SEND_SUCCESS)) es (abs_machine s)"
  shows "\<exists>outs s' loc'. k_run es s = Some (outs, s') \<and>
    p_run (p2_program (Thread i)) es (loc, abs_machine s) = (loc', abs_machine s') \<and>
    (\<forall>c. waits_to_enter (Thread i) loc' (abs_machine s') c \<longrightarrow>
       (\<exists>u. in_charge (Thread i) loc' (abs_machine s') u \<and> u \<noteq> c \<and>
         (u \<in> set (k_ready (abs_machine s')) \<or> k_running (abs_machine s') = Some u)))"
  by (rule kernel_lock_goes_on[OF reachable_system_ok[OF assms(1)] assms(2-6)])

theorem critical_sections_are_free_of_deadlock_witness:
  "\<exists>outs s' loc'. k_run half_entry demo_start = Some (outs, s') \<and>
    p_run (p2_program (Thread 0)) half_entry (entry_points, abs_machine demo_start) = (loc', abs_machine s') \<and>
    waits_to_enter (Thread 0) loc' (abs_machine s') SSI_thread \<and>
    (\<exists>u. in_charge (Thread 0) loc' (abs_machine s') u \<and> u \<noteq> SSI_thread \<and>
      (u \<in> set (k_ready (abs_machine s')) \<or> k_running (abs_machine s') = Some u))"
  using critical_sections_are_free_of_deadlock[OF demo_start_reachable entry_start demo_scheduled demo_phase_0
      conjunct1[OF half_entry_run] conjunct1[OF conjunct2[OF half_entry_run]]] half_entry_run
  by fastforce

text \<open>C14: from every reachable state with a running thread, three free thread descriptors and a readable size of the memory, triangle_init returns: the first three free threads are loaded with t1, t2 and t3, in this order, and are the last in the ready queue, in this order. As long as messages can be sent the test then goes on, whatever calls the other threads make and whatever the timer and the device do: a thread that reports has received from the thread before it, and either all three letters have arrived or a thread whose letter has not is running or in the ready queue.\<close>

theorem triangle_test_goes_on:
  assumes "reachable s" "current_thread s = Some r"
    and "proc_alive s root" "ram_top (mem s) = Some ramtop" "contents s Thread_h = T_next a # T_next b # T_next c # ns"
  shows "\<exists>s0. triangle_init cpu root s = Some ((a, b, c), s0) \<and>
    pc (t_s (threads s0 a)) = Fn fn_t1 \<and> pc (t_s (threads s0 b)) = Fn fn_t2 \<and> pc (t_s (threads s0 c)) = Fn fn_t3 \<and>
    contents s0 Readyq = contents s Readyq @ [T_sched a, T_sched b, T_sched c] \<and>
    (\<forall>es. p_allowed (triangle a b c) es (tri_entry a b c (abs_machine s0), abs_machine s0) \<longrightarrow>
       along (sends_ok (\<lambda>r. r = SEND_SUCCESS)) es (abs_machine s0) \<longrightarrow>
       (\<exists>outs s' loc'. k_run es s0 = Some (outs, s') \<and>
          p_run (triangle a b c) es (tri_entry a b c (abs_machine s0), abs_machine s0) = (loc', abs_machine s') \<and>
          (\<forall>t \<in> {a, b, c}. \<forall>r. reports loc' t r \<longrightarrow> r = Some (prev a b c t)) \<and>
          ((\<forall>t \<in> {a, b, c}. has_received a b c loc' (abs_machine s') t) \<or>
           (\<exists>u \<in> {a, b, c}. \<not> has_received a b c loc' (abs_machine s') u \<and>
              (u \<in> set (k_ready (abs_machine s')) \<or> k_running (abs_machine s') = Some u)))))"
  using loaded_triangle_goes_on[OF reachable_system_ok[OF assms(1)] assms(2-5), of cpu] unfolding triangle_ready_def by blast

theorem triangle_test_goes_on_witness:
  "pc (t_s (threads demo_triangle (Thread 3))) = Fn fn_t3 \<and>
    (\<exists>outs s' loc'. k_run two_waits demo_triangle = Some (outs, s') \<and> loc' (Thread 1) = At Sends \<and>
    \<not> has_received (Thread 1) (Thread 2) (Thread 3) loc' (abs_machine s') (Thread 1) \<and> k_running (abs_machine s') = Some (Thread 1))"
proof -
  have alive: "proc_alive demo_start 0" by (simp add: proc_alive_def)
  have top: "ram_top (mem demo_start) = Some 0x108000" by (simp add: demo_start_facts demo_mem_ok)
  obtain loc k where run: "p_run (triangle (Thread 1) (Thread 2) (Thread 3)) two_waits
      (tri_entry (Thread 1) (Thread 2) (Thread 3) (abs_machine demo_triangle), abs_machine demo_triangle) = (loc, k)"
    "loc (Thread 1) = At Sends" "k_running k = Some (Thread 1)" using two_waits_run by blast
  note all = triangle_test_goes_on[OF demo_start_reachable demo_start_facts(3) alive top demo_triangle_free, of zero_state,
      unfolded demo_triangle_loaded(1) option.inject prod.inject simp_thms]
  have "pc (t_s (threads demo_triangle (Thread 3))) = Fn fn_t3" using all by blast
  moreover obtain outs s' where "k_run two_waits demo_triangle = Some (outs, s')" "k = abs_machine s'"
    using all two_waits_run run(1) by auto
  ultimately show ?thesis using run(2,3) by (auto simp: has_received_def stage_in_def intro!: exI[of _ loc])
qed

text \<open>C15: a request travels from end to end: when the SSI waits and nobody else is ready, the stub of the client that asks for errno, the CPU time, a process or a parent process wakes the SSI, the client blocks, the SSI serves the request and replies, and the client runs again with the answer in its variable while the SSI waits as before.\<close>

theorem request_is_answered:
  assumes "serving msg_at c Q s" "handler_mode cpu" "handler_mode scpu" "answer r c (TIMER s) s = Some v"
    and "req_at \<noteq> 0" "msg_at \<noteq> 0" "retval_at \<noteq> 0" "\<And>i. i < length (encode r) \<Longrightarrow> req_at + 4 * of_nat i \<noteq> msg_at"
  shows "\<exists>s' Q'. request_reply r req_at retval_at msg_at cpu hcpu hframe scpu s =
      Some (Ldst (cpu\<lparr>a1 := Tcb SSI_thread, a2 := Tcb SSI_thread, a3 := U retval_at, a4 := U 0\<rparr>), s') \<and>
    serving msg_at c Q' s' \<and> mem s' retval_at = v"
  using request_is_answered_lemma[OF assms(1-6,8)] assms(7) by (fastforce simp: put_word_def)

theorem request_is_answered_witness:
  "\<exists>st s'. request_reply (Get_processid (Tcb (Thread 0))) 0xA000 0xB000 0x9000 kernel_cpu kernel_cpu 0x7000 kernel_cpu demo_client =
    Some (Ldst st, s') \<and> mem s' 0xB000 = Pcb 0"
proof -
  have a: "answer (Get_processid (Tcb (Thread 0))) (Thread 0) (TIMER demo_client) demo_client = Some (Pcb 0)"
    by (simp add: demo_client_facts(4) test_tcb_def)
  have d: "(0x9000 :: u32) \<noteq> 0" "(0xA000 :: u32) \<noteq> 0" "(0xB000 :: u32) \<noteq> 0" by simp_all
  have i: "(0xA000 :: u32) + 4 * of_nat i \<noteq> 0x9000" if "i < length (encode (Get_processid (Tcb (Thread 0))))" for i
    using that by (auto simp: less_Suc_eq)
  from request_is_answered[OF demo_client_serving kernel_cpu_mode kernel_cpu_mode a d(2,1,3) i] show ?thesis by blast
qed

text \<open>C16: as many processes and threads as are unused can be allocated, each descriptor once and none that is in use, and the next call returns NULL and changes nothing.\<close>

theorem descriptors_are_distinct:
  assumes "kernel_wf s" "proc_alive s p"
  shows "(\<exists>cs s'. alloc_many (proc_alloc (Some p)) (procs_unused s) s = Some (cs, s') \<and> length cs = procs_unused s \<and>
      distinct cs \<and> set cs \<inter> procs_used s = {} \<and> proc_alloc (Some p) s' = Some (None, s')) \<and>
    (\<exists>ts s'. alloc_many (thread_alloc (Some p)) (threads_unused s) s = Some (ts, s') \<and> length ts = threads_unused s \<and>
      distinct ts \<and> set ts \<inter> threads_used s = {} \<and> thread_alloc (Some p) s' = Some (None, s'))"
  using proc_pool.exhaustion[of s p] thread_pool.exhaustion[of s p] assms by blast

theorem descriptors_are_distinct_witness:
  "\<exists>ts s'. alloc_many (thread_alloc (Some 0)) 29 demo_start = Some (ts, s') \<and> length ts = 29 \<and> distinct ts"
proof -
  have "proc_alive demo_start 0" by (simp add: proc_alive_def)
  from descriptors_are_distinct[OF kernel_ok_wf[OF demo_start_kernel] this] demo_start_unused show ?thesis by metis
qed

text \<open>C17: a processor state of STATE_T_SIZE bytes that is stored in one of the eight exception areas is read back from it, and the states in the other areas stay as they were.\<close>

theorem exception_areas_are_separate:
  assumes "a \<in> set areas" "b \<in> set areas"
  shows "load_state (store_state a x m) b = (if a = b then x else load_state m b)"
  using load_store_state load_other_area[OF assms] by simp

theorem exception_areas_are_separate_witness:
  "load_state (store_state SYSBK_OLDAREA_ADDR kernel_cpu demo_mem) PGMTRAP_NEWAREA_ADDR = load_state demo_mem PGMTRAP_NEWAREA_ADDR"
  using exception_areas_are_separate[of SYSBK_OLDAREA_ADDR PGMTRAP_NEWAREA_ADDR kernel_cpu demo_mem]
  by (simp add: areas_def area_defs)

text \<open>C18: on links that represent the sequences Q the pointer operations list_add, list_add_tail and list_del do what their names say on the sequences and disturb no other list.\<close>

theorem lists_refine_sequences:
  assumes "shape l H Q" "h \<in> H"
  shows "(\<forall>n. unlinked_node n H Q \<longrightarrow>
      (\<exists>l'. list_add n h l = Some l' \<and> shape l' H (Q(h := n # Q h))) \<and>
      (\<exists>l'. list_add_tail n h l = Some l' \<and> shape l' H (Q(h := Q h @ [n])))) \<and>
    (\<forall>n \<in> set (Q h). \<exists>l'. list_del n l = Some l' \<and> shape l' H (Q(h := remove1 n (Q h))))"
  using list_add_shape[OF assms] list_add_tail_shape[OF assms] list_del_shape[OF assms] by blast

theorem lists_refine_sequences_witness:
  "\<exists>l. list_del (T_sched (Thread 0)) (lk demo_start) = Some l \<and> shape l heads (started_queues(Readyq := []))"
  using lists_refine_sequences[OF kernel_ok_shape[OF demo_start_kernel], of Readyq] by simp

text \<open>C19: the walks of list_for_each and list_for_each_prev over a ring end and visit its members in order and in reverse order.\<close>

theorem list_walks_end: "ring l h xs \<Longrightarrow> list_for_each h l = Some xs \<and> list_for_each_prev h l = Some (rev xs)"
  by (simp add: list_for_each_ring list_for_each_prev_ring)

theorem list_walks_end_witness:
  "list_for_each_prev Readyq (lk demo_start) = Some [T_sched (Thread 0)]"
  using list_walks_end[OF shape_ring[OF kernel_ok_shape[OF demo_start_kernel], of Readyq]] by simp

text \<open>C20: a send to a thread that waits for this sender, or for anybody, stores the payload where the thread wants it, returns the sender in a1 and makes the thread ready, using no message descriptor.\<close>

theorem send_wakes_the_waiting_thread: assumes ok: "sys_ok Q s" and d: "valid_tid d" and w: "wakes (threads s d) c"
    and a: "a3 (t_s (threads s d)) = U a"
  shows "\<exists>l. send (Some d) (Some c) v s =
      Some (SEND_SUCCESS,
        s\<lparr>lk := l, mem := put_word a v (mem s), threads := (threads s)(d := woken (threads s d) (Some c))\<rparr>) \<and>
    sys_ok (after_resume Q s d)
      (s\<lparr>lk := l, mem := put_word a v (mem s), threads := (threads s)(d := woken (threads s d) (Some c))\<rparr>)"
  using assms by (rule send_woken)

theorem send_wakes_the_waiting_thread_witness:
  "\<exists>s'. send (Some SSI_thread) (Some (Thread 0)) (U 7) demo_client = Some (SEND_SUCCESS, s') \<and>
    t_status (threads s' SSI_thread) = T_STATUS_READY \<and> mem s' 0x9000 = U 7"
proof -
  have "valid_tid SSI_thread" "wakes (threads demo_client SSI_thread) (Thread 0)"
    using demo_client_facts(5,6) by (simp_all add: wakes_def)
  from send_wakes_the_waiting_thread[OF demo_client_ok this demo_client_facts(7), of "U 7"] obtain l where
    "send (Some SSI_thread) (Some (Thread 0)) (U 7) demo_client = Some (SEND_SUCCESS, demo_client\<lparr>lk := l,
       mem := put_word 0x9000 (U 7) (mem demo_client),
       threads := (threads demo_client)(SSI_thread := woken (threads demo_client SSI_thread) (Some (Thread 0)))\<rparr>)" by blast
  then show ?thesis by (simp add: put_word_def)
qed

text \<open>C21: a send to a thread that does not exist any more, or to a thread that must queue the letter when the pool is exhausted, returns SEND_FAILURE and changes nothing.\<close>

theorem send_fails_cleanly:
  assumes "kernel_ok Q s" "t_status (threads s d) = T_STATUS_NONE \<or> (queues_letter (threads s d) c \<and> Q Message_h = [])"
  shows "send (Some d) (Some c) v s = Some (SEND_FAILURE, s)"
  using assms send_dead send_pool_empty by blast

theorem send_fails_cleanly_witness:
  "send (Some (Thread 9)) (Some (Thread 0)) (U 7) demo_start = Some (SEND_FAILURE, demo_start)"
  by (rule send_fails_cleanly[OF demo_start_kernel]) (simp add: demo_start_facts(5) zero_tcb_def)

text \<open>C22: a receive that finds a matching letter returns at once with the sender and the payload and takes this letter only; without one it saves the state of the caller, charges its time, links it in the queue of the expected sender (or in blockedq) and calls the scheduler on a state that satisfies the invariants.\<close>

theorem recv_takes_the_first_match_or_blocks:
  assumes "sys_ok Q s" "current_thread s = Some c" "\<And>u. sender = Some u \<Longrightarrow> valid_tid u" "a3 (SYSBK_OLDAREA s) = U a"
  shows "case find (wanted (Some sender)) (mailbox Q s c) of
      Some (w, v) \<Rightarrow> \<exists>Q' s'. recv cpu sender (U a) s = Some (Ret, store_return_value (of_tcb w) s') \<and> sys_ok Q' s' \<and>
        threads s' = threads s \<and> mem s' = put_word a v (mem s) \<and> current_thread s' = Some c \<and>
        mailbox Q' s' c = remove_first (wanted (Some sender)) (mailbox Q s c) \<and>
        (\<forall>u. valid_tid u \<longrightarrow> u \<noteq> c \<longrightarrow> mailbox Q' s' u = mailbox Q s u)
    | None \<Rightarrow> \<exists>l. recv cpu sender (U a) s = scheduler (before_switch l c sender s) \<and>
        sys_ok (Q(wait_queue sender := Q (wait_queue sender) @ [T_sched c])) ((before_switch l c sender s)\<lparr>current_thread := None\<rparr>)"
proof (cases "find (wanted (Some sender)) (mailbox Q s c)")
  case None
  with recv_blocks[OF assms None] show ?thesis by simp
next
  case (Some l)
  obtain w v where "l = (w, v)" by (cases l)
  with Some recv_found[OF assms(1,2), of sender w v cpu a] show ?thesis by simp blast
qed

theorem recv_takes_the_first_match_or_blocks_witness:
  "(\<exists>s'. recv kernel_cpu None (U 0) (demo_mail\<lparr>SYSBK_OLDAREA := zero_state\<rparr>) = Some (Ret, store_return_value (Tcb (Thread 0)) s')) \<and>
    (\<exists>l. recv kernel_cpu None (U 0) demo_start = scheduler (before_switch l SSI_thread None demo_start))"
proof -
  let ?m = "demo_mail\<lparr>SYSBK_OLDAREA := zero_state\<rparr>"
  have m: "sys_ok mail_queues ?m" "current_thread ?m = Some SSI_thread" "a3 (SYSBK_OLDAREA ?m) = U 0"
    "find (wanted (Some None)) (mailbox mail_queues ?m SSI_thread) = Some (Some (Thread 0), U 7)"
    using demo_mail_ok demo_mail_facts(3,4) by (simp_all add: mailbox_def wanted_def)
  have s: "a3 (SYSBK_OLDAREA demo_start) = U 0" "find (wanted (Some None)) (mailbox started_queues demo_start SSI_thread) = None"
    by (simp_all add: demo_start_facts mailbox_def)
  show ?thesis
    using recv_takes_the_first_match_or_blocks[OF m(1,2) _ m(3), of None kernel_cpu] m(4)
      recv_takes_the_first_match_or_blocks[OF demo_start_ok demo_start_facts(3) _ s(1), of None kernel_cpu] s(2) by auto
qed

text \<open>C23: the acceptance test of the tables, run by its main after proc_init, thread_init and msgq_init, does not pass: its two tests of the process table succeed and give back every process (before, between and after them no process has a parent, no process has children and the free list holds the nineteen descriptors, each once), but the test of the thread table faults, because thread_free unlinks each thread from a scheduling queue that it has never been in.\<close>

theorem acceptance_test_faults:
  "\<exists>s1 s2 s3 s' s''. proc_init (bss m) = Some (0, s1) \<and> thread_init s1 = Some s2 \<and> msgq_init s2 = Some s3 \<and> all_free s3 \<and>
     test_proc_alloc 0 s3 = Some (Inr s') \<and> all_free s' \<and> test_proc_hierarchy 0 s' = Some (Inr s'') \<and> all_free s'' \<and>
     test_thread_alloc 0 s'' = None \<and> p1test_main h k a b (bss m) = None"
  by (rule p1test_main_faults)

text \<open>C24: p3 of the acceptance test, against any kernel whose calls return, ends in its request to terminate exactly if the ten requests WAIT_FOR_CLOCK took between nine and eleven ticks of 100 ms, up to the wrap-around of the clock, and panics otherwise.\<close>

theorem clock_test_of_p2test:
  assumes "returning w" "ending w = None" "calls w = []"
    and "env w 2 Get_todlo = Some (r1, o1)" "r_val r1 = U time1" "env w 13 Get_todlo = Some (r2, o2)" "r_val r2 = U time2"
  shows "ending (after p3 w) =
    (if 900000 \<le> time2 - time1 \<and> time2 - time1 \<le> 1100000 then Some (In_call (Request Terminate_process)) else Some Panicked)"
  by (rule p3_verdict[OF assms])

theorem clock_test_of_p2test_witness:
  "ending (after p3 demo_world) = Some (In_call (Request Terminate_process))"
proof -
  have nf: "\<not> final Get_todlo" by (simp add: final_def)
  show ?thesis
    using clock_test_of_p2test[OF demo_world_facts(1,3,4) demo_world_facts(7)[OF nf] _ demo_world_facts(7)[OF nf]] by simp
qed

text \<open>C25: p2 of the acceptance test, against any kernel whose calls return and threads that leave p2t and testt alone, reaches its request to terminate exactly if GET_MYTHREADID answers with p2t, the first letter is SYNCCODE from the test thread, the process of the sender is the parent of its own process, and the delay loop takes at least 5 ms of CPU time; otherwise it panics.\<close>

theorem thread_test_of_p2test:
  assumes "returning w" "ending w = None" "calls w = []" "keeps_names (env w)"
    and "env w 4 (Request Get_mythreadid) = Some (me, o4)" "env w 9 (Request Get_mythreadid) = Some (me', o9)"
    and "env w 5 (Msgrecv NULL) = Some (m, o5)" "env w 8 (Request (Get_processid (r_val m))) = Some (p, o8)"
    and "env w 10 (Request (Get_processid (r_val me'))) = Some (q, o10)"
    and "env w 11 (Request (Get_parentprocid (r_val q))) = Some (parent, o11)"
    and "env w 12 (Request Getcputime) = Some (c1, o12)" "env w 13 (Request Getcputime) = Some (c2, o13)"
    and "r_val c1 = U time1" "r_val c2 = U time2"
  shows "ending (after p2 w) =
    (if r_val me = p2t (vars w) \<and> r_payload m = V (U SYNCCODE) \<and> r_val m = testt (vars w) \<and> r_val p = r_val parent \<and> 5 \<le> time2 - time1
     then Some (In_call (Request Terminate_thread)) else Some Panicked)"
  by (rule p2_verdict[OF assms(1-6) assms(7-14)])

theorem thread_test_of_p2test_witness:
  "ending (after p2 demo_world) = Some (In_call (Request Terminate_thread))"
proof -
  have nf: "\<not> final (Request Get_mythreadid)" "\<not> final (Msgrecv NULL)" "\<not> final (Request (Get_processid t))"
    "\<not> final (Request (Get_parentprocid t))" "\<not> final (Request Getcputime)" for t by (simp_all add: final_def)
  note run = demo_world_facts(7)
  show ?thesis
    using thread_test_of_p2test[OF demo_world_facts(1,3,4,2) run[OF nf(1)] run[OF nf(1)] run[OF nf(2)] run[OF nf(3)] run[OF nf(3)]
      run[OF nf(4)] run[OF nf(5)] run[OF nf(5)]] demo_world_facts(5,6) by simp
qed

text \<open>C26: terminating a process ends, frees all its threads and descendants and exactly those (the root keeps its descriptor), and keeps thread_count exact; of the other threads exactly those that waited for a message of a dying one are woken, with errno 1 and NULL as the sender, and all others keep their state; the registrations for the devices stay as they are.\<close>

theorem terminate_process_kills_the_progeny: assumes ok: "sys_ok Q s" and cur: "current_thread s = Some SSI_thread"
    and t: "valid_tid t" "t_pcb (threads s t) = Some p"
  shows "\<exists>s' Q'. terminate_process_s t s = Some s' \<and> sys_ok Q' s' \<and>
    killed (dying (procs s) p - {0}) (dying (procs s) p) s s'"
  using assms by (rule terminate_process_s_correct)

theorem terminate_process_kills_the_progeny_witness:
  "\<exists>s'. terminate_process_s (Thread 0) demo_start = Some s' \<and> t_pcb (threads s' (Thread 0)) = None"
proof -
  have t: "valid_tid (Thread 0)" "t_pcb (threads demo_start (Thread 0)) = Some 0"
    by (simp_all add: MAXTHREAD_def demo_start_facts(5) test_tcb_def)
  from terminate_process_kills_the_progeny[OF demo_start_ok demo_start_facts(3) t] obtain s' where
    "terminate_process_s (Thread 0) demo_start = Some s'"
    "killed (dying (procs demo_start) 0 - {0}) (dying (procs demo_start) 0) demo_start s'" by blast
  with t show ?thesis by (auto simp: killed_def dying_def victims_def)
qed

text \<open>C27: terminating a thread frees it alone and wakes exactly the threads that waited for it, unless it is the last one of its process, which then dies with its progeny.\<close>

theorem terminate_thread_removes_one_thread: assumes ok: "sys_ok Q s" and cur: "current_thread s = Some SSI_thread"
    and t: "valid_tid t" "t_pcb (threads s t) = Some p"
  shows "\<exists>s' Q'. terminate_thread_s t s = Some s' \<and> sys_ok Q' s' \<and>
    (if threads_of p s = {t} then killed (dying (procs s) p - {0}) (dying (procs s) p) s s'
     else threads_of p s' = threads_of p s - {t} \<and> procs s' = procs s \<and>
       current_thread s' = current_thread s \<and> count_error s' = count_error s \<and>
       t_pcb (threads s' t) = None \<and> t_status (threads s' t) = T_STATUS_NONE \<and>
       (\<forall>u. u \<noteq> t \<longrightarrow> threads s' u \<in> {threads s u, orphaned (threads s u)}) \<and>
       (\<forall>u. valid_tid u \<and> u \<noteq> t \<longrightarrow> threads s' u = told {t} (threads s u)) \<and>
       soft_blocked_thread s' = soft_blocked_thread s \<and> clockPerTimeslice s' = clockPerTimeslice s)"
  using assms by (rule terminate_thread_s_correct)

theorem terminate_thread_removes_one_thread_witness:
  "\<exists>s' Q'. terminate_thread_s (Thread 0) demo_start = Some s' \<and> sys_ok Q' s'"
proof -
  have t: "valid_tid (Thread 0)" "t_pcb (threads demo_start (Thread 0)) = Some 0"
    by (simp_all add: MAXTHREAD_def demo_start_facts(5) test_tcb_def)
  from terminate_thread_removes_one_thread[OF demo_start_ok demo_start_facts(3) t] show ?thesis by blast
qed

text \<open>C28: creating a process allocates a child of the process of the applicant with one ready thread that starts in the given state.\<close>

theorem create_process_adds_a_child: assumes ok: "sys_ok Q s" and a: "valid_tid a" "t_pcb (threads s a) = Some p"
    and free: "Q (P_siblings 0) = P_siblings c # ns" "Q Thread_h = T_next t # ms"
    and st: "read_state v s = Some st"
  shows "\<exists>s' Q'. create_process_s v a s = Some (Some t, s') \<and> sys_ok Q' s' \<and>
    p_parent (procs s c) = None \<and> t_status (threads s t) = T_STATUS_NONE \<and>
    procs s' = (procs s)(c := (procs s c)\<lparr>p_parent := Some p\<rparr>) \<and>
    threads s' = (threads s)(t := new_tcb c st (threads s t)) \<and>
    current_thread s' = current_thread s \<and> Q' Readyq = Q Readyq @ [T_sched t] \<and> count_error s' = count_error s"
  using assms by (rule create_process_correct)

theorem create_process_adds_a_child_witness:
  "\<exists>s'. create_process_s (U 0x9000) (Thread 0) demo_start = Some (Some (Thread 1), s') \<and>
    p_parent (procs s' 1) = Some 0 \<and> t_pcb (threads s' (Thread 1)) = Some 1"
proof -
  have t: "valid_tid (Thread 0)" "t_pcb (threads demo_start (Thread 0)) = Some 0"
    by (simp_all add: MAXTHREAD_def demo_start_facts(5) test_tcb_def)
  have f: "started_queues (P_siblings 0) = P_siblings 1 # map P_siblings [2..<MAXPROC]"
    "started_queues Thread_h = T_next (Thread 1) # map (\<lambda>i. T_next (Thread i)) [2..<MAXTHREAD]"
    "read_state (U 0x9000) demo_start = Some (load_state (mem demo_start) 0x9000)" by simp_all
  from create_process_adds_a_child[OF demo_start_ok t f] show ?thesis by (auto simp: new_tcb_def)
qed

text \<open>C29: when no thread descriptor is left, creating a process returns NULL and gives the new process descriptor back.\<close>

theorem create_process_rolls_back_cleanly: assumes ok: "sys_ok Q s" and a: "valid_tid a" "t_pcb (threads s a) = Some p"
    and free: "Q (P_siblings 0) = P_siblings c # ns" and none: "Q Thread_h = []"
  shows "\<exists>s' Q'. create_process_s v a s = Some (None, s') \<and> sys_ok Q' s' \<and>
    procs s' = (procs s)(c := free_pcb) \<and> threads s' = threads s \<and> msgs s' = msgs s \<and>
    current_thread s' = current_thread s \<and> count_error s' = count_error s"
  using assms by (rule create_process_rolls_back)

theorem create_process_rolls_back_cleanly_witness:
  "\<exists>s s'. create_process_s (U 0x9000) (Thread 0) s = Some (None, s') \<and> count_error s' = count_error s"
proof -
  obtain s Q where s: "sys_ok Q s" "Q Thread_h = []" "Q (P_siblings 0) = P_siblings 1 # map P_siblings [2..<MAXPROC]"
    "t_pcb (threads s (Thread 0)) = Some 0" using demo_full by blast
  have "valid_tid (Thread 0)" by (simp add: MAXTHREAD_def)
  from create_process_rolls_back_cleanly[OF s(1) this s(4,3,2), of "U 0x9000"] show ?thesis by blast
qed

text \<open>C30: the first request sets the trap manager of the process of the applicant, NULL leaves it unset, and the second request terminates the process.\<close>

theorem managers_are_set_once:
  assumes "sys_ok Q s" "current_thread s = Some SSI_thread" "valid_tid a" "t_pcb (threads s a) = Some p" "valid_tid m"
  shows "(pgm_mgr (procs s p) = None \<longrightarrow> setpgmmgr_s (Some m) a s =
        Some (Some m, True, s\<lparr>procs := (procs s)(p := (procs s p)\<lparr>pgm_mgr := Some m\<rparr>)\<rparr>)) \<and>
    setpgmmgr_s None a s = Some (None, True, s) \<and>
    (pgm_mgr (procs s p) \<noteq> None \<longrightarrow> (\<exists>s' Q'. setpgmmgr_s (Some m) a s = Some (None, False, s') \<and> sys_ok Q' s' \<and>
        killed (dying (procs s) p - {0}) (dying (procs s) p) s s'))"
  using pgm.set_first_time[OF assms(1,4,5)] pgm.set_null[of a s] pgm.set_twice[OF assms(1,2,3,4)]
  by (auto simp: setmgr_s_defs)

theorem managers_are_set_once_witness:
  "setpgmmgr_s (Some (Thread 0)) (Thread 0) demo_start = Some (Some (Thread 0), True,
    demo_start\<lparr>procs := (procs demo_start)(0 := (procs demo_start 0)\<lparr>pgm_mgr := Some (Thread 0)\<rparr>)\<rparr>)"
proof -
  have t: "valid_tid (Thread 0)" "t_pcb (threads demo_start (Thread 0)) = Some 0"
    by (simp_all add: MAXTHREAD_def demo_start_facts(5) test_tcb_def)
  from managers_are_set_once[OF demo_start_ok demo_start_facts(3) t t(1)] show ?thesis
    by (simp add: demo_start_facts free_pcb_def)
qed

text \<open>C31: for each of the requests but GET_MYTHREADID, the SSI decodes the words that the client stub wrote as the request and its arguments, and calls the service for it.\<close>

theorem requests_are_decoded_as_encoded: assumes r: "request_at a r s" and n: "r \<noteq> Get_mythreadid"
  shows "ssi_handle cpu t (U a) s = serve cpu t r s"
  using assms by (rule ssi_handle_encode)

theorem requests_are_decoded_as_encoded_witness:
  "ssi_handle kernel_cpu (Thread 0) (U 0x9000) (demo_start\<lparr>mem := write_words 0x9000 (encode Getcputime) demo_mem\<rparr>) =
    serve kernel_cpu (Thread 0) Getcputime (demo_start\<lparr>mem := write_words 0x9000 (encode Getcputime) demo_mem\<rparr>)"
  by (rule requests_are_decoded_as_encoded) (simp_all add: request_at_def)

text \<open>C32: in a reachable state every expired time slice turns the ring of the running thread and the ready queue by one place, so that each thread runs once per round, and after a full round the first thread goes on with exactly the processor state it was interrupted with.\<close>

theorem time_slices_are_round_robin:
  assumes "reachable s" "current_thread s = Some c" "\<forall>e \<in> set (e # es). slice_end (clockPerTimeslice s) e"
  shows "\<exists>t s'. run_events (e # es) out s = Some (Ldst (t_s (threads s' t)), s') \<and> current_thread s' = Some t \<and>
    run_ring s' = rotate (length (e # es)) (run_ring s) \<and>
    (length (e # es) = length (run_ring s) \<longrightarrow> t = c \<and> t_s (threads s' t) = interrupted e)"
proof -
  obtain Q where ok: "sys_ok Q s" using reachable_sys_ok[OF assms(1)] by metis
  obtain t s' where s': "run_events (e # es) out s = Some (Ldst (t_s (threads s' t)), s')" "current_thread s' = Some t"
    "run_ring s' = rotate (length (e # es)) (run_ring s)"
    using many_slices[OF ok assms(2,3), of out] by blast
  then show ?thesis using full_round[OF ok assms(2,3), of out] by auto
qed

theorem time_slices_are_round_robin_witness:
  "\<exists>s'. run_events [Interrupt kernel_cpu demo_mem 0 kernel_cpu None 0, Interrupt zero_state demo_mem 0 kernel_cpu None 0] Ret demo_start =
      Some (Ldst kernel_cpu, s') \<and> current_thread s' = Some SSI_thread"
proof -
  have ring: "length (run_ring demo_start) = 2" by (simp add: run_ring_eq[OF demo_start_ok demo_start_facts(3)])
  have "\<forall>e \<in> set [Interrupt kernel_cpu demo_mem 0 kernel_cpu None 0, Interrupt zero_state demo_mem 0 kernel_cpu None 0].
      slice_end (clockPerTimeslice demo_start) e" by simp
  from time_slices_are_round_robin[OF demo_start_reachable demo_start_facts(3) this, of Ret] ring show ?thesis
    by (auto simp del: run_events.simps)
qed

text \<open>C33: a thread that is registered with the terminal stays registered when its process, or a process above it, is terminated and the thread with it: the next interrupt of a device, whatever the time left of the slice and the pending bits, fails the assertion that the send succeeds, and the kernel panics.\<close>

theorem device_interrupt_for_a_dead_thread_panics:
  assumes "sys_ok Q s" "current_thread s = Some SSI_thread"
    and "soft_blocked_thread s TERMINAL_REQUESTER_INDEX = Some t"
    and "t_pcb (threads s t) = Some q" "q \<in> dying (procs s) p" "valid_tid a" "t_pcb (threads s a) = Some p"
  shows "\<exists>s'. terminate_process_s a s = Some s' \<and> t_status (threads s' t) = T_STATUS_NONE \<and>
    soft_blocked_thread s' TERMINAL_REQUESTER_INDEX = Some t \<and> clockPerTimeslice s' = clockPerTimeslice s \<and>
    (\<forall>cpu v pending now j. 0 < now \<and> now < clockPerTimeslice s \<and> j < 8 \<and> bit pending j \<longrightarrow>
       (\<exists>s''. interrupt_h cpu v pending (s'\<lparr>TIMER := now\<rparr>) = Some (Panic, s'')))"
  by (rule dead_requester_panics[OF assms])

theorem device_interrupt_for_a_dead_thread_panics_witness:
  "\<exists>s' s''. terminate_process_s (Thread 0) (snd (do_io_s (U (TERMINAL_DEV_FIELD 0 TRANSM_COMMAND)) (U 3) (U 0) (U 0) (Thread 0) demo_start)) =
      Some s' \<and> t_status (threads s' (Thread 0)) = T_STATUS_NONE \<and>
    interrupt_h kernel_cpu None 1 (s'\<lparr>TIMER := 20\<rparr>) = Some (Panic, s'')"
proof -
  have t: "valid_tid (Thread 0)" "t_pcb (threads demo_start (Thread 0)) = Some 0"
    by (simp_all add: MAXTHREAD_def demo_start_facts(5) test_tcb_def)
  let ?s = "snd (do_io_s (U (TERMINAL_DEV_FIELD 0 TRANSM_COMMAND)) (U 3) (U 0) (U 0) (Thread 0) demo_start)"
  have s: "current_thread ?s = Some SSI_thread" "soft_blocked_thread ?s TERMINAL_REQUESTER_INDEX = Some (Thread 0)"
    "t_pcb (threads ?s (Thread 0)) = Some 0" "0 \<in> dying (procs ?s) 0" "20 < clockPerTimeslice ?s"
    using t(2) demo_start_facts(10) by (simp_all add: do_io_s_def demo_start_facts(3,9) dying_def demo_mem_def BUS_REG_TIME_SCALE_def)
  have b: "bit (1 :: u32) 0" "(0 :: u32) < 20" "(0 :: nat) < 8" by simp_all
  obtain s' where s': "terminate_process_s (Thread 0) ?s = Some s'" "t_status (threads s' (Thread 0)) = T_STATUS_NONE"
    "\<forall>cpu v pending now j. 0 < now \<and> now < clockPerTimeslice ?s \<and> j < 8 \<and> bit pending j \<longrightarrow>
       (\<exists>s''. interrupt_h cpu v pending (s'\<lparr>TIMER := now\<rparr>) = Some (Panic, s''))"
    using device_interrupt_for_a_dead_thread_panics[OF sys_ok_do_io[OF demo_start_ok t(1)] s(1-4) t(1) s(3)] by blast
  then have "\<exists>s''. interrupt_h kernel_cpu None 1 (s'\<lparr>TIMER := 20\<rparr>) = Some (Panic, s'')" using s(5) b by blast
  with s'(1,2) show ?thesis by blast
qed

text \<open>C34: a thread whose trap or call is handed over to a manager never runs again, although it is marked ready: no letter of the manager or of another thread and no interrupt puts it back, in whatever run of calls, traps and interrupts follows from a state with the invariants of the reachable ones.\<close>

theorem trapped_threads_never_resume:
  assumes "system_ok s" "current_thread s = Some c" "t_pcb (threads s c) = Some p"
    and "handed_over e (managers_of (procs s) p)" "m_allowed (e # es) (abs_machine s)"
  shows "\<exists>outs s'. k_run (e # es) s = Some (outs, s') \<and> t_status (threads s' c) = T_STATUS_READY \<and> current_thread s' \<noteq> Some c"
  by (rule kernel_handed_over[OF assms])

theorem trapped_threads_never_resume_witness:
  "\<exists>outs s'. k_run [trap_of_test, letter_to_test] demo_managed = Some (outs, s') \<and>
    t_status (threads s' (Thread 0)) = T_STATUS_READY \<and> current_thread s' \<noteq> Some (Thread 0)"
  by (rule trapped_threads_never_resume[OF demo_managed_ok demo_managed_facts(1,2) trap_is_handed_over
    managed_trap_allowed])

text \<open>C35: WAIT_FOR_CLOCK links the applicant, which waits for the answer of the SSI, in the clock queue while it is still linked in the waiting list of the SSI, at whatever place: after it no contents of the lists explain the pointers.\<close>

theorem wait_for_clock_corrupts_the_queues: assumes ok: "sys_ok Q s" and a: "valid_tid a"
    and w: "t_status (threads s a) = T_STATUS_W4MSG" "t_wait4sender (threads s a) = Some SSI_thread"
  shows "\<exists>s'. wait_for_clock_s a s = Some s' \<and> (\<forall>Q'. \<not> kernel_ok Q' s')"
  using assms by (rule wait_for_clock_breaks_lists)

theorem wait_for_clock_corrupts_the_queues_witness:
  "\<exists>s s'. wait_for_clock_s (Thread 0) s = Some s' \<and> (\<forall>Q'. \<not> kernel_ok Q' s')"
proof -
  have v: "valid_tid (Thread 0)" by (simp add: MAXTHREAD_def)
  show ?thesis using demo_waiting wait_for_clock_corrupts_the_queues[OF _ v] by blast
qed

text \<open>C36: accountant converts a run time below 2^31 cycles to milliseconds with an error of at most half a millisecond.\<close>

theorem cycles_are_rounded_to_milliseconds: assumes "0 \<le> sint (run_time x)"
  shows "\<exists>ms. accountant x = Some ms \<and> \<bar>1000 * sint ms - sint (run_time x)\<bar> \<le> 500"
  using assms by (rule accountant_rounds)

theorem cycles_are_rounded_to_milliseconds_witness:
  "\<exists>ms. accountant (zero_tcb\<lparr>run_time := 2600\<rparr>) = Some ms \<and> \<bar>1000 * sint ms - 2600\<bar> \<le> 500"
  using cycles_are_rounded_to_milliseconds[of "zero_tcb\<lparr>run_time := 2600\<rparr>"] by simp

text \<open>C37: every program of set_bit, clear_bit and get_bit that stays in the array gives the answers that insertion, removal and membership give on the set of the numbers of its bits, and ends in the same set.\<close>

theorem bitmaps_are_sets: "\<forall>x \<in> set ops. op_index x < 32 * length bm \<Longrightarrow>
   \<exists>bm'. bitmap_run ops bm = Some (fst (set_run ops (bits bm)), bm') \<and> length bm' = length bm \<and>
     bits bm' = snd (set_run ops (bits bm))"
  by (rule bitmap_run_set)

theorem bitmaps_are_sets_witness:
  "\<exists>bm. bitmap_run [Set_bit 40, Get_bit 40, Clear_bit 3, Get_bit 3] [0xFF, 0] = Some ([True, False], bm)"
proof -
  have "\<forall>x \<in> set [Set_bit 40, Get_bit 40, Clear_bit 3, Get_bit 3]. op_index x < 32 * length [0xFF :: u32, 0]" by simp
  from bitmaps_are_sets[OF this] show ?thesis by auto
qed

text \<open>C38: the regions that the headers reserve (bitmaps, device and bus registers, exception areas, segment table, start-up stack) lie below RAM_BASE and do not overlap, the eight exception areas fit in theirs and the registers of the forty devices in theirs.\<close>

theorem memory_map_is_disjoint:
  assumes "r \<in> set regions" "r' \<in> set regions" "in_region a r" "in_region a r'" "l < 5" "d < 8" "k < 16"
  shows "r = r' \<and> a < RAM_BASE \<and> (\<forall>b \<in> set areas. in_region b (ROMF_EXCVBASE, ROMF_EXCVTOP) \<and> b + STATE_T_SIZE \<le> ROMF_EXCVTOP) \<and>
    in_region (DEV_REG_ADDR (of_nat (3 + l)) (of_nat d) + of_nat k) (DEV_REG_START, DEV_REG_END)"
  using memory_map[OF assms(1-3)] assms(4) areas_in_region device_in_region[OF assms(5-7)] by blast

theorem memory_map_is_disjoint_witness:
  "in_region (DEV_REG_ADDR (of_nat (3 + 4)) (of_nat 0) + of_nat 12) (DEV_REG_START, DEV_REG_END)"
proof -
  have r: "(DEV_REG_START, DEV_REG_END) \<in> set regions" by (simp add: regions_def)
  have i: "in_region 0x24C (DEV_REG_START, DEV_REG_END)" by (simp add: in_region_def line_defs address_defs)
  have n: "(4 :: nat) < 5" "(0 :: nat) < 8" "(12 :: nat) < 16" by simp_all
  show ?thesis using memory_map_is_disjoint[OF r r i i n] by blast
qed

text \<open>C39: tprintf returns the number of characters it prints when every directive is known and finds an argument of its type, and no argument of %d is the smallest int, whose negation overflows.\<close>

theorem tprintf_counts_what_it_prints:
  assumes "fits format ap"
  shows "\<exists>out. tprintf format ap = Some (out, int (length out))"
  using tprintf_counts(1)[OF assms] by (fastforce simp: prints_def tprintf_def)

theorem tprintf_counts_what_it_prints_witness:
  "\<exists>out. tprintf ''t=%d%%'' [Int_arg 12] = Some (out, int (length out))"
  by (rule tprintf_counts_what_it_prints) simp

text \<open>C40: the decimal that %d prints reads back as the argument, for every int but the smallest, whose negation overflows.\<close>

theorem printed_integers_read_back: assumes "sint i \<noteq> - (2 ^ 31)"
  shows "\<exists>r. vrp_int i = Some r \<and> read_int (fst r) = sint i \<and> counted r"
  using assms by (rule vrp_int_roundtrip)

theorem printed_integers_read_back_witness:
  "\<exists>r. vrp_int (-12) = Some r \<and> read_int (fst r) = -12"
  using printed_integers_read_back[of "-12"] by auto

end
